(* ===== verification/Prelude.thy ===== *)
theory Prelude
  imports "HOL-Library.Word" "HOL-Library.Multiset"
begin

unbundle bit_operations_syntax

text \<open>
  Shared vocabulary of the development: the machine types of the Rust sources, the result type
  and its \<open>?\<close> operator, checked slicing (\<open>slice.get(a..b)\<close>), big- and little-endian byte
  conversions, signed 64-bit arithmetic, and the list and option lemmas that the component
  theories use through the collections declared here.

  Conventions.  A \<open>usize\<close> offset into a buffer is a natural number: every buffer of the
  program is far shorter than \<open>2 ^ 64\<close> bytes, so offset arithmetic never wraps.  A Rust
  \<open>String\<close> is the list of its UTF-8 bytes, written as a \<open>string\<close>.  An \<open>i64\<close> is an integer
  together with an explicit wrap-around at each subtraction the code performs (the packages are
  built in release mode, where overflow wraps).
\<close>

section \<open>Machine types\<close>

type_synonym byte = "8 word"
type_synonym u16 = "16 word"
type_synonym u32 = "32 word"
type_synonym u64 = "64 word"

named_theorems result_simps \<open>equations and inversions for the result type\<close>
named_theorems slice_simps \<open>facts about checked slices\<close>
named_theorems byte_simps \<open>facts about byte conversions\<close>

section \<open>Results and the question-mark operator\<close>

type_synonym ('e, 'a) result = "'e + 'a"

definition res_bind :: "('e, 'a) result \<Rightarrow> ('a \<Rightarrow> ('e, 'b) result) \<Rightarrow> ('e, 'b) result" where
  "res_bind m f = (case m of Inl e \<Rightarrow> Inl e | Inr x \<Rightarrow> f x)"

definition ok_or :: "'e \<Rightarrow> 'a option \<Rightarrow> ('e, 'a) result" where
  "ok_or e x = (case x of None \<Rightarrow> Inl e | Some v \<Rightarrow> Inr v)"

definition map_err :: "('e \<Rightarrow> 'f) \<Rightarrow> ('e, 'a) result \<Rightarrow> ('f, 'a) result" where
  "map_err f m = (case m of Inl e \<Rightarrow> Inl (f e) | Inr x \<Rightarrow> Inr x)"

text \<open>\<open>collect::<Result<Vec<_>, _>>\<close>: the first error, or all the values in order.\<close>

fun res_collect :: "('a \<Rightarrow> ('e, 'b) result) \<Rightarrow> 'a list \<Rightarrow> ('e, 'b list) result" where
  "res_collect f [] = Inr []"
| "res_collect f (x # xs) =
     res_bind (f x) (\<lambda>y. res_bind (res_collect f xs) (\<lambda>ys. Inr (y # ys)))"

lemma res_bind_simps [simp]:
  "res_bind (Inl e) f = Inl e" "res_bind (Inr x) f = f x"
  by (simp_all add: res_bind_def)

lemma ok_or_simps [simp]: "ok_or e None = Inl e" "ok_or e (Some v) = Inr v"
  by (simp_all add: ok_or_def)

lemma map_err_simps [simp]: "map_err f (Inl e) = Inl (f e)" "map_err f (Inr x) = Inr x"
  by (simp_all add: map_err_def)

lemma res_bind_eq_Inr [result_simps]:
  "res_bind m f = Inr y \<longleftrightarrow> (\<exists>x. m = Inr x \<and> f x = Inr y)"
  by (cases m) auto

lemma res_bind_eq_Inl [result_simps]:
  "res_bind m f = Inl e \<longleftrightarrow> m = Inl e \<or> (\<exists>x. m = Inr x \<and> f x = Inl e)"
  by (cases m) auto

lemma ok_or_eq_Inr [result_simps]: "ok_or e x = Inr v \<longleftrightarrow> x = Some v"
  by (cases x) auto

lemma ok_or_eq_Inl [result_simps]: "ok_or e x = Inl e' \<longleftrightarrow> x = None \<and> e' = e"
  by (cases x) auto

lemma map_err_eq_Inr [result_simps]: "map_err f m = Inr v \<longleftrightarrow> m = Inr v"
  by (cases m) auto

lemma map_err_eq_Inl [result_simps]: "map_err f m = Inl e \<longleftrightarrow> (\<exists>e'. m = Inl e' \<and> e = f e')"
  by (cases m) auto

lemma if_Inl_eq_Inr [result_simps]: "(if b then Inl e else m) = Inr y \<longleftrightarrow> \<not> b \<and> m = Inr y"
  by simp

lemma res_collect_Inr:
  "res_collect f xs = Inr ys \<Longrightarrow> length ys = length xs \<and> (\<forall>i < length xs. f (xs ! i) = Inr (ys ! i))"
proof (induction xs arbitrary: ys)
  case Nil
  then show ?case by simp
next
  case (Cons x xs)
  then obtain z zs where "f x = Inr z" "res_collect f xs = Inr zs" "ys = z # zs"
    by (auto simp: result_simps)
  with Cons.IH [of zs] show ?case by (auto simp: nth_Cons split: nat.splits)
qed

lemma res_collect_map:
  "(\<forall>x \<in> set xs. f x = Inr (g x)) \<Longrightarrow> res_collect f xs = Inr (map g xs)"
  by (induction xs) auto

lemma res_collect_eq_Inr_map:
  "res_collect f xs = Inr ys \<Longrightarrow> (\<And>x y. f x = Inr y \<Longrightarrow> y = g x) \<Longrightarrow>
   ys = map g xs \<and> (\<forall>x \<in> set xs. f x = Inr (g x))"
  by (induction xs arbitrary: ys) (auto simp: result_simps)

lemma res_collect_eq_Inl:
  "res_collect f xs = Inl e \<Longrightarrow> \<exists>x \<in> set xs. f x = Inl e"
  by (induction xs) (auto simp: result_simps)

section \<open>Checked slices\<close>

definition slice_get :: "'a list \<Rightarrow> nat \<Rightarrow> nat \<Rightarrow> 'a list option" where
  "slice_get xs a b = (if a \<le> b \<and> b \<le> length xs then Some (take (b - a) (drop a xs)) else None)"

definition nth_get :: "'a list \<Rightarrow> nat \<Rightarrow> 'a option" where
  "nth_get xs i = (if i < length xs then Some (xs ! i) else None)"

lemma slice_get_eq_Some [slice_simps]:
  "slice_get xs a b = Some ys \<longleftrightarrow> a \<le> b \<and> b \<le> length xs \<and> ys = take (b - a) (drop a xs)"
  by (auto simp: slice_get_def)

lemma slice_get_eq_None [slice_simps]:
  "slice_get xs a b = None \<longleftrightarrow> b < a \<or> length xs < b"
  by (auto simp: slice_get_def)

lemma nth_get_eq_Some [slice_simps]: "nth_get xs i = Some x \<longleftrightarrow> i < length xs \<and> x = xs ! i"
  by (auto simp: nth_get_def)

lemma nth_get_eq_None [slice_simps]: "nth_get xs i = None \<longleftrightarrow> length xs \<le> i"
  by (auto simp: nth_get_def)

lemma slice_get_length: "slice_get xs a b = Some ys \<Longrightarrow> length ys = b - a"
  by (auto simp: slice_simps)

lemma slice_get_append:
  "slice_get xs a b = Some ys \<Longrightarrow> slice_get (xs @ zs) a b = Some ys"
  by (auto simp: slice_simps)

lemma slice_get_middle:
  "a = length pre \<Longrightarrow> b = length pre + length ys \<Longrightarrow> slice_get (pre @ ys @ post) a b = Some ys"
  by (simp add: slice_get_def)

section \<open>Byte conversions\<close>

definition be_bytes16 :: "u16 \<Rightarrow> byte list" where
  "be_bytes16 w = [ucast (drop_bit 8 w), ucast w]"

definition from_be16 :: "byte \<Rightarrow> byte \<Rightarrow> u16" where
  "from_be16 a b = push_bit 8 (ucast a) OR ucast b"

definition from_be32 :: "byte \<Rightarrow> byte \<Rightarrow> byte \<Rightarrow> byte \<Rightarrow> u32" where
  "from_be32 a b c d =
     push_bit 24 (ucast a) OR push_bit 16 (ucast b) OR push_bit 8 (ucast c) OR ucast d"

definition from_le16 :: "byte \<Rightarrow> byte \<Rightarrow> u16" where
  "from_le16 a b = from_be16 b a"

definition from_le32 :: "byte \<Rightarrow> byte \<Rightarrow> byte \<Rightarrow> byte \<Rightarrow> u32" where
  "from_le32 a b c d = from_be32 d c b a"

lemma length_be_bytes16 [simp]: "length (be_bytes16 w) = 2"
  by (simp add: be_bytes16_def)

lemma from_be16_be_bytes16 [simp]:
  "from_be16 (ucast (drop_bit 8 w)) (ucast w) = w" for w :: u16
  by (rule bit_word_eqI) (auto simp: from_be16_def bit_simps)

lemma from_be16_inject:
  "from_be16 a b = from_be16 a' b' \<longleftrightarrow> a = a' \<and> b = b'"
proof
  assume eq: "from_be16 a b = from_be16 a' b'"
  have "bit a n = bit a' n" if "n < 8" for n
    using arg_cong [OF eq, of "\<lambda>w. bit w (n + 8)"] that
    by (auto simp: from_be16_def bit_simps dest: bit_imp_le_length)
  moreover have "bit b n = bit b' n" if "n < 8" for n
    using arg_cong [OF eq, of "\<lambda>w. bit w n"] that
    by (auto simp: from_be16_def bit_simps)
  ultimately show "a = a' \<and> b = b'"
    by (auto intro!: bit_word_eqI)
qed simp

lemma be_bytes16_inject [simp]: "be_bytes16 v = be_bytes16 w \<longleftrightarrow> v = w"
proof
  assume "be_bytes16 v = be_bytes16 w"
  then have "from_be16 (ucast (drop_bit 8 v)) (ucast v) = from_be16 (ucast (drop_bit 8 w)) (ucast w)"
    by (simp add: be_bytes16_def)
  then show "v = w" by simp
qed simp

lemma unat_of_nat_u16: "n < 65536 \<Longrightarrow> unat (of_nat n :: u16) = n"
  by (simp add: unat_of_nat)

text \<open>The pair of conversions is a codec: what is written in two bytes is what is read back.\<close>

locale byte_codec =
  fixes enc :: "'w \<Rightarrow> byte list"
    and dec :: "byte list \<Rightarrow> 'w option"
    and width :: nat
  assumes length_enc: "length (enc w) = width"
    and dec_enc: "dec (enc w) = Some w"
begin

lemma enc_inj: "enc v = enc w \<Longrightarrow> v = w"
  by (metis dec_enc option.inject)

lemma dec_slice:
  assumes "a = length pre"
  shows "Option.bind (slice_get (pre @ enc w @ post) a (a + width)) dec = Some w"
proof -
  from assms have "slice_get (pre @ enc w @ post) a (a + width) = Some (enc w)"
    by (intro slice_get_middle) (simp_all add: length_enc)
  then show ?thesis by (simp add: dec_enc)
qed

end

definition be_word16 :: "byte list \<Rightarrow> u16 option" where
  "be_word16 bs = (case bs of [a, b] \<Rightarrow> Some (from_be16 a b) | _ \<Rightarrow> None)"

interpretation be16: byte_codec be_bytes16 be_word16 2
  by unfold_locales (simp_all add: be_bytes16_def be_word16_def)

section \<open>Signed 64-bit integers\<close>

definition i64_min :: int where "i64_min = - (2 ^ 63)"
definition i64_max :: int where "i64_max = 2 ^ 63 - 1"

definition is_i64 :: "int \<Rightarrow> bool" where
  "is_i64 x \<longleftrightarrow> i64_min \<le> x \<and> x \<le> i64_max"

definition wrap_i64 :: "int \<Rightarrow> int" where
  "wrap_i64 x = (x + 2 ^ 63) mod 2 ^ 64 - 2 ^ 63"

definition i64_sub :: "int \<Rightarrow> int \<Rightarrow> int" where
  "i64_sub a b = wrap_i64 (a - b)"

lemma wrap_i64_id: "is_i64 x \<Longrightarrow> wrap_i64 x = x"
  by (simp add: is_i64_def i64_min_def i64_max_def wrap_i64_def)

lemma is_i64_wrap: "is_i64 (wrap_i64 x)"
proof -
  have "0 \<le> (x + 2 ^ 63) mod 2 ^ 64" "(x + 2 ^ 63) mod 2 ^ 64 < 2 ^ 64" by simp_all
  then show ?thesis by (simp add: is_i64_def i64_min_def i64_max_def wrap_i64_def)
qed

text \<open>Differences of values in the inner half of the range do not wrap.\<close>

definition half_i64 :: "int \<Rightarrow> bool" where
  "half_i64 x \<longleftrightarrow> - (2 ^ 62) \<le> x \<and> x < 2 ^ 62"

lemma i64_sub_exact: "half_i64 a \<Longrightarrow> half_i64 b \<Longrightarrow> i64_sub a b = a - b"
  by (simp add: i64_sub_def half_i64_def is_i64_def i64_min_def i64_max_def wrap_i64_id)

lemma half_i64_imp_i64: "half_i64 a \<Longrightarrow> is_i64 a"
  by (simp add: half_i64_def is_i64_def i64_min_def i64_max_def)

section \<open>Lists\<close>

definition remove_nth :: "nat \<Rightarrow> 'a list \<Rightarrow> 'a list" where
  "remove_nth i xs = take i xs @ drop (Suc i) xs"

lemma mset_remove_nth:
  assumes "i < length xs"
  shows "add_mset (xs ! i) (mset (remove_nth i xs)) = mset xs"
proof -
  from assms have "xs = take i xs @ xs ! i # drop (Suc i) xs" by (rule id_take_nth_drop)
  then have "mset xs = mset (take i xs @ xs ! i # drop (Suc i) xs)" by simp
  then show ?thesis by (simp add: remove_nth_def)
qed

lemma length_remove_nth: "i < length xs \<Longrightarrow> length (remove_nth i xs) = length xs - 1"
  by (simp add: remove_nth_def)

lemma distinct_mset_subset:
  assumes "mset xs \<subseteq># mset ys" and "distinct ys"
  shows "distinct xs"
proof -
  from assms(1) obtain M where "mset ys = mset xs + M" by (auto simp: subset_mset.le_iff_add)
  moreover obtain zs where "M = mset zs" using ex_mset by metis
  ultimately have "mset ys = mset (xs @ zs)" by simp
  with assms(2) have "distinct (xs @ zs)" using mset_eq_imp_distinct_iff by blast
  then show ?thesis by simp
qed

lemma find_eq_Some_mem: "find P xs = Some x \<Longrightarrow> x \<in> set xs \<and> P x"
  by (auto simp: find_Some_iff)

lemma find_upt_Some: "find P [0..<n] = Some i \<longleftrightarrow> i < n \<and> P i \<and> (\<forall>j < i. \<not> P j)"
proof
  assume "find P [0..<n] = Some i"
  then obtain k where "k < n" "P ([0..<n] ! k)" "i = [0..<n] ! k" "\<forall>j < k. \<not> P ([0..<n] ! j)"
    by (auto simp: find_Some_iff)
  then show "i < n \<and> P i \<and> (\<forall>j < i. \<not> P j)" by simp
next
  assume "i < n \<and> P i \<and> (\<forall>j < i. \<not> P j)"
  then show "find P [0..<n] = Some i" by (auto simp: find_Some_iff intro!: exI [of _ i])
qed

lemma find_upt_None: "find P [0..<n] = None \<longleftrightarrow> (\<forall>i < n. \<not> P i)"
  by (auto simp: find_None_iff)

end
