(* ===== verification/Time_Quorum.thy ===== *)
theory Time_Quorum
  imports Prelude
begin

text \<open>
  \<open>packages/time-correction/src/quorum.rs\<close>: which providers to ask (\<open>sample\<close>) and whether
  their answers may be believed (\<open>middle\<close>, \<open>vote\<close>, \<open>decide\<close>).  A panic (\<open>expect\<close> or an index
  out of range) is the error \<open>QuorumPanic\<close>, and a theorem shows that \<open>decide\<close> never takes it.
  The interfaces the callers rely on are the locales \<open>sampler\<close> (a draw without replacement) and
  \<open>quorum_rule\<close> (what an accepted time promises), both interpreted on the definitions here.
\<close>

section \<open>Model\<close>

record answer =
  ans_operator :: string
  ans_endpoint :: string
  ans_seconds :: int

datatype quorum_error =
    NoProviders
  | SilentOperators nat nat "string list"
  | SelfDisagreement string int int "(string \<times> int) list"
  | OperatorsDisagree int int "(string \<times> int) list"
  | QuorumPanic

subsection \<open>The draw\<close>

definition splitmix_step :: "u64 \<Rightarrow> u64" where
  "splitmix_step state = state + 0x9E3779B97F4A7C15"

definition splitmix_mix :: "u64 \<Rightarrow> u64" where
  "splitmix_mix state =
     (let z = state;
          z = (z XOR drop_bit 30 z) * 0xBF58476D1CE4E5B9;
          z = (z XOR drop_bit 27 z) * 0x94D049BB133111EB
      in z XOR drop_bit 31 z)"

function sample_loop :: "nat \<Rightarrow> 'a list \<Rightarrow> u64 \<Rightarrow> 'a list \<Rightarrow> 'a list" where
  "sample_loop want pool state picked =
     (if length picked < want \<and> pool \<noteq> [] then
        let state' = splitmix_step state;
            i = unat (splitmix_mix state') mod length pool
        in sample_loop want (remove_nth i pool) state' (picked @ [pool ! i])
      else picked)"
  by pat_completeness auto
termination
  by (relation "measure (\<lambda>(want, pool, state, picked). want - length picked)") auto

declare sample_loop.simps [simp del]

definition sample :: "'a list \<Rightarrow> nat \<Rightarrow> u64 \<Rightarrow> 'a list" where
  "sample names want seed = sample_loop want names seed []"

subsection \<open>The vote\<close>

definition middle :: "int list \<Rightarrow> int option" where
  "middle values = nth_get (sort values) (length values div 2)"

text \<open>\<open>iter().max()\<close> and \<open>iter().min()\<close>: nothing for an empty iterator.\<close>

definition list_max :: "int list \<Rightarrow> int option" where
  "list_max xs = (case xs of [] \<Rightarrow> None | y # ys \<Rightarrow> Some (fold max ys y))"

definition list_min :: "int list \<Rightarrow> int option" where
  "list_min xs = (case xs of [] \<Rightarrow> None | y # ys \<Rightarrow> Some (fold min ys y))"

definition vote :: "answer list \<Rightarrow> int \<Rightarrow> (quorum_error, int) result" where
  "vote answers tolerance =
     res_bind (ok_or QuorumPanic (list_max (map ans_seconds answers))) (\<lambda>newest.
     res_bind (ok_or QuorumPanic (list_min (map ans_seconds answers))) (\<lambda>oldest.
       if tolerance < i64_sub newest oldest then
         res_bind (ok_or QuorumPanic (nth_get answers 0)) (\<lambda>a.
           Inl (SelfDisagreement (ans_operator a) (i64_sub newest oldest) tolerance
                  (map (\<lambda>a. (ans_endpoint a, ans_seconds a)) answers)))
       else ok_or QuorumPanic (middle (map ans_seconds answers))))"

definition own_answers :: "answer list \<Rightarrow> string \<Rightarrow> answer list" where
  "own_answers answers provider = filter (\<lambda>a. ans_operator a = provider) answers"

definition decide :: "string list \<Rightarrow> answer list \<Rightarrow> int \<Rightarrow> (quorum_error, int) result" where
  "decide sampled answers tolerance =
     (if sampled = [] then Inl NoProviders
      else
        let silent = filter (\<lambda>p. \<not> (\<exists>a \<in> set answers. ans_operator a = p)) sampled in
        if silent \<noteq> [] then Inl (SilentOperators (length silent) (length sampled) silent)
        else
          res_bind
            (res_collect (\<lambda>provider. res_bind (vote (own_answers answers provider) tolerance)
                                       (\<lambda>v. Inr (provider, v))) sampled) (\<lambda>votes.
          res_bind (ok_or QuorumPanic (list_max (map snd votes))) (\<lambda>newest.
          res_bind (ok_or QuorumPanic (list_min (map snd votes))) (\<lambda>oldest.
            if tolerance < i64_sub newest oldest then
              Inl (OperatorsDisagree (i64_sub newest oldest) tolerance votes)
            else ok_or QuorumPanic (middle (map snd votes))))))"

section \<open>Lemmas\<close>

subsection \<open>The draw\<close>

lemma sample_loop_correct:
  "mset (sample_loop want pool state picked) \<subseteq># mset picked + mset pool \<and>
   length (sample_loop want pool state picked) = max (length picked) (min want (length picked + length pool))"
proof (induction want pool state picked rule: sample_loop.induct)
  case (1 want pool state picked)
  show ?case
  proof (cases "length picked < want \<and> pool \<noteq> []")
    case True
    let ?s = "splitmix_step state"
    let ?i = "unat (splitmix_mix ?s) mod length pool"
    let ?r = "sample_loop want (remove_nth ?i pool) ?s (picked @ [pool ! ?i])"
    from True have i: "?i < length pool" by simp
    from True have r: "sample_loop want pool state picked = ?r"
      by (subst sample_loop.simps) (simp add: Let_def)
    from "1" [OF True refl refl]
    have IH: "mset ?r \<subseteq># mset (picked @ [pool ! ?i]) + mset (remove_nth ?i pool)"
      "length ?r = max (length picked + 1) (min want (length picked + 1 + (length pool - 1)))"
      by (simp_all add: length_remove_nth [OF i] del: mset_append)
    have "mset (picked @ [pool ! ?i]) + mset (remove_nth ?i pool) = mset picked + mset pool"
      using mset_remove_nth [OF i] by simp
    moreover have "max (length picked + 1) (min want (length picked + 1 + (length pool - 1))) =
                   max (length picked) (min want (length picked + length pool))"
      using True by (cases pool) auto
    ultimately show ?thesis using IH unfolding r by (metis add.assoc)
  next
    case False
    then have "sample_loop want pool state picked = picked"
      by (subst sample_loop.simps) (simp only: if_False)
    with False show ?thesis by auto
  qed
qed

lemma mset_sample: "mset (sample names want seed) \<subseteq># mset names"
  using sample_loop_correct [of want names seed "[]"] by (simp add: sample_def)

lemma length_sample: "length (sample names want seed) = min want (length names)"
  using sample_loop_correct [of want names seed "[]"] by (simp add: sample_def)

text \<open>A sampler draws without replacement: that is all its callers rely on.\<close>

locale sampler =
  fixes draw :: "'a list \<Rightarrow> nat \<Rightarrow> u64 \<Rightarrow> 'a list"
  assumes draw_mset: "mset (draw xs n s) \<subseteq># mset xs"
    and draw_length: "length (draw xs n s) = min n (length xs)"
begin

lemma draw_set: "set (draw xs n s) \<subseteq> set xs"
  using draw_mset [of xs n s] by (metis set_mset_mono set_mset_mset)

lemma draw_distinct: "distinct xs \<Longrightarrow> distinct (draw xs n s)"
  using draw_mset by (rule distinct_mset_subset)

lemma draw_one:
  assumes "xs \<noteq> []" and "0 < n"
  obtains y ys where "draw xs n s = y # ys" and "y \<in> set xs"
proof (cases "draw xs n s")
  case Nil
  with draw_length [of xs n s] assms show ?thesis by (simp add: min_def split: if_splits)
next
  case (Cons y ys)
  with that draw_set [of xs n s] show ?thesis by auto
qed

end

interpretation splitmix: sampler sample
  by unfold_locales (simp_all add: mset_sample length_sample)

subsection \<open>Extremes and the middle\<close>

lemma fold_max_ge: "y \<le> fold max ys (y::int) \<and> (\<forall>x \<in> set ys. x \<le> fold max ys y)"
  by (induction ys arbitrary: y) (auto, (metis max.bounded_iff)+)

lemma fold_max_mem: "fold max ys (y::int) \<in> insert y (set ys)"
  by (induction ys arbitrary: y) (auto simp: max_def)

lemma fold_min_le: "fold min ys (y::int) \<le> y \<and> (\<forall>x \<in> set ys. fold min ys y \<le> x)"
  by (induction ys arbitrary: y) (auto, (metis min.bounded_iff)+)

lemma fold_min_mem: "fold min ys (y::int) \<in> insert y (set ys)"
  by (induction ys arbitrary: y) (auto simp: min_def)

lemma list_max_Some: "list_max xs = Some m \<Longrightarrow> m \<in> set xs \<and> (\<forall>x \<in> set xs. x \<le> m)"
  using fold_max_ge [of "hd xs" "tl xs"] fold_max_mem [of "tl xs" "hd xs"]
  by (auto simp: list_max_def split: list.splits)

lemma list_min_Some: "list_min xs = Some m \<Longrightarrow> m \<in> set xs \<and> (\<forall>x \<in> set xs. m \<le> x)"
  using fold_min_le [of "tl xs" "hd xs"] fold_min_mem [of "tl xs" "hd xs"]
  by (auto simp: list_min_def split: list.splits)

lemma list_max_None [simp]: "list_max xs = None \<longleftrightarrow> xs = []"
  by (simp add: list_max_def split: list.splits)

lemma list_min_None [simp]: "list_min xs = None \<longleftrightarrow> xs = []"
  by (simp add: list_min_def split: list.splits)

lemma middle_mem: "middle xs = Some m \<Longrightarrow> m \<in> set xs"
proof -
  assume "middle xs = Some m"
  then have "m \<in> set (sort xs)"
    unfolding middle_def nth_get_eq_Some by (metis nth_mem)
  then show ?thesis by simp
qed

lemma middle_None: "middle xs = None \<longleftrightarrow> xs = []"
  by (cases xs) (auto simp: middle_def slice_simps)

lemma spread_le:
  assumes "list_max xs = Some M" and "list_min xs = Some m"
  shows "M - m \<le> tol \<longleftrightarrow> (\<forall>x \<in> set xs. \<forall>y \<in> set xs. x - y \<le> tol)"
  using list_max_Some [OF assms(1)] list_min_Some [OF assms(2)]
  by (meson diff_mono dual_order.trans)

subsection \<open>Votes\<close>

definition in_range :: "answer list \<Rightarrow> bool" where
  "in_range answers \<longleftrightarrow> (\<forall>a \<in> set answers. half_i64 (ans_seconds a))"

definition within :: "int \<Rightarrow> int list \<Rightarrow> bool" where
  "within tol xs \<longleftrightarrow> (\<forall>x \<in> set xs. \<forall>y \<in> set xs. x - y \<le> tol)"

definition operator_vote :: "answer list \<Rightarrow> string \<Rightarrow> int" where
  "operator_vote answers p = the (middle (map ans_seconds (own_answers answers p)))"

lemma vote_Inr:
  assumes "in_range as"
  shows "vote as tol = Inr v \<longleftrightarrow>
    within tol (map ans_seconds as) \<and> middle (map ans_seconds as) = Some v"
proof (cases "as = []")
  case True
  then show ?thesis by (simp add: vote_def list_max_def middle_def nth_get_def)
next
  case False
  then obtain M m where M: "list_max (map ans_seconds as) = Some M"
    and m: "list_min (map ans_seconds as) = Some m"
    by (metis list_max_None list_min_None map_is_Nil_conv not_None_eq)
  from list_max_Some [OF M] list_min_Some [OF m] assms have "half_i64 M" "half_i64 m"
    by (auto simp: in_range_def)
  then have "i64_sub M m = M - m" by (rule i64_sub_exact)
  with M m spread_le [OF M m, of tol] show ?thesis
    by (auto simp: vote_def within_def result_simps)
qed

lemma vote_not_panic: "as \<noteq> [] \<Longrightarrow> vote as tol \<noteq> Inl QuorumPanic"
  by (cases as) (auto simp: vote_def list_max_def list_min_def middle_def nth_get_def)

lemma in_range_own: "in_range answers \<Longrightarrow> in_range (own_answers answers p)"
  by (simp add: in_range_def own_answers_def)

lemma operator_vote_mem:
  assumes "own_answers answers p \<noteq> []"
  shows "operator_vote answers p \<in> ans_seconds ` set (own_answers answers p)"
proof -
  from assms obtain m where "middle (map ans_seconds (own_answers answers p)) = Some m"
    using middle_None by fastforce
  with middle_mem show ?thesis by (fastforce simp: operator_vote_def)
qed

lemma silent_empty_iff:
  "filter (\<lambda>p. \<not> (\<exists>a \<in> set answers. ans_operator a = p)) sampled = [] \<longleftrightarrow>
   (\<forall>p \<in> set sampled. own_answers answers p \<noteq> [])"
  by (auto simp: filter_empty_conv own_answers_def)

lemma half_i64_operator_vote:
  assumes "in_range answers" and "own_answers answers p \<noteq> []"
  shows "half_i64 (operator_vote answers p)"
  using operator_vote_mem [OF assms(2)] in_range_own [OF assms(1), of p]
  by (auto simp: in_range_def)

lemma votes_collect:
  assumes "in_range answers"
  shows "res_collect (\<lambda>p. res_bind (vote (own_answers answers p) tol) (\<lambda>v. Inr (p, v))) sampled = Inr votes
    \<longleftrightarrow> votes = map (\<lambda>p. (p, operator_vote answers p)) sampled \<and>
       (\<forall>p \<in> set sampled. own_answers answers p \<noteq> [] \<and>
            within tol (map ans_seconds (own_answers answers p)))"
    (is "res_collect ?f sampled = _ \<longleftrightarrow> _")
proof -
  have f: "?f p = Inr y \<longleftrightarrow> y = (p, operator_vote answers p) \<and> own_answers answers p \<noteq> [] \<and>
      within tol (map ans_seconds (own_answers answers p))" for p y
    using middle_None [of "map ans_seconds (own_answers answers p)"]
    by (auto simp: result_simps vote_Inr [OF in_range_own [OF assms]] operator_vote_def)
  show ?thesis
  proof
    assume "res_collect ?f sampled = Inr votes"
    then have "votes = map (\<lambda>p. (p, operator_vote answers p)) sampled \<and>
      (\<forall>p \<in> set sampled. ?f p = Inr (p, operator_vote answers p))"
      by (rule res_collect_eq_Inr_map) (simp only: f)
    then show "votes = map (\<lambda>p. (p, operator_vote answers p)) sampled \<and>
       (\<forall>p \<in> set sampled. own_answers answers p \<noteq> [] \<and>
            within tol (map ans_seconds (own_answers answers p)))"
      by (simp only: f) blast
  next
    assume "votes = map (\<lambda>p. (p, operator_vote answers p)) sampled \<and>
       (\<forall>p \<in> set sampled. own_answers answers p \<noteq> [] \<and>
            within tol (map ans_seconds (own_answers answers p)))"
    then show "res_collect ?f sampled = Inr votes"
      by (auto simp only: f intro!: res_collect_map)
  qed
qed

text \<open>The full contract of \<open>decide\<close>: exactly when it accepts, and what it returns.\<close>

lemma decide_Inr:
  assumes "in_range answers"
  shows "decide sampled answers tol = Inr t \<longleftrightarrow>
    sampled \<noteq> [] \<and>
    (\<forall>p \<in> set sampled. own_answers answers p \<noteq> [] \<and>
       within tol (map ans_seconds (own_answers answers p))) \<and>
    within tol (map (operator_vote answers) sampled) \<and>
    middle (map (operator_vote answers) sampled) = Some t"
proof (cases "sampled \<noteq> [] \<and> (\<forall>p \<in> set sampled. own_answers answers p \<noteq> [])")
  case True
  let ?vs = "map (operator_vote answers) sampled"
  from True obtain M m where M: "list_max ?vs = Some M" and m: "list_min ?vs = Some m"
    by (metis list_max_None list_min_None map_is_Nil_conv not_None_eq)
  from list_max_Some [OF M] list_min_Some [OF m] True
  have "half_i64 M" "half_i64 m"
    using half_i64_operator_vote [OF assms] by auto
  then have sub: "i64_sub M m = M - m" by (rule i64_sub_exact)
  from True have silent: "filter (\<lambda>p. \<not> (\<exists>a \<in> set answers. ans_operator a = p)) sampled = []"
    using silent_empty_iff by blast
  have "decide sampled answers tol = Inr t \<longleftrightarrow>
      (\<exists>votes. votes = map (\<lambda>p. (p, operator_vote answers p)) sampled \<and>
        (\<forall>p \<in> set sampled. own_answers answers p \<noteq> [] \<and>
            within tol (map ans_seconds (own_answers answers p))) \<and>
        (\<exists>M. list_max (map snd votes) = Some M \<and> (\<exists>m. list_min (map snd votes) = Some m \<and>
           \<not> tol < i64_sub M m \<and> middle (map snd votes) = Some t)))"
    using True by (simp only: decide_def silent Let_def result_simps votes_collect [OF assms]
        conj_assoc if_False simp_thms)
  also have "\<dots> \<longleftrightarrow> (\<forall>p \<in> set sampled. own_answers answers p \<noteq> [] \<and>
            within tol (map ans_seconds (own_answers answers p))) \<and>
          M - m \<le> tol \<and> middle ?vs = Some t"
    by (simp add: comp_def M m sub not_less)
  finally show ?thesis
    using True spread_le [OF M m, of tol] by (simp add: within_def)
next
  case False
  then show ?thesis
    using silent_empty_iff [of answers sampled] by (auto simp: decide_def Let_def)
qed

lemma own_answers_iff: "a \<in> set (own_answers answers p) \<longleftrightarrow> a \<in> set answers \<and> ans_operator a = p"
  by (auto simp: own_answers_def)

text \<open>Every reading of a sampled operator is close to that operator's vote.\<close>

lemma decide_vote_close:
  assumes "in_range answers" and "decide sampled answers tol = Inr t"
    and "p \<in> set sampled" and "a \<in> set (own_answers answers p)"
  shows "\<bar>ans_seconds a - operator_vote answers p\<bar> \<le> tol"
proof -
  from assms decide_Inr [OF assms(1)] have "within tol (map ans_seconds (own_answers answers p))"
    "own_answers answers p \<noteq> []" by auto
  with operator_vote_mem [OF this(2)] assms(4) show ?thesis
    by (fastforce simp: within_def abs_le_iff)
qed

lemma decide_result_vote:
  assumes "in_range answers" and "decide sampled answers tol = Inr t"
  obtains q where "q \<in> set sampled" and "t = operator_vote answers q"
    and "\<And>p. p \<in> set sampled \<Longrightarrow> \<bar>operator_vote answers p - t\<bar> \<le> tol"
proof -
  from assms decide_Inr [OF assms(1)]
  have w: "within tol (map (operator_vote answers) sampled)"
    and m: "middle (map (operator_vote answers) sampled) = Some t" by auto
  from middle_mem [OF m] obtain q where q: "q \<in> set sampled" "t = operator_vote answers q" by auto
  have "\<bar>operator_vote answers p - t\<bar> \<le> tol" if "p \<in> set sampled" for p
    using w that q by (auto simp: within_def abs_le_iff)
  with q that show ?thesis by blast
qed

lemma decide_result_mem:
  assumes "in_range answers" and "decide sampled answers tol = Inr t"
  shows "\<exists>a \<in> set answers. ans_operator a \<in> set sampled \<and> ans_seconds a = t"
proof -
  from assms obtain q where q: "q \<in> set sampled" "t = operator_vote answers q"
    by (rule decide_result_vote)
  from q assms decide_Inr [OF assms(1)] have "own_answers answers q \<noteq> []" by auto
  from operator_vote_mem [OF this] q show ?thesis by (auto simp: own_answers_iff)
qed

text \<open>
  What the caller of the quorum relies on: an accepted time is one of the readings, every sampled
  operator answered, and the accepted time is close to every one of them.
\<close>

locale quorum_rule =
  fixes rule :: "string list \<Rightarrow> answer list \<Rightarrow> int \<Rightarrow> (quorum_error, int) result"
  assumes rule_mem: "in_range answers \<Longrightarrow> rule sampled answers tol = Inr t \<Longrightarrow>
      \<exists>a \<in> set answers. ans_operator a \<in> set sampled \<and> ans_seconds a = t"
    and rule_answered: "in_range answers \<Longrightarrow> rule sampled answers tol = Inr t \<Longrightarrow>
      p \<in> set sampled \<Longrightarrow> own_answers answers p \<noteq> []"
    and rule_close: "in_range answers \<Longrightarrow> rule sampled answers tol = Inr t \<Longrightarrow>
      p \<in> set sampled \<Longrightarrow> a \<in> set (own_answers answers p) \<Longrightarrow>
      \<exists>b \<in> set (own_answers answers p). \<bar>ans_seconds b - t\<bar> \<le> tol"
begin

lemma lower_bound:
  assumes "in_range answers" and "rule sampled answers tol = Inr t"
    and "\<forall>a \<in> set answers. f \<le> ans_seconds a"
  shows "f \<le> t"
  using rule_mem [OF assms(1,2)] assms(3) by auto

lemma one_honest:
  assumes "in_range answers" and "rule sampled answers tol = Inr t" and p: "p \<in> set sampled"
    and honest: "\<forall>a \<in> set (own_answers answers p). \<bar>ans_seconds a - T\<bar> \<le> \<delta>"
  shows "\<bar>t - T\<bar> \<le> tol + \<delta>"
proof -
  from rule_answered [OF assms(1,2) p] obtain a where "a \<in> set (own_answers answers p)"
    by (cases "own_answers answers p") auto
  from rule_close [OF assms(1,2) p this] obtain b
    where "b \<in> set (own_answers answers p)" "\<bar>ans_seconds b - t\<bar> \<le> tol" by blast
  with honest have "\<bar>ans_seconds b - t\<bar> \<le> tol" "\<bar>ans_seconds b - T\<bar> \<le> \<delta>" by auto
  then show ?thesis by linarith
qed

end

interpretation majority: quorum_rule decide
proof
  fix answers sampled tol t p a
  assume r: "in_range answers" and d: "decide sampled answers tol = Inr t"
  show "\<exists>a \<in> set answers. ans_operator a \<in> set sampled \<and> ans_seconds a = t"
    using r d by (rule decide_result_mem)
  assume p: "p \<in> set sampled"
  show ne: "own_answers answers p \<noteq> []" using p r d decide_Inr [OF r] by auto
  obtain q where "\<And>p. p \<in> set sampled \<Longrightarrow> \<bar>operator_vote answers p - t\<bar> \<le> tol"
    using r d by (rule decide_result_vote) blast
  with p operator_vote_mem [OF ne]
  show "\<exists>b \<in> set (own_answers answers p). \<bar>ans_seconds b - t\<bar> \<le> tol" by fastforce
qed

lemma mset_own_answers:
  "mset answers = mset answers' \<Longrightarrow> mset (own_answers answers p) = mset (own_answers answers' p)"
  by (simp add: own_answers_def)

lemma middle_mset: "mset xs = mset ys \<Longrightarrow> middle xs = middle ys"
  by (metis middle_def mset_eq_length properties_for_sort mset_sort sorted_sort)

section \<open>Properties\<close>

text \<open>
  C3. The whole decision rule. For readings in the range NTP can produce, \<open>decide\<close>
  accepts exactly when there is a sample, every sampled operator answered, each operator's own
  readings agree within the tolerance, and the operators' votes agree within the tolerance; and
  then it returns the middle of the votes.
\<close>

theorem decide_accepts_iff:
  assumes "in_range answers"
  shows "decide sampled answers tol = Inr t \<longleftrightarrow>
    sampled \<noteq> [] \<and>
    (\<forall>p \<in> set sampled. own_answers answers p \<noteq> [] \<and>
       within tol (map ans_seconds (own_answers answers p))) \<and>
    within tol (map (operator_vote answers) sampled) \<and>
    middle (map (operator_vote answers) sampled) = Some t"
  using assms by (rule decide_Inr)

definition demo_answers :: "answer list" where
  "demo_answers = [\<lparr>ans_operator = ''a'', ans_endpoint = ''x'', ans_seconds = 1800000000\<rparr>,
                   \<lparr>ans_operator = ''b'', ans_endpoint = ''y'', ans_seconds = 1800000003\<rparr>]"

lemma demo_answers_in_range: "in_range demo_answers"
  by (simp add: in_range_def demo_answers_def half_i64_def)

lemma demo_decide: "decide [''a'', ''b''] demo_answers 60 = Inr 1800000003"
  by code_simp

theorem decide_accepts_iff_witness:
  "decide [''a'', ''b''] demo_answers 60 = Inr 1800000003 \<and>
   within 60 (map (operator_vote demo_answers) [''a'', ''b''])"
  using decide_accepts_iff [OF demo_answers_in_range, of "[''a'', ''b'']" 60 1800000003] demo_decide
  by blast

text \<open>
  Moving the clock takes every sampled operator. If one sampled operator's readings are all
  within \<open>\<delta>\<close> of the true time \<open>T\<close>, an accepted time is within
  \<open>tolerance + \<delta>\<close> of \<open>T\<close>, whatever the other operators
  answered.
\<close>

theorem decide_one_honest_operator:
  assumes "in_range answers" and "decide sampled answers tol = Inr t" and "p \<in> set sampled"
    and "\<forall>a \<in> set (own_answers answers p). \<bar>ans_seconds a - T\<bar> \<le> \<delta>"
  shows "\<bar>t - T\<bar> \<le> tol + \<delta>"
  using assms by (rule majority.one_honest)

theorem decide_one_honest_operator_witness: "\<bar>(1800000003::int) - 1800000001\<bar> \<le> 60 + 1"
proof (rule decide_one_honest_operator [OF demo_answers_in_range demo_decide])
  show "''a'' \<in> set [''a'', ''b'']" by simp
  show "\<forall>a \<in> set (own_answers demo_answers ''a''). \<bar>ans_seconds a - 1800000001\<bar> \<le> 1"
    by (simp add: own_answers_def demo_answers_def)
qed

text \<open>
  \<open>decide\<close> never panics: the \<open>expect\<close>s and the index in
  \<open>middle\<close> are only reached with something to take, for any readings at all, also
  ones where the subtraction wraps.
\<close>

theorem decide_never_panics: "decide sampled answers tol \<noteq> Inl QuorumPanic"
proof
  assume panic: "decide sampled answers tol = Inl QuorumPanic"
  then have ne: "sampled \<noteq> []" and own: "\<forall>p \<in> set sampled. own_answers answers p \<noteq> []"
    using silent_empty_iff [of answers sampled]
    by (auto simp: decide_def Let_def split: if_splits)
  have silent: "filter (\<lambda>p. \<not> (\<exists>a \<in> set answers. ans_operator a = p)) sampled = []"
    using own by (simp only: silent_empty_iff)
  from ne have len: "votes \<noteq> []" if "res_collect f sampled = Inr votes"
    for f and votes :: "(string \<times> int) list" using res_collect_Inr [OF that] by auto
  from panic show False
    using ne len own vote_not_panic
    by (auto simp: decide_def Let_def silent result_simps middle_None dest!: res_collect_eq_Inl
        split: if_splits)
qed

text \<open>
  A draw is without replacement and as large as the pool allows: the picks are a sub-multiset
  of the names, so distinct names give distinct picks, and there are \<open>min count (len
  names)\<close> of them.
\<close>

theorem sample_without_replacement:
  "mset (sample names n seed) \<subseteq># mset names \<and>
   length (sample names n seed) = min n (length names)"
  by (simp add: splitmix.draw_mset splitmix.draw_length)

text \<open>
  The order in which the answers were collected does not matter: any permutation of the answers
  gives the same accepted time, or none.
\<close>

theorem decide_order_irrelevant:
  assumes "in_range answers" and "mset answers = mset answers'"
  shows "decide sampled answers tol = Inr t \<longleftrightarrow> decide sampled answers' tol = Inr t"
proof -
  have sets: "set (own_answers answers p) = set (own_answers answers' p)" for p
    using mset_own_answers [OF assms(2)] by (metis set_mset_mset)
  have "mset (map ans_seconds (own_answers answers p)) = mset (map ans_seconds (own_answers answers' p))"
    for p using mset_own_answers [OF assms(2)] by simp
  then have "middle (map ans_seconds (own_answers answers p)) = middle (map ans_seconds (own_answers answers' p))"
    for p by (rule middle_mset)
  then have "operator_vote answers = operator_vote answers'"
    by (simp add: operator_vote_def fun_eq_iff)
  moreover have "in_range answers'"
    using assms by (metis in_range_def set_mset_mset)
  moreover have "(own_answers answers p \<noteq> []) = (own_answers answers' p \<noteq> [])" for p
    using sets by (metis set_empty)
  ultimately show ?thesis
    using assms(1) by (simp add: decide_Inr within_def sets)
qed

theorem decide_order_irrelevant_witness:
  "decide [''a'', ''b''] (rev demo_answers) 60 = Inr 1800000003"
  using decide_order_irrelevant [OF demo_answers_in_range, of "rev demo_answers" "[''a'', ''b'']" 60
      1800000003] demo_decide by simp

end
