(* ===== verification/Rust_Std.thy ===== *)
theory Rust_Std
  imports Prelude
begin

text \<open>
  The parts of Rust's standard library the packages use on strings: UTF-8 validation
  (\<open>std::str::from_utf8\<close>), \<open>split\<close>, \<open>split_once\<close>, integer parsing and \<open>IpAddr\<close> values.
  A string is the list of its UTF-8 bytes, so an ASCII separator is one character.
\<close>

section \<open>Strings as bytes\<close>

definition str_of_bytes :: "byte list \<Rightarrow> string" where
  "str_of_bytes bs = map (\<lambda>b. char_of (unat b)) bs"

definition bytes_of_str :: "string \<Rightarrow> byte list" where
  "bytes_of_str s = map of_char s"

definition is_cont :: "byte \<Rightarrow> bool" where
  "is_cont b \<longleftrightarrow> 0x80 \<le> b \<and> b \<le> 0xBF"

text \<open>Well-formed UTF-8 byte sequences: no overlong forms, no surrogates, at most U+10FFFF.\<close>

fun utf8_valid :: "byte list \<Rightarrow> bool" where
  "utf8_valid [] = True"
| "utf8_valid [a] = (a < 0x80)"
| "utf8_valid [a, b] =
     (if a < 0x80 then utf8_valid [b] else 0xC2 \<le> a \<and> a \<le> 0xDF \<and> is_cont b)"
| "utf8_valid [a, b, c] =
     (if a < 0x80 then utf8_valid [b, c]
      else if 0xC2 \<le> a \<and> a \<le> 0xDF then is_cont b \<and> utf8_valid [c]
      else 0xE0 \<le> a \<and> a \<le> 0xEF \<and> is_cont b \<and> is_cont c \<and>
           (a = 0xE0 \<longrightarrow> 0xA0 \<le> b) \<and> (a = 0xED \<longrightarrow> b \<le> 0x9F))"
| "utf8_valid (a # b # c # d # bs) =
     (if a < 0x80 then utf8_valid (b # c # d # bs)
      else if 0xC2 \<le> a \<and> a \<le> 0xDF then is_cont b \<and> utf8_valid (c # d # bs)
      else if 0xE0 \<le> a \<and> a \<le> 0xEF then
        is_cont b \<and> is_cont c \<and> (a = 0xE0 \<longrightarrow> 0xA0 \<le> b) \<and> (a = 0xED \<longrightarrow> b \<le> 0x9F) \<and>
        utf8_valid (d # bs)
      else 0xF0 \<le> a \<and> a \<le> 0xF4 \<and> is_cont b \<and> is_cont c \<and> is_cont d \<and>
           (a = 0xF0 \<longrightarrow> 0x90 \<le> b) \<and> (a = 0xF4 \<longrightarrow> b \<le> 0x8F) \<and> utf8_valid bs)"

definition from_utf8 :: "byte list \<Rightarrow> string option" where
  "from_utf8 bs = (if utf8_valid bs then Some (str_of_bytes bs) else None)"

section \<open>Splitting\<close>

fun split_once :: "char \<Rightarrow> string \<Rightarrow> (string \<times> string) option" where
  "split_once c [] = None"
| "split_once c (x # xs) =
     (if x = c then Some ([], xs)
      else map_option (\<lambda>(a, b). (x # a, b)) (split_once c xs))"

fun split_on :: "char \<Rightarrow> string \<Rightarrow> string list" where
  "split_on c [] = [[]]"
| "split_on c (x # xs) =
     (if x = c then [] # split_on c xs
      else case split_on c xs of [] \<Rightarrow> [[x]] | p # ps \<Rightarrow> (x # p) # ps)"

section \<open>Numbers\<close>

definition digit_val :: "char \<Rightarrow> nat option" where
  "digit_val c = (let n = of_char c in if 48 \<le> n \<and> n \<le> (57::nat) then Some (n - 48) else None)"

fun digits_val :: "nat \<Rightarrow> string \<Rightarrow> nat option" where
  "digits_val acc [] = Some acc"
| "digits_val acc (c # cs) =
     (case digit_val c of None \<Rightarrow> None | Some d \<Rightarrow> digits_val (10 * acc + d) cs)"

text \<open>
  \<open>str::parse\<close> for \<open>u64\<close> and \<open>usize\<close> (\<open>hi = 2 ^ 64\<close>): an optional plus sign, at least one
  digit, and the value must fit.  For \<open>i64\<close> also an optional minus sign.
\<close>

definition parse_nat :: "nat \<Rightarrow> string \<Rightarrow> nat option" where
  "parse_nat hi s =
     (let ds = (case s of [] \<Rightarrow> [] | c # cs \<Rightarrow> if c = CHR ''+'' then cs else s)
      in if ds = [] then None
         else case digits_val 0 ds of None \<Rightarrow> None | Some v \<Rightarrow> if v < hi then Some v else None)"

definition parse_u64 :: "string \<Rightarrow> nat option" where
  "parse_u64 s = parse_nat (2 ^ 64) s"

definition parse_i64 :: "string \<Rightarrow> int option" where
  "parse_i64 s =
     (case s of
        c # cs \<Rightarrow>
          if c = CHR ''-'' then
            (if cs = [] then None
             else case digits_val 0 cs of None \<Rightarrow> None
                  | Some v \<Rightarrow> if v \<le> 2 ^ 63 then Some (- int v) else None)
          else map_option int (parse_nat (2 ^ 63) s)
      | [] \<Rightarrow> None)"

section \<open>Addresses\<close>

datatype ip_addr = V4 byte byte byte byte | V6 "byte list"

fun is_ipv4 :: "ip_addr \<Rightarrow> bool" where
  "is_ipv4 (V4 _ _ _ _) = True"
| "is_ipv4 (V6 _) = False"

text \<open>
  \<open>IpAddr::from_str\<close>.  A number is the maximal run of digits, refused when it is empty, too long
  or (for IPv4) has a superfluous leading zero; groups are separated by colons, may end in an
  embedded IPv4 address, and one double colon stands for the missing groups.
\<close>

type_synonym 'a reader = "string \<Rightarrow> ('a \<times> string) option"

definition hex_val :: "char \<Rightarrow> nat option" where
  "hex_val c = (let n = of_char c in
     if 48 \<le> n \<and> n \<le> (57::nat) then Some (n - 48)
     else if 97 \<le> n \<and> n \<le> 102 then Some (n - 87)
     else if 65 \<le> n \<and> n \<le> 70 then Some (n - 55) else None)"

definition read_number :: "(char \<Rightarrow> nat option) \<Rightarrow> nat \<Rightarrow> nat \<Rightarrow> bool \<Rightarrow> nat \<Rightarrow> nat reader" where
  "read_number dig radix max_digits allow_zero_prefix hi s =
     (let ds = takeWhile (\<lambda>c. dig c \<noteq> None) s;
          v = foldl (\<lambda>acc c. radix * acc + the (dig c)) 0 ds
      in if ds = [] \<or> max_digits < length ds \<or> hi \<le> v \<or>
            (\<not> allow_zero_prefix \<and> hd ds = CHR ''0'' \<and> 1 < length ds)
         then None else Some (v, drop (length ds) s))"

definition read_given_char :: "char \<Rightarrow> unit reader" where
  "read_given_char c s = (case s of [] \<Rightarrow> None | x # xs \<Rightarrow> if x = c then Some ((), xs) else None)"

definition read_separator :: "char \<Rightarrow> nat \<Rightarrow> 'a reader \<Rightarrow> 'a reader" where
  "read_separator c i inner s =
     (if 0 < i then Option.bind (read_given_char c s) (\<lambda>(_, s'). inner s') else inner s)"

definition read_octet :: "nat \<Rightarrow> byte reader" where
  "read_octet i s =
     map_option (\<lambda>(v, r). (of_nat v, r))
       (read_separator (CHR ''.'') i (read_number digit_val 10 3 False 256) s)"

definition read_ipv4 :: "(byte \<times> byte \<times> byte \<times> byte) reader" where
  "read_ipv4 s =
     Option.bind (read_octet 0 s) (\<lambda>(a, s). Option.bind (read_octet 1 s) (\<lambda>(b, s).
     Option.bind (read_octet 2 s) (\<lambda>(c, s). Option.bind (read_octet 3 s) (\<lambda>(d, s).
       Some ((a, b, c, d), s)))))"

fun read_groups :: "nat \<Rightarrow> nat \<Rightarrow> nat \<Rightarrow> u16 list \<Rightarrow> string \<Rightarrow> u16 list \<times> bool \<times> string" where
  "read_groups 0 i limit groups s = (groups, False, s)"
| "read_groups (Suc n) i limit groups s =
     (case (if i < limit - 1 then read_separator (CHR '':'') i read_ipv4 s else None) of
        Some ((a, b, c, d), r) \<Rightarrow> (groups @ [from_be16 a b, from_be16 c d], True, r)
      | None \<Rightarrow>
          (case read_separator (CHR '':'') i (read_number hex_val 16 4 True 65536) s of
             Some (g, r) \<Rightarrow> read_groups n (Suc i) limit (groups @ [of_nat g]) r
           | None \<Rightarrow> (groups, False, s)))"

definition read_ipv6 :: "u16 list reader" where
  "read_ipv6 s =
     (let (hd_groups, hd_v4, r) = read_groups 8 0 8 [] s in
      if length hd_groups = 8 then Some (hd_groups, r)
      else if hd_v4 then None
      else Option.bind (read_given_char (CHR '':'') r) (\<lambda>(_, r).
           Option.bind (read_given_char (CHR '':'') r) (\<lambda>(_, r).
             let limit = 8 - (length hd_groups + 1);
                 (tl_groups, _, r) = read_groups limit 0 limit [] r
             in Some (hd_groups @ replicate (8 - length hd_groups - length tl_groups) 0 @ tl_groups, r))))"

definition parse_ip :: "string \<Rightarrow> ip_addr option" where
  "parse_ip s =
     (case (case read_ipv4 s of
              Some ((a, b, c, d), r) \<Rightarrow> Some (V4 a b c d, r)
            | None \<Rightarrow> map_option (\<lambda>(gs, r). (V6 (concat (map be_bytes16 gs)), r)) (read_ipv6 s)) of
        Some (addr, r) \<Rightarrow> (if r = [] then Some addr else None)
      | None \<Rightarrow> None)"

text \<open>\<open>Path::file_name\<close>: the last component, unless it is \<open>..\<close> or there is none.\<close>

definition file_name :: "string \<Rightarrow> string option" where
  "file_name path =
     (let cs = filter (\<lambda>c. c \<noteq> [] \<and> c \<noteq> ''.'') (split_on (CHR ''/'') path)
      in if cs = [] \<or> last cs = ''..'' then None else Some (last cs))"

section \<open>Lemmas\<close>

lemma split_on_nonempty [simp]: "split_on c s \<noteq> []"
  by (induction s) (auto split: list.splits)

lemma split_on_no_sep: "p \<in> set (split_on c s) \<Longrightarrow> c \<notin> set p"
  by (induction s arbitrary: p) (fastforce split: list.splits if_splits)+

lemma split_once_Some: "split_once c s = Some (a, b) \<longleftrightarrow> s = a @ c # b \<and> c \<notin> set a"
proof (induction s arbitrary: a)
  case (Cons x xs)
  then show ?case by (cases a) auto
qed simp

lemma split_once_None: "split_once c s = None \<longleftrightarrow> c \<notin> set s"
  by (induction s) auto

lemma str_of_bytes_of_str [simp]: "str_of_bytes (bytes_of_str s) = s"
proof -
  have "char_of (unat (of_char c :: byte)) = c" for c
    by (simp add: of_nat_of_char [symmetric, where 'a = byte] unat_of_nat
        del: of_nat_of_char)
  then show ?thesis by (simp add: str_of_bytes_def bytes_of_str_def comp_def)
qed

lemma length_bytes_of_str [simp]: "length (bytes_of_str s) = length s"
  by (simp add: bytes_of_str_def)

lemma utf8_valid_ascii: "(\<forall>b \<in> set bs. b < 0x80) \<Longrightarrow> utf8_valid bs"
  by (induction bs rule: utf8_valid.induct) auto

text \<open>An address read from text is well formed: an IPv6 address always has sixteen bytes.\<close>

lemma read_groups_length:
  "read_groups n i limit groups s = (gs, v4, r) \<Longrightarrow> limit = i + n \<Longrightarrow> length groups = i \<Longrightarrow>
   length gs \<le> limit"
proof (induction n i limit groups s arbitrary: gs v4 r rule: read_groups.induct)
  case (2 n i limit groups s)
  show ?case
  proof (cases "if i < limit - 1 then read_separator (CHR '':'') i read_ipv4 s else None")
    case None
    with "2.IH" [OF None] "2.prems" show ?thesis
      by (fastforce simp del: read_groups.simps(1) split: option.splits)
  next
    case (Some q)
    then have "i < limit - 1" by (simp split: if_splits)
    with Some "2.prems" show ?thesis by (auto split: prod.splits)
  qed
qed auto

lemma parse_ip_V6_length:
  assumes "parse_ip s = Some (V6 bs)"
  shows "length bs = 16"
proof -
  have len: "length (concat (map be_bytes16 gs)) = 2 * length gs" for gs by (induction gs) auto
  from assms obtain gs where gs: "read_ipv6 s = Some (gs, [])" "bs = concat (map be_bytes16 gs)"
    by (auto simp: parse_ip_def split: option.splits if_splits)
  obtain h v r where h: "read_groups 8 0 8 [] s = (h, v, r)" by (metis prod_cases3)
  have "length h \<le> 8" using read_groups_length [OF h] by simp
  show ?thesis
  proof (cases "length h = 8")
    case True
    with gs h len show ?thesis by (auto simp: read_ipv6_def)
  next
    case False
    let ?n = "7 - length h"
    from gs(1) h False obtain r' t v' r''
      where t: "read_groups ?n 0 ?n [] r' = (t, v', r'')"
        and g: "gs = h @ replicate (8 - length h - length t) 0 @ t"
      by (auto simp: read_ipv6_def Let_def bind_eq_Some_conv split: if_splits prod.splits)
         (metis prod_cases3)
    have "length t \<le> ?n" using read_groups_length [OF t] by simp
    with g \<open>length h \<le> 8\<close> False have "length gs = 8" by simp
    with gs(2) len show ?thesis by simp
  qed
qed

section \<open>Decimal rendering\<close>

text \<open>\<open>format!("{n}")\<close> for an unsigned and for a signed integer.\<close>

fun nat_str :: "nat \<Rightarrow> string" where
  "nat_str n = (if n < 10 then [char_of (48 + n)] else nat_str (n div 10) @ [char_of (48 + n mod 10)])"

declare nat_str.simps [simp del]

definition int_str :: "int \<Rightarrow> string" where
  "int_str i = (if i < 0 then CHR ''-'' # nat_str (nat (- i)) else nat_str (nat i))"

lemma digits_val_append:
  "digits_val acc (xs @ ys) = Option.bind (digits_val acc xs) (\<lambda>a. digits_val a ys)"
  by (induction xs arbitrary: acc) (auto split: option.splits)

lemma digit_val_char: "d < 10 \<Longrightarrow> digit_val (char_of (48 + d)) = Some d"
  by (simp add: digit_val_def Let_def)

lemma digits_val_nat_str: "digits_val 0 (nat_str n) = Some n"
proof (induction n rule: nat_str.induct)
  case (1 n)
  show ?case
  proof (cases "n < 10")
    case True
    then show ?thesis by (subst nat_str.simps) (simp add: digit_val_char)
  next
    case False
    then show ?thesis using "1.IH" by (subst nat_str.simps) (simp add: digits_val_append digit_val_char)
  qed
qed

lemma nat_str_inject [simp]: "nat_str m = nat_str n \<longleftrightarrow> m = n"
  by (metis digits_val_nat_str option.inject)

end
