(* ===== verification/Time_Config.thy ===== *)
theory Time_Config
  imports Time_Quorum Rust_Std
begin

text \<open>
  The configuration half of \<open>packages/time-correction/src/main.rs\<close>: the command line, its
  validation and the choice of (resolver, server) pairs.  \<open>parse_args\<close> establishes the invariant
  \<open>valid_options\<close>, and \<open>choose_pairs\<close> relies on it and on the \<open>sampler\<close> interface of \<open>Time_Quorum\<close>.
  Error values carry the data of the message the code formats; the texts are not modelled.
\<close>

section \<open>Model\<close>

record resolver =
  rs_name :: string
  rs_hostname :: string
  rs_addresses :: "ip_addr list"

record time_server =
  ts_name :: string
  ts_hostname :: string
  ts_operator :: string

record options =
  opt_resolvers :: "resolver list"
  opt_servers :: "time_server list"
  opt_sample :: nat
  opt_tolerance :: int
  opt_floor :: int
  opt_only :: "string list option"
  opt_timeout :: nat
  opt_force :: bool
  opt_dry_run :: bool

datatype action = Help | Run options

datatype config_error =
    NotASpec string
  | NothingAfterAt string
  | EmptyName string
  | EmptyHostname string
  | NotAnAddress string string
  | NoAddresses string
  | NeedsValue string
  | NeedsNumber string
  | UnknownArgument string
  | NoResolver
  | NoServer
  | SampleZero
  | SampleExceedsOperators nat nat
  | SampleExceedsResolvers nat nat
  | OnlyEmpty
  | OnlyUnknown string
  | OnlySameOperator nat "string list"
  | OnlyExceedsResolvers nat nat
  | NotEnoughResolvers
  | ChoosePanic

subsection \<open>The command line\<close>

definition split_spec :: "string \<Rightarrow> (config_error, string \<times> string \<times> string) result" where
  "split_spec spec =
     res_bind (ok_or (NotASpec spec) (split_once (CHR ''='') spec)) (\<lambda>(name, rest).
     res_bind (ok_or (NothingAfterAt spec) (split_once (CHR ''@'') rest)) (\<lambda>(hostname, tail).
       if name = [] then Inl (EmptyName spec)
       else if hostname = [] then Inl (EmptyHostname spec)
       else if tail = [] then Inl (NothingAfterAt spec)
       else Inr (name, hostname, tail)))"

definition parse_resolver :: "string \<Rightarrow> (config_error, resolver) result" where
  "parse_resolver spec =
     res_bind (split_spec spec) (\<lambda>(name, hostname, tail).
     res_bind (res_collect (\<lambda>a. ok_or (NotAnAddress name a) (parse_ip a))
                 (filter (\<lambda>a. a \<noteq> []) (split_on (CHR '','') tail))) (\<lambda>addresses.
       if addresses = [] then Inl (NoAddresses name)
       else Inr \<lparr>rs_name = name, rs_hostname = hostname, rs_addresses = addresses\<rparr>))"

definition parse_server :: "string \<Rightarrow> (config_error, time_server) result" where
  "parse_server spec =
     res_bind (split_spec spec) (\<lambda>(name, hostname, operator).
       Inr \<lparr>ts_name = name, ts_hostname = hostname, ts_operator = operator\<rparr>)"

definition default_options :: options where
  "default_options =
     \<lparr>opt_resolvers = [], opt_servers = [], opt_sample = 2, opt_tolerance = 60, opt_floor = 0,
      opt_only = None, opt_timeout = 10, opt_force = False, opt_dry_run = False\<rparr>"

definition value_flags :: "string list" where
  "value_flags = [''--doh'', ''--nts'', ''--sample'', ''--tolerance'', ''--floor'', ''--timeout'', ''--only'']"

definition set_option :: "string \<Rightarrow> string \<Rightarrow> options \<Rightarrow> (config_error, options) result" where
  "set_option flag value opts =
     (if flag = ''--doh'' then
        res_bind (parse_resolver value) (\<lambda>r. Inr (opts\<lparr>opt_resolvers := opt_resolvers opts @ [r]\<rparr>))
      else if flag = ''--nts'' then
        res_bind (parse_server value) (\<lambda>s. Inr (opts\<lparr>opt_servers := opt_servers opts @ [s]\<rparr>))
      else if flag = ''--sample'' then
        res_bind (ok_or (NeedsNumber flag) (parse_u64 value)) (\<lambda>n. Inr (opts\<lparr>opt_sample := n\<rparr>))
      else if flag = ''--tolerance'' then
        res_bind (ok_or (NeedsNumber flag) (parse_i64 value)) (\<lambda>n. Inr (opts\<lparr>opt_tolerance := n\<rparr>))
      else if flag = ''--floor'' then
        res_bind (ok_or (NeedsNumber flag) (parse_i64 value)) (\<lambda>n. Inr (opts\<lparr>opt_floor := n\<rparr>))
      else if flag = ''--timeout'' then
        res_bind (ok_or (NeedsNumber flag) (parse_u64 value)) (\<lambda>n. Inr (opts\<lparr>opt_timeout := n\<rparr>))
      else Inr (opts\<lparr>opt_only := Some (filter (\<lambda>s. s \<noteq> []) (split_on (CHR '','') value))\<rparr>))"

text \<open>The argument loop: \<open>Inr None\<close> is the early return for \<open>--help\<close>.\<close>

fun args_loop :: "string list \<Rightarrow> options \<Rightarrow> (config_error, options option) result" where
  "args_loop [] opts = Inr (Some opts)"
| "args_loop (arg # args) opts =
     (if arg = ''--help'' \<or> arg = ''-h'' then Inr None
      else if arg = ''--force'' then args_loop args (opts\<lparr>opt_force := True\<rparr>)
      else if arg = ''--dry-run'' then args_loop args (opts\<lparr>opt_dry_run := True\<rparr>)
      else if arg \<in> set value_flags then
        (case args of
           [] \<Rightarrow> Inl (NeedsValue arg)
         | value # args' \<Rightarrow> res_bind (set_option arg value opts) (args_loop args'))
      else Inl (UnknownArgument arg))"

definition distinct_operators :: "time_server list \<Rightarrow> string list" where
  "distinct_operators servers =
     foldl (\<lambda>operators server.
              if ts_operator server \<in> set operators then operators else operators @ [ts_operator server])
           [] servers"

definition named_servers :: "options \<Rightarrow> string list \<Rightarrow> time_server list" where
  "named_servers opts names = filter (\<lambda>s. ts_name s \<in> set names) (opt_servers opts)"

definition validate_only :: "options \<Rightarrow> string list \<Rightarrow> (config_error, unit) result" where
  "validate_only opts names =
     (if names = [] then Inl OnlyEmpty
      else case find (\<lambda>n. \<forall>s \<in> set (opt_servers opts). ts_name s \<noteq> n) names of
        Some n \<Rightarrow> Inl (OnlyUnknown n)
      | None \<Rightarrow>
          let operators = distinct_operators (named_servers opts names) in
          if length operators < length names then Inl (OnlySameOperator (length names) operators)
          else if length (opt_resolvers opts) < length names
               then Inl (OnlyExceedsResolvers (length names) (length (opt_resolvers opts)))
          else Inr ())"

definition validate_options :: "options \<Rightarrow> (config_error, action) result" where
  "validate_options opts =
     (if opt_resolvers opts = [] then Inl NoResolver
      else if opt_servers opts = [] then Inl NoServer
      else if opt_sample opts = 0 then Inl SampleZero
      else
        let operators = distinct_operators (opt_servers opts) in
        if length operators < opt_sample opts
        then Inl (SampleExceedsOperators (opt_sample opts) (length operators))
        else if length (opt_resolvers opts) < opt_sample opts
        then Inl (SampleExceedsResolvers (opt_sample opts) (length (opt_resolvers opts)))
        else
          res_bind (case opt_only opts of None \<Rightarrow> Inr () | Some names \<Rightarrow> validate_only opts names)
            (\<lambda>_. Inr (Run opts)))"

definition parse_args :: "string list \<Rightarrow> (config_error, action) result" where
  "parse_args args =
     res_bind (args_loop args default_options) (\<lambda>r.
       case r of None \<Rightarrow> Inr Help | Some opts \<Rightarrow> validate_options opts)"

subsection \<open>Choosing the pairs\<close>

definition pick_server :: "options \<Rightarrow> u64 \<Rightarrow> nat \<times> string \<Rightarrow> time_server option" where
  "pick_server opts seed io =
     (let theirs = filter (\<lambda>s. ts_operator s = snd io) (opt_servers opts);
          picked = sample (map ts_name theirs) 1 (seed + (of_nat (fst io) + 2))
      in case picked of [] \<Rightarrow> None | name # _ \<Rightarrow> find (\<lambda>s. ts_name s = name) theirs)"

definition choose_servers :: "options \<Rightarrow> u64 \<Rightarrow> time_server list" where
  "choose_servers opts seed =
     (case opt_only opts of
        Some names \<Rightarrow> named_servers opts names
      | None \<Rightarrow>
          List.map_filter (pick_server opts seed)
            (List.enumerate 0 (sample (distinct_operators (opt_servers opts)) (opt_sample opts) seed)))"

definition choose_pairs :: "options \<Rightarrow> u64 \<Rightarrow> (config_error, (resolver \<times> time_server) list) result" where
  "choose_pairs opts seed =
     (let chosen = choose_servers opts seed;
          resolvers = sample (map rs_name (opt_resolvers opts)) (length chosen) (seed + 1)
      in if length resolvers < length chosen then Inl NotEnoughResolvers
         else res_collect (\<lambda>(server, resolver_name).
                res_bind (ok_or ChoosePanic (find (\<lambda>r. rs_name r = resolver_name) (opt_resolvers opts)))
                  (\<lambda>resolver. Inr (resolver, server)))
              (zip chosen resolvers))"

section \<open>Lemmas\<close>

lemma distinct_operators_acc:
  assumes "distinct acc"
  shows "distinct (foldl (\<lambda>ops s. if ts_operator s \<in> set ops then ops else ops @ [ts_operator s]) acc ss)
    \<and> set (foldl (\<lambda>ops s. if ts_operator s \<in> set ops then ops else ops @ [ts_operator s]) acc ss)
      = set acc \<union> ts_operator ` set ss"
  using assms by (induction ss arbitrary: acc) auto

lemma distinct_operators [simp]:
  "distinct (distinct_operators ss)" "set (distinct_operators ss) = ts_operator ` set ss"
  using distinct_operators_acc [of "[]" ss] by (simp_all add: distinct_operators_def)

lemma length_distinct_operators: "length (distinct_operators ss) = card (ts_operator ` set ss)"
  using distinct_card [of "distinct_operators ss"] by simp

text \<open>What a specification that was accepted looks like.\<close>

definition wf_resolver :: "resolver \<Rightarrow> bool" where
  "wf_resolver r \<longleftrightarrow> rs_name r \<noteq> [] \<and> rs_hostname r \<noteq> [] \<and> rs_addresses r \<noteq> []"

definition wf_server :: "time_server \<Rightarrow> bool" where
  "wf_server s \<longleftrightarrow> ts_name s \<noteq> [] \<and> ts_hostname s \<noteq> [] \<and> ts_operator s \<noteq> []"

definition wf_parsed :: "options \<Rightarrow> bool" where
  "wf_parsed opts \<longleftrightarrow>
     (\<forall>r \<in> set (opt_resolvers opts). wf_resolver r) \<and> (\<forall>s \<in> set (opt_servers opts). wf_server s) \<and>
     is_i64 (opt_tolerance opts) \<and> is_i64 (opt_floor opts)"

definition valid_options :: "options \<Rightarrow> bool" where
  "valid_options opts \<longleftrightarrow> wf_parsed opts \<and>
     opt_servers opts \<noteq> [] \<and> 1 \<le> opt_sample opts \<and>
     opt_sample opts \<le> card (ts_operator ` set (opt_servers opts)) \<and>
     opt_sample opts \<le> length (opt_resolvers opts) \<and>
     (case opt_only opts of None \<Rightarrow> True
      | Some names \<Rightarrow> names \<noteq> [] \<and> set names \<subseteq> ts_name ` set (opt_servers opts) \<and>
          length names \<le> card (ts_operator ` set (named_servers opts names)) \<and>
          length names \<le> length (opt_resolvers opts))"

lemma split_spec_Inr: "split_spec s = Inr (n, h, t) \<Longrightarrow> n \<noteq> [] \<and> h \<noteq> [] \<and> t \<noteq> []"
  by (auto simp: split_spec_def result_simps split: if_splits)

lemma parse_resolver_wf: "parse_resolver s = Inr r \<Longrightarrow> wf_resolver r"
  by (auto simp: parse_resolver_def wf_resolver_def result_simps dest: split_spec_Inr split: if_splits)

lemma parse_server_wf: "parse_server s = Inr r \<Longrightarrow> wf_server r"
  by (auto simp: parse_server_def wf_server_def result_simps dest: split_spec_Inr)

lemma parse_i64_range: "parse_i64 s = Some n \<Longrightarrow> is_i64 n"
  by (auto simp: parse_i64_def parse_nat_def is_i64_def i64_min_def i64_max_def Let_def
      split: list.splits option.splits if_splits)

lemma set_option_wf: "set_option flag v opts = Inr opts' \<Longrightarrow> wf_parsed opts \<Longrightarrow> wf_parsed opts'"
  unfolding set_option_def
  by (auto simp: result_simps wf_parsed_def parse_resolver_wf parse_server_wf parse_i64_range
      split: if_splits)

lemma args_loop_wf: "args_loop args opts = Inr (Some opts') \<Longrightarrow> wf_parsed opts \<Longrightarrow> wf_parsed opts'"
proof (induction args opts rule: args_loop.induct)
  case (2 arg args opts)
  show ?case
  proof (cases "arg \<in> set value_flags \<and> arg \<noteq> ''--force'' \<and> arg \<noteq> ''--dry-run''")
    case True
    with "2.prems"(1) obtain v args' opts1 where a: "args = v # args'"
      and o1: "set_option arg v opts = Inr opts1" and l: "args_loop args' opts1 = Inr (Some opts')"
      by (simp only: args_loop.simps) (auto simp: result_simps split: if_splits list.splits)
    from "2.prems"(1) True have "\<not> (arg = ''--help'' \<or> arg = ''-h'')" by (simp only: args_loop.simps) auto
    with "2.IH"(3) [OF _ _ _ _ a] True l set_option_wf [OF o1 "2.prems"(2)] show ?thesis by blast
  next
    case False
    with "2.prems" have "args_loop args (opts\<lparr>opt_force := True\<rparr>) = Inr (Some opts') \<and> arg = ''--force''
        \<or> args_loop args (opts\<lparr>opt_dry_run := True\<rparr>) = Inr (Some opts') \<and> arg = ''--dry-run''"
      by (simp only: args_loop.simps) (auto split: if_splits)
    moreover from "2.prems"(2) have "wf_parsed (opts\<lparr>opt_force := True\<rparr>)"
        "wf_parsed (opts\<lparr>opt_dry_run := True\<rparr>)"
      by (simp_all add: wf_parsed_def)
    ultimately show ?thesis using "2.IH"(1,2) by auto
  qed
qed simp

lemma validate_Run:
  "validate_options opts = Inr a \<Longrightarrow> wf_parsed opts \<Longrightarrow> a = Run opts \<and> valid_options opts"
  by (auto simp: validate_options_def validate_only_def valid_options_def result_simps Let_def
      find_None_iff length_distinct_operators not_less split: if_splits option.splits)

lemma parse_args_Run: "parse_args args = Inr (Run opts) \<Longrightarrow> valid_options opts"
proof -
  assume "parse_args args = Inr (Run opts)"
  then obtain opts' where "args_loop args default_options = Inr (Some opts')"
    and v: "validate_options opts' = Inr (Run opts)"
    by (auto simp: parse_args_def result_simps split: option.splits)
  moreover have "wf_parsed default_options"
    by (simp add: wf_parsed_def default_options_def is_i64_def i64_min_def i64_max_def)
  ultimately have "wf_parsed opts'" by (metis args_loop_wf)
  with validate_Run [OF v] show ?thesis by simp
qed

lemma find_by_name:
  assumes "n \<in> name ` set xs"
  obtains x where "find (\<lambda>x. name x = n) xs = Some x" and "x \<in> set xs" and "name x = n"
proof (cases "find (\<lambda>x. name x = n) xs")
  case None
  with assms show ?thesis by (auto simp: find_None_iff)
next
  case (Some x)
  with find_eq_Some_mem [OF Some] show ?thesis by (auto intro: that)
qed

lemma pick_server_Some:
  assumes "snd io \<in> ts_operator ` set (opt_servers opts)"
  shows "\<exists>s. pick_server opts seed io = Some s \<and> s \<in> set (opt_servers opts) \<and> ts_operator s = snd io"
proof -
  let ?theirs = "filter (\<lambda>s. ts_operator s = snd io) (opt_servers opts)"
  from assms have "map ts_name ?theirs \<noteq> []" by (auto simp: filter_empty_conv)
  then obtain n ns where n: "sample (map ts_name ?theirs) 1 (seed + (of_nat (fst io) + 2)) = n # ns"
    and mem: "n \<in> set (map ts_name ?theirs)"
    by (rule splitmix.draw_one [of _ 1 "seed + (of_nat (fst io) + 2)"]) simp
  from mem have "n \<in> ts_name ` set ?theirs" by simp
  then obtain s where "find (\<lambda>s. ts_name s = n) ?theirs = Some s" "s \<in> set ?theirs"
    by (rule find_by_name)
  with n show ?thesis by (simp add: pick_server_def)
qed

lemma map_filter_all_Some:
  "(\<forall>x \<in> set xs. \<exists>y. f x = Some y) \<Longrightarrow> List.map_filter f xs = map (\<lambda>x. the (f x)) xs"
  by (induction xs) (auto simp: map_filter_simps)

lemma choose_servers_sampled:
  assumes "opt_only opts = None"
  shows "map ts_operator (choose_servers opts seed) =
           sample (distinct_operators (opt_servers opts)) (opt_sample opts) seed"
    and "set (choose_servers opts seed) \<subseteq> set (opt_servers opts)"
proof -
  let ?ops = "sample (distinct_operators (opt_servers opts)) (opt_sample opts) seed"
  let ?es = "List.enumerate 0 ?ops"
  have ops: "set ?ops \<subseteq> ts_operator ` set (opt_servers opts)"
    using splitmix.draw_set [of "distinct_operators (opt_servers opts)"] by simp
  have snd: "snd io \<in> set ?ops" if "io \<in> set ?es" for io
    using imageI [OF that, of snd] by (simp flip: set_map)
  have pick: "\<exists>s. pick_server opts seed io = Some s \<and> s \<in> set (opt_servers opts) \<and> ts_operator s = snd io"
    if "io \<in> set ?es" for io
    using snd [OF that] ops by (intro pick_server_Some) blast
  then have eq: "choose_servers opts seed = map (\<lambda>io. the (pick_server opts seed io)) ?es"
    using assms by (auto simp: choose_servers_def intro!: map_filter_all_Some)
  have "map ts_operator (choose_servers opts seed) = map snd ?es"
    unfolding eq map_map using pick by (intro map_cong) fastforce+
  then show "map ts_operator (choose_servers opts seed) = ?ops" by simp
  show "set (choose_servers opts seed) \<subseteq> set (opt_servers opts)"
    unfolding eq using pick by fastforce
qed

text \<open>Distinct names turn the arity rule for \<open>--only\<close> into one server per operator.\<close>

lemma named_servers_distinct:
  assumes "valid_options opts" and "opt_only opts = Some names"
    and dist: "distinct (map ts_name (opt_servers opts))"
  shows "length (named_servers opts names) = length names \<and>
    distinct (map ts_operator (named_servers opts names))"
proof -
  let ?ns = "named_servers opts names"
  from assms(1,2) have le: "length names \<le> card (ts_operator ` set ?ns)"
    by (simp add: valid_options_def)
  have "distinct (map ts_name ?ns)" using dist unfolding named_servers_def by (rule distinct_map_filter)
  then have "length ?ns = card (ts_name ` set ?ns)" using distinct_card by fastforce
  also have "\<dots> \<le> card (set names)" by (rule card_mono) (auto simp: named_servers_def)
  also have "\<dots> \<le> length names" by (rule card_length)
  finally have 1: "length ?ns \<le> length names" .
  have 2: "card (ts_operator ` set ?ns) \<le> length ?ns"
    using card_length [of "map ts_operator ?ns"] by simp
  have "card (set (map ts_operator ?ns)) = length (map ts_operator ?ns)" using le 1 2 by simp
  then have "distinct (map ts_operator ?ns)" by (rule card_distinct)
  with le 1 2 show ?thesis by linarith
qed

definition pairs_wanted :: "options \<Rightarrow> nat" where
  "pairs_wanted opts = (case opt_only opts of None \<Rightarrow> opt_sample opts | Some names \<Rightarrow> length names)"

lemma choose_servers_shape:
  assumes "valid_options opts" and "opt_only opts = None \<or> distinct (map ts_name (opt_servers opts))"
  shows "length (choose_servers opts seed) = pairs_wanted opts \<and>
    distinct (map ts_operator (choose_servers opts seed)) \<and>
    set (choose_servers opts seed) \<subseteq> set (opt_servers opts)"
proof (cases "opt_only opts")
  case None
  let ?ops = "distinct_operators (opt_servers opts)"
  have "length (choose_servers opts seed) = length (sample ?ops (opt_sample opts) seed)"
    using choose_servers_sampled(1) [OF None] by (metis length_map)
  also have "\<dots> = opt_sample opts"
    using assms(1) by (simp add: length_sample length_distinct_operators valid_options_def)
  finally show ?thesis
    using choose_servers_sampled [OF None, of seed] splitmix.draw_distinct [of ?ops]
    by (simp add: None pairs_wanted_def)
next
  case (Some names)
  with named_servers_distinct [OF assms(1) Some] assms(2) show ?thesis
    by (auto simp: choose_servers_def pairs_wanted_def named_servers_def)
qed

lemma choose_pairs_Inr:
  assumes "length (choose_servers opts seed) \<le> length (opt_resolvers opts)"
  obtains pairs where "choose_pairs opts seed = Inr pairs"
    and "map snd pairs = choose_servers opts seed"
    and "map (\<lambda>p. rs_name (fst p)) pairs =
           sample (map rs_name (opt_resolvers opts)) (length (choose_servers opts seed)) (seed + 1)"
    and "fst ` set pairs \<subseteq> set (opt_resolvers opts)"
proof -
  let ?c = "choose_servers opts seed"
  let ?rs = "sample (map rs_name (opt_resolvers opts)) (length ?c) (seed + 1)"
  let ?find = "\<lambda>n. find (\<lambda>r. rs_name r = n) (opt_resolvers opts)"
  let ?g = "\<lambda>(s, n). (the (?find n), s)"
  have len: "length ?rs = length ?c" using assms by (simp add: length_sample)
  have fnd: "\<exists>r. ?find n = Some r \<and> r \<in> set (opt_resolvers opts) \<and> rs_name r = n" if "n \<in> set ?rs" for n
  proof -
    from that splitmix.draw_set [of "map rs_name (opt_resolvers opts)"]
    have "n \<in> rs_name ` set (opt_resolvers opts)" by fastforce
    then show ?thesis by (rule find_by_name) blast
  qed
  have sn: "n \<in> set ?rs" if "(s, n) \<in> set (zip ?c ?rs)" for s n
    using that by (rule set_zip_rightD)
  have ch: "choose_pairs opts seed = Inr (map ?g (zip ?c ?rs))"
    unfolding choose_pairs_def Let_def using len fnd sn
    by (auto intro!: res_collect_map simp: ok_or_def dest!: sn split: option.splits) fastforce+
  show thesis
  proof (rule that [OF ch])
    show "map snd (map ?g (zip ?c ?rs)) = ?c"
      using len by (simp add: comp_def case_prod_beta' map_fst_zip)
    have "map (\<lambda>p. rs_name (fst p)) (map ?g (zip ?c ?rs)) = map snd (zip ?c ?rs)"
      unfolding map_map using fnd sn by (intro map_cong refl) (force simp: comp_def)
    then show "map (\<lambda>p. rs_name (fst p)) (map ?g (zip ?c ?rs)) = ?rs" using len by simp
    show "fst ` set (map ?g (zip ?c ?rs)) \<subseteq> set (opt_resolvers opts)"
      using fnd sn by force
  qed
qed

lemma choose_pairs_shape:
  assumes v: "valid_options opts"
    and "distinct (map ts_name (opt_servers opts))" and "distinct (map rs_name (opt_resolvers opts))"
  shows "\<exists>pairs. choose_pairs opts seed = Inr pairs \<and>
    length pairs = (case opt_only opts of None \<Rightarrow> opt_sample opts | Some names \<Rightarrow> length names) \<and>
    distinct (map (ts_operator \<circ> snd) pairs) \<and> distinct (map (rs_name \<circ> fst) pairs) \<and>
    set pairs \<subseteq> set (opt_resolvers opts) \<times> set (opt_servers opts)"
proof -
  from v assms(2) have shape: "length (choose_servers opts seed) = pairs_wanted opts"
    "distinct (map ts_operator (choose_servers opts seed))"
    "set (choose_servers opts seed) \<subseteq> set (opt_servers opts)"
    using choose_servers_shape [of opts seed] by simp_all
  moreover from v have "pairs_wanted opts \<le> length (opt_resolvers opts)"
    by (auto simp: valid_options_def pairs_wanted_def split: option.splits)
  ultimately obtain pairs where p: "choose_pairs opts seed = Inr pairs"
      "map snd pairs = choose_servers opts seed"
      "map (\<lambda>p. rs_name (fst p)) pairs =
         sample (map rs_name (opt_resolvers opts)) (length (choose_servers opts seed)) (seed + 1)"
      "fst ` set pairs \<subseteq> set (opt_resolvers opts)"
    by (metis choose_pairs_Inr)
  have "snd ` set pairs \<subseteq> set (opt_servers opts)"
    using shape(3) unfolding p(2) [symmetric] by simp
  with p(4) have "set pairs \<subseteq> set (opt_resolvers opts) \<times> set (opt_servers opts)" by force
  moreover have "length pairs = pairs_wanted opts" using shape(1) p(2) by (metis length_map)
  moreover have "distinct (map (ts_operator \<circ> snd) pairs)"
    using shape(2) unfolding p(2) [symmetric] by simp
  moreover have "distinct (map (rs_name \<circ> fst) pairs)"
    using splitmix.draw_distinct [OF assms(3)] unfolding comp_def p(3) .
  ultimately show ?thesis using p(1) by (simp add: pairs_wanted_def)
qed

section \<open>Properties\<close>

text \<open>
  What the command line can ask for. Options that \<open>parse_args\<close> lets run name at
  least one server, sample at least one operator, sample no more than there are distinct
  operators and resolvers, give every resolver an address, keep tolerance and floor in 64 bits,
  and restrict \<open>--only\<close> to configured names with as many distinct operators and
  resolvers as names.
\<close>

theorem parse_args_enforces_arity:
  assumes "parse_args args = Inr (Run opts)"
  shows "opt_servers opts \<noteq> [] \<and> 1 \<le> opt_sample opts \<and>
    opt_sample opts \<le> card (ts_operator ` set (opt_servers opts)) \<and>
    opt_sample opts \<le> length (opt_resolvers opts) \<and>
    (\<forall>r \<in> set (opt_resolvers opts). rs_addresses r \<noteq> []) \<and>
    is_i64 (opt_tolerance opts) \<and> is_i64 (opt_floor opts) \<and>
    (\<forall>names. opt_only opts = Some names \<longrightarrow> names \<noteq> [] \<and>
       set names \<subseteq> ts_name ` set (opt_servers opts) \<and>
       length names \<le> card (ts_operator ` set (named_servers opts names)) \<and>
       length names \<le> length (opt_resolvers opts))"
  using parse_args_Run [OF assms]
  by (auto simp: valid_options_def wf_parsed_def wf_resolver_def)

definition demo_args :: "string list" where
  "demo_args =
     [''--doh'', ''q=q9@9.9.9.9'', ''--doh'', ''c=one@1.1.1.1'',
      ''--nts'', ''f=cf@c'', ''--nts'', ''n=nts@m'',
      ''--floor'', ''1700000000'']"

definition demo_options :: options where
  "demo_options =
     \<lparr>opt_resolvers =
        [\<lparr>rs_name = ''q'', rs_hostname = ''q9'', rs_addresses = [V4 9 9 9 9]\<rparr>,
         \<lparr>rs_name = ''c'', rs_hostname = ''one'', rs_addresses = [V4 1 1 1 1]\<rparr>],
      opt_servers =
        [\<lparr>ts_name = ''f'', ts_hostname = ''cf'', ts_operator = ''c''\<rparr>,
         \<lparr>ts_name = ''n'', ts_hostname = ''nts'', ts_operator = ''m''\<rparr>],
      opt_sample = 2, opt_tolerance = 60, opt_floor = 1700000000, opt_only = None,
      opt_timeout = 10, opt_force = False, opt_dry_run = False\<rparr>"

lemmas number_eval = parse_u64_def parse_i64_def parse_nat_def digit_val_def
lemmas address_eval = parse_ip_def read_ipv4_def read_octet_def read_separator_def read_number_def
  read_given_char_def digit_val_def
lemmas args_eval = parse_args_def set_option_def value_flags_def default_options_def
  parse_resolver_def parse_server_def split_spec_def validate_options_def validate_only_def
  distinct_operators_def named_servers_def

lemma demo_parse_args: "parse_args demo_args = Inr (Run demo_options)"
  by (simp add: demo_args_def demo_options_def args_eval number_eval address_eval)

theorem parse_args_enforces_arity_witness:
  "opt_sample demo_options \<le> card (ts_operator ` set (opt_servers demo_options)) \<and>
   (\<forall>r \<in> set (opt_resolvers demo_options). rs_addresses r \<noteq> [])"
  using parse_args_enforces_arity [OF demo_parse_args] by simp

text \<open>
  Independence of the pairs. For a validated configuration whose names identify their servers
  and resolvers, \<open>choose_pairs\<close> always succeeds, for every seed, with exactly the
  number of pairs asked for, one per operator, each with a resolver of its own, all of them
  configured.
\<close>

theorem choose_pairs_independent:
  assumes "parse_args args = Inr (Run opts)"
    and "distinct (map ts_name (opt_servers opts))" and "distinct (map rs_name (opt_resolvers opts))"
  shows "\<exists>pairs. choose_pairs opts seed = Inr pairs \<and>
    length pairs = (case opt_only opts of None \<Rightarrow> opt_sample opts | Some names \<Rightarrow> length names) \<and>
    distinct (map (ts_operator \<circ> snd) pairs) \<and> distinct (map (rs_name \<circ> fst) pairs) \<and>
    set pairs \<subseteq> set (opt_resolvers opts) \<times> set (opt_servers opts)"
  using parse_args_Run [OF assms(1)] assms(2,3) by (rule choose_pairs_shape)

theorem choose_pairs_independent_witness:
  "\<exists>pairs. choose_pairs demo_options 42 = Inr pairs \<and> length pairs = 2 \<and>
    distinct (map (ts_operator \<circ> snd) pairs) \<and> distinct (map (rs_name \<circ> fst) pairs)"
  using choose_pairs_independent [OF demo_parse_args, of 42]
  by (simp add: demo_options_def) blast

text \<open>
  The names do have to be distinct, and \<open>parse_args\<close> does not check it: a command
  line that gives two servers of one operator the same name passes validation, and
  \<open>--only\<close> with that name asks this operator twice and nobody else.
\<close>

theorem only_duplicate_name_asks_one_operator_twice:
  "\<exists>opts pairs.
     parse_args [''--doh'', ''q=a@9.9.9.9'', ''--doh'', ''c=b@1.1.1.1'', ''--sample'', ''1'',
                 ''--nts'', ''p=p1@ptb'', ''--nts'', ''p=p2@ptb'', ''--only'', ''p'']
       = Inr (Run opts) \<and>
     choose_pairs opts seed = Inr pairs \<and> map (ts_operator \<circ> snd) pairs = [''ptb'', ''ptb'']"
proof -
  let ?opts =
    "\<lparr>opt_resolvers = [\<lparr>rs_name = ''q'', rs_hostname = ''a'', rs_addresses = [V4 9 9 9 9]\<rparr>,
                       \<lparr>rs_name = ''c'', rs_hostname = ''b'', rs_addresses = [V4 1 1 1 1]\<rparr>],
      opt_servers = [\<lparr>ts_name = ''p'', ts_hostname = ''p1'', ts_operator = ''ptb''\<rparr>,
                     \<lparr>ts_name = ''p'', ts_hostname = ''p2'', ts_operator = ''ptb''\<rparr>],
      opt_sample = 1, opt_tolerance = 60, opt_floor = 0, opt_only = Some [''p''],
      opt_timeout = 10, opt_force = False, opt_dry_run = False\<rparr>"
  have parse: "parse_args [''--doh'', ''q=a@9.9.9.9'', ''--doh'', ''c=b@1.1.1.1'', ''--sample'', ''1'',
      ''--nts'', ''p=p1@ptb'', ''--nts'', ''p=p2@ptb'', ''--only'', ''p''] = Inr (Run ?opts)"
    by (simp add: args_eval number_eval address_eval)
  have servers: "choose_servers ?opts seed = opt_servers ?opts"
    by (simp add: choose_servers_def named_servers_def)
  have "length (choose_servers ?opts seed) \<le> length (opt_resolvers ?opts)" unfolding servers by simp
  then obtain pairs where p: "choose_pairs ?opts seed = Inr pairs" "map snd pairs = choose_servers ?opts seed"
    by (metis choose_pairs_Inr)
  have "map (ts_operator \<circ> snd) pairs = map ts_operator (map snd pairs)" by simp
  also have "\<dots> = [''ptb'', ''ptb'']" unfolding p(2) servers by simp
  finally show ?thesis using parse p(1) by (intro exI conjI)
qed

end
