(* ===== verification/Time_Verify.thy ===== *)
theory Time_Verify
  imports Prelude
begin

text \<open>
  \<open>packages/time-correction/src/verify.rs\<close>: certificate verification at an instant of the
  program's choosing.  The X.509 parser and webpki are libraries outside the repository; they are
  the two fields of the record \<open>pki\<close>, an argument of every definition that calls them.
  Pass 1 (\<open>tav_verify_server_cert\<close>) returns the outcome together with the recorded chain, pass 2
  is \<open>verify_at\<close>.  Windows are pairs of Unix seconds, as in the code.
\<close>

section \<open>Model\<close>

type_synonym window = "int \<times> int"

text \<open>
  \<open>x509_validity\<close>: \<open>X509Certificate::from_der\<close> followed by reading \<open>notBefore\<close> and \<open>notAfter\<close>;
  the error is the parser's text.  \<open>webpki_verify\<close>: \<open>WebPkiServerVerifier::verify_server_cert\<close> on
  end entity, intermediates, server name, OCSP response and instant (whole seconds since 1970).
\<close>

record ('cert, 'name) pki =
  x509_validity :: "'cert \<Rightarrow> (string, window) result"
  webpki_verify :: "'cert \<Rightarrow> 'cert list \<Rightarrow> 'name \<Rightarrow> byte list \<Rightarrow> nat \<Rightarrow> (string, unit) result"

datatype verify_error =
    UnparseableCertificate string
  | PredatesEpoch int
  | NoCertificates
  | NotValidAt int string
  | NoReadableWindow
  | WebPkiError string
  | NoTrustStore "string list"
  | CannotBuildVerifier string

definition window_of :: "('cert, 'name) pki \<Rightarrow> 'cert \<Rightarrow> (verify_error, window) result" where
  "window_of pki der = map_err UnparseableCertificate (x509_validity pki der)"

fun intersect_loop :: "window list \<Rightarrow> int \<Rightarrow> int \<Rightarrow> window" where
  "intersect_loop [] start stop = (start, stop)"
| "intersect_loop ((not_before, not_after) # ws) start stop =
     intersect_loop ws (max start not_before) (min stop not_after)"

definition intersect :: "window list \<Rightarrow> window option" where
  "intersect windows =
     (let (start, stop) = intersect_loop windows i64_min i64_max
      in if start \<le> stop then Some (start, stop) else None)"

definition chain_window ::
  "('cert, 'name) pki \<Rightarrow> 'cert \<Rightarrow> 'cert list \<Rightarrow> (verify_error, window option) result" where
  "chain_window pki end_entity intermediates =
     res_bind (res_collect (window_of pki) (end_entity # intermediates))
       (\<lambda>windows. Inr (intersect windows))"

definition result_ok :: "('e, 'a) result \<Rightarrow> 'a option" where
  "result_ok m = (case m of Inl _ \<Rightarrow> None | Inr x \<Rightarrow> Some x)"

definition chain_windows :: "('cert, 'name) pki \<Rightarrow> 'cert \<Rightarrow> 'cert list \<Rightarrow> window option list" where
  "chain_windows pki end_entity intermediates =
     map (\<lambda>der. result_ok (window_of pki der)) (end_entity # intermediates)"

text \<open>\<open>iter().flatten()\<close> over options.\<close>

fun flatten_options :: "'a option list \<Rightarrow> 'a list" where
  "flatten_options [] = []"
| "flatten_options (None # xs) = flatten_options xs"
| "flatten_options (Some x # xs) = x # flatten_options xs"

definition open_at :: "int \<Rightarrow> window \<Rightarrow> bool" where
  "open_at t w \<longleftrightarrow> fst w \<le> t \<and> t \<le> snd w"

definition verified_window :: "window option list \<Rightarrow> int \<Rightarrow> window option" where
  "verified_window windows seconds =
     (if windows = [] \<or> (\<exists>w \<in> set windows. w = None) then None
      else
        let used = filter (open_at seconds) (flatten_options windows)
        in if used = [] then None else intersect used)"

definition unix_time :: "int \<Rightarrow> (verify_error, nat) result" where
  "unix_time seconds = (if seconds < 0 then Inl (PredatesEpoch seconds) else Inr (nat seconds))"

text \<open>
  \<open>Verifier::new\<close>.  The trust store, which of its certificates rustls accepts and the builder
  are the environment's.
\<close>

definition verifier_new ::
  "'root list \<times> string list \<Rightarrow> ('root \<Rightarrow> bool) \<Rightarrow> ('root list \<Rightarrow> (string, 'v) result)
   \<Rightarrow> (verify_error, 'v) result" where
  "verifier_new loaded roots_add build =
     (let roots = filter roots_add (fst loaded)
      in if roots = [] then Inl (NoTrustStore (snd loaded))
         else map_err CannotBuildVerifier (build roots))"

definition verify_at ::
  "('cert, 'name) pki \<Rightarrow> 'cert list \<Rightarrow> 'name \<Rightarrow> int \<Rightarrow> (verify_error, unit) result" where
  "verify_at pki chain server_name seconds =
     (case chain of
        [] \<Rightarrow> Inl NoCertificates
      | end_entity # intermediates \<Rightarrow>
          res_bind (unix_time seconds) (\<lambda>at.
            map_err (NotValidAt seconds)
              (webpki_verify pki end_entity intermediates server_name [] at)))"

text \<open>Pass 1.  The candidate instants, then the attempts in order with the last error kept.\<close>

definition pass1_candidates :: "('cert, 'name) pki \<Rightarrow> 'cert \<Rightarrow> 'cert list \<Rightarrow> int list" where
  "pass1_candidates pki end_entity intermediates =
     (let leaf = map_option fst (result_ok (window_of pki end_entity));
          intersected =
            (case Option.bind (result_ok (chain_window pki end_entity intermediates)) (\<lambda>w. w) of
               None \<Rightarrow> None
             | Some (at, _) \<Rightarrow> (if Some at \<noteq> leaf then Some at else None))
      in flatten_options [leaf, intersected])"

fun pass1_attempts ::
  "('cert, 'name) pki \<Rightarrow> 'cert \<Rightarrow> 'cert list \<Rightarrow> 'name \<Rightarrow> byte list \<Rightarrow> int list \<Rightarrow> verify_error
   \<Rightarrow> (verify_error, unit) result" where
  "pass1_attempts pki ee ints name ocsp [] final = Inl final"
| "pass1_attempts pki ee ints name ocsp (at # ats) final =
     (case unix_time at of
        Inl e \<Rightarrow> pass1_attempts pki ee ints name ocsp ats e
      | Inr at' \<Rightarrow>
          (case webpki_verify pki ee ints name ocsp at' of
             Inr _ \<Rightarrow> Inr ()
           | Inl e \<Rightarrow> pass1_attempts pki ee ints name ocsp ats (WebPkiError e)))"

text \<open>
  \<open>TimeAgnosticVerifier::verify_server_cert\<close> with its \<open>seen\<close> cell passed explicitly (one verifier
  per connection, so the mutex is uncontended).
\<close>

definition tav_verify_server_cert ::
  "('cert, 'name) pki \<Rightarrow> 'cert \<Rightarrow> 'cert list \<Rightarrow> 'name \<Rightarrow> byte list \<Rightarrow> 'cert list option
   \<Rightarrow> (verify_error, unit) result \<times> 'cert list option" where
  "tav_verify_server_cert pki end_entity intermediates server_name ocsp_response seen =
     (case pass1_attempts pki end_entity intermediates server_name ocsp_response
             (pass1_candidates pki end_entity intermediates) NoReadableWindow of
        Inr _ \<Rightarrow> (Inr (), Some (end_entity # intermediates))
      | Inl e \<Rightarrow> (Inl e, seen))"

section \<open>Lemmas\<close>

definition in_all :: "window list \<Rightarrow> int \<Rightarrow> bool" where
  "in_all ws t \<longleftrightarrow> (\<forall>w \<in> set ws. open_at t w)"

lemma intersect_loop_iff:
  "intersect_loop ws s e = (a, b) \<Longrightarrow> (a \<le> t \<and> t \<le> b) = (s \<le> t \<and> t \<le> e \<and> in_all ws t)"
  by (induction ws s e arbitrary: a b rule: intersect_loop.induct)
    (auto simp: in_all_def open_at_def)

lemma intersect_Some_iff:
  assumes "intersect ws = Some (a, b)"
  shows "a \<le> t \<and> t \<le> b \<longleftrightarrow> is_i64 t \<and> in_all ws t"
  using assms intersect_loop_iff [of ws i64_min i64_max a b t]
  by (auto simp: intersect_def is_i64_def split: prod.splits if_splits)

lemma intersect_None_iff: "intersect ws = None \<longleftrightarrow> (\<forall>t. is_i64 t \<longrightarrow> \<not> in_all ws t)"
proof -
  obtain a b where ab: "intersect_loop ws i64_min i64_max = (a, b)" by force
  have "a \<le> b \<longleftrightarrow> (\<exists>t. a \<le> t \<and> t \<le> b)" by auto
  with intersect_loop_iff [OF ab] show ?thesis
    by (auto simp: intersect_def ab is_i64_def)
qed

lemma flatten_options_append [simp]:
  "flatten_options (xs @ ys) = flatten_options xs @ flatten_options ys"
  by (induction xs rule: flatten_options.induct) auto

lemma set_flatten_options: "x \<in> set (flatten_options xs) \<longleftrightarrow> Some x \<in> set xs"
  by (induction xs rule: flatten_options.induct) auto

lemma verified_window_Some:
  assumes "verified_window ws s = Some (a, b)" and "is_i64 s"
  shows "a \<le> s \<and> s \<le> b"
    and "\<And>w. w \<in> set ws \<Longrightarrow> w \<noteq> None"
    and "\<And>w. Some w \<in> set ws \<Longrightarrow> open_at s w \<Longrightarrow> fst w \<le> a \<and> b \<le> snd w"
proof -
  let ?used = "filter (open_at s) (flatten_options ws)"
  from assms(1) have int: "intersect ?used = Some (a, b)" and some: "None \<notin> set ws"
    by (auto simp: verified_window_def Let_def split: if_splits)
  have "in_all ?used s" by (simp add: in_all_def)
  with assms(2) intersect_Some_iff [OF int, of s] show s: "a \<le> s \<and> s \<le> b" by simp
  show "w \<noteq> None" if "w \<in> set ws" for w using some that by metis
  show "fst w \<le> a \<and> b \<le> snd w" if "Some w \<in> set ws" "open_at s w" for w
  proof -
    from s have "a \<le> b" by linarith
    with intersect_Some_iff [OF int] have "in_all ?used a" "in_all ?used b" by blast+
    with that show ?thesis by (cases w) (auto simp: in_all_def set_flatten_options open_at_def)
  qed
qed

lemma verified_window_None:
  assumes "is_i64 s"
  shows "verified_window ws s = None \<longleftrightarrow> None \<in> set ws \<or> (\<forall>w. Some w \<in> set ws \<longrightarrow> \<not> open_at s w)"
proof -
  let ?used = "filter (open_at s) (flatten_options ws)"
  have "in_all ?used s" by (simp add: in_all_def)
  with assms have "intersect ?used \<noteq> None" using intersect_None_iff by blast
  moreover have "?used = [] \<longleftrightarrow> (\<forall>w. Some w \<in> set ws \<longrightarrow> \<not> open_at s w)"
    by (auto simp: filter_empty_conv set_flatten_options)
  ultimately show ?thesis by (auto simp: verified_window_def Let_def)
qed

lemma verify_at_Inr:
  "verify_at pki chain name s = Inr u \<longleftrightarrow>
   (\<exists>ee ints. chain = ee # ints \<and> 0 \<le> s \<and> webpki_verify pki ee ints name [] (nat s) = Inr u)"
  by (auto simp: verify_at_def unix_time_def result_simps split: list.splits)

lemma pass1_attempts_Inr:
  "pass1_attempts pki ee ints name ocsp ats final = Inr u \<longleftrightarrow>
   (\<exists>at \<in> set ats. 0 \<le> at \<and> webpki_verify pki ee ints name ocsp (nat at) = Inr ())"
  by (induction ats arbitrary: final) (auto simp: unix_time_def split: sum.splits)

section \<open>Properties\<close>

text \<open>
  \<open>intersect\<close> is exact on instants: it returns the set of all 64-bit instants at
  which every window is open, as its end points, and nothing exactly when there is no such
  instant.
\<close>

theorem intersect_exact:
  assumes "is_i64 t"
  shows "(case intersect ws of
            None \<Rightarrow> \<not> in_all ws t
          | Some (a, b) \<Rightarrow> (a \<le> t \<and> t \<le> b) = in_all ws t)"
  using assms intersect_Some_iff intersect_None_iff by (auto split: option.splits)

theorem intersect_exact_witness:
  "(case intersect [(10, 30), (20, 40)] of
      None \<Rightarrow> \<not> in_all [(10, 30), (20, 40)] 25
    | Some (a, b) \<Rightarrow> (a \<le> 25 \<and> 25 \<le> b) = in_all [(10, 30), (20, 40)] 25)"
proof -
  have "is_i64 25" by (simp add: is_i64_def i64_min_def i64_max_def)
  then show ?thesis by (rule intersect_exact)
qed

text \<open>
  The verified window is what pass 2 vouches for: it contains the verified instant, every
  certificate of the chain was readable, and each certificate that was valid at that instant is
  valid over the whole window.
\<close>

theorem verified_window_vouched:
  assumes "is_i64 s" and "verified_window ws s = Some (a, b)"
  shows "a \<le> s \<and> s \<le> b \<and> None \<notin> set ws \<and>
    (\<forall>w. Some w \<in> set ws \<longrightarrow> open_at s w \<longrightarrow> fst w \<le> a \<and> b \<le> snd w)"
  using verified_window_Some [OF assms(2,1)] by blast

theorem verified_window_vouched_witness:
  "verified_window [Some (10, 50), Some (20, 40), Some (1, 5)] 25 = Some (20, 40) \<and>
   None \<notin> set [Some (10, 50), Some (20, 40), Some (1::int, 5::int)]"
proof -
  have v: "verified_window [Some (10, 50), Some (20, 40), Some (1, 5)] 25 = Some (20, 40)"
    by code_simp
  have "is_i64 25" by (simp add: is_i64_def i64_min_def i64_max_def)
  from verified_window_vouched [OF this v] v show ?thesis by blast
qed

text \<open>
  A superseded certificate has no vote: a readable certificate whose validity excludes the
  verified instant changes nothing, wherever in the chain the peer sent it.
\<close>

theorem verified_window_ignores_superseded:
  assumes "\<not> open_at s w"
  shows "verified_window (xs @ Some w # ys) s = verified_window (xs @ ys) s"
  using assms by (auto simp: verified_window_def Let_def)

theorem verified_window_ignores_superseded_witness:
  "verified_window ([Some (10, 50)] @ Some (1, 5) # []) 25 = verified_window ([Some (10, 50)] @ []) 25"
  by (rule verified_window_ignores_superseded) (simp add: open_at_def)

text \<open>
  Pass 1 records the chain exactly when webpki accepted it at one of the two invented instants;
  a refused handshake leaves the recorded chain as it was.
\<close>

theorem pass1_records_only_verified:
  "(fst (tav_verify_server_cert pki ee ints name ocsp seen) = Inr () \<longleftrightarrow>
     (\<exists>at \<in> set (pass1_candidates pki ee ints). 0 \<le> at \<and>
           webpki_verify pki ee ints name ocsp (nat at) = Inr ())) \<and>
   snd (tav_verify_server_cert pki ee ints name ocsp seen) =
     (if fst (tav_verify_server_cert pki ee ints name ocsp seen) = Inr ()
      then Some (ee # ints) else seen)"
proof (cases "pass1_attempts pki ee ints name ocsp (pass1_candidates pki ee ints) NoReadableWindow")
  case (Inl e)
  then have "\<not> (\<exists>at \<in> set (pass1_candidates pki ee ints). 0 \<le> at \<and>
      webpki_verify pki ee ints name ocsp (nat at) = Inr ())"
    using pass1_attempts_Inr by (metis sum.distinct(1))
  with Inl show ?thesis by (auto simp: tav_verify_server_cert_def)
next
  case (Inr u)
  then have "\<exists>at \<in> set (pass1_candidates pki ee ints). 0 \<le> at \<and>
      webpki_verify pki ee ints name ocsp (nat at) = Inr ()"
    by (simp only: pass1_attempts_Inr)
  with Inr show ?thesis by (simp add: tav_verify_server_cert_def)
qed

end
