(* ===== verification/Time_Deferred.thy ===== *)
theory Time_Deferred
  imports Time_Verify
begin

text \<open>
  \<open>packages/time-correction/src/deferred.rs\<close>: the chains gathered while obtaining one timestamp
  and \<open>accept\<close>, the only operation that turns a claimed time into a believable one.  The Rust
  types keep the fields of \<open>Verified\<close> private; here the same boundary is the locale
  \<open>deferred_gate\<close>, which states what a client may conclude from a \<open>Verified\<close> value.
\<close>

section \<open>Model\<close>

record ('cert, 'name) pending =
  pend_leg :: string
  pend_chain :: "'cert list"
  pend_server_name :: 'name

record ('cert, 'name) deferred =
  def_pending :: "('cert, 'name) pending list"

record verified =
  ver_seconds :: int
  ver_window :: "window option"

datatype deferred_error =
    NoChainsRecorded
  | LegNotValid string verify_error
  | EmptyChainRecorded string

definition deferred_new :: "('cert, 'name) deferred" where
  "deferred_new = \<lparr>def_pending = []\<rparr>"

definition record_chain ::
  "('cert, 'name) deferred \<Rightarrow> string \<Rightarrow> 'cert list \<Rightarrow> 'name \<Rightarrow> ('cert, 'name) deferred" where
  "record_chain d leg chain server_name =
     d\<lparr>def_pending := def_pending d @
         [\<lparr>pend_leg = leg, pend_chain = chain, pend_server_name = server_name\<rparr>]\<rparr>"

fun accept_loop ::
  "('cert, 'name) pki \<Rightarrow> int \<Rightarrow> ('cert, 'name) pending list \<Rightarrow> window list \<Rightarrow> bool
   \<Rightarrow> (deferred_error, window list \<times> bool) result" where
  "accept_loop pki seconds [] windows known = Inr (windows, known)"
| "accept_loop pki seconds (p # ps) windows known =
     res_bind (map_err (LegNotValid (pend_leg p))
                 (verify_at pki (pend_chain p) (pend_server_name p) seconds)) (\<lambda>_.
       (case pend_chain p of
          [] \<Rightarrow> Inl (EmptyChainRecorded (pend_leg p))
        | leaf # intermediates \<Rightarrow>
            (case verified_window (chain_windows pki leaf intermediates) seconds of
               Some w \<Rightarrow> accept_loop pki seconds ps (windows @ [w]) known
             | None \<Rightarrow> accept_loop pki seconds ps windows False)))"

definition accept ::
  "('cert, 'name) deferred \<Rightarrow> ('cert, 'name) pki \<Rightarrow> int \<Rightarrow> (deferred_error, verified) result" where
  "accept d pki seconds =
     (if def_pending d = [] then Inl NoChainsRecorded
      else
        res_bind (accept_loop pki seconds (def_pending d) [] True) (\<lambda>(windows, known).
          Inr \<lparr>ver_seconds = seconds, ver_window = (if known then intersect windows else None)\<rparr>))"

section \<open>Lemmas\<close>

definition leg_window :: "('cert, 'name) pki \<Rightarrow> int \<Rightarrow> ('cert, 'name) pending \<Rightarrow> window option" where
  "leg_window pki s p =
     (case pend_chain p of [] \<Rightarrow> None
      | leaf # ints \<Rightarrow> verified_window (chain_windows pki leaf ints) s)"

definition leg_verified :: "('cert, 'name) pki \<Rightarrow> int \<Rightarrow> ('cert, 'name) pending \<Rightarrow> bool" where
  "leg_verified pki s p \<longleftrightarrow>
     (\<exists>leaf ints. pend_chain p = leaf # ints \<and> 0 \<le> s \<and>
        webpki_verify pki leaf ints (pend_server_name p) [] (nat s) = Inr ())"

lemma leg_verified_iff:
  "verify_at pki (pend_chain p) (pend_server_name p) s = Inr u \<longleftrightarrow> leg_verified pki s p"
  by (simp add: verify_at_Inr leg_verified_def)

lemma accept_loop_Inr:
  "accept_loop pki s ps ws k = Inr r \<longleftrightarrow>
   (\<forall>p \<in> set ps. leg_verified pki s p) \<and>
   r = (ws @ flatten_options (map (leg_window pki s) ps), k \<and> None \<notin> set (map (leg_window pki s) ps))"
proof (induction ps arbitrary: ws k)
  case Nil
  then show ?case by auto
next
  case (Cons p ps)
  show ?case
  proof (cases "leg_verified pki s p")
    case True
    then obtain leaf ints where c: "pend_chain p = leaf # ints" by (auto simp: leg_verified_def)
    from True have v: "verify_at pki (pend_chain p) (pend_server_name p) s = Inr ()"
      by (simp only: leg_verified_iff)
    show ?thesis
    proof (cases "leg_window pki s p")
      case None
      with c v True Cons.IH [of ws False] show ?thesis by (auto simp: leg_window_def)
    next
      case (Some w)
      with c v True Cons.IH [of "ws @ [w]" k] show ?thesis by (auto simp: leg_window_def)
    qed
  next
    case False
    then have "verify_at pki (pend_chain p) (pend_server_name p) s \<noteq> Inr u" for u
      by (simp only: leg_verified_iff simp_thms)
    then obtain e where "verify_at pki (pend_chain p) (pend_server_name p) s = Inl e"
      by (metis sumE)
    with False show ?thesis by simp
  qed
qed

lemma accept_Inr:
  "accept d pki s = Inr v \<longleftrightarrow>
   def_pending d \<noteq> [] \<and> (\<forall>p \<in> set (def_pending d). leg_verified pki s p) \<and>
   ver_seconds v = s \<and>
   ver_window v = (if None \<in> set (map (leg_window pki s) (def_pending d)) then None
                   else intersect (flatten_options (map (leg_window pki s) (def_pending d))))"
  by (cases v) (auto simp: accept_def result_simps accept_loop_Inr)

lemma leg_window_open:
  assumes "is_i64 s" and "leg_window pki s p = Some w"
  shows "open_at s w"
  using assms verified_window_Some(1) [of _ s "fst w" "snd w"]
  by (auto simp: leg_window_def open_at_def split: list.splits)

lemma chain_windows_mem:
  "cert \<in> set (leaf # ints) \<Longrightarrow> x509_validity pki cert = Inr w \<Longrightarrow> Some w \<in> set (chain_windows pki leaf ints)"
  by (force simp: chain_windows_def window_of_def result_ok_def)

text \<open>What a client may conclude from an accepted time: the gate the type system enforces.\<close>

locale deferred_gate =
  fixes gate :: "('cert, 'name) deferred \<Rightarrow> ('cert, 'name) pki \<Rightarrow> int \<Rightarrow> (deferred_error, verified) result"
  assumes gate_seconds: "gate d pki s = Inr v \<Longrightarrow> ver_seconds v = s"
    and gate_nonempty: "gate d pki s = Inr v \<Longrightarrow> def_pending d \<noteq> []"
    and gate_legs: "gate d pki s = Inr v \<Longrightarrow> p \<in> set (def_pending d) \<Longrightarrow> leg_verified pki s p"
    and gate_window: "gate d pki s = Inr v \<Longrightarrow> is_i64 s \<Longrightarrow> ver_window v = Some (a, b) \<Longrightarrow>
      p \<in> set (def_pending d) \<Longrightarrow> \<exists>w. leg_window pki s p = Some w \<and> fst w \<le> a \<and> b \<le> snd w"
begin

lemma gate_certificates:
  assumes "gate d pki s = Inr v" and "is_i64 s" and "ver_window v = Some (a, b)"
    and p: "p \<in> set (def_pending d)" and "cert \<in> set (pend_chain p)"
    and "x509_validity pki cert = Inr w" and "open_at s w" and now: "a \<le> now" "now \<le> b"
  shows "open_at now w"
proof -
  from gate_window [OF assms(1,2,3) p] obtain u
    where u: "leg_window pki s p = Some u" "fst u \<le> a" "b \<le> snd u" by blast
  then obtain leaf ints where c: "pend_chain p = leaf # ints"
    and vw: "verified_window (chain_windows pki leaf ints) s = Some (fst u, snd u)"
    by (auto simp: leg_window_def split: list.splits)
  from assms(5,6) c have "Some w \<in> set (chain_windows pki leaf ints)"
    using chain_windows_mem by metis
  from verified_window_Some(3) [OF vw assms(2) this assms(7)] u now show ?thesis
    by (auto simp: open_at_def)
qed

end

interpretation pass2: deferred_gate accept
proof
  fix d :: "('a, 'b) deferred" and pki s v p a b
  assume acc: "accept d pki s = Inr v"
  show "ver_seconds v = s" and "def_pending d \<noteq> []" using acc by (simp_all add: accept_Inr)
  assume p: "p \<in> set (def_pending d)"
  show "leg_verified pki s p" using acc p by (simp add: accept_Inr)
  assume s: "is_i64 s" and w: "ver_window v = Some (a, b)"
  let ?ws = "map (leg_window pki s) (def_pending d)"
  from acc w have none: "None \<notin> set ?ws" and int: "intersect (flatten_options ?ws) = Some (a, b)"
    by (auto simp: accept_Inr split: if_splits)
  have leg: "leg_window pki s p \<in> set ?ws" using p by simp
  with none obtain u where u: "leg_window pki s p = Some u" by (metis option.exhaust)
  with leg have mem: "u \<in> set (flatten_options ?ws)" by (simp add: set_flatten_options)
  have "in_all (flatten_options ?ws) s"
    by (auto simp only: in_all_def set_flatten_options set_map image_iff Ball_def
        intro: leg_window_open [OF s, OF sym])
  with intersect_Some_iff [OF int, of s] s have "a \<le> b" by linarith
  with intersect_Some_iff [OF int] have "in_all (flatten_options ?ws) a" "in_all (flatten_options ?ws) b"
    by blast+
  with mem u show "\<exists>w. leg_window pki s p = Some w \<and> fst w \<le> a \<and> b \<le> snd w"
    by (auto simp: in_all_def open_at_def)
qed

section \<open>Properties\<close>


definition demo_pki :: "(window, string) pki" where
  "demo_pki = \<lparr>x509_validity = (\<lambda>w. Inr w),
     webpki_verify = (\<lambda>ee ints name ocsp at.
        if open_at (int at) ee then Inr () else Inl ''expired'')\<rparr>"

definition demo_deferred :: "(window, string) deferred" where
  "demo_deferred = record_chain (record_chain deferred_new ''DoH r'' [(100, 900), (1, 2)] ''r'')
                     ''NTS-KE s'' [(200, 800)] ''s''"


lemma demo_accept:
  "accept demo_deferred demo_pki 500 = Inr \<lparr>ver_seconds = 500, ver_window = Some (200, 800)\<rparr>"
  by code_simp

text \<open>
  The window of an accepted time is honest: any certificate of any recorded chain that was
  valid at the accepted instant is valid at every instant of the window, on both legs and on
  the redirect lookup.
\<close>

theorem accept_window_certificates_valid:
  assumes "accept d pki s = Inr v" and "is_i64 s" and "ver_window v = Some (a, b)"
    and "p \<in> set (def_pending d)" and "cert \<in> set (pend_chain p)"
    and "x509_validity pki cert = Inr w" and "open_at s w" and "a \<le> now" and "now \<le> b"
  shows "open_at now w"
  using assms by (rule pass2.gate_certificates)

theorem accept_window_certificates_valid_witness: "open_at 700 (200, 800)"
proof (rule accept_window_certificates_valid [OF demo_accept, where a = 200 and b = 800])
  show "is_i64 500" by (simp add: is_i64_def i64_min_def i64_max_def)
  show "\<lparr>pend_leg = ''NTS-KE s'', pend_chain = [(200, 800)], pend_server_name = ''s''\<rparr>
          \<in> set (def_pending demo_deferred)"
    by (simp add: demo_deferred_def record_chain_def deferred_new_def)
qed (simp_all add: demo_pki_def open_at_def)

end
