(* ===== verification/Time_Nts.thy ===== *)
theory Time_Nts
  imports Rust_Std
begin

text \<open>
  \<open>packages/time-correction/src/nts.rs\<close>: the NTS-KE record codec of RFC 8915, client side.  The
  byte-level parser \<open>nts_parse_response\<close> is related to a reference at the level of records
  (\<open>run_records\<close>): every accepted message is the encoding of a record sequence the reference
  accepts, and every encoding is parsed as the reference says, whatever follows it.
\<close>

section \<open>Model\<close>

definition NEXT_PROTOCOL_NTPV4 :: u16 where "NEXT_PROTOCOL_NTPV4 = 0"
definition AEAD_AES_SIV_CMAC_256 :: u16 where "AEAD_AES_SIV_CMAC_256 = 15"
definition KEY_LENGTH :: nat where "KEY_LENGTH = 32"

definition RECORD_END_OF_MESSAGE :: u16 where "RECORD_END_OF_MESSAGE = 0"
definition RECORD_NEXT_PROTOCOL :: u16 where "RECORD_NEXT_PROTOCOL = 1"
definition RECORD_ERROR :: u16 where "RECORD_ERROR = 2"
definition RECORD_WARNING :: u16 where "RECORD_WARNING = 3"
definition RECORD_AEAD_ALGORITHM :: u16 where "RECORD_AEAD_ALGORITHM = 4"
definition RECORD_NEW_COOKIE :: u16 where "RECORD_NEW_COOKIE = 5"
definition RECORD_SERVER_NEGOTIATION :: u16 where "RECORD_SERVER_NEGOTIATION = 6"
definition RECORD_PORT_NEGOTIATION :: u16 where "RECORD_PORT_NEGOTIATION = 7"
definition CRITICAL :: u16 where "CRITICAL = 0x8000"

lemmas record_codes = RECORD_END_OF_MESSAGE_def RECORD_NEXT_PROTOCOL_def RECORD_ERROR_def
  RECORD_WARNING_def RECORD_AEAD_ALGORITHM_def RECORD_NEW_COOKIE_def
  RECORD_SERVER_NEGOTIATION_def RECORD_PORT_NEGOTIATION_def CRITICAL_def NEXT_PROTOCOL_NTPV4_def

datatype nts_error =
    TruncatedRecord nat
  | ClaimsUnsentBytes u16 nat
  | NoNextProtocolAgreed
  | NtsServerError "u16 option"
  | NtsServerWarning
  | NoAeadAgreed
  | ServerNotUtf8
  | PortNotTwoBytes
  | UnknownCritical u16
  | NoEndOfMessage
  | WrongNextProtocol u16
  | MissingNextProtocol
  | WrongAead u16
  | MissingAead
  | NoCookies

record agreement =
  agr_aead :: u16
  agr_cookies :: "byte list list"
  agr_server :: "string option"
  agr_port :: "u16 option"

definition exporter_context :: "u16 \<Rightarrow> bool \<Rightarrow> byte list" where
  "exporter_context aead client_to_server =
     be_bytes16 NEXT_PROTOCOL_NTPV4 @ be_bytes16 aead @ [if client_to_server then 0 else 1]"

definition nts_request :: "u16 \<Rightarrow> byte list" where
  "nts_request aead =
     concat (map (\<lambda>(rec, body). be_bytes16 (rec OR CRITICAL) @ be_bytes16 2 @ be_bytes16 body)
       [(RECORD_NEXT_PROTOCOL, NEXT_PROTOCOL_NTPV4), (RECORD_AEAD_ALGORITHM, aead)])
     @ be_bytes16 (RECORD_END_OF_MESSAGE OR CRITICAL) @ be_bytes16 0"

definition nts_u16_at :: "byte list \<Rightarrow> nat \<Rightarrow> (nts_error, u16) result" where
  "nts_u16_at bytes offset =
     res_bind (ok_or (TruncatedRecord offset) (slice_get bytes offset (offset + 2)))
       (\<lambda>slice. Inr (from_be16 (slice ! 0) (slice ! 1)))"

function response_complete_from :: "byte list \<Rightarrow> nat \<Rightarrow> bool" where
  "response_complete_from message offset =
     (if offset + 4 \<le> length message then
        let header = from_be16 (message ! offset) (message ! (offset + 1));
            len = unat (from_be16 (message ! (offset + 2)) (message ! (offset + 3)))
        in if header AND NOT CRITICAL = RECORD_END_OF_MESSAGE then True
           else response_complete_from message (offset + (4 + len))
      else False)"
  by pat_completeness auto
termination
  by (relation "measure (\<lambda>(message, offset). length message - offset)") auto

declare response_complete_from.simps [simp del]

definition response_complete :: "byte list \<Rightarrow> bool" where
  "response_complete message = response_complete_from message 0"

record nts_state =
  ns_next_protocol :: "u16 option"
  ns_aead :: "u16 option"
  ns_cookies :: "byte list list"
  ns_server :: "string option"
  ns_port :: "u16 option"

definition nts_init :: nts_state where
  "nts_init = \<lparr>ns_next_protocol = None, ns_aead = None, ns_cookies = [], ns_server = None,
               ns_port = None\<rparr>"

text \<open>The arms of the \<open>match record\<close>, the end-of-message arm apart (it leaves the loop).\<close>

definition nts_handle_record ::
  "bool \<Rightarrow> u16 \<Rightarrow> byte list \<Rightarrow> nts_state \<Rightarrow> (nts_error, nts_state) result" where
  "nts_handle_record critical rec body st =
     (if rec = RECORD_NEXT_PROTOCOL then
        (if length body \<noteq> 2 then Inl NoNextProtocolAgreed
         else Inr (st\<lparr>ns_next_protocol := Some (from_be16 (body ! 0) (body ! 1))\<rparr>))
      else if rec = RECORD_ERROR then
        Inl (NtsServerError
               (if length body = 2 then Some (from_be16 (body ! 0) (body ! 1)) else None))
      else if rec = RECORD_WARNING then Inl NtsServerWarning
      else if rec = RECORD_AEAD_ALGORITHM then
        (if length body \<noteq> 2 then Inl NoAeadAgreed
         else Inr (st\<lparr>ns_aead := Some (from_be16 (body ! 0) (body ! 1))\<rparr>))
      else if rec = RECORD_NEW_COOKIE then Inr (st\<lparr>ns_cookies := ns_cookies st @ [body]\<rparr>)
      else if rec = RECORD_SERVER_NEGOTIATION then
        res_bind (ok_or ServerNotUtf8 (from_utf8 body)) (\<lambda>s. Inr (st\<lparr>ns_server := Some s\<rparr>))
      else if rec = RECORD_PORT_NEGOTIATION then
        (if length body \<noteq> 2 then Inl PortNotTwoBytes
         else Inr (st\<lparr>ns_port := Some (from_be16 (body ! 0) (body ! 1))\<rparr>))
      else if critical then Inl (UnknownCritical rec)
      else Inr st)"

text \<open>The record loop; the boolean of the result is the variable \<open>ended\<close>.\<close>

function nts_parse_loop ::
  "byte list \<Rightarrow> nat \<Rightarrow> nts_state \<Rightarrow> (nts_error, nts_state \<times> bool) result" where
  "nts_parse_loop message offset st =
     (if offset < length message then
        res_bind (nts_u16_at message offset) (\<lambda>header.
          let critical = (header AND CRITICAL \<noteq> 0);
              rec = header AND NOT CRITICAL in
        res_bind (nts_u16_at message (offset + 2)) (\<lambda>len.
        res_bind (ok_or (ClaimsUnsentBytes rec (unat len))
                    (slice_get message (offset + 4) (offset + 4 + unat len))) (\<lambda>body.
          if rec = RECORD_END_OF_MESSAGE then Inr (st, True)
          else res_bind (nts_handle_record critical rec body st)
                 (\<lambda>st'. nts_parse_loop message (offset + (4 + unat len)) st'))))
      else Inr (st, False))"
  by pat_completeness auto
termination
  by (relation "measure (\<lambda>(message, offset, st). length message - offset)") auto

declare nts_parse_loop.simps [simp del]

text \<open>The checks after the loop.\<close>

definition nts_finish :: "u16 \<Rightarrow> nts_state \<times> bool \<Rightarrow> (nts_error, agreement) result" where
  "nts_finish requested_aead r =
     (let st = fst r in
      if \<not> snd r then Inl NoEndOfMessage
      else case ns_next_protocol st of
        None \<Rightarrow> Inl MissingNextProtocol
      | Some np \<Rightarrow>
          if np \<noteq> NEXT_PROTOCOL_NTPV4 then Inl (WrongNextProtocol np)
          else case ns_aead st of
            None \<Rightarrow> Inl MissingAead
          | Some chosen \<Rightarrow>
              if chosen \<noteq> requested_aead then Inl (WrongAead chosen)
              else if ns_cookies st = [] then Inl NoCookies
              else Inr \<lparr>agr_aead = requested_aead, agr_cookies = ns_cookies st,
                        agr_server = ns_server st, agr_port = ns_port st\<rparr>)"

definition nts_parse_response :: "byte list \<Rightarrow> u16 \<Rightarrow> (nts_error, agreement) result" where
  "nts_parse_response message requested_aead =
     res_bind (nts_parse_loop message 0 nts_init) (nts_finish requested_aead)"

section \<open>Reference: records\<close>

text \<open>A record on the wire is its header word and its body; \<open>run_records\<close> folds the handler.\<close>

type_synonym wire_record = "u16 \<times> byte list"

definition encode_record :: "wire_record \<Rightarrow> byte list" where
  "encode_record r = be_bytes16 (fst r) @ be_bytes16 (of_nat (length (snd r))) @ snd r"

definition encode_records :: "wire_record list \<Rightarrow> byte list" where
  "encode_records rs = concat (map encode_record rs)"

definition is_end :: "wire_record \<Rightarrow> bool" where
  "is_end r \<longleftrightarrow> fst r AND NOT CRITICAL = RECORD_END_OF_MESSAGE"

definition is_critical :: "wire_record \<Rightarrow> bool" where
  "is_critical r \<longleftrightarrow> fst r AND CRITICAL \<noteq> 0"

definition record_type :: "wire_record \<Rightarrow> u16" where
  "record_type r = fst r AND NOT CRITICAL"

definition wf_record :: "wire_record \<Rightarrow> bool" where
  "wf_record r \<longleftrightarrow> length (snd r) < 65536"

fun run_records :: "wire_record list \<Rightarrow> nts_state \<Rightarrow> (nts_error, nts_state) result" where
  "run_records [] st = Inr st"
| "run_records (r # rs) st =
     res_bind (nts_handle_record (is_critical r) (record_type r) (snd r) st) (run_records rs)"

section \<open>Lemmas\<close>

lemma nts_u16_at_append [simp]:
  "offset = length pre \<Longrightarrow> nts_u16_at (pre @ be_bytes16 w @ post) offset = Inr w"
  by (simp add: nts_u16_at_def slice_get_def be_bytes16_def)

lemma nts_u16_at_Inr:
  assumes "nts_u16_at m off = Inr w"
  shows "off + 2 \<le> length m \<and> m ! off = ucast (drop_bit 8 w) \<and> m ! (off + 1) = ucast w"
proof -
  from assms have l: "off + 2 \<le> length m" and w: "w = from_be16 (m ! off) (m ! (off + 1))"
    by (auto simp: nts_u16_at_def result_simps slice_simps)
  have "from_be16 (ucast (drop_bit 8 w)) (ucast w) = w" by simp
  then show ?thesis using l unfolding w from_be16_inject by simp
qed

lemma length_encode_record: "length (encode_record r) = 4 + length (snd r)"
  by (simp add: encode_record_def)

lemma unat_of_len: "wf_record r \<Longrightarrow> unat (of_nat (length (snd r)) :: u16) = length (snd r)"
  by (simp add: wf_record_def unat_of_nat)

text \<open>One turn of the loop on an encoded record.\<close>

lemma nts_parse_loop_record:
  assumes m: "m = pre @ encode_record r @ post" and off: "off = length pre" and wf: "wf_record r"
  shows "nts_parse_loop m off st =
    (if is_end r then Inr (st, True)
     else res_bind (nts_handle_record (is_critical r) (record_type r) (snd r) st)
            (\<lambda>st'. nts_parse_loop m (off + length (encode_record r)) st'))"
proof -
  have h: "nts_u16_at m off = Inr (fst r)"
    using m off by (simp add: encode_record_def)
  have l: "nts_u16_at m (off + 2) = Inr (of_nat (length (snd r)))"
    using nts_u16_at_append [of "off + 2" "pre @ be_bytes16 (fst r)" "of_nat (length (snd r))" "snd r @ post"]
      m off by (simp add: encode_record_def)
  have b: "slice_get m (off + 4) (off + 4 + length (snd r)) = Some (snd r)"
    using slice_get_middle [of "off + 4" "pre @ be_bytes16 (fst r) @ be_bytes16 (of_nat (length (snd r)))"
        "off + 4 + length (snd r)" "snd r" post] m off
    by (simp add: encode_record_def)
  have "off < length m" using m off by (simp add: encode_record_def)
  then show ?thesis
    by (subst nts_parse_loop.simps)
       (simp add: h l b unat_of_len [OF wf] is_end_def is_critical_def record_type_def
         length_encode_record Let_def del: add_2_eq_Suc add_2_eq_Suc')
qed

lemma nts_parse_loop_records:
  assumes "\<forall>r \<in> set rs. wf_record r \<and> \<not> is_end r" and "wf_record e" and "is_end e"
  shows "nts_parse_loop (pre @ encode_records rs @ encode_record e @ post) (length pre) st =
    res_bind (run_records rs st) (\<lambda>st'. Inr (st', True))"
  using assms(1)
proof (induction rs arbitrary: pre st)
  case Nil
  show ?case
    using nts_parse_loop_record [OF _ refl assms(2), of _ pre post st] assms(3)
    by (simp add: encode_records_def)
next
  case (Cons r rs)
  let ?m = "pre @ encode_records (r # rs) @ encode_record e @ post"
  have m: "?m = pre @ encode_record r @ (encode_records rs @ encode_record e @ post)"
    "?m = (pre @ encode_record r) @ encode_records rs @ encode_record e @ post"
    by (simp_all add: encode_records_def)
  have "nts_parse_loop ?m (length pre) st =
    res_bind (nts_handle_record (is_critical r) (record_type r) (snd r) st)
      (\<lambda>st'. nts_parse_loop ?m (length pre + length (encode_record r)) st')"
    using nts_parse_loop_record [OF m(1) refl, of st] Cons.prems by simp
  also have "\<dots> = res_bind (nts_handle_record (is_critical r) (record_type r) (snd r) st)
      (\<lambda>st'. res_bind (run_records rs st') (\<lambda>st'. Inr (st', True)))"
    using Cons.IH [of "pre @ encode_record r"] Cons.prems unfolding m(2) by simp
  finally show ?case
    by (cases "nts_handle_record (is_critical r) (record_type r) (snd r) st") simp_all
qed

text \<open>Conversely, what the loop reads at an offset is an encoded record.\<close>

lemma encode_record_at:
  assumes "nts_u16_at m off = Inr h" and "nts_u16_at m (off + 2) = Inr len"
    and "slice_get m (off + 4) (off + 4 + unat len) = Some body"
  shows "drop off m = encode_record (h, body) @ drop (off + (4 + unat len)) m"
    and "wf_record (h, body)"
proof -
  from assms(3) have b: "off + 4 + unat len \<le> length m" "body = take (unat len) (drop (off + 4) m)"
    by (auto simp: slice_simps)
  then have lb: "length body = unat len" by simp
  have "unat len < 2 ^ LENGTH(16)" by (rule unsigned_less)
  then show "wf_record (h, body)" by (simp add: wf_record_def lb)
  have "drop off m = m ! off # m ! (off + 1) # m ! (off + 2) # m ! (off + 3) # drop (off + 4) m"
    using b(1) by (simp add: Cons_nth_drop_Suc eval_nat_numeral)
  also have "\<dots> = be_bytes16 h @ be_bytes16 len @ drop (off + 4) m"
    using nts_u16_at_Inr [OF assms(1)] nts_u16_at_Inr [OF assms(2)]
    by (simp add: be_bytes16_def eval_nat_numeral)
  also have "drop (off + 4) m = body @ drop (off + (4 + unat len)) m"
  proof -
    have "drop (off + (4 + unat len)) m = drop (unat len) (drop (off + 4) m)"
      by (simp add: add.commute add.left_commute)
    then show ?thesis by (simp only: b(2) append_take_drop_id)
  qed
  finally show "drop off m = encode_record (h, body) @ drop (off + (4 + unat len)) m"
    by (simp add: encode_record_def lb)
qed

lemma nts_parse_loop_inv:
  "nts_parse_loop m off st = Inr (st', True) \<Longrightarrow>
   \<exists>rs e post. drop off m = encode_records rs @ encode_record e @ post \<and>
     (\<forall>r \<in> set rs. wf_record r \<and> \<not> is_end r) \<and> wf_record e \<and> is_end e \<and>
     run_records rs st = Inr st'"
proof (induction m off st rule: nts_parse_loop.induct)
  case (1 m off st)
  have "off < length m" using "1.prems" by (subst (asm) nts_parse_loop.simps) (simp split: if_splits)
  with "1.prems" obtain h len body where
    h: "nts_u16_at m off = Inr h" and len: "nts_u16_at m (off + 2) = Inr len"
    and body: "slice_get m (off + 4) (off + 4 + unat len) = Some body"
    and nx: "(if h AND NOT CRITICAL = RECORD_END_OF_MESSAGE then Inr (st, True)
      else res_bind (nts_handle_record (h AND CRITICAL \<noteq> 0) (h AND NOT CRITICAL) body st)
             (\<lambda>st'. nts_parse_loop m (off + (4 + unat len)) st')) = Inr (st', True)"
    by (subst (asm) nts_parse_loop.simps) (auto simp: result_simps Let_def simp del: add_2_eq_Suc')
  note dec = encode_record_at [OF h len body]
  show ?case
  proof (cases "is_end (h, body)")
    case True
    with nx have "st' = st" by (simp add: is_end_def)
    with dec True show ?thesis
      by (intro exI [of _ "[]"] exI [of _ "(h, body)"] exI [of _ "drop (off + (4 + unat len)) m"])
         (simp add: encode_records_def)
  next
    case False
    with nx obtain st1 where
      hd: "nts_handle_record (h AND CRITICAL \<noteq> 0) (h AND NOT CRITICAL) body st = Inr st1" and
      tl: "nts_parse_loop m (off + (4 + unat len)) st1 = Inr (st', True)"
      by (auto simp: is_end_def result_simps)
    from "1.IH" [OF \<open>off < length m\<close> _ _ False [unfolded is_end_def fst_conv] tl]
    obtain rs e post where ih: "drop (off + (4 + unat len)) m = encode_records rs @ encode_record e @ post"
      "\<forall>r \<in> set rs. wf_record r \<and> \<not> is_end r" "wf_record e" "is_end e" "run_records rs st1 = Inr st'"
      by blast
    show ?thesis
      using dec ih hd False
      by (intro exI [of _ "(h, body) # rs"] exI [of _ e] exI [of _ post])
         (auto simp: encode_records_def is_critical_def record_type_def)
  qed
qed

lemma nts_finish_Inr_ended: "nts_finish aead r = Inr a \<Longrightarrow> snd r"
  by (auto simp: nts_finish_def Let_def split: if_splits)

lemma nts_parse_response_iff:
  "nts_parse_response m aead = Inr a \<longleftrightarrow>
   (\<exists>rs e post st. m = encode_records rs @ encode_record e @ post \<and>
     (\<forall>r \<in> set rs. wf_record r \<and> \<not> is_end r) \<and> wf_record e \<and> is_end e \<and>
     run_records rs nts_init = Inr st \<and> nts_finish aead (st, True) = Inr a)"
proof
  assume "nts_parse_response m aead = Inr a"
  then obtain st where "nts_parse_loop m 0 nts_init = Inr (st, True)" "nts_finish aead (st, True) = Inr a"
    using nts_finish_Inr_ended by (fastforce simp: nts_parse_response_def result_simps)
  with nts_parse_loop_inv [of m 0] show "\<exists>rs e post st. m = encode_records rs @ encode_record e @ post \<and>
     (\<forall>r \<in> set rs. wf_record r \<and> \<not> is_end r) \<and> wf_record e \<and> is_end e \<and>
     run_records rs nts_init = Inr st \<and> nts_finish aead (st, True) = Inr a"
    by fastforce
next
  assume "\<exists>rs e post st. m = encode_records rs @ encode_record e @ post \<and>
     (\<forall>r \<in> set rs. wf_record r \<and> \<not> is_end r) \<and> wf_record e \<and> is_end e \<and>
     run_records rs nts_init = Inr st \<and> nts_finish aead (st, True) = Inr a"
  then show "nts_parse_response m aead = Inr a"
    using nts_parse_loop_records [of _ _ "[]"] by (fastforce simp: nts_parse_response_def)
qed

lemma run_records_known:
  "run_records rs st = Inr st' \<Longrightarrow> r \<in> set rs \<Longrightarrow>
   record_type r \<noteq> RECORD_ERROR \<and> record_type r \<noteq> RECORD_WARNING \<and>
   (is_critical r \<longrightarrow> record_type r \<in> {RECORD_NEXT_PROTOCOL, RECORD_AEAD_ALGORITHM, RECORD_NEW_COOKIE,
      RECORD_SERVER_NEGOTIATION, RECORD_PORT_NEGOTIATION})"
proof (induction rs arbitrary: st)
  case (Cons x xs)
  then obtain st1 where
    hd: "nts_handle_record (is_critical x) (record_type x) (snd x) st = Inr st1" and
    tl: "run_records xs st1 = Inr st'"
    by (auto simp: result_simps)
  show ?case
  proof (cases "r = x")
    case True
    with hd show ?thesis
      by (auto simp: nts_handle_record_def record_codes result_simps split: if_splits)
  next
    case False
    with Cons tl show ?thesis by auto
  qed
qed simp

text \<open>Completeness of a prefix is what ends the reading loop.\<close>

definition hdr_at :: "byte list \<Rightarrow> nat \<Rightarrow> u16" where
  "hdr_at m off = from_be16 (m ! off) (m ! (off + 1))"

definition len_at :: "byte list \<Rightarrow> nat \<Rightarrow> nat" where
  "len_at m off = unat (from_be16 (m ! (off + 2)) (m ! (off + 3)))"

lemma response_complete_unfold:
  "response_complete_from m off \<longleftrightarrow> off + 4 \<le> length m \<and>
     (hdr_at m off AND NOT CRITICAL = RECORD_END_OF_MESSAGE \<or>
      response_complete_from m (off + (4 + len_at m off)))"
  by (subst response_complete_from.simps) (simp add: hdr_at_def len_at_def Let_def)

lemma hdr_len_append:
  "off + 4 \<le> length m \<Longrightarrow> hdr_at (m @ x) off = hdr_at m off \<and> len_at (m @ x) off = len_at m off"
  by (simp add: hdr_at_def len_at_def nth_append)

lemma hdr_len_record:
  assumes "wf_record r"
  shows "hdr_at (pre @ encode_record r @ post) (length pre) = fst r"
    and "len_at (pre @ encode_record r @ post) (length pre) = length (snd r)"
  using unat_of_len [OF assms]
  by (simp_all add: hdr_at_def len_at_def encode_record_def be_bytes16_def nth_append)

lemma response_complete_from_append:
  "response_complete_from m off \<Longrightarrow> response_complete_from (m @ x) off"
proof (induction m off rule: response_complete_from.induct)
  case (1 m off)
  note unf = response_complete_unfold [of m off]
  from "1.prems" have l: "off + 4 \<le> length m" using unf by blast
  show ?case
  proof (cases "hdr_at m off AND NOT CRITICAL = RECORD_END_OF_MESSAGE")
    case True
    with l show ?thesis
      by (subst response_complete_unfold) (simp add: hdr_len_append)
  next
    case False
    with "1.prems" have "response_complete_from m (off + (4 + len_at m off))" using unf by blast
    with "1.IH" [OF l refl refl] False
    have "response_complete_from (m @ x) (off + (4 + len_at m off))"
      by (simp add: hdr_at_def len_at_def)
    with l show ?thesis
      by (subst response_complete_unfold) (simp add: hdr_len_append)
  qed
qed

lemma response_complete_from_records:
  assumes "\<forall>r \<in> set rs. wf_record r" and "is_end e" and "wf_record e"
  shows "response_complete_from (pre @ encode_records rs @ encode_record e @ post) (length pre)"
  using assms(1)
proof (induction rs arbitrary: pre)
  case Nil
  then show ?case
    using assms(2) hdr_len_record(1) [OF assms(3), of pre post]
    by (subst response_complete_unfold)
       (simp add: encode_records_def length_encode_record is_end_def)
next
  case (Cons r rs)
  let ?m = "pre @ encode_records (r # rs) @ encode_record e @ post"
  have m: "?m = (pre @ encode_record r) @ encode_records rs @ encode_record e @ post"
    "?m = pre @ encode_record r @ (encode_records rs @ encode_record e @ post)"
    by (simp_all add: encode_records_def)
  have "response_complete_from ?m (length (pre @ encode_record r))"
    using Cons.IH [of "pre @ encode_record r"] Cons.prems unfolding m(1) by simp
  moreover have "len_at ?m (length pre) = length (snd r)"
    using Cons.prems unfolding m(2) by (intro hdr_len_record(2)) simp
  moreover have "length pre + 4 \<le> length ?m" unfolding m(2) by (simp add: length_encode_record)
  ultimately show ?case
    by (subst response_complete_unfold) (simp add: length_encode_record)
qed

text \<open>No strict prefix of a message that ends in an empty end-of-message record is complete.\<close>

lemma response_incomplete_prefix:
  assumes "p @ x = pre @ encode_records rs @ encode_record e" and "x \<noteq> []"
    and "\<forall>r \<in> set rs. wf_record r \<and> \<not> is_end r" and "snd e = []"
  shows "\<not> response_complete_from p (length pre)"
  using assms(1,3)
proof (induction rs arbitrary: pre)
  case Nil
  from arg_cong [OF Nil.prems(1), of length] assms(2,4) have "length p < length pre + 4"
    by (cases x) (simp_all add: encode_records_def length_encode_record)
  then show ?case by (subst response_complete_unfold) simp
next
  case (Cons r rs)
  let ?post = "encode_records rs @ encode_record e"
  have px: "p @ x = pre @ encode_record r @ ?post" "p @ x = (pre @ encode_record r) @ ?post"
    using Cons.prems(1) by (simp_all add: encode_records_def)
  have IH: "\<not> response_complete_from p (length (pre @ encode_record r))"
    using Cons.IH [OF px(2)] Cons.prems(2) by simp
  show ?case
  proof
    assume c: "response_complete_from p (length pre)"
    then have l: "length pre + 4 \<le> length p" by (subst (asm) response_complete_unfold) blast
    have "hdr_at p (length pre) = fst r" and "len_at p (length pre) = length (snd r)"
      using hdr_len_append [OF l, of x] hdr_len_record [of r pre ?post] Cons.prems(2)
      unfolding px(1) by simp_all
    with c Cons.prems(2) have "response_complete_from p (length pre + (4 + length (snd r)))"
      by (subst (asm) response_complete_unfold) (simp add: is_end_def)
    with IH show False by (simp add: length_encode_record)
  qed
qed

section \<open>Properties\<close>

text \<open>
  C9. The parser is exactly the record protocol: a message is accepted with an agreement if and
  only if it is the encoding of a sequence of non-terminating records followed by an
  end-of-message record (and anything after it), and folding the record handler over that
  sequence and applying the final checks gives that agreement.
\<close>

theorem nts_parse_response_refines_records:
  "nts_parse_response m aead = Inr a \<longleftrightarrow>
   (\<exists>rs e post st. m = encode_records rs @ encode_record e @ post \<and>
     (\<forall>r \<in> set rs. wf_record r \<and> \<not> is_end r) \<and> wf_record e \<and> is_end e \<and>
     run_records rs nts_init = Inr st \<and> nts_finish aead (st, True) = Inr a)"
  by (rule nts_parse_response_iff)

text \<open>
  The extensibility contract: in an accepted response every record before the end marker that
  carries the critical bit is one the client implements, and there is no error and no warning
  record, critical or not.
\<close>

theorem nts_accepted_no_unknown_critical:
  assumes "nts_parse_response m aead = Inr a"
  shows "\<exists>rs e post. m = encode_records rs @ encode_record e @ post \<and> is_end e \<and>
    (\<forall>r \<in> set rs. record_type r \<noteq> RECORD_ERROR \<and> record_type r \<noteq> RECORD_WARNING \<and>
       (is_critical r \<longrightarrow> record_type r \<in> {RECORD_NEXT_PROTOCOL, RECORD_AEAD_ALGORITHM,
          RECORD_NEW_COOKIE, RECORD_SERVER_NEGOTIATION, RECORD_PORT_NEGOTIATION}))"
proof -
  from assms [unfolded nts_parse_response_iff] obtain rs e post st
    where "m = encode_records rs @ encode_record e @ post" "is_end e"
      and run: "run_records rs nts_init = Inr st"
    by blast
  moreover note run_records_known [OF run]
  ultimately show ?thesis by blast
qed

definition demo_ke_bytes :: "byte list" where
  "demo_ke_bytes = [0x80, 1, 0, 2, 0, 0,  0x80, 4, 0, 2, 0, 15,  0, 5, 0, 3, 7, 8, 9,  0, 0x63, 0, 1, 1,
                    0x80, 7, 0, 2, 0x10, 0x1B,  0x80, 0, 0, 0]"

lemma demo_ke_parse:
  "nts_parse_response demo_ke_bytes AEAD_AES_SIV_CMAC_256 =
     Inr \<lparr>agr_aead = 15, agr_cookies = [[7, 8, 9]], agr_server = None, agr_port = Some 4123\<rparr>"
  by (simp add: nts_parse_response_def demo_ke_bytes_def nts_parse_loop.simps nts_u16_at_def
      slice_get_def from_be16_def record_codes nts_handle_record_def nts_finish_def nts_init_def
      AEAD_AES_SIV_CMAC_256_def)

theorem nts_parse_response_refines_records_witness:
  "\<exists>rs e post st. demo_ke_bytes = encode_records rs @ encode_record e @ post \<and>
     (\<forall>r \<in> set rs. wf_record r \<and> \<not> is_end r) \<and> wf_record e \<and> is_end e \<and>
     run_records rs nts_init = Inr st \<and>
     nts_finish AEAD_AES_SIV_CMAC_256 (st, True) =
       Inr \<lparr>agr_aead = 15, agr_cookies = [[7, 8, 9]], agr_server = None, agr_port = Some 4123\<rparr>"
  using demo_ke_parse unfolding nts_parse_response_refines_records .

theorem nts_accepted_no_unknown_critical_witness:
  "\<exists>rs e post. demo_ke_bytes = encode_records rs @ encode_record e @ post \<and> is_end e \<and>
    (\<forall>r \<in> set rs. record_type r \<noteq> RECORD_ERROR \<and> record_type r \<noteq> RECORD_WARNING \<and>
       (is_critical r \<longrightarrow> record_type r \<in> {RECORD_NEXT_PROTOCOL, RECORD_AEAD_ALGORITHM,
          RECORD_NEW_COOKIE, RECORD_SERVER_NEGOTIATION, RECORD_PORT_NEGOTIATION}))"
  using demo_ke_parse by (rule nts_accepted_no_unknown_critical)

text \<open>
  Stopping to read is safe: every accepted response counts as complete, so the reading loop
  never stops short of it; and once a prefix is complete and accepted, the bytes that would
  still have arrived cannot change the outcome.
\<close>

theorem nts_complete_prefix_decides:
  assumes "nts_parse_response m aead = Inr a"
  shows "response_complete m \<and> response_complete (m @ extra) \<and>
    nts_parse_response (m @ extra) aead = Inr a"
proof -
  from assms [unfolded nts_parse_response_iff] obtain rs e post st
    where m: "m = encode_records rs @ encode_record e @ post"
      and rs: "\<forall>r \<in> set rs. wf_record r \<and> \<not> is_end r" and e: "wf_record e" "is_end e"
      and run: "run_records rs nts_init = Inr st" "nts_finish aead (st, True) = Inr a"
    by blast
  have "response_complete m"
    using response_complete_from_records [of rs e "[]" post] rs e m by (simp add: response_complete_def)
  moreover have "nts_parse_response (m @ extra) aead = Inr a"
    unfolding nts_parse_response_iff
    using m rs e run by (intro exI [of _ rs] exI [of _ e] exI [of _ "post @ extra"]) auto
  ultimately show ?thesis
    by (simp add: response_complete_def response_complete_from_append)
qed

theorem nts_complete_prefix_decides_witness:
  "response_complete demo_ke_bytes \<and> response_complete (demo_ke_bytes @ [1, 2]) \<and>
   nts_parse_response (demo_ke_bytes @ [1, 2]) AEAD_AES_SIV_CMAC_256 =
     Inr \<lparr>agr_aead = 15, agr_cookies = [[7, 8, 9]], agr_server = None, agr_port = Some 4123\<rparr>"
  using demo_ke_parse by (rule nts_complete_prefix_decides)

text \<open>
  The client's request is the three-record message the protocol asks for, all critical, and the
  two exporter contexts of a session differ, so the two directions never share a key.
\<close>

theorem nts_request_well_formed:
  "nts_request aead =
     encode_records [(RECORD_NEXT_PROTOCOL OR CRITICAL, be_bytes16 NEXT_PROTOCOL_NTPV4),
                     (RECORD_AEAD_ALGORITHM OR CRITICAL, be_bytes16 aead),
                     (RECORD_END_OF_MESSAGE OR CRITICAL, [])] \<and>
   response_complete (nts_request aead) \<and>
   exporter_context aead True \<noteq> exporter_context aead' False"
proof -
  let ?e = "(RECORD_END_OF_MESSAGE OR CRITICAL, []) :: wire_record"
  let ?rs = "[(RECORD_NEXT_PROTOCOL OR CRITICAL, be_bytes16 NEXT_PROTOCOL_NTPV4),
              (RECORD_AEAD_ALGORITHM OR CRITICAL, be_bytes16 aead)]"
  have req: "nts_request aead = encode_records ?rs @ encode_record ?e @ []"
    by (simp add: nts_request_def encode_records_def encode_record_def)
  have "response_complete (nts_request aead)"
    using response_complete_from_records [of ?rs ?e "[]" "[]"]
    by (simp add: response_complete_def req wf_record_def is_end_def record_codes)
  moreover have "exporter_context aead True \<noteq> exporter_context aead' False"
    by (simp add: exporter_context_def)
  ultimately show ?thesis by (simp add: req encode_records_def)
qed

end
