(* ===== verification/Time_Ntp.thy ===== *)
theory Time_Ntp
  imports Prelude
begin

text \<open>
  \<open>packages/time-correction/src/ntp.rs\<close>: NTPv4 with the NTS extension fields, one exchange.
  AES-SIV is a library outside the repository: the record \<open>siv\<close> holds its key check, encryption
  and decryption (each over a vector of associated data), and is an argument of \<open>build_request\<close>
  and \<open>ntp_parse_response\<close>.
\<close>

section \<open>Model\<close>

record siv =
  siv_key_ok :: "byte list \<Rightarrow> bool"
  siv_encrypt :: "byte list \<Rightarrow> byte list list \<Rightarrow> byte list \<Rightarrow> byte list option"
  siv_decrypt :: "byte list \<Rightarrow> byte list list \<Rightarrow> byte list \<Rightarrow> byte list option"

datatype ntp_error =
    BadFieldLength nat nat
  | FieldPastPacket nat
  | BadKeyLength nat
  | CannotAuthenticate
  | ShorterThanHeader nat
  | NotServerMode byte
  | UnsynchronisedClock
  | KissOfDeath
  | NotAuthenticated
  | NoUniqueIdentifier
  | IdentifierNotCovered
  | IdentifierMismatch
  | AuthenticatorTooShort
  | NoncePastField
  | CiphertextPastField
  | AuthenticationFailed
  | NoTransmitTimestamp
  | ZeroTransmitTimestamp

definition NTP_TO_UNIX :: int where "NTP_TO_UNIX = 2208988800"
definition EF_UNIQUE_IDENTIFIER :: u16 where "EF_UNIQUE_IDENTIFIER = 0x0104"
definition EF_COOKIE :: u16 where "EF_COOKIE = 0x0204"
definition EF_AUTHENTICATOR :: u16 where "EF_AUTHENTICATOR = 0x0404"
definition HEADER_LENGTH :: nat where "HEADER_LENGTH = 48"
definition UNIQUE_ID_LENGTH :: nat where "UNIQUE_ID_LENGTH = 32"
definition NONCE_LENGTH :: nat where "NONCE_LENGTH = 16"

lemmas ef_codes = EF_UNIQUE_IDENTIFIER_def EF_COOKIE_def EF_AUTHENTICATOR_def

text \<open>\<open>n.div_ceil(4) * 4\<close>.\<close>

definition pad4 :: "nat \<Rightarrow> nat" where
  "pad4 n = ((n + 3) div 4) * 4"

definition extension_field :: "u16 \<Rightarrow> byte list \<Rightarrow> byte list" where
  "extension_field kind body =
     (let padded = pad4 (length body)
      in be_bytes16 kind @ be_bytes16 (of_nat (4 + padded)) @ body
         @ replicate (padded - length body) 0)"

function ef_loop ::
  "byte list \<Rightarrow> nat \<Rightarrow> (u16 \<times> nat \<times> nat) list \<Rightarrow> (ntp_error, (u16 \<times> nat \<times> nat) list) result" where
  "ef_loop packet offset found =
     (if offset + 4 \<le> length packet then
        let kind = from_be16 (packet ! offset) (packet ! (offset + 1));
            len = unat (from_be16 (packet ! (offset + 2)) (packet ! (offset + 3)))
        in if len < 4 \<or> len mod 4 \<noteq> 0 then Inl (BadFieldLength offset len)
           else if length packet < offset + len then Inl (FieldPastPacket offset)
           else ef_loop packet (offset + len) (found @ [(kind, offset + 4, offset + len)])
      else Inr found)"
  by pat_completeness auto
termination
  by (relation "measure (\<lambda>(packet, offset, found). length packet - offset)") auto

declare ef_loop.simps [simp del]

definition extension_fields :: "byte list \<Rightarrow> (ntp_error, (u16 \<times> nat \<times> nat) list) result" where
  "extension_fields packet = ef_loop packet HEADER_LENGTH []"

record ntp_request =
  req_packet :: "byte list"
  req_unique_id :: "byte list"

definition build_request ::
  "siv \<Rightarrow> byte list \<Rightarrow> byte list \<Rightarrow> byte list \<Rightarrow> byte list \<Rightarrow> (ntp_error, ntp_request) result" where
  "build_request siv cookie c2s unique_id nonce =
     (let packet = 0x23 # replicate (HEADER_LENGTH - 1) 0;
          packet = packet @ extension_field EF_UNIQUE_IDENTIFIER unique_id;
          packet = packet @ extension_field EF_COOKIE cookie
      in if \<not> siv_key_ok siv c2s then Inl (BadKeyLength (length c2s))
         else
           res_bind (ok_or CannotAuthenticate (siv_encrypt siv c2s [packet, nonce] []))
             (\<lambda>ciphertext.
               let body = be_bytes16 (of_nat NONCE_LENGTH) @ be_bytes16 (of_nat (length ciphertext))
                          @ nonce @ ciphertext
               in Inr \<lparr>req_packet = packet @ extension_field EF_AUTHENTICATOR body,
                       req_unique_id = unique_id\<rparr>))"

definition transmit_timestamp :: "byte list \<Rightarrow> (ntp_error, int) result" where
  "transmit_timestamp packet =
     res_bind (ok_or NoTransmitTimestamp (slice_get packet 40 44)) (\<lambda>bytes.
       let era0 = from_be32 (bytes ! 0) (bytes ! 1) (bytes ! 2) (bytes ! 3)
       in if era0 = 0 then Inl ZeroTransmitTimestamp
          else Inr (if 2147483648 \<le> era0 then uint era0 - NTP_TO_UNIX
                    else uint era0 + 4294967296 - NTP_TO_UNIX))"

definition find_field :: "u16 \<Rightarrow> (u16 \<times> nat \<times> nat) list \<Rightarrow> (u16 \<times> nat \<times> nat) option" where
  "find_field k fs = find (\<lambda>(kind, _, _). kind = k) fs"

text \<open>From the authenticator's body: nonce, ciphertext, then the decryption.\<close>

definition check_authenticator ::
  "siv \<Rightarrow> byte list \<Rightarrow> byte list \<Rightarrow> nat \<Rightarrow> nat \<Rightarrow> (ntp_error, unit) result" where
  "check_authenticator siv s2c packet auth_start auth_end =
     (let body = take (auth_end - auth_start) (drop auth_start packet) in
      if length body < 4 then Inl AuthenticatorTooShort
      else
        let nonce_length = unat (from_be16 (body ! 0) (body ! 1));
            cipher_length = unat (from_be16 (body ! 2) (body ! 3));
            nonce_padded = pad4 nonce_length in
        res_bind (ok_or NoncePastField (slice_get body 4 (4 + nonce_length))) (\<lambda>nonce.
        res_bind (ok_or CiphertextPastField
                    (slice_get body (4 + nonce_padded) (4 + nonce_padded + cipher_length)))
          (\<lambda>ciphertext.
            let associated = take (auth_start - 4) packet in
            if \<not> siv_key_ok siv s2c then Inl (BadKeyLength (length s2c))
            else res_bind (ok_or AuthenticationFailed
                             (siv_decrypt siv s2c [associated, nonce] ciphertext)) (\<lambda>_. Inr ()))))"

definition ntp_parse_response ::
  "siv \<Rightarrow> byte list \<Rightarrow> byte list \<Rightarrow> byte list \<Rightarrow> (ntp_error, int) result" where
  "ntp_parse_response siv packet s2c expected_unique_id =
     (if length packet < HEADER_LENGTH then Inl (ShorterThanHeader (length packet))
      else if packet ! 0 AND 0x07 \<noteq> 4 then Inl (NotServerMode (packet ! 0 AND 0x07))
      else if drop_bit 6 (packet ! 0) = 3 then Inl UnsynchronisedClock
      else if packet ! 1 = 0 then Inl KissOfDeath
      else
        res_bind (extension_fields packet) (\<lambda>fs.
        res_bind (ok_or NotAuthenticated (find_field EF_AUTHENTICATOR fs))
          (\<lambda>(_, auth_start, auth_end).
        res_bind (ok_or NoUniqueIdentifier (find_field EF_UNIQUE_IDENTIFIER fs))
          (\<lambda>(_, uid_start, uid_end).
            if auth_start < uid_end then Inl IdentifierNotCovered
            else if take (uid_end - uid_start) (drop uid_start packet) \<noteq> expected_unique_id
            then Inl IdentifierMismatch
            else res_bind (check_authenticator siv s2c packet auth_start auth_end)
                   (\<lambda>_. transmit_timestamp packet)))))"

section \<open>Lemmas\<close>

text \<open>The extension fields of a packet, as a tiling of the bytes after the header.\<close>

fun tiles :: "byte list \<Rightarrow> nat \<Rightarrow> (u16 \<times> nat \<times> nat) list \<Rightarrow> bool" where
  "tiles p off [] = (length p < off + 4)"
| "tiles p off ((k, s, e) # fs) =
     (s = off + 4 \<and> s \<le> e \<and> e \<le> length p \<and> 4 dvd (e - off) \<and>
      from_be16 (p ! off) (p ! (off + 1)) = k \<and>
      unat (from_be16 (p ! (off + 2)) (p ! (off + 3))) = e - off \<and>
      tiles p e fs)"

lemma ef_loop_tiles:
  "ef_loop p off found = Inr fs \<longleftrightarrow> (\<exists>gs. fs = found @ gs \<and> tiles p off gs)"
proof (induction p off found rule: ef_loop.induct)
  case (1 p off found)
  let ?k = "from_be16 (p ! off) (p ! (off + 1))"
  let ?l = "unat (from_be16 (p ! (off + 2)) (p ! (off + 3)))"
  note unf = ef_loop.simps [of p off found]
  show ?case
  proof (cases "off + 4 \<le> length p \<and> 4 \<le> ?l \<and> ?l mod 4 = 0 \<and> off + ?l \<le> length p")
    case True
    then have "ef_loop p off found = ef_loop p (off + ?l) (found @ [(?k, off + 4, off + ?l)])"
      by (subst unf) (simp add: Let_def)
    moreover have "ef_loop p (off + ?l) (found @ [(?k, off + 4, off + ?l)]) = Inr fs \<longleftrightarrow>
        (\<exists>gs. fs = (found @ [(?k, off + 4, off + ?l)]) @ gs \<and> tiles p (off + ?l) gs)"
      using "1.IH" True by auto
    moreover have "tiles p off gs \<longleftrightarrow> (\<exists>hs. gs = (?k, off + 4, off + ?l) # hs \<and> tiles p (off + ?l) hs)"
      for gs
      using True by (cases gs) (auto simp: mod_0_imp_dvd)
    ultimately show ?thesis by auto
  next
    case False
    show ?thesis
    proof (cases "off + 4 \<le> length p")
      case True
      with False have "\<nexists>fs. ef_loop p off found = Inr fs"
        by (subst unf) (auto simp: Let_def)
      moreover have "\<not> tiles p off gs" for gs
        using True False by (cases gs) (auto simp: dvd_imp_mod_0)
      ultimately show ?thesis by auto
    next
      case False
      then have "ef_loop p off found = Inr found" by (subst unf) simp
      moreover have "tiles p off gs \<longleftrightarrow> gs = []" for gs
        using False by (cases gs) auto
      ultimately show ?thesis by auto
    qed
  qed
qed

lemma extension_fields_tiles: "extension_fields p = Inr fs \<longleftrightarrow> tiles p HEADER_LENGTH fs"
  by (simp add: extension_fields_def ef_loop_tiles)

lemma tiles_bounds:
  "tiles p off fs \<Longrightarrow> (k, s, e) \<in> set fs \<Longrightarrow> off + 4 \<le> s \<and> s \<le> e \<and> e \<le> length p"
  by (induction fs arbitrary: off) (auto, fastforce)

lemma tiles_prefix_field:
  "tiles p off fs \<Longrightarrow> (k, s, e) \<in> set fs \<Longrightarrow> e \<le> n \<Longrightarrow> n \<le> length p \<Longrightarrow>
   from_be16 (take n p ! (s - 4)) (take n p ! (s - 3)) = k \<and>
   unat (from_be16 (take n p ! (s - 2)) (take n p ! (s - 1))) = e - (s - 4)"
  by (induction fs arbitrary: off) (auto simp: add.commute)

lemma find_field_mem: "find_field k fs = Some (k', s, e) \<Longrightarrow> (k, s, e) \<in> set fs"
  by (auto simp: find_field_def find_Some_iff) (metis nth_mem)

lemma transmit_timestamp_take:
  "44 \<le> n \<Longrightarrow> n \<le> length p \<Longrightarrow> transmit_timestamp (take n p) = transmit_timestamp p"
  by (simp add: transmit_timestamp_def slice_get_def drop_take min_def)

lemma check_authenticator_Inr:
  "check_authenticator siv s2c p a e = Inr u \<Longrightarrow>
   siv_key_ok siv s2c \<and> (\<exists>nonce ct. siv_decrypt siv s2c [take (a - 4) p, nonce] ct \<noteq> None)"
  by (auto simp: check_authenticator_def Let_def result_simps split: if_splits)

lemma pad4_ge: "n \<le> pad4 n" and pad4_dvd: "4 dvd pad4 n"
  by (simp_all add: pad4_def)

lemma length_extension_field: "length (extension_field k body) = 4 + pad4 (length body)"
  using pad4_ge [of "length body"] by (simp add: extension_field_def Let_def)

text \<open>A field written by \<open>extension_field\<close> is read back as one tile.\<close>

lemma tiles_field:
  assumes p: "p = pre @ extension_field k body @ post" and off: "off = length pre"
    and small: "4 + pad4 (length body) < 65536" and e: "e = off + 4 + pad4 (length body)"
  shows "tiles p off ((k, off + 4, e) # fs) \<longleftrightarrow> tiles p e fs"
proof -
  have "unat (of_nat (4 + pad4 (length body)) :: u16) = 4 + pad4 (length body)"
    by (rule unat_of_nat_u16 [OF small])
  moreover have "p ! off = ucast (drop_bit 8 k)" "p ! (off + 1) = ucast k"
    "p ! (off + 2) = ucast (drop_bit 8 (of_nat (4 + pad4 (length body)) :: u16))"
    "p ! (off + 3) = ucast (of_nat (4 + pad4 (length body)) :: u16)"
    unfolding p off by (simp_all add: extension_field_def Let_def be_bytes16_def nth_append)
  moreover have "e \<le> length p" unfolding e p off by (simp add: length_extension_field)
  moreover have "4 dvd e - off" unfolding e using pad4_dvd [of "length body"] by simp
  ultimately show ?thesis by (simp add: e)
qed

lemma ntp_parse_response_Inr:
  assumes "ntp_parse_response siv p s2c uid = Inr t"
  obtains fs a e us ue where
    "HEADER_LENGTH \<le> length p" "tiles p HEADER_LENGTH fs"
    "(EF_AUTHENTICATOR, a, e) \<in> set fs" "(EF_UNIQUE_IDENTIFIER, us, ue) \<in> set fs"
    "ue \<le> a" "take (ue - us) (drop us p) = uid"
    "check_authenticator siv s2c p a e = Inr ()" "transmit_timestamp p = Inr t"
proof -
  from assms obtain fs a e us ue k k' where
    "HEADER_LENGTH \<le> length p" "extension_fields p = Inr fs"
    "find_field EF_AUTHENTICATOR fs = Some (k, a, e)"
    "find_field EF_UNIQUE_IDENTIFIER fs = Some (k', us, ue)"
    "ue \<le> a" "take (ue - us) (drop us p) = uid"
    "check_authenticator siv s2c p a e = Inr ()" "transmit_timestamp p = Inr t"
    by (auto simp: ntp_parse_response_def result_simps not_less split: if_splits)
  then show ?thesis
    by (intro that [of fs a e us ue]) (auto simp: extension_fields_tiles dest: find_field_mem)
qed

text \<open>
  What a covered field leaves between itself and the authenticator: its tile ends at or before the
  authenticator's own header, because tiles do not overlap.
\<close>

lemma tiles_disjoint:
  "tiles p off fs \<Longrightarrow> (k, s, e) \<in> set fs \<Longrightarrow> (k', s', e') \<in> set fs \<Longrightarrow> e \<le> s' \<Longrightarrow> k \<noteq> k' \<Longrightarrow> e \<le> s' - 4"
proof (induction fs arbitrary: off)
  case (Cons f fs)
  obtain k0 s0 e0 where f: "f = (k0, s0, e0)" by (cases f)
  from Cons.prems f have t: "tiles p e0 fs" and s0: "s0 = off + 4" "s0 \<le> e0" by auto
  show ?case
  proof (cases "(k', s', e') = f \<or> (k, s, e) = f")
    case True
    with Cons.prems f t s0 show ?thesis using tiles_bounds [OF t, of k s e] tiles_bounds [OF t, of k' s' e']
      by auto
  next
    case False
    with Cons t show ?thesis by auto
  qed
qed simp

text \<open>A response as a server that holds the session key writes it.\<close>

definition server_response :: "byte list \<Rightarrow> byte list \<Rightarrow> byte list \<Rightarrow> byte list \<Rightarrow> byte list" where
  "server_response header uid nonce ct =
     header @ extension_field EF_UNIQUE_IDENTIFIER uid
     @ extension_field EF_AUTHENTICATOR
         (be_bytes16 (of_nat (length nonce)) @ be_bytes16 (of_nat (length ct)) @ nonce @ ct)"

lemma server_response_fields:
  assumes "length header = 48" and "length uid = 32" and "length nonce = 16" and "length ct < 65000"
  shows "extension_fields (server_response header uid nonce ct) =
    Inr [(EF_UNIQUE_IDENTIFIER, 52, 84), (EF_AUTHENTICATOR, 88, 88 + pad4 (20 + length ct))]"
proof -
  let ?p = "server_response header uid nonce ct"
  let ?b = "be_bytes16 (of_nat (length nonce)) @ be_bytes16 (of_nat (length ct)) @ nonce @ ct"
  have lb: "length ?b = 20 + length ct" using assms by simp
  have u: "tiles ?p 48 ((EF_UNIQUE_IDENTIFIER, 48 + 4, 84) # fs) \<longleftrightarrow> tiles ?p 84 fs" for fs
    by (rule tiles_field [where pre = header and body = uid])
       (simp_all add: server_response_def pad4_def assms)
  have "tiles ?p 84 ((EF_AUTHENTICATOR, 84 + 4, 88 + pad4 (20 + length ct)) # fs) \<longleftrightarrow>
      tiles ?p (88 + pad4 (20 + length ct)) fs" for fs
    by (rule tiles_field [where pre = "header @ extension_field EF_UNIQUE_IDENTIFIER uid" and body = ?b])
       (use assms lb in \<open>simp_all add: server_response_def length_extension_field pad4_def\<close>)
  with u have "tiles ?p 48 [(EF_UNIQUE_IDENTIFIER, 52, 84), (EF_AUTHENTICATOR, 88, 88 + pad4 (20 + length ct))]
      \<longleftrightarrow> tiles ?p (88 + pad4 (20 + length ct)) []"
    by (simp del: tiles.simps)
  also have "\<dots>"
    using assms lb by (simp add: server_response_def length_extension_field pad4_def)
  finally show ?thesis by (simp only: extension_fields_tiles HEADER_LENGTH_def)
qed

definition auth_body :: "byte list \<Rightarrow> byte list \<Rightarrow> byte list" where
  "auth_body nonce ct = be_bytes16 (of_nat (length nonce)) @ be_bytes16 (of_nat (length ct)) @ nonce @ ct"

lemma authenticator_checks:
  assumes "length nonce = 16" and "length ct < 65000" and "siv_key_ok siv key"
    and "siv_decrypt siv key [prefix, nonce] ct \<noteq> None"
  shows "check_authenticator siv key (prefix @ extension_field EF_AUTHENTICATOR (auth_body nonce ct))
    (length prefix + 4) (length prefix + 4 + pad4 (20 + length ct)) = Inr ()"
proof -
  let ?p = "prefix @ extension_field EF_AUTHENTICATOR (auth_body nonce ct)"
  let ?z = "replicate (pad4 (20 + length ct) - (20 + length ct)) 0"
  let ?B = "be_bytes16 16 @ be_bytes16 (of_nat (length ct)) @ nonce @ ct @ ?z"
  have p: "?p = prefix @ (be_bytes16 EF_AUTHENTICATOR @ be_bytes16 (of_nat (4 + pad4 (20 + length ct)))) @ ?B"
    using assms by (simp add: auth_body_def extension_field_def Let_def)
  have a: "take (length prefix + 4 - 4) ?p = prefix" by simp
  have b: "take (pad4 (20 + length ct)) (drop (length prefix + 4) ?p) = ?B"
    unfolding p using assms pad4_ge [of "20 + length ct"] by simp
  have l: "unat (of_nat (length ct) :: u16) = length ct"
    using assms by (simp add: unat_of_nat)
  have n: "slice_get ?B 4 (4 + 16) = Some nonce"
    and c: "slice_get ?B (4 + 16) (4 + 16 + length ct) = Some ct"
    using assms by (simp_all add: slice_get_def)
  have w: "unat (from_be16 (?B ! 0) (?B ! 1)) = 16" "unat (from_be16 (?B ! 2) (?B ! 3)) = length ct"
    "\<not> length ?B < 4" "pad4 16 = 16"
    using l by (simp_all add: be_bytes16_def pad4_def from_be16_def [of 0 16])
  show ?thesis
    unfolding check_authenticator_def Let_def add_diff_cancel_left' b w n c a
    using assms(3,4) by (simp add: ok_or_def split: option.splits)
qed

lemma server_response_authenticator:
  assumes "length header = 48" and "length uid = 32" and "length nonce = 16" and "length ct < 65000"
    and "siv_key_ok siv s2c"
    and "siv_decrypt siv s2c [header @ extension_field EF_UNIQUE_IDENTIFIER uid, nonce] ct \<noteq> None"
  shows "check_authenticator siv s2c (server_response header uid nonce ct) 88
           (88 + pad4 (20 + length ct)) = Inr ()"
proof -
  have "length (header @ extension_field EF_UNIQUE_IDENTIFIER uid) = 84"
    using assms by (simp add: length_extension_field pad4_def)
  with authenticator_checks [OF assms(3,4,5,6)] show ?thesis
    by (simp add: server_response_def auth_body_def)
qed

text \<open>The request's own layout: identifier, cookie, authenticator, and nothing else.\<close>

lemma build_request_layout:
  assumes "build_request siv cookie c2s uid nonce = Inr r"
    and "length uid = 32" and "length nonce = 16" and "length cookie < 65000"
    and ct: "\<forall>ad c. siv_encrypt siv c2s ad [] = Some c \<longrightarrow> length c < 65000"
  obtains prefix c where "siv_key_ok siv c2s" "siv_encrypt siv c2s [prefix, nonce] [] = Some c"
    "length c < 65000" "length prefix = 88 + pad4 (length cookie)"
    "req_packet r = prefix @ extension_field EF_AUTHENTICATOR (auth_body nonce c)"
    "req_unique_id r = uid"
    "extension_fields (req_packet r) = Inr [(EF_UNIQUE_IDENTIFIER, 52, 84),
       (EF_COOKIE, 88, 88 + pad4 (length cookie)),
       (EF_AUTHENTICATOR, 92 + pad4 (length cookie), 92 + pad4 (length cookie) + pad4 (20 + length c))]"
proof -
  let ?h = "0x23 # replicate 47 0 :: byte list"
  let ?u = "?h @ extension_field EF_UNIQUE_IDENTIFIER uid"
  let ?x = "?u @ extension_field EF_COOKIE cookie"
  from assms(1,3) obtain c where c: "siv_key_ok siv c2s" "siv_encrypt siv c2s [?x, nonce] [] = Some c"
    "r = \<lparr>req_packet = ?x @ extension_field EF_AUTHENTICATOR (auth_body nonce c), req_unique_id = uid\<rparr>"
    by (auto simp: build_request_def Let_def result_simps HEADER_LENGTH_def NONCE_LENGTH_def
        auth_body_def split: if_splits)
  have cl: "length c < 65000" using ct c(2) by blast
  have lb: "length (auth_body nonce c) = 20 + length c" using assms(3) by (simp add: auth_body_def)
  let ?p = "?x @ extension_field EF_AUTHENTICATOR (auth_body nonce c)"
  let ?k = "pad4 (length cookie)"
  have lu: "length ?u = 84" using assms(2) by (simp add: length_extension_field pad4_def)
  then have lx: "length ?x = 88 + ?k" by (simp add: length_extension_field)
  have u: "tiles ?p 48 ((EF_UNIQUE_IDENTIFIER, 48 + 4, 84) # fs) \<longleftrightarrow> tiles ?p 84 fs" for fs
    by (rule tiles_field [where pre = ?h and body = uid]) (simp_all add: pad4_def assms(2))
  have k: "tiles ?p 84 ((EF_COOKIE, 84 + 4, 88 + ?k) # fs) \<longleftrightarrow> tiles ?p (88 + ?k) fs" for fs
    by (rule tiles_field [where pre = ?u and body = cookie])
       (use lu assms(4) in \<open>simp_all add: pad4_def\<close>)
  have a: "tiles ?p (88 + ?k) ((EF_AUTHENTICATOR, 88 + ?k + 4, 92 + ?k + pad4 (20 + length c)) # fs) \<longleftrightarrow>
      tiles ?p (92 + ?k + pad4 (20 + length c)) fs" for fs
    by (rule tiles_field [where pre = ?x and body = "auth_body nonce c"])
       (use lx lb cl in \<open>simp_all add: pad4_def\<close>)
  have "tiles ?p 48 [(EF_UNIQUE_IDENTIFIER, 48 + 4, 84), (EF_COOKIE, 84 + 4, 88 + ?k),
      (EF_AUTHENTICATOR, 88 + ?k + 4, 92 + ?k + pad4 (20 + length c))]"
    unfolding u k a using lx lb by (simp add: length_extension_field)
  then have "extension_fields ?p = Inr [(EF_UNIQUE_IDENTIFIER, 52, 84), (EF_COOKIE, 88, 88 + ?k),
      (EF_AUTHENTICATOR, 92 + ?k, 92 + ?k + pad4 (20 + length c))]"
    by (simp add: extension_fields_tiles HEADER_LENGTH_def add.commute del: tiles.simps)
  with c cl lx show ?thesis by (intro that [of ?x c]) simp_all
qed

lemma genuine_response:
  assumes "length header = 48" and "length uid = 32" and "length nonce = 16" and "length ct < 65000"
    and "header ! 0 AND 0x07 = 4" and "drop_bit 6 (header ! 0) \<noteq> 3" and "header ! 1 \<noteq> 0"
    and "siv_key_ok siv s2c"
    and "siv_decrypt siv s2c [header @ extension_field EF_UNIQUE_IDENTIFIER uid, nonce] ct \<noteq> None"
  shows "ntp_parse_response siv (server_response header uid nonce ct) s2c uid = transmit_timestamp header"
proof -
  let ?p = "server_response header uid nonce ct"
  note f = server_response_fields [OF assms(1-4)]
  note a = server_response_authenticator [OF assms(1-4,8,9)]
  have len: "48 \<le> length ?p" using assms by (simp add: server_response_def)
  have h: "take 48 ?p = header" using assms by (simp add: server_response_def)
  have nth: "?p ! 0 = header ! 0" "?p ! 1 = header ! 1"
    using assms by (simp_all add: server_response_def nth_append)
  have uid: "take (84 - 52) (drop 52 ?p) = uid"
    using assms by (simp add: server_response_def extension_field_def Let_def be_bytes16_def)
  have "transmit_timestamp ?p = transmit_timestamp header"
    using transmit_timestamp_take [of 48 ?p] len h by simp
  then show ?thesis
    using assms len nth uid
    by (simp add: ntp_parse_response_def HEADER_LENGTH_def f find_field_def ef_codes a)
qed

definition demo_siv :: siv where
  "demo_siv = \<lparr>siv_key_ok = (\<lambda>k. length k = 32),
     siv_encrypt = (\<lambda>k ad pt. Some (replicate 16 0xAB @ pt)),
     siv_decrypt = (\<lambda>k ad ct. if take 16 ct = replicate 16 0xAB then Some (drop 16 ct) else None)\<rparr>"

definition demo_header :: "byte list" where
  "demo_header = 0x24 # 1 # replicate 38 0 @ [0xEE, 0x12, 0x34, 0x56, 0, 0, 0, 0]"

lemma demo_header_time: "transmit_timestamp demo_header = Inr 1785181654"
  by (simp add: transmit_timestamp_def demo_header_def slice_get_def from_be32_def NTP_TO_UNIX_def)

definition demo_response :: "byte list" where
  "demo_response = server_response demo_header (replicate 32 7) (replicate 16 9) (replicate 16 0xAB)"

lemma demo_response_accepted:
  "ntp_parse_response demo_siv demo_response (replicate 32 1) (replicate 32 7) = Inr 1785181654"
  unfolding demo_response_def demo_header_time [symmetric]
  by (rule genuine_response) (simp_all add: demo_header_def demo_siv_def)

lemma transmit_timestamp_Inr:
  assumes "transmit_timestamp p = Inr t"
  shows "44 \<le> length p" and "- 61505152 \<le> t" and "t < 4233462144"
    and "(t + NTP_TO_UNIX) mod 4294967296 = uint (from_be32 (p ! 40) (p ! 41) (p ! 42) (p ! 43))"
proof -
  let ?w = "from_be32 (p ! 40) (p ! 41) (p ! 42) (p ! 43)"
  from assms obtain b where b: "slice_get p 40 44 = Some b"
    by (auto simp: transmit_timestamp_def result_simps)
  then show l: "44 \<le> length p" by (simp add: slice_simps)
  have nth: "b ! i = p ! (40 + i)" if "i < 4" for i
    using b that by (auto simp: slice_simps)
  have "from_be32 (b ! 0) (b ! 1) (b ! 2) (b ! 3) = ?w"
    using nth [of 0] nth [of 1] nth [of 2] nth [of 3] by simp
  with assms b have t: "t = (if 2147483648 \<le> ?w then uint ?w - NTP_TO_UNIX
      else uint ?w + 4294967296 - NTP_TO_UNIX)"
    by (auto simp: transmit_timestamp_def Let_def split: if_splits)
  have u: "0 \<le> uint ?w" "uint ?w < 4294967296" using uint_bounded [of ?w] by auto
  have le: "2147483648 \<le> ?w \<longleftrightarrow> 2147483648 \<le> uint ?w" by (simp add: word_le_def)
  show "- 61505152 \<le> t" "t < 4233462144" using t u le by (auto simp: NTP_TO_UNIX_def split: if_splits)
  show "(t + NTP_TO_UNIX) mod 4294967296 = uint ?w" using t u by (simp split: if_splits)
qed

section \<open>Properties\<close>

text \<open>
  The walk over the extension fields is exact: it succeeds with a list of fields if and only if
  those fields, read from their own headers, tile the packet from the fixed header on with
  four-byte granularity and fewer than four bytes left over. In particular no field reaches
  past the packet and no two overlap.
\<close>

theorem extension_fields_exact:
  "extension_fields p = Inr fs \<longleftrightarrow> tiles p HEADER_LENGTH fs"
  by (rule extension_fields_tiles)

text \<open>The time of a packet is computed from a prefix that decryption under the server's key vouches for.\<close>

definition authenticated_time :: "siv \<Rightarrow> byte list \<Rightarrow> byte list \<Rightarrow> byte list \<Rightarrow> int \<Rightarrow> bool" where
  "authenticated_time siv s2c uid p t \<longleftrightarrow>
    (\<exists>n nonce ct us ue. HEADER_LENGTH \<le> n \<and> n \<le> length p \<and> siv_key_ok siv s2c \<and>
    siv_decrypt siv s2c [take n p, nonce] ct \<noteq> None \<and>
    HEADER_LENGTH + 4 \<le> us \<and> ue \<le> n \<and>
    from_be16 (take n p ! (us - 4)) (take n p ! (us - 3)) = EF_UNIQUE_IDENTIFIER \<and>
    take (ue - us) (drop us (take n p)) = uid \<and>
    transmit_timestamp (take n p) = Inr t)"

lemma ntp_parse_response_authenticated:
  assumes "ntp_parse_response siv p s2c uid = Inr t"
  shows "authenticated_time siv s2c uid p t"
proof -
  obtain fs a e us ue where r:
    "HEADER_LENGTH \<le> length p" "tiles p HEADER_LENGTH fs"
    "(EF_AUTHENTICATOR, a, e) \<in> set fs" "(EF_UNIQUE_IDENTIFIER, us, ue) \<in> set fs"
    "ue \<le> a" "take (ue - us) (drop us p) = uid"
    "check_authenticator siv s2c p a e = Inr ()" "transmit_timestamp p = Inr t"
    using assms by (rule ntp_parse_response_Inr)
  let ?n = "a - 4"
  have b: "HEADER_LENGTH + 4 \<le> a" "a \<le> e" "e \<le> length p" "HEADER_LENGTH + 4 \<le> us" "us \<le> ue"
    using tiles_bounds [OF r(2,3)] tiles_bounds [OF r(2,4)] by auto
  have ue: "ue \<le> ?n" using tiles_disjoint [OF r(2,4,3,5)] by (simp add: ef_codes)
  obtain nonce ct where d: "siv_key_ok siv s2c" "siv_decrypt siv s2c [take ?n p, nonce] ct \<noteq> None"
    using check_authenticator_Inr [OF r(7)] by blast
  have "transmit_timestamp (take ?n p) = Inr t"
    using transmit_timestamp_take [of ?n p] b r(8) by (simp add: HEADER_LENGTH_def)
  moreover have "take (ue - us) (drop us (take ?n p)) = uid"
  proof -
    have "min (ue - us) (?n - us) = ue - us" using ue by linarith
    then show ?thesis using r(6) by (simp only: drop_take take_take)
  qed
  moreover have "from_be16 (take ?n p ! (us - 4)) (take ?n p ! (us - 3)) = EF_UNIQUE_IDENTIFIER"
    using tiles_prefix_field [OF r(2,4) ue] b by simp
  ultimately show ?thesis
    unfolding authenticated_time_def
    using b d ue by (intro exI [of _ ?n] exI [of _ nonce] exI [of _ ct] exI [of _ us] exI [of _ ue]) simp
qed

text \<open>
  C4. Everything an accepted response contributes is authenticated: there is a prefix of the
  packet, at least the whole fixed header, over which (with some nonce and ciphertext) AES-SIV
  decryption under the server's key succeeded, which contains a unique-identifier field holding
  the identifier of the request, and from which alone the returned time is computed.
\<close>

theorem ntp_accepted_time_is_authenticated:
  assumes "ntp_parse_response siv p s2c uid = Inr t"
  shows "\<exists>n nonce ct us ue. HEADER_LENGTH \<le> n \<and> n \<le> length p \<and> siv_key_ok siv s2c \<and>
    siv_decrypt siv s2c [take n p, nonce] ct \<noteq> None \<and>
    HEADER_LENGTH + 4 \<le> us \<and> ue \<le> n \<and>
    from_be16 (take n p ! (us - 4)) (take n p ! (us - 3)) = EF_UNIQUE_IDENTIFIER \<and>
    take (ue - us) (drop us (take n p)) = uid \<and>
    transmit_timestamp (take n p) = Inr t"
  using ntp_parse_response_authenticated [OF assms] unfolding authenticated_time_def .

theorem ntp_accepted_time_is_authenticated_witness:
  "\<exists>n nonce ct us ue. HEADER_LENGTH \<le> n \<and> n \<le> length demo_response \<and>
    siv_key_ok demo_siv (replicate 32 1) \<and>
    siv_decrypt demo_siv (replicate 32 1) [take n demo_response, nonce] ct \<noteq> None \<and>
    HEADER_LENGTH + 4 \<le> us \<and> ue \<le> n \<and>
    from_be16 (take n demo_response ! (us - 4)) (take n demo_response ! (us - 3)) = EF_UNIQUE_IDENTIFIER \<and>
    take (ue - us) (drop us (take n demo_response)) = replicate 32 7 \<and>
    transmit_timestamp (take n demo_response) = Inr 1785181654"
  using demo_response_accepted by (rule ntp_accepted_time_is_authenticated)

text \<open>
  A genuine response is accepted: a packet with server mode, a synchronised clock and a
  non-zero stratum, carrying the request's identifier and an authenticator over everything
  before it that decrypts under the session key, yields exactly the header's transmit
  timestamp.
\<close>

theorem ntp_genuine_response_accepted:
  assumes "length header = 48" and "length uid = 32" and "length nonce = 16" and "length ct < 65000"
    and "header ! 0 AND 0x07 = 4" and "drop_bit 6 (header ! 0) \<noteq> 3" and "header ! 1 \<noteq> 0"
    and "siv_key_ok siv s2c"
    and "siv_decrypt siv s2c [header @ extension_field EF_UNIQUE_IDENTIFIER uid, nonce] ct \<noteq> None"
  shows "ntp_parse_response siv (server_response header uid nonce ct) s2c uid = transmit_timestamp header"
  using assms by (rule genuine_response)

theorem ntp_genuine_response_accepted_witness:
  "ntp_parse_response demo_siv (server_response demo_header (replicate 32 7) (replicate 16 9) (replicate 16 0xAB))
     (replicate 32 1) (replicate 32 7) = transmit_timestamp demo_header"
  by (rule ntp_genuine_response_accepted) (simp_all add: demo_header_def demo_siv_def)

text \<open>
  C36. The era of a timestamp is resolved uniquely: an accepted transmit timestamp is the one
  instant between 1968-01-20 and 2104-02-26 whose count of seconds since 1900 is congruent to
  the 32-bit field, so the rollover of 2036 is read correctly and the value is far from the
  ends of the 64-bit range.
\<close>

theorem transmit_timestamp_era:
  assumes "transmit_timestamp p = Inr t"
  shows "- 61505152 \<le> t \<and> t < 4233462144 \<and>
    (t + NTP_TO_UNIX) mod 4294967296 = uint (from_be32 (p ! 40) (p ! 41) (p ! 42) (p ! 43)) \<and>
    half_i64 t"
  using transmit_timestamp_Inr [OF assms] by (simp add: half_i64_def)

theorem transmit_timestamp_era_witness:
  "- 61505152 \<le> (1785181654::int) \<and> (1785181654::int) < 4233462144 \<and>
   (1785181654 + NTP_TO_UNIX) mod 4294967296 =
     uint (from_be32 (demo_header ! 40) (demo_header ! 41) (demo_header ! 42) (demo_header ! 43)) \<and>
   half_i64 1785181654"
  using demo_header_time by (rule transmit_timestamp_era)

text \<open>
  What the client sends can be verified by the server: with an AEAD whose decryption undoes its
  encryption, the request carries the identifier, the cookie and one authenticator as its only
  extension fields, and the authenticator checks against the bytes before it under the same
  key.
\<close>

theorem build_request_verifiable:
  assumes "build_request siv cookie c2s uid nonce = Inr r"
    and "length uid = 32" and "length nonce = 16" and "length cookie < 65000"
    and "\<forall>ad c. siv_encrypt siv c2s ad [] = Some c \<longrightarrow> length c < 65000"
    and "\<forall>ad c. siv_encrypt siv c2s ad [] = Some c \<longrightarrow> siv_decrypt siv c2s ad c = Some []"
  shows "\<exists>auth_start auth_end.
    extension_fields (req_packet r) =
      Inr [(EF_UNIQUE_IDENTIFIER, 52, 84), (EF_COOKIE, 88, 88 + pad4 (length cookie)),
           (EF_AUTHENTICATOR, auth_start, auth_end)] \<and>
    check_authenticator siv c2s (req_packet r) auth_start auth_end = Inr () \<and>
    req_unique_id r = uid"
proof -
  obtain prefix c where l: "siv_key_ok siv c2s" "siv_encrypt siv c2s [prefix, nonce] [] = Some c"
    "length c < 65000" "length prefix = 88 + pad4 (length cookie)"
    "req_packet r = prefix @ extension_field EF_AUTHENTICATOR (auth_body nonce c)"
    "req_unique_id r = uid"
    "extension_fields (req_packet r) = Inr [(EF_UNIQUE_IDENTIFIER, 52, 84),
       (EF_COOKIE, 88, 88 + pad4 (length cookie)),
       (EF_AUTHENTICATOR, 92 + pad4 (length cookie), 92 + pad4 (length cookie) + pad4 (20 + length c))]"
    using build_request_layout [OF assms(1-5)] by blast
  have "siv_decrypt siv c2s [prefix, nonce] c \<noteq> None" using assms(6) l(2) by fastforce
  from authenticator_checks [OF assms(3) l(3,1) this]
  have "check_authenticator siv c2s (req_packet r) (92 + pad4 (length cookie))
      (92 + pad4 (length cookie) + pad4 (20 + length c)) = Inr ()"
    unfolding l(5) by (simp add: l(4) add.commute add.left_commute)
  with l(6,7) show ?thesis by blast
qed

theorem build_request_verifiable_witness:
  "\<exists>auth_start auth_end r. build_request demo_siv [1, 2, 3] (replicate 32 1) (replicate 32 7) (replicate 16 9) = Inr r \<and>
    extension_fields (req_packet r) =
      Inr [(EF_UNIQUE_IDENTIFIER, 52, 84), (EF_COOKIE, 88, 88 + pad4 (length [1::byte, 2, 3])),
           (EF_AUTHENTICATOR, auth_start, auth_end)] \<and>
    check_authenticator demo_siv (replicate 32 1) (req_packet r) auth_start auth_end = Inr ()"
proof -
  obtain r where r: "build_request demo_siv [1, 2, 3] (replicate 32 1) (replicate 32 7) (replicate 16 9) = Inr r"
    by (simp add: build_request_def demo_siv_def Let_def)
  show ?thesis
    using build_request_verifiable [OF r] r by (auto simp: demo_siv_def split: if_splits)
qed

end
