(* ===== verification/Time_Dns.thy ===== *)
theory Time_Dns
  imports Rust_Std
begin

text \<open>
  \<open>packages/time-correction/src/dns.rs\<close>: the DNS wire format, enough to ask one question and to
  read the addresses out of the answer.  The name walk \<open>skip_loop\<close> follows compression pointers,
  at most \<open>MAX_JUMPS\<close> of them; its termination proof is the argument that a hostile message cannot
  hang the program.
\<close>

section \<open>Model\<close>

definition TYPE_A :: u16 where "TYPE_A = 1"
definition TYPE_AAAA :: u16 where "TYPE_AAAA = 28"
definition CLASS_IN :: u16 where "CLASS_IN = 1"
definition MAX_JUMPS :: nat where "MAX_JUMPS = 64"

lemmas dns_codes = TYPE_A_def TYPE_AAAA_def CLASS_IN_def

datatype dns_error =
    LabelTooLong string
  | TruncatedMessage nat
  | TruncatedName nat
  | LabelPastMessage nat
  | PointerLimit
  | PointerPastMessage nat
  | ReservedLabel byte nat
  | DnsShorterThanHeader nat
  | IdMismatch
  | NotAResponse
  | TruncatedResponse
  | Rcode u16
  | QuestionPastMessage
  | RecordDataPastMessage nat
  | MalformedA nat
  | MalformedAAAA nat
  | NoAddressRecords

definition encode_label :: "string \<Rightarrow> (dns_error, byte list) result" where
  "encode_label label =
     (if 63 < length label then Inl (LabelTooLong label)
      else Inr (of_nat (length label) # bytes_of_str label))"

definition encode_query :: "u16 \<Rightarrow> string \<Rightarrow> u16 \<Rightarrow> (dns_error, byte list) result" where
  "encode_query qid name qtype =
     res_bind (res_collect encode_label (filter (\<lambda>l. l \<noteq> []) (split_on (CHR ''.'') name)))
       (\<lambda>labels. Inr (be_bytes16 qid @ be_bytes16 0x0100 @ be_bytes16 1 @ replicate 6 0
                      @ concat labels @ [0] @ be_bytes16 qtype @ be_bytes16 CLASS_IN))"

definition dns_u16_at :: "byte list \<Rightarrow> nat \<Rightarrow> (dns_error, u16) result" where
  "dns_u16_at message offset =
     res_bind (ok_or (TruncatedMessage offset) (slice_get message offset (offset + 2)))
       (\<lambda>bytes. Inr (from_be16 (bytes ! 0) (bytes ! 1)))"

function skip_loop ::
  "byte list \<Rightarrow> nat \<Rightarrow> nat \<Rightarrow> nat option \<Rightarrow> (dns_error, nat) result" where
  "skip_loop message offset jumps after_pointer =
     (if \<not> offset < length message then Inl (TruncatedName offset)
      else
        let len = message ! offset in
        if len AND 0xC0 = 0 then
          (if len = 0 then
             Inr (case after_pointer of None \<Rightarrow> offset + 1 | Some a \<Rightarrow> a)
           else
             let offset' = offset + (1 + unat len) in
             if length message < offset' then Inl (LabelPastMessage offset')
             else skip_loop message offset' jumps after_pointer)
        else if len AND 0xC0 = 0xC0 then
          res_bind (dns_u16_at message offset) (\<lambda>w.
            let pointer = unat (w AND 0x3FFF);
                after_pointer' =
                  (case after_pointer of None \<Rightarrow> Some (offset + 2) | Some a \<Rightarrow> Some a) in
            if MAX_JUMPS < jumps + 1 then Inl PointerLimit
            else if length message \<le> pointer then Inl (PointerPastMessage pointer)
            else skip_loop message pointer (jumps + 1) after_pointer')
        else Inl (ReservedLabel (len AND 0xC0) offset))"
  by pat_completeness auto
termination
  by (relation "measures [\<lambda>(message, offset, jumps, _). Suc MAX_JUMPS - jumps,
                          \<lambda>(message, offset, jumps, _). length message - offset]") auto

declare skip_loop.simps [simp del]

definition skip_name :: "byte list \<Rightarrow> nat \<Rightarrow> (dns_error, nat) result" where
  "skip_name message start = skip_loop message start 0 None"

fun skip_questions :: "byte list \<Rightarrow> nat \<Rightarrow> nat \<Rightarrow> (dns_error, nat) result" where
  "skip_questions message 0 offset = Inr offset"
| "skip_questions message (Suc n) offset =
     res_bind (skip_name message offset) (\<lambda>offset.
       if length message < offset + 4 then Inl QuestionPastMessage
       else skip_questions message n (offset + 4))"

text \<open>The match on the record type, for a record of class IN.\<close>

definition address_of_record ::
  "u16 \<Rightarrow> u16 \<Rightarrow> byte list \<Rightarrow> (dns_error, ip_addr list) result" where
  "address_of_record qtype rtype rdata =
     (if rtype = TYPE_A \<and> qtype = TYPE_A \<and> length rdata = 4 then
        Inr [V4 (rdata ! 0) (rdata ! 1) (rdata ! 2) (rdata ! 3)]
      else if rtype = TYPE_AAAA \<and> qtype = TYPE_AAAA \<and> length rdata = 16 then Inr [V6 rdata]
      else if rtype = TYPE_A \<and> qtype = TYPE_A then Inl (MalformedA (length rdata))
      else if rtype = TYPE_AAAA \<and> qtype = TYPE_AAAA then Inl (MalformedAAAA (length rdata))
      else Inr [])"

fun read_answers ::
  "byte list \<Rightarrow> u16 \<Rightarrow> nat \<Rightarrow> nat \<Rightarrow> ip_addr list \<Rightarrow> (dns_error, ip_addr list) result" where
  "read_answers message qtype 0 offset found = Inr found"
| "read_answers message qtype (Suc n) offset found =
     res_bind (skip_name message offset) (\<lambda>offset.
     res_bind (dns_u16_at message offset) (\<lambda>rtype.
     res_bind (dns_u16_at message (offset + 2)) (\<lambda>rclass.
     res_bind (dns_u16_at message (offset + 8)) (\<lambda>rdlength.
     res_bind (ok_or (RecordDataPastMessage (offset + 10))
                 (slice_get message (offset + 10) (offset + 10 + unat rdlength))) (\<lambda>rdata.
       if rclass \<noteq> CLASS_IN then
         read_answers message qtype n (offset + 10 + unat rdlength) found
       else
         res_bind (address_of_record qtype rtype rdata) (\<lambda>addrs.
           read_answers message qtype n (offset + 10 + unat rdlength) (found @ addrs)))))))"

definition dns_parse_response ::
  "byte list \<Rightarrow> u16 \<Rightarrow> u16 \<Rightarrow> (dns_error, ip_addr list) result" where
  "dns_parse_response message qid qtype =
     (if length message < 12 then Inl (DnsShorterThanHeader (length message))
      else
        res_bind (dns_u16_at message 0) (\<lambda>mid.
        if mid \<noteq> qid then Inl IdMismatch else
        res_bind (dns_u16_at message 2) (\<lambda>flags.
        if flags AND 0x8000 = 0 then Inl NotAResponse
        else if flags AND 0x0200 \<noteq> 0 then Inl TruncatedResponse
        else if flags AND 0x000F \<noteq> 0 then Inl (Rcode (flags AND 0x000F))
        else
        res_bind (dns_u16_at message 4) (\<lambda>questions.
        res_bind (dns_u16_at message 6) (\<lambda>answers.
        res_bind (skip_questions message (unat questions) 12) (\<lambda>offset.
        res_bind (read_answers message qtype (unat answers) offset []) (\<lambda>found.
          if found = [] then Inl NoAddressRecords else Inr found)))))))"

section \<open>Lemmas\<close>

lemma dns_u16_at_Inr:
  "dns_u16_at m off = Inr w \<longleftrightarrow> off + 2 \<le> length m \<and> w = from_be16 (m ! off) (m ! (off + 1))"
  by (auto simp: dns_u16_at_def result_simps slice_simps)

lemma dns_u16_at_append:
  "off = length pre \<Longrightarrow> dns_u16_at (pre @ be_bytes16 w @ post) off = Inr w"
  by (simp add: dns_u16_at_Inr be_bytes16_def nth_append)

text \<open>The walk stays inside the message and makes progress in the original stream.\<close>

lemma skip_loop_bounds:
  assumes "skip_loop m off j ap = Inr e" and "\<forall>a. ap = Some a \<longrightarrow> s < a \<and> a \<le> length m"
    and "ap = None \<longrightarrow> s \<le> off"
  shows "s < e \<and> e \<le> length m"
  using assms
proof (induction m off j ap rule: skip_loop.induct)
  case (1 m off j ap)
  note unf = skip_loop.simps [of m off j ap]
  let ?l = "m ! off"
  from "1.prems"(1) have lt: "off < length m" by (subst (asm) unf) (simp split: if_splits)
  consider (done0) "?l = 0" | (label) "?l \<noteq> 0" "?l AND 0xC0 = 0" | (pointer) "?l AND 0xC0 \<noteq> 0" by blast
  then show ?case
  proof cases
    case done0
    with "1.prems" lt show ?thesis
      by (subst (asm) unf) (auto split: option.splits)
  next
    case label
    with "1.prems"(1) lt have "off + (1 + unat ?l) \<le> length m"
      "skip_loop m (off + (1 + unat ?l)) j ap = Inr e"
      by (subst (asm) unf, simp add: Let_def split: if_splits)+
    with "1.IH"(1) [OF _ refl label(2,1) refl] lt "1.prems" show ?thesis by auto
  next
    case pointer
    let ?ap = "case ap of None \<Rightarrow> Some (off + 2) | Some a \<Rightarrow> Some a"
    let ?w = "from_be16 (m ! off) (m ! (off + 1))"
    from "1.prems"(1) lt pointer have w: "off + 2 \<le> length m" "?l AND 0xC0 = 0xC0"
      "\<not> MAX_JUMPS < j + 1" "\<not> length m \<le> unat (?w AND 0x3FFF)"
      "skip_loop m (unat (?w AND 0x3FFF)) (j + 1) ?ap = Inr e"
      by (subst (asm) unf, simp add: Let_def result_simps dns_u16_at_Inr split: if_splits)+
    have "\<forall>a. ?ap = Some a \<longrightarrow> s < a \<and> a \<le> length m"
      using "1.prems"(2,3) w(1) lt by (auto split: option.splits)
    moreover have "?ap \<noteq> None" by (simp split: option.splits)
    ultimately show ?thesis
      using "1.IH"(2) [OF _ refl pointer w(2) refl refl w(3,4,5)] lt by (metis (no_types))
  qed
qed

lemma skip_name_bounds: "skip_name m s = Inr e \<Longrightarrow> s < e \<and> e \<le> length m"
  using skip_loop_bounds [of m s 0 None e s] by (simp add: skip_name_def)

text \<open>Uncompressed labels are skipped exactly.\<close>

definition wire_label :: "byte list \<Rightarrow> bool" where
  "wire_label l \<longleftrightarrow> (\<exists>s. 0 < length s \<and> length s \<le> 63 \<and> l = of_nat (length s) # s)"

lemma small_label_tag:
  assumes "0 < n" and "n \<le> 63"
  shows "(of_nat n :: byte) AND 0xC0 = 0" and "(of_nat n :: byte) \<noteq> 0" and "unat (of_nat n :: byte) = n"
proof -
  show u: "unat (of_nat n :: byte) = n" using assms by (simp add: unat_of_nat)
  then show "(of_nat n :: byte) \<noteq> 0" using assms by auto
  have "\<not> bit n k" if "6 \<le> k" for k
  proof -
    have "n < 2 ^ 6" using assms by simp
    also have "\<dots> \<le> 2 ^ k" using that by (rule power_increasing) simp
    finally show ?thesis by (simp add: bit_iff_odd)
  qed
  from this [of 6] this [of 7] show "(of_nat n :: byte) AND 0xC0 = 0"
    by (intro bit_word_eqI) (auto simp: bit_simps less_Suc_eq numeral_eq_Suc dest: bit_imp_le_length)
qed

lemma skip_loop_labels:
  assumes "m = pre @ concat ls @ 0 # post" and "off = length pre" and "\<forall>l \<in> set ls. wire_label l"
  shows "skip_loop m off j ap =
    Inr (case ap of None \<Rightarrow> length pre + length (concat ls) + 1 | Some a \<Rightarrow> a)"
  using assms
proof (induction ls arbitrary: pre off)
  case Nil
  then show ?case by (subst skip_loop.simps) (cases ap; simp add: Let_def)
next
  case (Cons l ls)
  from Cons.prems(3) obtain s where s: "0 < length s" "length s \<le> 63" "l = of_nat (length s) # s"
    by (auto simp: wire_label_def)
  note tag = small_label_tag [OF s(1,2)]
  have hd: "m ! off = of_nat (length s)" using Cons.prems(1,2) s(3) by simp
  have len: "off + (1 + length s) \<le> length m" "off < length m"
    using Cons.prems(1,2) s(3) by simp_all
  have "skip_loop m off j ap = skip_loop m (off + (1 + length s)) j ap"
    using len hd tag by (subst skip_loop.simps) (simp add: Let_def)
  also have "\<dots> = Inr (case ap of None \<Rightarrow> length (pre @ l) + length (concat ls) + 1 | Some a \<Rightarrow> a)"
    using Cons.prems s(3) by (intro Cons.IH) auto
  finally show ?case by (cases ap) (simp_all add: add.assoc)
qed

lemma encode_label_wire:
  "encode_label s = Inr l \<Longrightarrow> s \<noteq> [] \<Longrightarrow> wire_label l"
  by (auto simp: encode_label_def wire_label_def bytes_of_str_def split: if_splits
      intro!: exI [of _ "bytes_of_str s"])

lemma encode_query_Inr:
  assumes "encode_query qid name qtype = Inr q"
  obtains ls where "\<forall>l \<in> set ls. wire_label l"
    "q = be_bytes16 qid @ be_bytes16 0x0100 @ be_bytes16 1 @ replicate 6 0
         @ concat ls @ 0 # be_bytes16 qtype @ be_bytes16 CLASS_IN"
proof -
  let ?ss = "filter (\<lambda>l. l \<noteq> []) (split_on (CHR ''.'') name)"
  from assms obtain ls where ls: "res_collect encode_label ?ss = Inr ls"
    "q = be_bytes16 qid @ be_bytes16 0x0100 @ be_bytes16 1 @ replicate 6 0
         @ concat ls @ 0 # be_bytes16 qtype @ be_bytes16 CLASS_IN"
    by (auto simp: encode_query_def result_simps)
  have "wire_label l" if "l \<in> set ls" for l
  proof -
    from that obtain i where "i < length ls" "ls ! i = l" by (auto simp: in_set_conv_nth)
    with res_collect_Inr [OF ls(1)] have "encode_label (?ss ! i) = Inr l" "i < length ?ss" by auto
    moreover from this(2) have "?ss ! i \<noteq> []" using nth_mem [of i ?ss] by auto
    ultimately show ?thesis using encode_label_wire by blast
  qed
  with ls(2) that show ?thesis by blast
qed

text \<open>Where the addresses of an accepted answer come from.\<close>

fun addr_bytes :: "ip_addr \<Rightarrow> byte list" where
  "addr_bytes (V4 a b c d) = [a, b, c, d]"
| "addr_bytes (V6 bs) = bs"

definition addr_from :: "byte list \<Rightarrow> u16 \<Rightarrow> ip_addr \<Rightarrow> bool" where
  "addr_from m qtype a \<longleftrightarrow>
     (qtype = TYPE_A \<and> is_ipv4 a \<or> qtype = TYPE_AAAA \<and> \<not> is_ipv4 a \<and> length (addr_bytes a) = 16) \<and>
     (\<exists>off. slice_get m off (off + length (addr_bytes a)) = Some (addr_bytes a))"

lemma address_of_record_from:
  assumes "address_of_record qtype rtype rdata = Inr as" and "a \<in> set as"
    and "slice_get m off (off + length rdata) = Some rdata"
  shows "addr_from m qtype a"
proof -
  have four: "length rdata = 4 \<Longrightarrow> [rdata ! 0, rdata ! 1, rdata ! 2, rdata ! 3] = rdata"
    by (rule nth_equalityI) (auto simp: less_Suc_eq numeral_eq_Suc)
  show ?thesis
  proof (cases "rtype = TYPE_A \<and> qtype = TYPE_A \<and> length rdata = 4")
    case True
    with assms have "a = V4 (rdata ! 0) (rdata ! 1) (rdata ! 2) (rdata ! 3)"
      by (auto simp: address_of_record_def split: if_splits)
    with True four assms(3) show ?thesis by (auto simp: addr_from_def intro!: exI [of _ off])
  next
    case False
    with assms(1,2) have "a = V6 rdata" "qtype = TYPE_AAAA" "length rdata = 16"
      by (auto simp: address_of_record_def split: if_splits)
    with assms(3) show ?thesis by (auto simp: addr_from_def intro!: exI [of _ off])
  qed
qed

lemma read_answers_from:
  "read_answers m qtype n off found = Inr as \<Longrightarrow> \<forall>a \<in> set found. addr_from m qtype a \<Longrightarrow>
   \<forall>a \<in> set as. addr_from m qtype a"
proof (induction m qtype n off found rule: read_answers.induct)
  case (2 m qtype n off found)
  from "2.prems"(1) obtain o1 rt rc rl rd where
    h: "skip_name m off = Inr o1" "dns_u16_at m o1 = Inr rt" "dns_u16_at m (o1 + 2) = Inr rc"
      "dns_u16_at m (o1 + 8) = Inr rl" "slice_get m (o1 + 10) (o1 + 10 + unat rl) = Some rd"
    and t: "(if rc \<noteq> CLASS_IN then read_answers m qtype n (o1 + 10 + unat rl) found
       else res_bind (address_of_record qtype rt rd)
              (\<lambda>addrs. read_answers m qtype n (o1 + 10 + unat rl) (found @ addrs))) = Inr as"
    by (auto simp: result_simps simp del: add_2_eq_Suc')
  show ?case
  proof (cases "rc = CLASS_IN")
    case False
    with t have "read_answers m qtype n (o1 + 10 + unat rl) found = Inr as" by simp
    with "2.IH"(1) [OF False] "2.prems"(2) show ?thesis by blast
  next
    case True
    with t obtain ads where ads: "address_of_record qtype rt rd = Inr ads"
      "read_answers m qtype n (o1 + 10 + unat rl) (found @ ads) = Inr as"
      by (auto simp: result_simps)
    have "slice_get m (o1 + 10) (o1 + 10 + length rd) = Some rd"
      using h(5) by (auto simp: slice_simps)
    from address_of_record_from [OF ads(1) _ this] "2.prems"(2)
    have "\<forall>a \<in> set (found @ ads). addr_from m qtype a" by auto
    with "2.IH"(2) ads(2) True show ?thesis by blast
  qed
qed simp

section \<open>Reference: a response as a resolver writes it\<close>

text \<open>
  One question, and answer records whose owner name is the customary pointer to the question.
\<close>

type_synonym rr = "u16 \<times> u16 \<times> byte list \<times> byte list"

fun encode_rr :: "rr \<Rightarrow> byte list" where
  "encode_rr (rtype, rclass, ttl, rdata) =
     [0xC0, 0x0C] @ be_bytes16 rtype @ be_bytes16 rclass @ ttl @ be_bytes16 (of_nat (length rdata)) @ rdata"

fun wf_rr :: "rr \<Rightarrow> bool" where
  "wf_rr (rtype, rclass, ttl, rdata) \<longleftrightarrow> length ttl = 4 \<and> length rdata < 65536"

fun rr_addresses :: "u16 \<Rightarrow> rr \<Rightarrow> (dns_error, ip_addr list) result" where
  "rr_addresses qtype (rtype, rclass, ttl, rdata) =
     (if rclass \<noteq> CLASS_IN then Inr [] else address_of_record qtype rtype rdata)"

definition encode_response ::
  "u16 \<Rightarrow> u16 \<Rightarrow> byte list list \<Rightarrow> u16 \<Rightarrow> rr list \<Rightarrow> byte list \<Rightarrow> byte list" where
  "encode_response qid flags ls qtype rrs rest =
     be_bytes16 qid @ be_bytes16 flags @ be_bytes16 1 @ be_bytes16 (of_nat (length rrs)) @ replicate 4 0
     @ concat ls @ 0 # be_bytes16 qtype @ be_bytes16 CLASS_IN @ concat (map encode_rr rrs) @ rest"

lemma skip_pointer:
  assumes m: "m = pre @ concat ls @ 0 # post" "length pre = 12" "\<forall>l \<in> set ls. wire_label l"
    and off: "off + 2 \<le> length m" "m ! off = 0xC0" "m ! (off + 1) = 0x0C"
  shows "skip_name m off = Inr (off + 2)"
proof -
  have "dns_u16_at m off = Inr 0xC00C"
    using off by (simp add: dns_u16_at_Inr from_be16_def)
  moreover have "skip_loop m 12 1 (Some (off + 2)) = Inr (off + 2)"
    using skip_loop_labels [OF m(1) _ m(3)] m(2) by simp
  moreover have "12 < length m" using m by simp
  ultimately show ?thesis
    using off unfolding skip_name_def
    by (subst skip_loop.simps) (simp add: Let_def MAX_JUMPS_def del: add_2_eq_Suc')
qed

lemma read_answers_encoded:
  assumes skip: "\<And>x. x + 2 \<le> length m \<Longrightarrow> m ! x = 0xC0 \<Longrightarrow> m ! (x + 1) = 0x0C \<Longrightarrow> skip_name m x = Inr (x + 2)"
    and "m = pre @ concat (map encode_rr rrs) @ post" and "\<forall>r \<in> set rrs. wf_rr r" and "off = length pre"
  shows "read_answers m qtype (length rrs) off found =
    res_bind (res_collect (rr_addresses qtype) rrs) (\<lambda>ass. Inr (found @ concat ass))"
  using assms(2-4)
proof (induction rrs arbitrary: pre off found)
  case (Cons r rrs)
  obtain rt rc ttl rd where r: "r = (rt, rc, ttl, rd)" by (cases r)
  from Cons.prems(2) r have w: "length ttl = 4" "length rd < 65536" by auto
  let ?tail = "concat (map encode_rr rrs) @ post"
  have m: "m = pre @ [0xC0, 0x0C] @ be_bytes16 rt @ be_bytes16 rc @ ttl @ be_bytes16 (of_nat (length rd)) @ rd @ ?tail"
    using Cons.prems(1) r by simp
  have sk: "skip_name m off = Inr (off + 2)"
    using m Cons.prems(3) by (intro skip) (simp_all add: nth_append)
  have t: "dns_u16_at m (off + 2) = Inr rt"
    using dns_u16_at_append [of "off + 2" "pre @ [0xC0, 0x0C]" rt] m Cons.prems(3) by simp
  have c: "dns_u16_at m (off + 2 + 2) = Inr rc"
    using dns_u16_at_append [of "off + 2 + 2" "pre @ [0xC0, 0x0C] @ be_bytes16 rt" rc] m Cons.prems(3) by simp
  have l: "dns_u16_at m (off + 2 + 8) = Inr (of_nat (length rd))"
    using dns_u16_at_append [of "off + 2 + 8" "pre @ [0xC0, 0x0C] @ be_bytes16 rt @ be_bytes16 rc @ ttl"
        "of_nat (length rd)"] m w Cons.prems(3) by simp
  have d: "slice_get m (off + 2 + 10) (off + 2 + 10 + length rd) = Some rd"
    using slice_get_middle [of "off + 2 + 10" "pre @ [0xC0, 0x0C] @ be_bytes16 rt @ be_bytes16 rc @ ttl @
        be_bytes16 (of_nat (length rd))" "off + 2 + 10 + length rd" rd ?tail] m w Cons.prems(3) by simp
  have ih: "read_answers m qtype (length rrs) (off + 2 + 10 + length rd) f =
      res_bind (res_collect (rr_addresses qtype) rrs) (\<lambda>ass. Inr (f @ concat ass))" for f
    using Cons.prems w r by (intro Cons.IH [of "pre @ encode_rr r"]) auto
  have "read_answers m qtype (length (r # rrs)) off found =
      res_bind (rr_addresses qtype r) (\<lambda>as. read_answers m qtype (length rrs) (off + 2 + 10 + length rd) (found @ as))"
    unfolding list.size(4) add_Suc_right add_0_right read_answers.simps sk t c l d res_bind_simps
      unat_of_nat_u16 [OF w(2)] ok_or_simps by (simp add: r)
  then show ?case
    unfolding ih by (cases "rr_addresses qtype r"; cases "res_collect (rr_addresses qtype) rrs") simp_all
qed simp

lemma dns_parse_encoded:
  assumes "flags AND 0x8000 \<noteq> 0" and "flags AND 0x0200 = 0" and "flags AND 0x000F = 0"
    and ls: "\<forall>l \<in> set ls. wire_label l" and rrs: "\<forall>r \<in> set rrs. wf_rr r" "length rrs < 65536"
  shows "dns_parse_response (encode_response qid flags ls qt rrs rest) qid qtype =
    res_bind (res_collect (rr_addresses qtype) rrs)
      (\<lambda>ass. if concat ass = [] then Inl NoAddressRecords else Inr (concat ass))"
proof -
  let ?m = "encode_response qid flags ls qt rrs rest"
  let ?h = "be_bytes16 qid @ be_bytes16 flags @ be_bytes16 1 @ be_bytes16 (of_nat (length rrs)) @ replicate 4 0"
  have m: "?m = ?h @ concat ls @ 0 # be_bytes16 qt @ be_bytes16 CLASS_IN @ concat (map encode_rr rrs) @ rest"
    by (simp add: encode_response_def)
  have q: "skip_name ?m 12 = Inr (12 + length (concat ls) + 1)"
    unfolding skip_name_def using skip_loop_labels [OF m _ ls, of 12 0 None] by simp
  have sq: "skip_questions ?m (unat (1::u16)) 12 = Inr (17 + length (concat ls))"
    using q by (simp add: encode_response_def)
  have ra: "read_answers ?m qtype (length rrs) (17 + length (concat ls)) [] =
      res_bind (res_collect (rr_addresses qtype) rrs) (\<lambda>ass. Inr ([] @ concat ass))"
  proof (rule read_answers_encoded)
    show "?m = (?h @ concat ls @ 0 # be_bytes16 qt @ be_bytes16 CLASS_IN) @ concat (map encode_rr rrs) @ rest"
      by (simp add: m)
    show "skip_name ?m x = Inr (x + 2)" if "x + 2 \<le> length ?m" "?m ! x = 0xC0" "?m ! (x + 1) = 0x0C" for x
      by (rule skip_pointer [OF m _ ls that]) simp
  qed (use rrs in simp_all)
  have "dns_u16_at ?m 0 = Inr qid" "dns_u16_at ?m 2 = Inr flags" "dns_u16_at ?m 4 = Inr 1"
    "dns_u16_at ?m 6 = Inr (of_nat (length rrs))" "\<not> length ?m < 12"
    by (simp_all add: encode_response_def dns_u16_at_Inr be_bytes16_def from_be16_def [of 0 1])
  then show ?thesis
    using assms(1-3) sq ra unat_of_nat_u16 [OF rrs(2)]
    by (cases "res_collect (rr_addresses qtype) rrs") (simp_all add: dns_parse_response_def)
qed

section \<open>Properties\<close>

text \<open>
  Skipping a name always ends and always advances: for every message and offset the walk
  returns, and on success the cursor is strictly past the start and inside the message,
  whatever pointers were followed.
\<close>

theorem skip_name_progress:
  assumes "skip_name m s = Inr e"
  shows "s < e \<and> e \<le> length m"
  using assms by (rule skip_name_bounds)

definition demo_dns :: "byte list" where
  "demo_dns = encode_response 7 0x8180 [[3, 110, 116, 115]] TYPE_A
     [(5, CLASS_IN, [0, 0, 0, 60], [1, 97]), (TYPE_A, CLASS_IN, [0, 0, 0, 60], [192, 0, 2, 1])] []"

lemma demo_dns_bytes:
  "demo_dns = [0, 7, 0x81, 0x80, 0, 1, 0, 2, 0, 0, 0, 0, 3, 110, 116, 115, 0, 0, 1, 0, 1,
     0xC0, 0x0C, 0, 5, 0, 1, 0, 0, 0, 60, 0, 2, 1, 97,
     0xC0, 0x0C, 0, 1, 0, 1, 0, 0, 0, 60, 0, 4, 192, 0, 2, 1]"
proof -
  have "replicate 4 (0::byte) = [0, 0, 0, 0]" by (simp add: numeral_eq_Suc)
  then show ?thesis by (simp add: demo_dns_def encode_response_def be_bytes16_def dns_codes)
qed

lemma demo_dns_labels: "\<forall>l \<in> set [[3, 110, 116, 115 :: byte]]. wire_label l"
  by (auto simp: wire_label_def intro!: exI [of _ "[110, 116, 115 :: byte]"])

lemma demo_dns_skip: "skip_name demo_dns 21 = Inr 23"
proof -
  have "demo_dns = [0, 7, 0x81, 0x80, 0, 1, 0, 2, 0, 0, 0, 0] @ concat [[3, 110, 116, 115]] @
      0 # drop 17 demo_dns"
    by (simp add: demo_dns_bytes)
  from skip_pointer [OF this _ demo_dns_labels, of 21] show ?thesis by (simp add: demo_dns_bytes)
qed

lemma demo_dns_parse: "dns_parse_response demo_dns 7 TYPE_A = Inr [V4 192 0 2 1]"
  unfolding demo_dns_def
  by (subst dns_parse_encoded [OF _ _ _ demo_dns_labels])
     (simp_all add: address_of_record_def dns_codes)

theorem skip_name_progress_witness: "(21::nat) < 23 \<and> 23 \<le> length demo_dns"
  using demo_dns_skip by (rule skip_name_progress)

text \<open>
  The question the client writes is one the parser can read: skipping the name of an encoded
  query lands exactly on its four trailing bytes, the query type and class.
\<close>

theorem encode_query_skippable:
  assumes "encode_query qid name qtype = Inr q"
  shows "skip_name q 12 = Inr (length q - 4) \<and>
    drop (length q - 4) q = be_bytes16 qtype @ be_bytes16 CLASS_IN \<and> take 2 q = be_bytes16 qid"
proof -
  from assms obtain ls where ls: "\<forall>l \<in> set ls. wire_label l"
    "q = (be_bytes16 qid @ be_bytes16 0x0100 @ be_bytes16 1 @ replicate 6 0)
         @ concat ls @ 0 # be_bytes16 qtype @ be_bytes16 CLASS_IN"
    by (rule encode_query_Inr) simp
  have "skip_name q 12 = Inr (12 + length (concat ls) + 1)"
    unfolding skip_name_def using skip_loop_labels [OF ls(2) _ ls(1), of 12 0 None] by simp
  with ls(2) show ?thesis by simp
qed

theorem encode_query_skippable_witness:
  "\<exists>q. encode_query 7 ''nts.example'' TYPE_A = Inr q \<and> skip_name q 12 = Inr (length q - 4)"
proof -
  obtain q where "encode_query 7 ''nts.example'' TYPE_A = Inr q"
    by (simp add: encode_query_def encode_label_def)
  with encode_query_skippable [OF this] show ?thesis by blast
qed

text \<open>
  An accepted answer is to the question that was asked: the identifier is echoed, the list of
  addresses is not empty, every address is of the family that was asked for, and its bytes are
  bytes of the message.
\<close>

theorem dns_accepted_addresses:
  assumes "dns_parse_response m qid qtype = Inr as"
  shows "as \<noteq> [] \<and> take 2 m = be_bytes16 qid \<and>
    (\<forall>a \<in> set as.
       (qtype = TYPE_A \<and> is_ipv4 a \<or> qtype = TYPE_AAAA \<and> \<not> is_ipv4 a \<and> length (addr_bytes a) = 16) \<and>
       (\<exists>off. slice_get m off (off + length (addr_bytes a)) = Some (addr_bytes a)))"
proof -
  from assms obtain n off where
    h: "12 \<le> length m" "dns_u16_at m 0 = Inr qid" "read_answers m qtype n off [] = Inr as" "as \<noteq> []"
    by (auto simp: dns_parse_response_def result_simps not_less split: if_splits)
  from read_answers_from [OF h(3)] have "\<forall>a \<in> set as. addr_from m qtype a" by simp
  moreover have "take 2 m = be_bytes16 qid"
  proof -
    from h(2) have "qid = from_be16 (m ! 0) (m ! 1)" by (simp add: dns_u16_at_Inr)
    then have "from_be16 (m ! 0) (m ! 1) = from_be16 (ucast (drop_bit 8 qid)) (ucast qid)" by simp
    then have "m ! 0 = ucast (drop_bit 8 qid)" "m ! 1 = ucast qid" by (simp_all only: from_be16_inject)
    moreover have "take 2 m = [m ! 0, m ! 1]"
      using h(1) by (intro nth_equalityI) (auto simp: less_Suc_eq numeral_eq_Suc)
    ultimately show ?thesis by (simp add: be_bytes16_def)
  qed
  ultimately show ?thesis using h(4) unfolding addr_from_def by blast
qed

theorem dns_accepted_addresses_witness:
  "take 2 demo_dns = be_bytes16 7 \<and> (\<forall>a \<in> set [V4 192 0 2 1]. is_ipv4 a)"
  using dns_accepted_addresses [OF demo_dns_parse] by simp

text \<open>
  C35. A well-formed response is read completely: for one question and answer records named by
  the usual pointer, the result is the list of all address records of class IN and of the type
  asked for, in order, an error exactly for a malformed one or for none, and whatever sections
  follow are ignored.
\<close>

theorem dns_parse_response_complete:
  assumes "flags AND 0x8000 \<noteq> 0" and "flags AND 0x0200 = 0" and "flags AND 0x000F = 0"
    and "\<forall>l \<in> set ls. wire_label l" and "\<forall>r \<in> set rrs. wf_rr r" and "length rrs < 65536"
  shows "dns_parse_response (encode_response qid flags ls qt rrs rest) qid qtype =
    res_bind (res_collect (rr_addresses qtype) rrs)
      (\<lambda>ass. if concat ass = [] then Inl NoAddressRecords else Inr (concat ass))"
  using assms by (rule dns_parse_encoded)

theorem dns_parse_response_complete_witness:
  "dns_parse_response (encode_response 7 0x8180 [[3, 110, 116, 115]] TYPE_A
      [(TYPE_A, CLASS_IN, [0, 0, 0, 60], [192, 0, 2, 1])] [1, 2]) 7 TYPE_A = Inr [V4 192 0 2 1]"
  by (subst dns_parse_response_complete [OF _ _ _ demo_dns_labels])
     (simp_all add: address_of_record_def dns_codes)

end
