(* ===== verification/Time_Exchange.thy ===== *)
theory Time_Exchange
  imports Time_Deferred Time_Nts Time_Ntp Time_Dns
begin

text \<open>
  \<open>packages/time-correction/src/doh.rs\<close> and \<open>timeserver.rs\<close>: the two network legs.  Sockets,
  rustls sessions and the HTTP client are outside the repository; the record \<open>net\<close> holds what they
  answer (the chain a peer presents, the bytes successive reads return, exported keys), and the
  definitions here are the code's reaction to it.  As rustls does, a handshake hands the presented
  chain to the custom verifier (pass 1) and fails when that refuses.
\<close>

section \<open>Model\<close>

text \<open>What one \<open>stream.read\<close> returns; an exhausted list is the read timeout.\<close>

datatype read_event = ReadBytes "byte list" | ReadUnexpectedEof | ReadError string

text \<open>
  \<open>doh_*\<close> are indexed by resolver host, address and query; \<open>ke_*\<close> by host name and address;
  \<open>udp_*\<close> by address and port.  A \<open>string option\<close> is an error of a setup step, if any.
\<close>

record ('cert, 'name) net =
  server_name_of :: "string \<Rightarrow> 'name option"
  doh_client :: "string \<Rightarrow> ip_addr \<Rightarrow> string option"
  doh_peer :: "string \<Rightarrow> ip_addr \<Rightarrow> byte list \<Rightarrow> ('cert list \<times> byte list) option"
  doh_send :: "string \<Rightarrow> ip_addr \<Rightarrow> byte list \<Rightarrow> (string, nat \<times> (string, byte list) result) result"
  ke_setup :: "string \<Rightarrow> ip_addr \<Rightarrow> string option"
  ke_peer :: "string \<Rightarrow> ip_addr \<Rightarrow> ('cert list \<times> byte list) option"
  ke_write :: "string \<Rightarrow> ip_addr \<Rightarrow> byte list \<Rightarrow> string option"
  ke_alpn :: "string \<Rightarrow> ip_addr \<Rightarrow> byte list option"
  ke_reads :: "string \<Rightarrow> ip_addr \<Rightarrow> read_event list"
  ke_export :: "string \<Rightarrow> ip_addr \<Rightarrow> byte list \<Rightarrow> byte list \<Rightarrow> (string, byte list) result"
  udp_setup :: "ip_addr \<Rightarrow> nat \<Rightarrow> string option"
  udp_exchange :: "ip_addr \<Rightarrow> nat \<Rightarrow> byte list \<Rightarrow> (string, byte list) result"

datatype exchange_error =
    InvalidServerName string
  | ClientSetup string
  | HandshakeRefused verify_error
  | RequestFailed string
  | HttpStatus nat
  | BodyUnreadable string
  | DnsFailure dns_error
  | NoVerifiedHandshake
  | WrongAlpn "byte list option"
  | KeResponseTooLong
  | KeReadFailed string
  | KeClosedEarly
  | NtsFailure nts_error
  | ExportFailed string
  | NoPeerCertificates
  | NoCookieToSpend
  | UdpFailed string
  | NtpFailure ntp_error

text \<open>Pass 1 as the TLS stack drives it: the outcome of the handshake and the recorded chain.\<close>

definition handshake ::
  "('cert, 'name) pki \<Rightarrow> 'name \<Rightarrow> ('cert list \<times> byte list) option
   \<Rightarrow> (verify_error, unit) result \<times> 'cert list option" where
  "handshake pki name peer =
     (case peer of
        Some (end_entity # intermediates, ocsp) \<Rightarrow>
          tav_verify_server_cert pki end_entity intermediates name ocsp None
      | _ \<Rightarrow> (Inr (), None))"

subsection \<open>DoH\<close>

definition doh_resolve ::
  "('cert, 'name) net \<Rightarrow> ('cert, 'name) pki \<Rightarrow> ('cert, 'name) deferred \<Rightarrow> string \<Rightarrow> ip_addr
   \<Rightarrow> string \<Rightarrow> u16 \<Rightarrow> u16 \<Rightarrow> (exchange_error, ip_addr list) result \<times> ('cert, 'name) deferred" where
  "doh_resolve net pki deferred resolver_host resolver_address name qtype query_id =
     (case server_name_of net resolver_host of
        None \<Rightarrow> (Inl (InvalidServerName resolver_host), deferred)
      | Some server_name \<Rightarrow>
     (case doh_client net resolver_host resolver_address of
        Some e \<Rightarrow> (Inl (ClientSetup e), deferred)
      | None \<Rightarrow>
     (case encode_query query_id name qtype of
        Inl e \<Rightarrow> (Inl (DnsFailure e), deferred)
      | Inr query \<Rightarrow>
          let (hs, seen) = handshake pki server_name (doh_peer net resolver_host resolver_address query) in
     (case res_bind (map_err HandshakeRefused hs)
             (\<lambda>_. map_err RequestFailed (doh_send net resolver_host resolver_address query)) of
        Inl e \<Rightarrow> (Inl e, deferred)
      | Inr (status, body) \<Rightarrow>
          if \<not> (200 \<le> status \<and> status < 300) then (Inl (HttpStatus status), deferred)
          else
     (case res_bind (map_err BodyUnreadable body)
             (\<lambda>bytes. map_err DnsFailure (dns_parse_response bytes query_id qtype)) of
        Inl e \<Rightarrow> (Inl e, deferred)
      | Inr addresses \<Rightarrow>
     (case seen of
        None \<Rightarrow> (Inl NoVerifiedHandshake, deferred)
      | Some chain \<Rightarrow>
          (Inr addresses, record_chain deferred (''DoH '' @ resolver_host) chain server_name)))))))"

subsection \<open>NTS key establishment\<close>

definition NTS_KE_ALPN :: "byte list" where "NTS_KE_ALPN = bytes_of_str ''ntske/1''"
definition EXPORTER_LABEL :: "byte list" where
  "EXPORTER_LABEL = bytes_of_str ''EXPORTER-network-time-security''"
definition DEFAULT_NTP_PORT :: nat where "DEFAULT_NTP_PORT = 123"
definition MAX_KE_RESPONSE :: nat where "MAX_KE_RESPONSE = 65536"

record established =
  est_agreement :: agreement
  est_c2s :: "byte list"
  est_s2c :: "byte list"

fun ke_read_loop :: "byte list \<Rightarrow> read_event list \<Rightarrow> (exchange_error, byte list) result" where
  "ke_read_loop response events =
     (if response_complete response then Inr response
      else case events of
        [] \<Rightarrow> Inl (KeReadFailed ''timed out'')
      | ReadBytes chunk # es \<Rightarrow>
          if chunk = [] then Inr response
          else if MAX_KE_RESPONSE < length (response @ chunk) then Inl KeResponseTooLong
          else ke_read_loop (response @ chunk) es
      | ReadUnexpectedEof # es \<Rightarrow> Inr response
      | ReadError e # es \<Rightarrow> Inl (KeReadFailed e))"

declare ke_read_loop.simps [simp del]

definition establish ::
  "('cert, 'name) net \<Rightarrow> ('cert, 'name) pki \<Rightarrow> ('cert, 'name) deferred \<Rightarrow> string \<Rightarrow> ip_addr
   \<Rightarrow> (exchange_error, established) result \<times> ('cert, 'name) deferred" where
  "establish net pki deferred hostname address =
     (case server_name_of net hostname of
        None \<Rightarrow> (Inl (InvalidServerName hostname), deferred)
      | Some server_name \<Rightarrow>
     (case ke_setup net hostname address of
        Some e \<Rightarrow> (Inl (ClientSetup e), deferred)
      | None \<Rightarrow>
          let (hs, seen) = handshake pki server_name (ke_peer net hostname address) in
     (case
        res_bind (map_err HandshakeRefused hs) (\<lambda>_.
        res_bind (case ke_write net hostname address (nts_request AEAD_AES_SIV_CMAC_256) of
                    Some e \<Rightarrow> Inl (RequestFailed e) | None \<Rightarrow> Inr ()) (\<lambda>_.
        if ke_alpn net hostname address \<noteq> Some NTS_KE_ALPN
        then Inl (WrongAlpn (ke_alpn net hostname address))
        else
        res_bind (ke_read_loop [] (ke_reads net hostname address)) (\<lambda>response.
        if \<not> response_complete response then Inl KeClosedEarly
        else
        res_bind (map_err NtsFailure (nts_parse_response response AEAD_AES_SIV_CMAC_256)) (\<lambda>agreement.
        res_bind (map_err ExportFailed (ke_export net hostname address EXPORTER_LABEL
                    (exporter_context (agr_aead agreement) True))) (\<lambda>c2s.
        res_bind (map_err ExportFailed (ke_export net hostname address EXPORTER_LABEL
                    (exporter_context (agr_aead agreement) False))) (\<lambda>s2c.
        res_bind (ok_or NoPeerCertificates seen) (\<lambda>chain.
          Inr (\<lparr>est_agreement = agreement, est_c2s = c2s, est_s2c = s2c\<rparr>, chain)))))))) of
        Inl e \<Rightarrow> (Inl e, deferred)
      | Inr (session, chain) \<Rightarrow>
          (Inr session, record_chain deferred (''NTS-KE '' @ hostname) chain server_name))))"

subsection \<open>The NTP exchange\<close>

definition ask_time ::
  "('cert, 'name) net \<Rightarrow> siv \<Rightarrow> established \<Rightarrow> ip_addr \<Rightarrow> nat \<Rightarrow> byte list \<Rightarrow> byte list
   \<Rightarrow> (exchange_error, int) result" where
  "ask_time net siv est address port unique_id nonce =
     res_bind (ok_or NoCookieToSpend (nth_get (agr_cookies (est_agreement est)) 0)) (\<lambda>cookie.
     res_bind (map_err NtpFailure (build_request siv cookie (est_c2s est) unique_id nonce)) (\<lambda>request.
     res_bind (case udp_setup net address port of Some e \<Rightarrow> Inl (UdpFailed e) | None \<Rightarrow> Inr ()) (\<lambda>_.
     res_bind (map_err UdpFailed (udp_exchange net address port (req_packet request))) (\<lambda>datagram.
       map_err NtpFailure
         (ntp_parse_response siv (take 1024 datagram) (est_s2c est) (req_unique_id request))))))"

definition ntp_target :: "established \<Rightarrow> ip_addr \<Rightarrow> string option \<times> ip_addr \<times> nat" where
  "ntp_target est fallback =
     (let port = (case agr_port (est_agreement est) of None \<Rightarrow> DEFAULT_NTP_PORT | Some p \<Rightarrow> unat p) in
      case agr_server (est_agreement est) of
        None \<Rightarrow> (None, fallback, port)
      | Some server \<Rightarrow>
          (case parse_ip server of
             Some address \<Rightarrow> (None, address, port)
           | None \<Rightarrow> (Some server, fallback, port)))"

section \<open>Lemmas\<close>

text \<open>A chain that reaches the deferred checks is the one its peer sent, and passed pass 1 in its own handshake.\<close>

definition presented :: "('cert, 'name) pki \<Rightarrow> 'name \<Rightarrow> ('cert list \<times> byte list) option \<Rightarrow> 'cert list \<Rightarrow> bool" where
  "presented pki name peer chain \<longleftrightarrow>
     (\<exists>ee ints ocsp. peer = Some (chain, ocsp) \<and> chain = ee # ints \<and>
        fst (tav_verify_server_cert pki ee ints name ocsp None) = Inr ())"

lemma handshake_seen:
  assumes "handshake pki name peer = (Inr u, Some chain)"
  shows "presented pki name peer chain"
proof -
  from assms obtain ee ints ocsp where
    peer: "peer = Some (ee # ints, ocsp)" and tav: "tav_verify_server_cert pki ee ints name ocsp None = (Inr u, Some chain)"
    by (auto simp: handshake_def split: option.splits prod.splits list.splits)
  then have "chain = ee # ints" by (auto simp: tav_verify_server_cert_def split: sum.splits)
  with peer tav show ?thesis unfolding presented_def by (metis fst_conv old.unit.exhaust)
qed

text \<open>A leg either fails and leaves the collection as it was, or adds exactly one chain.\<close>

lemma doh_resolve_cases:
  assumes "doh_resolve net pki d host addr name qtype qid = (r, d')"
  shows "(\<exists>e. r = Inl e \<and> d' = d) \<or>
    (\<exists>as sn query chain. r = Inr as \<and> as \<noteq> [] \<and> server_name_of net host = Some sn \<and>
       presented pki sn (doh_peer net host addr query) chain \<and>
       d' = record_chain d (''DoH '' @ host) chain sn)"
proof (cases r)
  case (Inl e)
  with assms show ?thesis
    by (auto simp: doh_resolve_def Let_def split: option.splits sum.splits prod.splits if_splits)
next
  case (Inr as)
  from assms Inr obtain sn where sn: "server_name_of net host = Some sn"
    by (auto simp: doh_resolve_def split: option.splits)
  from assms Inr sn obtain query where q: "encode_query qid name qtype = Inr query"
    by (auto simp: doh_resolve_def split: option.splits sum.splits)
  obtain hs seen where hs: "handshake pki sn (doh_peer net host addr query) = (hs, seen)" by fastforce
  from assms Inr sn q hs obtain u chain where u: "hs = Inr u" "seen = Some chain"
    and d': "d' = record_chain d (''DoH '' @ host) chain sn"
    by (auto simp: doh_resolve_def result_simps split: option.splits sum.splits prod.splits if_splits)
  from assms Inr sn q hs obtain body where
    dns: "res_bind (map_err BodyUnreadable body)
               (\<lambda>bytes. map_err DnsFailure (dns_parse_response bytes qid qtype)) = Inr as"
    by (auto simp: doh_resolve_def split: option.splits sum.splits prod.splits if_splits)
  from dns have "as \<noteq> []"
    by (auto simp: result_simps dns_parse_response_def split: if_splits)
  with Inr sn handshake_seen [OF hs [unfolded u]] d' show ?thesis by blast
qed

lemma nts_parse_response_cookies:
  "nts_parse_response m aead = Inr a \<Longrightarrow> agr_cookies a \<noteq> [] \<and> agr_aead a = aead"
  by (auto simp: nts_parse_response_def nts_finish_def result_simps Let_def split: if_splits option.splits)

lemma establish_Inr:
  assumes "establish net pki d host addr = (Inr est, d')"
  obtains sn u chain response where "server_name_of net host = Some sn"
    and "handshake pki sn (ke_peer net host addr) = (Inr u, Some chain)"
    and "d' = record_chain d (''NTS-KE '' @ host) chain sn"
    and "ke_alpn net host addr = Some NTS_KE_ALPN"
    and "ke_read_loop [] (ke_reads net host addr) = Inr response"
    and "response_complete response"
    and "nts_parse_response response AEAD_AES_SIV_CMAC_256 = Inr (est_agreement est)"
proof -
  from assms obtain sn where sn: "server_name_of net host = Some sn"
    by (auto simp: establish_def split: option.splits)
  obtain hs seen where hs: "handshake pki sn (ke_peer net host addr) = (hs, seen)" by fastforce
  from assms sn hs obtain u chain response where u: "hs = Inr u" "seen = Some chain"
    and rest: "d' = record_chain d (''NTS-KE '' @ host) chain sn"
     "ke_alpn net host addr = Some NTS_KE_ALPN"
     "ke_read_loop [] (ke_reads net host addr) = Inr response"
     "response_complete response"
     "nts_parse_response response AEAD_AES_SIV_CMAC_256 = Inr (est_agreement est)"
    by (auto simp: establish_def result_simps split: option.splits sum.splits prod.splits if_splits)
  show thesis by (rule that [OF sn hs [unfolded u] rest])
qed

lemma establish_cases:
  assumes "establish net pki d host addr = (r, d')"
  shows "(\<exists>e. r = Inl e \<and> d' = d) \<or>
    (\<exists>est sn chain. r = Inr est \<and> server_name_of net host = Some sn \<and>
       presented pki sn (ke_peer net host addr) chain \<and>
       d' = record_chain d (''NTS-KE '' @ host) chain sn \<and> agr_cookies (est_agreement est) \<noteq> [] \<and>
       ke_alpn net host addr = Some NTS_KE_ALPN)"
proof (cases r)
  case (Inl e)
  with assms show ?thesis
    by (auto simp: establish_def Let_def split: option.splits sum.splits prod.splits if_splits)
next
  case (Inr est)
  with assms obtain sn u chain response where *: "server_name_of net host = Some sn"
    "handshake pki sn (ke_peer net host addr) = (Inr u, Some chain)"
    "d' = record_chain d (''NTS-KE '' @ host) chain sn" "ke_alpn net host addr = Some NTS_KE_ALPN"
    "nts_parse_response response AEAD_AES_SIV_CMAC_256 = Inr (est_agreement est)"
    by (metis establish_Inr)
  show ?thesis
    using *(1,3,4) Inr handshake_seen [OF *(2)] nts_parse_response_cookies [OF *(5)]
    by (intro disjI2 exI [of _ est] exI [of _ sn] exI [of _ chain]) simp
qed

lemma ke_read_loop_chunks:
  assumes "response_complete (acc @ concat chunks)" and "[] \<notin> set chunks"
    and "length (acc @ concat chunks) \<le> MAX_KE_RESPONSE"
    and "\<And>p x. p @ x = acc @ concat chunks \<Longrightarrow> x \<noteq> [] \<Longrightarrow> \<not> response_complete p"
  shows "ke_read_loop acc (map ReadBytes chunks @ rest) = Inr (acc @ concat chunks)"
  using assms
proof (induction chunks arbitrary: acc)
  case Nil
  then show ?case by (subst ke_read_loop.simps) simp
next
  case (Cons c cs)
  have "\<not> response_complete acc"
    using Cons.prems(4) [of acc "concat (c # cs)"] Cons.prems(2) by auto
  moreover have "ke_read_loop (acc @ c) (map ReadBytes cs @ rest) = Inr ((acc @ c) @ concat cs)"
    by (rule Cons.IH) (use Cons.prems in auto)
  ultimately show ?case
    using Cons.prems(2,3) by (subst ke_read_loop.simps) (auto simp: not_less)
qed

lemma ke_read_loop_bounded:
  "ke_read_loop acc es = Inr r \<Longrightarrow> length acc \<le> MAX_KE_RESPONSE \<Longrightarrow> length r \<le> MAX_KE_RESPONSE"
proof (induction acc es rule: ke_read_loop.induct)
  case (1 acc es)
  from "1.prems" have "(if response_complete acc then Inr acc
      else case es of
        [] \<Rightarrow> Inl (KeReadFailed ''timed out'')
      | ReadBytes chunk # es \<Rightarrow>
          if chunk = [] then Inr acc
          else if MAX_KE_RESPONSE < length (acc @ chunk) then Inl KeResponseTooLong
          else ke_read_loop (acc @ chunk) es
      | ReadUnexpectedEof # es \<Rightarrow> Inr acc
      | ReadError e # es \<Rightarrow> Inl (KeReadFailed e)) = Inr r"
    by (subst (asm) ke_read_loop.simps)
  with 1 show ?case
    by (auto simp: not_less split: if_splits list.splits read_event.splits)
qed

section \<open>Properties\<close>

text \<open>
  How TCP cuts the answer does not matter: a response of records closed by an empty
  end-of-message record, within the size limit, is read back whole from any sequence of
  non-empty chunks, and whatever the connection does after it (an unclean close included) is
  never looked at.
\<close>

theorem ke_read_any_chunking:
  assumes "concat chunks = encode_records rs @ encode_record e" and "[] \<notin> set chunks"
    and "\<forall>r \<in> set rs. wf_record r \<and> \<not> is_end r" and "is_end e" and "snd e = []"
    and "length (concat chunks) \<le> MAX_KE_RESPONSE"
  shows "ke_read_loop [] (map ReadBytes chunks @ rest) = Inr (encode_records rs @ encode_record e)"
proof -
  have "response_complete (concat chunks)"
    using response_complete_from_records [of rs e "[]" "[]"] assms(1,3,4,5)
    by (simp add: response_complete_def wf_record_def)
  moreover have "\<not> response_complete p" if "p @ x = concat chunks" "x \<noteq> []" for p x
    using response_incomplete_prefix [of p x "[]" rs e] that assms(1,3,5)
    by (simp add: response_complete_def)
  ultimately show ?thesis
    using ke_read_loop_chunks [of "[]" chunks rest] assms(1,2,6) by simp
qed

theorem ke_read_any_chunking_witness:
  "ke_read_loop [] (map ReadBytes [[0x80, 1, 0], [2, 0, 0, 0x80], [0, 0, 0]] @ [ReadError ''reset'']) =
     Inr (encode_records [(0x8001, [0, 0])] @ encode_record (0x8000, []))"
  by (rule ke_read_any_chunking)
     (simp_all add: encode_records_def encode_record_def be_bytes16_def wf_record_def is_end_def
        CRITICAL_def RECORD_END_OF_MESSAGE_def MAX_KE_RESPONSE_def)

text \<open>
  A key-establishment session is usable only on the protocol's terms: when
  \<open>establish\<close> succeeds the peer negotiated \<open>ntske/1\<close>, its chain
  passed pass 1 for the requested name and is the one chain added to the deferred checks under
  that name, the answer was a complete message of at most 64 KiB, and there is a cookie to
  spend. When it fails no chain is added.
\<close>

theorem establish_success_or_nothing_recorded:
  assumes "establish net pki d host addr = (r, d')"
  shows "(\<exists>e. r = Inl e \<and> d' = d) \<or>
    (\<exists>est sn ee ints ocsp response. r = Inr est \<and> server_name_of net host = Some sn \<and>
       fst (tav_verify_server_cert pki ee ints sn ocsp None) = Inr () \<and>
       d' = record_chain d (''NTS-KE '' @ host) (ee # ints) sn \<and>
       ke_alpn net host addr = Some NTS_KE_ALPN \<and>
       response_complete response \<and> length response \<le> MAX_KE_RESPONSE \<and>
       nts_parse_response response AEAD_AES_SIV_CMAC_256 = Inr (est_agreement est) \<and>
       agr_cookies (est_agreement est) \<noteq> [])"
proof (cases r)
  case (Inl e)
  with establish_cases [OF assms] show ?thesis by blast
next
  case (Inr est)
  with assms obtain sn u chain response where *: "server_name_of net host = Some sn"
    "handshake pki sn (ke_peer net host addr) = (Inr u, Some chain)"
    "d' = record_chain d (''NTS-KE '' @ host) chain sn" "ke_alpn net host addr = Some NTS_KE_ALPN"
    "ke_read_loop [] (ke_reads net host addr) = Inr response" "response_complete response"
    "nts_parse_response response AEAD_AES_SIV_CMAC_256 = Inr (est_agreement est)"
    by (metis establish_Inr)
  from handshake_seen [OF *(2)] obtain ee ints ocsp where
    p: "chain = ee # ints" "fst (tav_verify_server_cert pki ee ints sn ocsp None) = Inr ()"
    unfolding presented_def by blast
  show ?thesis
    using * p Inr ke_read_loop_bounded [OF *(5)] nts_parse_response_cookies [OF *(7)] by fastforce
qed

text \<open>A network in which everything answers: the same certificate, DNS, key and time server for all.\<close>

definition demo_net :: "(window, string) net" where
  "demo_net =
     \<lparr>server_name_of = Some,
      doh_client = (\<lambda>_ _. None),
      doh_peer = (\<lambda>_ _ _. Some ([(1000, 1900000000)], [])),
      doh_send = (\<lambda>_ _ _. Inr (200, Inr demo_dns)),
      ke_setup = (\<lambda>_ _. None),
      ke_peer = (\<lambda>_ _. Some ([(2000, 1800000000)], [])),
      ke_write = (\<lambda>_ _ _. None),
      ke_alpn = (\<lambda>_ _. Some NTS_KE_ALPN),
      ke_reads = (\<lambda>_ _. [ReadBytes demo_ke_bytes]),
      ke_export = (\<lambda>_ _ _ _. Inr (replicate 32 1)),
      udp_setup = (\<lambda>_ _. None),
      udp_exchange = (\<lambda>_ _ _. Inr demo_response)\<rparr>"

definition demo_session :: established where
  "demo_session =
     \<lparr>est_agreement = \<lparr>agr_aead = 15, agr_cookies = [[7, 8, 9]], agr_server = None, agr_port = Some 4123\<rparr>,
      est_c2s = replicate 32 1, est_s2c = replicate 32 1\<rparr>"

lemma demo_handshake:
  "0 \<le> a \<Longrightarrow> a \<le> b \<Longrightarrow> handshake demo_pki name (Some ([(a, b)], [])) = (Inr (), Some [(a, b)])"
  by (simp add: handshake_def tav_verify_server_cert_def pass1_candidates_def window_of_def result_ok_def
      demo_pki_def unix_time_def open_at_def chain_window_def)

lemma demo_establish:
  "establish demo_net demo_pki d host addr =
     (Inr demo_session, record_chain d (''NTS-KE '' @ host) [(2000, 1800000000)] host)"
proof -
  have c: "response_complete demo_ke_bytes"
    by (simp add: response_complete_def demo_ke_bytes_def response_complete_from.simps from_be16_def
        record_codes)
  have "\<not> response_complete []" by (simp add: response_complete_def response_complete_from.simps)
  moreover have "length demo_ke_bytes \<le> MAX_KE_RESPONSE" "demo_ke_bytes \<noteq> []"
    by (simp_all add: demo_ke_bytes_def MAX_KE_RESPONSE_def)
  ultimately have "ke_read_loop [] [ReadBytes demo_ke_bytes] = Inr demo_ke_bytes"
    using c by (subst ke_read_loop.simps, simp, subst ke_read_loop.simps, simp)
  then show ?thesis
    using c by (simp add: establish_def demo_net_def demo_handshake demo_ke_parse demo_session_def)
qed

theorem establish_success_or_nothing_recorded_witness:
  "ke_alpn demo_net ''s'' (V4 192 0 2 1) = Some NTS_KE_ALPN \<and>
   agr_cookies (est_agreement demo_session) \<noteq> []"
  using establish_success_or_nothing_recorded
    [OF demo_establish [of deferred_new "''s''" "V4 192 0 2 1"]] by auto

end
