(* ===== verification/Time_Main.thy ===== *)
theory Time_Main
  imports Time_Config Time_Exchange
begin

text \<open>
  The running half of \<open>packages/time-correction/src/main.rs\<close>: one (resolver, server) pair taken
  from a hostname to a verified timestamp, the threads that do this for every pair, and the
  decision to step the clock.  The record \<open>world\<close> is everything the run reads from outside: the
  trust store, the network as each thread sees it, random bytes, the wall clock and the result of
  \<open>clock_settime\<close>.  A run returns its outcome together with the list of \<open>clock_settime\<close> calls.
\<close>

section \<open>Model\<close>

record ('root, 'cert, 'name) world =
  w_certs :: "'root list \<times> string list"
  w_roots_add :: "'root \<Rightarrow> bool"
  w_build :: "'root list \<Rightarrow> (string, ('cert, 'name) pki) result"
  w_siv :: siv
  w_net :: "nat \<Rightarrow> ('cert, 'name) net"
  w_seed :: "(string, u64) result"
  w_id :: "nat \<Rightarrow> (string, byte \<times> byte) result"
  w_unique_id :: "nat \<Rightarrow> (string, byte list) result"
  w_nonce :: "nat \<Rightarrow> (string, byte list) result"
  w_thread_panics :: "nat \<Rightarrow> bool"
  w_now :: int
  w_settime :: "int \<Rightarrow> string option"

datatype pair_error =
    RandomFailed string
  | ResolveFailed string "(u16 \<times> ip_addr \<times> exchange_error) list"
  | ResolvedToNothing string
  | LegFailed exchange_error
  | RedirectToNothing string
  | BelowFloor int int
  | NotBelieved deferred_error

datatype failure = TrustStore verify_error | ThreadPanicked | PairFailed string string pair_error

datatype run_error =
    ChoiceFailed config_error
  | PairsFailed nat nat "failure list"
  | NoAgreement quorum_error
  | ClockTooFarAhead
  | ClockTooFarBehind
  | StandDownPanic
  | SetClockFailed string

subsection \<open>Small decisions\<close>

definition needs_setting :: "int \<Rightarrow> window option \<Rightarrow> bool" where
  "needs_setting now window =
     (case window of Some (not_before, not_after) \<Rightarrow> now < not_before \<or> not_after < now | None \<Rightarrow> True)"

text \<open>An instant is its signed count of nanoseconds from the epoch.\<close>

definition epoch_seconds :: "int \<Rightarrow> (run_error, int) result" where
  "epoch_seconds instant =
     (if 0 \<le> instant then
        let secs = instant div 1000000000
        in if secs \<le> i64_max then Inr secs else Inl ClockTooFarAhead
      else
        let secs = (- instant) div 1000000000
        in if secs \<le> i64_max then Inr (- secs) else Inl ClockTooFarBehind)"

definition refuse_below_floor :: "int \<Rightarrow> int \<Rightarrow> (pair_error, unit) result" where
  "refuse_below_floor seconds floor =
     (if seconds < floor then Inl (BelowFloor seconds floor) else Inr ())"

definition draw_seed :: "('root, 'cert, 'name) world \<Rightarrow> u64" where
  "draw_seed w = (case w_seed w of Inr s \<Rightarrow> s | Inl _ \<Rightarrow> 0)"

subsection \<open>One pair\<close>

text \<open>The inner loop of \<open>resolve\<close>: the resolver's addresses in turn, up to the first that answers.\<close>

fun try_resolver ::
  "('cert, 'name) net \<Rightarrow> ('cert, 'name) pki \<Rightarrow> string \<Rightarrow> string \<Rightarrow> u16 \<Rightarrow> u16 \<Rightarrow> ip_addr list
   \<Rightarrow> ('cert, 'name) deferred
   \<Rightarrow> ip_addr list \<times> (u16 \<times> ip_addr \<times> exchange_error) list \<times> ('cert, 'name) deferred" where
  "try_resolver net pki host name qtype qid [] d = ([], [], d)"
| "try_resolver net pki host name qtype qid (a # as) d =
     (case doh_resolve net pki d host a name qtype qid of
        (Inr addresses, d') \<Rightarrow> (addresses, [], d')
      | (Inl e, d') \<Rightarrow>
          let (found, failures, d'') = try_resolver net pki host name qtype qid as d'
          in (found, (qtype, a, e) # failures, d''))"

definition resolve_name ::
  "('cert, 'name) net \<Rightarrow> ('cert, 'name) pki \<Rightarrow> resolver \<Rightarrow> ('cert, 'name) deferred \<Rightarrow> string \<Rightarrow> u16
   \<Rightarrow> (pair_error, ip_addr list) result \<times> ('cert, 'name) deferred" where
  "resolve_name net pki resolver d name qid =
     (let (found4, failures4, d) =
            try_resolver net pki (rs_hostname resolver) name TYPE_A qid (rs_addresses resolver) d;
          (found6, failures6, d) =
            try_resolver net pki (rs_hostname resolver) name TYPE_AAAA (qid + 1) (rs_addresses resolver) d;
          found = found4 @ found6
      in if found = [] then (Inl (ResolveFailed name (failures4 @ failures6)), d) else (Inr found, d))"

fun try_establish ::
  "('cert, 'name) net \<Rightarrow> ('cert, 'name) pki \<Rightarrow> ('cert, 'name) deferred \<Rightarrow> string \<Rightarrow> ip_addr list
   \<Rightarrow> pair_error \<Rightarrow> (pair_error, ip_addr \<times> established) result \<times> ('cert, 'name) deferred" where
  "try_establish net pki d hostname [] last_error = (Inl last_error, d)"
| "try_establish net pki d hostname (a # as) last_error =
     (case establish net pki d hostname a of
        (Inr session, d') \<Rightarrow> (Inr (a, session), d')
      | (Inl e, d') \<Rightarrow> try_establish net pki d' hostname as (LegFailed e))"

text \<open>The address and port of the NTP exchange, following a redirect to a name.\<close>

definition follow_redirect ::
  "('cert, 'name) net \<Rightarrow> ('cert, 'name) pki \<Rightarrow> resolver \<Rightarrow> ('cert, 'name) deferred \<Rightarrow> u16 \<Rightarrow> ip_addr
   \<Rightarrow> established \<Rightarrow> (pair_error, ip_addr \<times> nat) result \<times> ('cert, 'name) deferred" where
  "follow_redirect net pki resolver d qid key_address session =
     (let (redirect, address, port) = ntp_target session key_address in
      case redirect of
        None \<Rightarrow> (Inr (address, port), d)
      | Some name \<Rightarrow>
          (case resolve_name net pki resolver d name (qid + 2) of
             (Inl e, d) \<Rightarrow> (Inl e, d)
           | (Inr candidates, d) \<Rightarrow>
               (case find (\<lambda>a. is_ipv4 a = is_ipv4 key_address) candidates of
                  Some a \<Rightarrow> (Inr (a, port), d)
                | None \<Rightarrow>
                    (case candidates of
                       a # _ \<Rightarrow> (Inr (a, port), d)
                     | [] \<Rightarrow> (Inl (RedirectToNothing name), d)))))"

definition ask_pair ::
  "('cert, 'name) net \<Rightarrow> ('cert, 'name) pki \<Rightarrow> siv \<Rightarrow> (string, byte \<times> byte) result
   \<Rightarrow> (string, byte list) result \<Rightarrow> (string, byte list) result \<Rightarrow> resolver \<Rightarrow> time_server \<Rightarrow> int
   \<Rightarrow> (pair_error, int \<times> window option) result" where
  "ask_pair net pki siv id_bytes uid_bytes nonce_bytes resolver server floor =
     res_bind (map_err RandomFailed id_bytes) (\<lambda>(b0, b1).
       let qid = from_be16 b0 b1 in
       case resolve_name net pki resolver deferred_new (ts_hostname server) qid of
         (Inl e, _) \<Rightarrow> Inl e
       | (Inr addresses, d) \<Rightarrow>
       case try_establish net pki d (ts_hostname server) addresses
              (ResolvedToNothing (ts_hostname server)) of
         (Inl e, _) \<Rightarrow> Inl e
       | (Inr (key_address, session), d) \<Rightarrow>
       case follow_redirect net pki resolver d qid key_address session of
         (Inl e, _) \<Rightarrow> Inl e
       | (Inr (address, port), d) \<Rightarrow>
       res_bind (map_err RandomFailed uid_bytes) (\<lambda>unique_id.
       res_bind (map_err RandomFailed nonce_bytes) (\<lambda>nonce.
       res_bind (map_err LegFailed (ask_time net siv session address port unique_id nonce)) (\<lambda>seconds.
       res_bind (refuse_below_floor seconds floor) (\<lambda>_.
       res_bind (map_err NotBelieved (accept d pki seconds)) (\<lambda>verified.
         Inr (ver_seconds verified, ver_window verified)))))))"

subsection \<open>All pairs\<close>

record collected =
  col_answers :: "answer list"
  col_windows :: "window option list"
  col_failures :: "failure list"

definition pair_outcome ::
  "('root, 'cert, 'name) world \<Rightarrow> ('cert, 'name) pki \<Rightarrow> options \<Rightarrow> nat \<Rightarrow> resolver \<times> time_server
   \<Rightarrow> (pair_error, int \<times> window option) result option" where
  "pair_outcome w pki opts i pair =
     (if w_thread_panics w i then None
      else Some (ask_pair (w_net w i) pki (w_siv w) (w_id w i) (w_unique_id w i) (w_nonce w i)
                   (fst pair) (snd pair) (opt_floor opts)))"

definition join_one ::
  "(nat \<Rightarrow> resolver \<times> time_server \<Rightarrow> (pair_error, int \<times> window option) result option)
   \<Rightarrow> collected \<Rightarrow> nat \<times> resolver \<times> time_server \<Rightarrow> collected" where
  "join_one outcome c ip =
     (let (i, resolver, server) = ip in
      case outcome i (resolver, server) of
        None \<Rightarrow> c\<lparr>col_failures := col_failures c @ [ThreadPanicked]\<rparr>
      | Some (Inr (seconds, window)) \<Rightarrow>
          c\<lparr>col_answers := col_answers c @
               [\<lparr>ans_operator = ts_operator server,
                 ans_endpoint = ts_hostname server @ '' via '' @ rs_name resolver,
                 ans_seconds = seconds\<rparr>],
            col_windows := col_windows c @ [window]\<rparr>
      | Some (Inl e) \<Rightarrow>
          c\<lparr>col_failures := col_failures c @ [PairFailed (ts_name server) (rs_name resolver) e]\<rparr>)"

definition collect_answers ::
  "('root, 'cert, 'name) world \<Rightarrow> options \<Rightarrow> (resolver \<times> time_server) list \<Rightarrow> collected" where
  "collect_answers w opts pairs =
     (case verifier_new (w_certs w) (w_roots_add w) (w_build w) of
        Inl e \<Rightarrow> \<lparr>col_answers = [], col_windows = [], col_failures = [TrustStore e]\<rparr>
      | Inr pki \<Rightarrow>
          foldl (join_one (pair_outcome w pki opts))
            \<lparr>col_answers = [], col_windows = [], col_failures = []\<rparr> (List.enumerate 0 pairs))"

definition common_window :: "window option list \<Rightarrow> window option" where
  "common_window windows =
     (if windows = [] \<or> None \<in> set windows then None else intersect (flatten_options windows))"

definition reason_to_stand_down ::
  "('root, 'cert, 'name) world \<Rightarrow> options \<Rightarrow> window option \<Rightarrow> (run_error, (int \<times> window) option) result" where
  "reason_to_stand_down w opts window =
     (if opt_force opts then Inr None
      else
        res_bind (epoch_seconds (w_now w)) (\<lambda>now.
          if \<not> needs_setting now window
          then res_bind (ok_or StandDownPanic window) (\<lambda>span. Inr (Some (now, span)))
          else Inr None))"

datatype outcome = WouldLeave "int \<times> window" | WouldSet int | LeftAlone "int \<times> window" | ClockSet int

definition run ::
  "('root, 'cert, 'name) world \<Rightarrow> options \<Rightarrow> (run_error, outcome) result \<times> int list" where
  "run w opts =
     (case choose_pairs opts (draw_seed w) of
        Inl e \<Rightarrow> (Inl (ChoiceFailed e), [])
      | Inr pairs \<Rightarrow>
          let sampled = map (\<lambda>p. ts_operator (snd p)) pairs;
              col = collect_answers w opts pairs
          in if col_failures col \<noteq> []
             then (Inl (PairsFailed (length (col_failures col)) (length pairs) (col_failures col)), [])
             else
        case decide sampled (col_answers col) (opt_tolerance opts) of
          Inl e \<Rightarrow> (Inl (NoAgreement e), [])
        | Inr seconds \<Rightarrow>
            let window = common_window (col_windows col) in
            (case reason_to_stand_down w opts window of
               Inl e \<Rightarrow> (Inl e, [])
             | Inr reason \<Rightarrow>
                 if opt_dry_run opts
                 then (Inr (case reason of Some r \<Rightarrow> WouldLeave r | None \<Rightarrow> WouldSet seconds), [])
                 else (case reason of
                         Some r \<Rightarrow> (Inr (LeftAlone r), [])
                       | None \<Rightarrow>
                           (case w_settime w seconds of
                              Some e \<Rightarrow> (Inl (SetClockFailed e), [seconds])
                            | None \<Rightarrow> (Inr (ClockSet seconds), [seconds])))))"

datatype exit_code = ExitSuccess | ExitFailure

definition main ::
  "('root, 'cert, 'name) world \<Rightarrow> string list \<Rightarrow> exit_code \<times> int list" where
  "main w args =
     (case parse_args args of
        Inl e \<Rightarrow> (ExitFailure, [])
      | Inr Help \<Rightarrow> (ExitSuccess, [])
      | Inr (Run opts) \<Rightarrow>
          (case run w opts of
             (Inr out, calls) \<Rightarrow> (ExitSuccess, calls)
           | (Inl e, calls) \<Rightarrow> (ExitFailure, calls)))"

section \<open>Lemmas\<close>

subsection \<open>The legs of a pair\<close>

text \<open>
  \<open>doh_leg\<close> and \<open>ke_leg\<close>: a recorded chain is one that a peer dialled under that host sent, and it passed
  pass 1 in its handshake.  \<open>adds\<close>: a step appended only such legs to the collection, at least one
  when the last argument says so.
\<close>

definition doh_leg :: "('cert, 'name) net \<Rightarrow> ('cert, 'name) pki \<Rightarrow> string \<Rightarrow> ('cert, 'name) pending \<Rightarrow> bool" where
  "doh_leg net pki host p \<longleftrightarrow>
     pend_leg p = ''DoH '' @ host \<and> server_name_of net host = Some (pend_server_name p) \<and>
     (\<exists>addr query. presented pki (pend_server_name p) (doh_peer net host addr query) (pend_chain p))"

definition ke_leg :: "('cert, 'name) net \<Rightarrow> ('cert, 'name) pki \<Rightarrow> string \<Rightarrow> ('cert, 'name) pending \<Rightarrow> bool" where
  "ke_leg net pki host p \<longleftrightarrow>
     pend_leg p = ''NTS-KE '' @ host \<and> server_name_of net host = Some (pend_server_name p) \<and>
     (\<exists>addr. presented pki (pend_server_name p) (ke_peer net host addr) (pend_chain p))"

definition adds ::
  "(('cert, 'name) pending \<Rightarrow> bool) \<Rightarrow> ('cert, 'name) deferred \<Rightarrow> ('cert, 'name) deferred \<Rightarrow> bool \<Rightarrow> bool" where
  "adds leg d d' some \<longleftrightarrow>
     (\<exists>legs. def_pending d' = def_pending d @ legs \<and> (\<forall>p \<in> set legs. leg p) \<and> (some \<longrightarrow> legs \<noteq> []))"

lemma adds_refl: "adds leg d d False"
  by (simp add: adds_def)

lemma adds_trans:
  assumes "adds leg d d' s1" and "adds leg d' d'' s2"
  shows "adds leg d d'' (s1 \<or> s2)"
proof -
  from assms obtain l1 l2 where "def_pending d' = def_pending d @ l1" "def_pending d'' = def_pending d' @ l2"
    "\<forall>p \<in> set l1. leg p" "\<forall>p \<in> set l2. leg p" "s1 \<longrightarrow> l1 \<noteq> []" "s2 \<longrightarrow> l2 \<noteq> []"
    unfolding adds_def by blast
  then show ?thesis unfolding adds_def by (intro exI [of _ "l1 @ l2"]) auto
qed

lemma adds_weaken: "adds leg d d' s \<Longrightarrow> (s' \<Longrightarrow> s) \<Longrightarrow> adds leg d d' s'"
  by (auto simp: adds_def)

lemma adds_record:
  "leg \<lparr>pend_leg = l, pend_chain = chain, pend_server_name = sn\<rparr> \<Longrightarrow> adds leg d (record_chain d l chain sn) True"
  by (simp add: adds_def record_chain_def)

lemma doh_resolve_adds:
  assumes "doh_resolve net pki d host addr name qtype qid = (r, d')"
  shows "adds (doh_leg net pki host) d d' (\<exists>as. r = Inr as) \<and> r \<noteq> Inr []"
  using doh_resolve_cases [OF assms]
  by (elim disjE exE conjE) (auto simp: adds_refl doh_leg_def intro!: adds_record, blast)

lemma establish_adds:
  assumes "establish net pki d host addr = (r, d')"
  shows "adds (ke_leg net pki host) d d' (\<exists>est. r = Inr est)"
  using establish_cases [OF assms]
  by (elim disjE exE conjE) (auto simp: adds_refl ke_leg_def intro!: adds_record)

lemma try_resolver_adds:
  "try_resolver net pki host name qtype qid as d = (found, failures, d') \<Longrightarrow>
   adds (doh_leg net pki host) d d' (found \<noteq> [])"
proof (induction as arbitrary: d failures)
  case Nil
  then show ?case by (simp add: adds_refl)
next
  case (Cons a as)
  obtain r d1 where r: "doh_resolve net pki d host a name qtype qid = (r, d1)" by fastforce
  note one = doh_resolve_adds [OF r]
  show ?case
  proof (cases r)
    case (Inl e)
    with Cons.prems r obtain fs where "try_resolver net pki host name qtype qid as d1 = (found, fs, d')"
      by (auto split: prod.splits)
    from adds_trans [OF conjunct1 [OF one] Cons.IH [OF this]] Inl show ?thesis by simp
  next
    case (Inr addresses)
    with Cons.prems r one show ?thesis by simp
  qed
qed

lemma resolve_name_adds:
  assumes "resolve_name net pki resolver d name qid = (r, d')"
  shows "adds (doh_leg net pki (rs_hostname resolver)) d d' (\<exists>as. r = Inr as)"
proof -
  let ?ask = "\<lambda>t q d. try_resolver net pki (rs_hostname resolver) name t q (rs_addresses resolver) d"
  obtain f4 e4 d4 where 4: "?ask TYPE_A qid d = (f4, e4, d4)" using prod_cases3 by blast
  obtain f6 e6 d6 where 6: "?ask TYPE_AAAA (qid + 1) d4 = (f6, e6, d6)" using prod_cases3 by blast
  from assms 4 6 have "d' = d6" "(\<exists>as. r = Inr as) \<longleftrightarrow> f4 \<noteq> [] \<or> f6 \<noteq> []"
    by (auto simp: resolve_name_def split: if_splits)
  with adds_trans [OF try_resolver_adds [OF 4] try_resolver_adds [OF 6]] show ?thesis by simp
qed

lemma try_establish_adds:
  "try_establish net pki d host as err = (r, d') \<Longrightarrow>
   adds (ke_leg net pki host) d d' (\<exists>x. r = Inr x)"
proof (induction as arbitrary: d err)
  case Nil
  then show ?case by (auto simp: adds_refl)
next
  case (Cons a as)
  obtain r1 d1 where r1: "establish net pki d host a = (r1, d1)" by fastforce
  note one = establish_adds [OF r1]
  show ?case
  proof (cases r1)
    case (Inl e)
    with Cons.prems r1 have "try_establish net pki d1 host as (LegFailed e) = (r, d')" by simp
    from adds_trans [OF one Cons.IH [OF this]] Inl show ?thesis by simp
  next
    case (Inr est)
    with Cons.prems r1 one show ?thesis by (auto intro: adds_weaken)
  qed
qed

lemma follow_redirect_adds:
  assumes "follow_redirect net pki resolver d qid key session = (r, d')"
  shows "adds (doh_leg net pki (rs_hostname resolver)) d d' False"
proof (cases "fst (ntp_target session key)")
  case None
  with assms show ?thesis by (auto simp: follow_redirect_def adds_refl split: prod.splits)
next
  case (Some name)
  obtain r1 d1 where r1: "resolve_name net pki resolver d name (qid + 2) = (r1, d1)" by fastforce
  from assms Some r1 have "d' = d1"
    by (auto simp: follow_redirect_def split: prod.splits sum.splits option.splits list.splits)
  with resolve_name_adds [OF r1] show ?thesis by (auto intro: adds_weaken)
qed

text \<open>Everything known about a pair that answered.\<close>

definition believed ::
  "('cert, 'name) net \<Rightarrow> ('cert, 'name) pki \<Rightarrow> resolver \<Rightarrow> time_server \<Rightarrow> int
   \<Rightarrow> ('cert, 'name) deferred \<Rightarrow> window option \<Rightarrow> bool" where
  "believed net pki resolver server t d win \<longleftrightarrow>
     accept d pki t = Inr \<lparr>ver_seconds = t, ver_window = win\<rparr> \<and>
     (\<exists>p \<in> set (def_pending d). doh_leg net pki (rs_hostname resolver) p) \<and>
     (\<exists>p \<in> set (def_pending d). ke_leg net pki (ts_hostname server) p) \<and>
     (\<forall>p \<in> set (def_pending d). leg_verified pki t p \<and>
        (doh_leg net pki (rs_hostname resolver) p \<or> ke_leg net pki (ts_hostname server) p))"

text \<open>
  The network legs of a pair, in the order in which they are taken: the session, where its time server
  is, and the chains collected on the way.
\<close>

definition pair_walk ::
  "('cert, 'name) net \<Rightarrow> ('cert, 'name) pki \<Rightarrow> (string, byte \<times> byte) result \<Rightarrow> resolver \<Rightarrow> time_server
   \<Rightarrow> (established \<times> ip_addr \<times> nat \<times> ('cert, 'name) deferred) option" where
  "pair_walk net pki id_bytes resolver server =
     (case id_bytes of
        Inl _ \<Rightarrow> None
      | Inr (b0, b1) \<Rightarrow>
     (case resolve_name net pki resolver deferred_new (ts_hostname server) (from_be16 b0 b1) of
        (Inl _, _) \<Rightarrow> None
      | (Inr addresses, d) \<Rightarrow>
     (case try_establish net pki d (ts_hostname server) addresses (ResolvedToNothing (ts_hostname server)) of
        (Inl _, _) \<Rightarrow> None
      | (Inr (key_address, session), d) \<Rightarrow>
     (case follow_redirect net pki resolver d (from_be16 b0 b1) key_address session of
        (Inl _, _) \<Rightarrow> None
      | (Inr (address, port), d) \<Rightarrow> Some (session, address, port, d)))))"

lemma ask_pair_Inr:
  assumes "ask_pair net pki siv idb uidb nonceb resolver server floor = Inr (t, win)"
  obtains d session address port uid nonce where
    "believed net pki resolver server t d win" "floor \<le> t"
    "pair_walk net pki idb resolver server = Some (session, address, port, d)"
    "uidb = Inr uid" "nonceb = Inr nonce" "ask_time net siv session address port uid nonce = Inr t"
proof -
  from assms obtain b0 b1 where i: "idb = Inr (b0, b1)" by (auto simp: ask_pair_def result_simps)
  let ?qid = "from_be16 b0 b1"
  obtain r1 d1 where r1: "resolve_name net pki resolver deferred_new (ts_hostname server) ?qid = (r1, d1)"
    by fastforce
  from assms i r1 obtain as where as: "r1 = Inr as" by (cases r1) (auto simp: ask_pair_def)
  obtain r2 d2 where r2: "try_establish net pki d1 (ts_hostname server) as
      (ResolvedToNothing (ts_hostname server)) = (r2, d2)" by fastforce
  from assms i r1 as r2 obtain key session where ks: "r2 = Inr (key, session)"
    by (cases r2) (auto simp: ask_pair_def)
  obtain r3 d where r3: "follow_redirect net pki resolver d2 ?qid key session = (r3, d)" by fastforce
  from assms i r1 as r2 ks r3 obtain address port where ap: "r3 = Inr (address, port)"
    by (cases r3) (auto simp: ask_pair_def)
  from assms i r1 as r2 ks r3 ap obtain uid nonce v where u: "uidb = Inr uid" "nonceb = Inr nonce"
    and a: "ask_time net siv session address port uid nonce = Inr (ver_seconds v)"
    and fl: "refuse_below_floor (ver_seconds v) floor = Inr ()"
    and acc: "accept d pki (ver_seconds v) = Inr v" and v: "t = ver_seconds v" "win = ver_window v"
    by (auto simp: ask_pair_def result_simps accept_Inr)
  from fl v have fl: "floor \<le> t" by (auto simp: refuse_below_floor_def split: if_splits)
  note a = a [folded v(1)]
  let ?doh = "doh_leg net pki (rs_hostname resolver)"
  let ?nts = "ke_leg net pki (ts_hostname server)"
  have l1: "\<forall>p \<in> set (def_pending d1). ?doh p" "def_pending d1 \<noteq> []"
    using resolve_name_adds [OF r1] by (auto simp: adds_def as deferred_new_def)
  from try_establish_adds [OF r2] obtain l2 where
    l2: "def_pending d2 = def_pending d1 @ l2" "\<forall>p \<in> set l2. ?nts p" "l2 \<noteq> []"
    by (auto simp: adds_def ks)
  from follow_redirect_adds [OF r3] obtain l3 where
    l3: "def_pending d = def_pending d2 @ l3" "\<forall>p \<in> set l3. ?doh p"
    by (auto simp: adds_def)
  have d: "def_pending d = def_pending d1 @ l2 @ l3" using l2 l3 by simp
  have "\<lparr>ver_seconds = ver_seconds v, ver_window = ver_window v\<rparr> = v" by simp
  then have acc: "accept d pki t = Inr \<lparr>ver_seconds = t, ver_window = win\<rparr>"
    using acc unfolding v by (simp only:)
  have "\<forall>p \<in> set (def_pending d). leg_verified pki t p" using acc by (simp add: accept_Inr)
  then have "believed net pki resolver server t d win"
    unfolding believed_def d set_append
    using acc l1(1) l2(2) l3(2) hd_in_set [OF l1(2)] hd_in_set [OF l2(3)] by blast
  moreover have "pair_walk net pki idb resolver server = Some (session, address, port, d)"
    by (simp add: pair_walk_def i r1 as r2 ks r3 ap)
  ultimately show thesis using that fl u a by blast
qed

lemma ask_time_Inr:
  assumes "ask_time net siv session address port uid nonce = Inr t"
  obtains cookie request datagram where "nth_get (agr_cookies (est_agreement session)) 0 = Some cookie"
    and "build_request siv cookie (est_c2s session) uid nonce = Inr request"
    and "udp_exchange net address port (req_packet request) = Inr datagram"
    and "authenticated_time siv (est_s2c session) uid (take 1024 datagram) t" and "half_i64 t"
proof -
  from assms obtain cookie request datagram where
    e: "nth_get (agr_cookies (est_agreement session)) 0 = Some cookie" "build_request siv cookie (est_c2s session) uid nonce = Inr request"
      "udp_exchange net address port (req_packet request) = Inr datagram"
    and p: "ntp_parse_response siv (take 1024 datagram) (est_s2c session) (req_unique_id request) = Inr t"
    by (auto simp: ask_time_def result_simps split: option.splits)
  from e(2) have "req_unique_id request = uid" by (auto simp: build_request_def result_simps Let_def)
  note p = p [unfolded this]
  from p obtain "transmit_timestamp (take 1024 datagram) = Inr t" by (rule ntp_parse_response_Inr)
  note transmit_timestamp_Inr(2,3) [OF this]
  then have "half_i64 t" by (simp add: half_i64_def)
  with e ntp_parse_response_authenticated [OF p] show thesis by (rule that)
qed

text \<open>
  What stands behind the reading \<open>r\<close> of the \<open>i\<close>-th pair of a run, \<open>d\<close> being the chains that its own legs
  collected: the datagram that answered its own request authenticates the time under the key and the
  identifier of its own session, and the chains are believed at that time.
\<close>

definition vouched ::
  "('root, 'cert, 'name) world \<Rightarrow> options \<Rightarrow> ('cert, 'name) pki \<Rightarrow> nat \<Rightarrow> resolver \<times> time_server
   \<Rightarrow> int \<times> window option \<Rightarrow> ('cert, 'name) deferred \<Rightarrow> bool" where
  "vouched w opts pki i pair r d \<longleftrightarrow>
     pair_outcome w pki opts i pair = Some (Inr r) \<and> opt_floor opts \<le> fst r \<and>
     believed (w_net w i) pki (fst pair) (snd pair) (fst r) d (snd r) \<and>
     (\<exists>session address port uid nonce cookie request datagram.
        pair_walk (w_net w i) pki (w_id w i) (fst pair) (snd pair) = Some (session, address, port, d) \<and>
        w_unique_id w i = Inr uid \<and> w_nonce w i = Inr nonce \<and>
        nth_get (agr_cookies (est_agreement session)) 0 = Some cookie \<and>
        build_request (w_siv w) cookie (est_c2s session) uid nonce = Inr request \<and>
        udp_exchange (w_net w i) address port (req_packet request) = Inr datagram \<and>
        authenticated_time (w_siv w) (est_s2c session) uid (take 1024 datagram) (fst r))"

lemma pair_outcome_vouched:
  assumes "pair_outcome w pki opts i pair = Some (Inr r)"
  shows "half_i64 (fst r) \<and> (\<exists>d. vouched w opts pki i pair r d)"
proof -
  from assms have "ask_pair (w_net w i) pki (w_siv w) (w_id w i) (w_unique_id w i) (w_nonce w i)
      (fst pair) (snd pair) (opt_floor opts) = Inr (fst r, snd r)"
    by (simp add: pair_outcome_def split: if_splits)
  then obtain d session address port uid nonce where a:
    "believed (w_net w i) pki (fst pair) (snd pair) (fst r) d (snd r)" "opt_floor opts \<le> fst r"
    "pair_walk (w_net w i) pki (w_id w i) (fst pair) (snd pair) = Some (session, address, port, d)"
    "w_unique_id w i = Inr uid" "w_nonce w i = Inr nonce"
    and t: "ask_time (w_net w i) (w_siv w) session address port uid nonce = Inr (fst r)"
    by (rule ask_pair_Inr)
  from t obtain cookie request datagram where "nth_get (agr_cookies (est_agreement session)) 0 = Some cookie"
    "build_request (w_siv w) cookie (est_c2s session) uid nonce = Inr request"
    "udp_exchange (w_net w i) address port (req_packet request) = Inr datagram"
    "authenticated_time (w_siv w) (est_s2c session) uid (take 1024 datagram) (fst r)" and h: "half_i64 (fst r)"
    by (rule ask_time_Inr)
  with a assms have "vouched w opts pki i pair r d" unfolding vouched_def by blast
  with h show ?thesis by blast
qed

subsection \<open>Joining the threads\<close>

definition answer_of :: "resolver \<times> time_server \<Rightarrow> int \<times> window option \<Rightarrow> answer" where
  "answer_of pair r =
     \<lparr>ans_operator = ts_operator (snd pair),
      ans_endpoint = ts_hostname (snd pair) @ '' via '' @ rs_name (fst pair), ans_seconds = fst r\<rparr>"

definition all_answered ::
  "(nat \<Rightarrow> resolver \<times> time_server \<Rightarrow> (pair_error, int \<times> window option) result option)
   \<Rightarrow> nat \<Rightarrow> (resolver \<times> time_server) list \<Rightarrow> (int \<times> window option) list \<Rightarrow> bool" where
  "all_answered out n pairs rs \<longleftrightarrow>
     length rs = length pairs \<and> (\<forall>i < length pairs. out (n + i) (pairs ! i) = Some (Inr (rs ! i)))"

lemma all_answered_Cons:
  "all_answered out n (p # ps) rs \<longleftrightarrow>
   (\<exists>r rs'. rs = r # rs' \<and> out n p = Some (Inr r) \<and> all_answered out (Suc n) ps rs')"
  by (cases rs) (auto simp: all_answered_def less_Suc_eq_0_disj)

lemma join_failures_kept:
  "col_failures c \<noteq> [] \<Longrightarrow> col_failures (foldl (join_one out) c ips) \<noteq> []"
proof (induction ips arbitrary: c)
  case (Cons ip ips)
  then have "col_failures (join_one out c ip) \<noteq> []"
    by (auto simp: join_one_def split: prod.splits option.splits sum.splits)
  with Cons.IH show ?case by simp
qed simp

lemma join_all:
  "col_failures (foldl (join_one out) c (List.enumerate n pairs)) = [] \<longleftrightarrow>
   col_failures c = [] \<and> (\<exists>rs. all_answered out n pairs rs)"
proof (induction pairs arbitrary: c n)
  case Nil
  then show ?case by (simp add: all_answered_def)
next
  case (Cons p ps)
  show ?case
  proof (cases "\<exists>r. out n p = Some (Inr r)")
    case True
    then obtain r where r: "out n p = Some (Inr r)" by blast
    then have "col_failures (join_one out c (n, p)) = col_failures c"
      by (cases p; cases r) (simp add: join_one_def)
    with Cons.IH [of "join_one out c (n, p)" "Suc n"] r show ?thesis
      by (auto simp: all_answered_Cons)
  next
    case False
    then have "col_failures (join_one out c (n, p)) \<noteq> []"
      by (cases p; cases "out n p") (auto simp: join_one_def split: sum.splits prod.splits)
    with Cons.IH [of "join_one out c (n, p)" "Suc n"] False show ?thesis
      by (auto simp: all_answered_Cons)
  qed
qed

lemma join_results:
  "all_answered out n pairs rs \<Longrightarrow>
   foldl (join_one out) c (List.enumerate n pairs) =
     c\<lparr>col_answers := col_answers c @ map2 answer_of pairs rs,
       col_windows := col_windows c @ map snd rs\<rparr>"
proof (induction pairs arbitrary: c n rs)
  case (Cons p ps)
  then obtain r rs' where r: "rs = r # rs'" "out n p = Some (Inr r)" "all_answered out (Suc n) ps rs'"
    by (auto simp: all_answered_Cons)
  have "join_one out c (n, p) = c\<lparr>col_answers := col_answers c @ [answer_of p r],
      col_windows := col_windows c @ [snd r]\<rparr>"
    using r(2) by (cases p; cases r) (simp add: join_one_def answer_of_def)
  with Cons.IH [OF r(3)] r(1) show ?case by simp
qed (simp add: all_answered_def)

definition gathered ::
  "('root, 'cert, 'name) world \<Rightarrow> options \<Rightarrow> (resolver \<times> time_server) list
   \<Rightarrow> ('cert, 'name) pki \<Rightarrow> (int \<times> window option) list \<Rightarrow> bool" where
  "gathered w opts pairs pki rs \<longleftrightarrow>
     choose_pairs opts (draw_seed w) = Inr pairs \<and>
     verifier_new (w_certs w) (w_roots_add w) (w_build w) = Inr pki \<and>
     all_answered (pair_outcome w pki opts) 0 pairs rs"

lemma collect_answers_clean:
  "col_failures (collect_answers w opts pairs) = [] \<longleftrightarrow>
   (\<exists>pki rs. verifier_new (w_certs w) (w_roots_add w) (w_build w) = Inr pki \<and>
      all_answered (pair_outcome w pki opts) 0 pairs rs)"
  by (auto simp: collect_answers_def join_all split: sum.splits)

lemma gathered_collect:
  assumes "gathered w opts pairs pki rs"
  shows "collect_answers w opts pairs =
    \<lparr>col_answers = map2 answer_of pairs rs, col_windows = map snd rs, col_failures = []\<rparr>"
  using assms join_results [of "pair_outcome w pki opts" 0 pairs rs "\<lparr>col_answers = [], col_windows = [], col_failures = []\<rparr>"]
  by (simp add: gathered_def collect_answers_def)

lemma gathered_pair:
  assumes "gathered w opts pairs pki rs" and "i < length pairs"
  shows "opt_floor opts \<le> fst (rs ! i) \<and> half_i64 (fst (rs ! i)) \<and> (\<exists>d. vouched w opts pki i (pairs ! i) (rs ! i) d)"
proof -
  from assms have "pair_outcome w pki opts i (pairs ! i) = Some (Inr (rs ! i))"
    by (simp add: gathered_def all_answered_def)
  from pair_outcome_vouched [OF this] show ?thesis unfolding vouched_def by blast
qed

lemma gathered_length: "gathered w opts pairs pki rs \<Longrightarrow> length rs = length pairs"
  by (simp add: gathered_def all_answered_def)

lemma gathered_answers:
  assumes "gathered w opts pairs pki rs"
  shows "in_range (map2 answer_of pairs rs)"
    and "\<forall>a \<in> set (map2 answer_of pairs rs). opt_floor opts \<le> ans_seconds a"
proof -
  have "\<exists>i < length pairs. a = answer_of (pairs ! i) (rs ! i)" if "a \<in> set (map2 answer_of pairs rs)" for a
    using that by (auto simp: in_set_zip) metis
  with gathered_pair [OF assms] show "in_range (map2 answer_of pairs rs)"
    and "\<forall>a \<in> set (map2 answer_of pairs rs). opt_floor opts \<le> ans_seconds a"
    by (fastforce simp: in_range_def answer_of_def)+
qed

subsection \<open>The run\<close>

lemma run_gathered:
  assumes "gathered w opts pairs pki rs"
  shows "run w opts =
    (case decide (map (\<lambda>p. ts_operator (snd p)) pairs) (map2 answer_of pairs rs) (opt_tolerance opts) of
       Inl e \<Rightarrow> (Inl (NoAgreement e), [])
     | Inr seconds \<Rightarrow>
       (case reason_to_stand_down w opts (common_window (map snd rs)) of
          Inl e \<Rightarrow> (Inl e, [])
        | Inr reason \<Rightarrow>
            if opt_dry_run opts
            then (Inr (case reason of Some r \<Rightarrow> WouldLeave r | None \<Rightarrow> WouldSet seconds), [])
            else (case reason of
                    Some r \<Rightarrow> (Inr (LeftAlone r), [])
                  | None \<Rightarrow>
                      (case w_settime w seconds of
                         Some e \<Rightarrow> (Inl (SetClockFailed e), [seconds])
                       | None \<Rightarrow> (Inr (ClockSet seconds), [seconds])))))"
  using assms gathered_collect [OF assms] by (simp add: run_def gathered_def Let_def split: sum.splits)

lemma run_not_gathered:
  assumes "\<And>pki rs. \<not> gathered w opts pairs pki rs" and "choose_pairs opts (draw_seed w) = Inr pairs"
  shows "\<exists>fs. fs \<noteq> [] \<and> run w opts = (Inl (PairsFailed (length fs) (length pairs) fs), [])"
proof -
  from assms have "col_failures (collect_answers w opts pairs) \<noteq> []"
    unfolding collect_answers_clean gathered_def by blast
  with assms(2) show ?thesis
    by (intro exI [of _ "col_failures (collect_answers w opts pairs)"]) (simp add: run_def Let_def)
qed

lemma run_effect:
  assumes "run w opts = (r, calls)" and "calls \<noteq> [] \<or> (\<exists>x. r = Inr x)"
  obtains pairs pki rs t reason where "gathered w opts pairs pki rs"
    and "decide (map (\<lambda>p. ts_operator (snd p)) pairs) (map2 answer_of pairs rs) (opt_tolerance opts) = Inr t"
    and "reason_to_stand_down w opts (common_window (map snd rs)) = Inr reason"
    and "calls = (if opt_dry_run opts \<or> reason \<noteq> None then [] else [t])"
    and "\<And>x. r = Inr (LeftAlone x) \<Longrightarrow> reason = Some x"
proof -
  obtain pairs where c: "choose_pairs opts (draw_seed w) = Inr pairs"
    using assms by (cases "choose_pairs opts (draw_seed w)") (auto simp: run_def)
  obtain pki rs where g: "gathered w opts pairs pki rs"
    using run_not_gathered [OF _ c] assms by fastforce
  note run = assms(1) [unfolded run_gathered [OF g]]
  obtain t where t: "decide (map (\<lambda>p. ts_operator (snd p)) pairs) (map2 answer_of pairs rs)
      (opt_tolerance opts) = Inr t"
    using run assms(2) by (auto split: sum.splits)
  obtain reason where s: "reason_to_stand_down w opts (common_window (map snd rs)) = Inr reason"
    using run assms(2) t by (auto split: sum.splits)
  show thesis
    by (rule that [OF g t s]) (use run t s in \<open>auto split: if_splits option.splits\<close>)
qed

lemma run_set:
  assumes "run w opts = (r, calls)" and "t \<in> set calls"
  obtains pairs pki rs where "gathered w opts pairs pki rs"
    and "decide (map (\<lambda>p. ts_operator (snd p)) pairs) (map2 answer_of pairs rs) (opt_tolerance opts) = Inr t"
    and "reason_to_stand_down w opts (common_window (map snd rs)) = Inr None"
    and "\<not> opt_dry_run opts" and "calls = [t]"
proof -
  from assms(2) have "calls \<noteq> [] \<or> (\<exists>x. r = Inr x)" by auto
  then obtain pairs pki rs t' reason where g: "gathered w opts pairs pki rs"
    "decide (map (\<lambda>p. ts_operator (snd p)) pairs) (map2 answer_of pairs rs) (opt_tolerance opts) = Inr t'"
    "reason_to_stand_down w opts (common_window (map snd rs)) = Inr reason"
    and calls: "calls = (if opt_dry_run opts \<or> reason \<noteq> None then [] else [t'])"
    using run_effect [OF assms(1)] by metis
  from assms(2) calls have "\<not> (opt_dry_run opts \<or> reason \<noteq> None)" "t' = t"
    by (cases "opt_dry_run opts \<or> reason \<noteq> None"; simp)+
  then have "\<not> opt_dry_run opts" "reason = None" "t' = t" by blast+
  with that [of pairs pki rs] g calls show thesis by simp
qed

lemma reason_needs_setting:
  assumes "reason_to_stand_down w opts win = Inr reason"
  shows "reason = None \<longleftrightarrow>
    opt_force opts \<or> (\<exists>now. epoch_seconds (w_now w) = Inr now \<and> needs_setting now win)"
  using assms by (auto simp: reason_to_stand_down_def result_simps split: if_splits)

lemma reason_Some:
  assumes "reason_to_stand_down w opts win = Inr (Some (now, a, b))"
  shows "epoch_seconds (w_now w) = Inr now \<and> win = Some (a, b) \<and> a \<le> now \<and> now \<le> b"
  using assms by (auto simp: reason_to_stand_down_def result_simps needs_setting_def split: if_splits)

lemma epoch_seconds_i64: "epoch_seconds i = Inr now \<Longrightarrow> is_i64 now"
  by (auto simp: epoch_seconds_def is_i64_def i64_min_def i64_max_def Let_def split: if_splits)

text \<open>An instant of the common window lies in the window of every pair.\<close>

lemma common_window_mem:
  assumes "common_window ws = Some (a, b)" and "a \<le> now" and "now \<le> b" and "i < length ws"
  obtains a' b' where "ws ! i = Some (a', b')" and "a' \<le> now" and "now \<le> b'"
proof -
  from assms(1) have n: "None \<notin> set ws" and int: "intersect (flatten_options ws) = Some (a, b)"
    by (auto simp: common_window_def split: if_splits)
  from n assms(4) obtain a' b' where w: "ws ! i = Some (a', b')" by (metis nth_mem option.exhaust surj_pair)
  with assms(4) have "(a', b') \<in> set (flatten_options ws)"
    by (metis nth_mem set_flatten_options mem_Collect_eq)
  with intersect_Some_iff [OF int, of now] assms(2,3) have "a' \<le> now" "now \<le> b'"
    by (auto simp: in_all_def open_at_def)
  with w show thesis by (rule that)
qed

lemma own_answers_distinct:
  assumes "distinct (map (\<lambda>p. ts_operator (snd p)) pairs)" and "length rs = length pairs" and "i < length pairs"
    and "a \<in> set (own_answers (map2 answer_of pairs rs) (ts_operator (snd (pairs ! i))))"
  shows "ans_seconds a = fst (rs ! i)"
proof -
  from assms(4) obtain j where j: "j < length pairs" "a = answer_of (pairs ! j) (rs ! j)"
    and op: "ans_operator a = ts_operator (snd (pairs ! i))"
    by (auto simp: own_answers_iff in_set_zip)
  then have "map (\<lambda>p. ts_operator (snd p)) pairs ! j = map (\<lambda>p. ts_operator (snd p)) pairs ! i"
    using assms(3) by (simp add: answer_of_def)
  with nth_eq_iff_index_eq [OF assms(1), of j i] assms(3) j(1) have "j = i" by simp
  with j(2) show ?thesis by (simp add: answer_of_def)
qed

subsection \<open>A complete run, evaluated\<close>

text \<open>
  Two configured operators, a network in which everything answers, and a wall clock given in
  seconds: the lemmas below evaluate the whole program on it, for the witnesses.
\<close>

definition demo_world :: "int \<Rightarrow> (unit, window, string) world" where
  "demo_world now =
     \<lparr>w_certs = ([()], []), w_roots_add = (\<lambda>_. True), w_build = (\<lambda>_. Inr demo_pki),
      w_siv = demo_siv, w_net = (\<lambda>_. demo_net), w_seed = Inr 42, w_id = (\<lambda>_. Inr (0, 7)),
      w_unique_id = (\<lambda>_. Inr (replicate 32 7)), w_nonce = (\<lambda>_. Inr (replicate 16 9)),
      w_thread_panics = (\<lambda>_. False), w_now = now * 1000000000, w_settime = (\<lambda>_. None)\<rparr>"

lemma demo_encode_query: "\<exists>q. encode_query qid ''cf'' t = Inr q" "\<exists>q. encode_query qid ''nts'' t = Inr q"
  by (simp_all add: encode_query_def encode_label_def bytes_of_str_def)

lemma demo_dns_other_id: "dns_parse_response demo_dns 8 TYPE_AAAA = Inl IdMismatch"
  by (simp add: dns_parse_response_def demo_dns_bytes dns_u16_at_def slice_get_def from_be16_def)

lemma demo_doh:
  assumes "encode_query 7 name TYPE_A = Inr q" and "encode_query 8 name TYPE_AAAA = Inr q'"
  shows "doh_resolve demo_net demo_pki d host a name TYPE_A 7 =
           (Inr [V4 192 0 2 1], record_chain d (''DoH '' @ host) [(1000, 1900000000)] host)"
    and "doh_resolve demo_net demo_pki d host a name TYPE_AAAA 8 = (Inl (DnsFailure IdMismatch), d)"
  using assms
  by (simp_all add: doh_resolve_def demo_net_def demo_handshake demo_dns_parse demo_dns_other_id)

definition demo_legs :: "string \<Rightarrow> string \<Rightarrow> (window, string) deferred" where
  "demo_legs rhost shost =
     record_chain (record_chain deferred_new (''DoH '' @ rhost) [(1000, 1900000000)] rhost)
       (''NTS-KE '' @ shost) [(2000, 1800000000)] shost"

lemma demo_accept_legs:
  "accept (demo_legs r s) demo_pki 1785181654 =
     Inr \<lparr>ver_seconds = 1785181654, ver_window = Some (2000, 1800000000)\<rparr>"
  by (simp add: accept_Inr demo_legs_def record_chain_def deferred_new_def leg_verified_def leg_window_def
      demo_pki_def open_at_def verified_window_def chain_windows_def window_of_def result_ok_def
      intersect_def i64_min_def i64_max_def)

lemma demo_ask_time:
  "ask_time demo_net demo_siv demo_session a p (replicate 32 7) (replicate 16 9) = Inr 1785181654"
proof -
  obtain r where r: "build_request demo_siv [7, 8, 9] (replicate 32 1) (replicate 32 7) (replicate 16 9) = Inr r"
      "req_unique_id r = replicate 32 7"
    by (simp add: build_request_def demo_siv_def Let_def)
  have "length demo_response \<le> 1024"
    by (simp add: demo_response_def server_response_def demo_header_def extension_field_def pad4_def auth_body_def)
  then show ?thesis
    using r demo_response_accepted by (simp add: ask_time_def demo_net_def demo_session_def nth_get_def)
qed

lemma demo_ask_pair:
  assumes "rs_addresses resolver = [a]" and "ts_hostname server \<in> {''cf'', ''nts''}" and "floor \<le> 1785181654"
  shows "ask_pair demo_net demo_pki demo_siv (Inr (0, 7)) (Inr (replicate 32 7)) (Inr (replicate 16 9))
    resolver server floor = Inr (1785181654, Some (2000, 1800000000))"
proof -
  obtain q q' where "encode_query 7 (ts_hostname server) TYPE_A = Inr q"
      "encode_query 8 (ts_hostname server) TYPE_AAAA = Inr q'"
    using assms(2) by (metis insertE singletonD demo_encode_query)
  note doh = demo_doh [OF this]
  have q: "from_be16 0 7 = 7" by (simp add: from_be16_def)
  have "resolve_name demo_net demo_pki resolver d (ts_hostname server) 7 = (Inr [V4 192 0 2 1],
      record_chain d (''DoH '' @ rs_hostname resolver) [(1000, 1900000000)] (rs_hostname resolver))" for d
    using assms(1) by (simp add: resolve_name_def doh)
  then show ?thesis
    using assms(3) demo_accept_legs [of "rs_hostname resolver" "ts_hostname server"]
    by (simp add: ask_pair_def q demo_establish follow_redirect_def ntp_target_def demo_ask_time
        refuse_below_floor_def) (simp add: demo_session_def refuse_below_floor_def demo_ask_time [unfolded demo_session_def] demo_legs_def)
qed

definition demo_pairs :: "(resolver \<times> time_server) list" where
  "demo_pairs = (case choose_pairs demo_options 42 of Inr pairs \<Rightarrow> pairs | Inl _ \<Rightarrow> [])"

definition demo_reading :: "int \<times> window option" where
  "demo_reading = (1785181654, Some (2000, 1800000000))"

lemma demo_choose:
  "choose_pairs demo_options 42 = Inr demo_pairs" "length demo_pairs = 2"
  "distinct (map (ts_operator \<circ> snd) demo_pairs)"
  "set demo_pairs \<subseteq> set (opt_resolvers demo_options) \<times> set (opt_servers demo_options)"
proof -
  have "distinct (map ts_name (opt_servers demo_options))" "distinct (map rs_name (opt_resolvers demo_options))"
    by (simp_all add: demo_options_def)
  from choose_pairs_shape [OF parse_args_Run [OF demo_parse_args] this, of 42]
  show "choose_pairs demo_options 42 = Inr demo_pairs" "length demo_pairs = 2"
    "distinct (map (ts_operator \<circ> snd) demo_pairs)"
    "set demo_pairs \<subseteq> set (opt_resolvers demo_options) \<times> set (opt_servers demo_options)"
    by (auto simp: demo_pairs_def) (simp_all add: demo_options_def)
qed

lemma demo_pair_outcome:
  assumes "p \<in> set demo_pairs"
  shows "pair_outcome (demo_world now) demo_pki demo_options i p = Some (Inr demo_reading)"
proof -
  from assms demo_choose(4) have "fst p \<in> set (opt_resolvers demo_options)" "snd p \<in> set (opt_servers demo_options)"
    by auto
  then have "\<exists>a. rs_addresses (fst p) = [a]" "ts_hostname (snd p) \<in> {''cf'', ''nts''}"
    by (auto simp: demo_options_def)
  moreover have "opt_floor demo_options \<le> 1785181654" by (simp add: demo_options_def)
  ultimately show ?thesis
    using demo_ask_pair by (auto simp: pair_outcome_def demo_world_def demo_reading_def)
qed

lemma demo_gathered: "gathered (demo_world now) demo_options demo_pairs demo_pki [demo_reading, demo_reading]"
proof -
  have "i < length demo_pairs \<Longrightarrow> [demo_reading, demo_reading] ! i = demo_reading" for i
    using demo_choose(2) by (auto simp: less_Suc_eq numeral_2_eq_2)
  then show ?thesis
    using demo_choose(1,2) demo_pair_outcome
    by (simp add: gathered_def all_answered_def) (simp add: demo_world_def draw_seed_def verifier_new_def)
qed

lemma demo_run_decide:
  "decide (map (\<lambda>p. ts_operator (snd p)) demo_pairs) (map2 answer_of demo_pairs [demo_reading, demo_reading])
     (opt_tolerance demo_options) = Inr 1785181654"
proof -
  obtain p q where pq: "demo_pairs = [p, q]"
    using demo_choose(2) by (auto simp: numeral_2_eq_2 length_Suc_conv)
  have "ts_operator (snd p) \<noteq> ts_operator (snd q)" using demo_choose(3) unfolding pq by simp
  then show ?thesis
    unfolding pq decide_Inr [OF gathered_answers(1) [OF demo_gathered, unfolded pq]]
    by (simp add: own_answers_def answer_of_def demo_reading_def within_def operator_vote_def middle_def
        nth_get_def demo_options_def numeral_2_eq_2)
qed

lemma demo_run_set: "run (demo_world 0) demo_options = (Inr (ClockSet 1785181654), [1785181654])"
  unfolding run_gathered [OF demo_gathered] demo_run_decide
  by (simp add: reason_to_stand_down_def epoch_seconds_def needs_setting_def common_window_def intersect_def
      demo_world_def demo_options_def demo_reading_def i64_min_def i64_max_def)

lemma demo_run_left:
  "run (demo_world 1790000000) demo_options = (Inr (LeftAlone (1790000000, 2000, 1800000000)), [])"
  unfolding run_gathered [OF demo_gathered] demo_run_decide
  by (simp add: reason_to_stand_down_def epoch_seconds_def needs_setting_def common_window_def intersect_def
      demo_world_def demo_options_def demo_reading_def i64_min_def i64_max_def)

section \<open>Properties\<close>

text \<open>
  C1. What it takes to move the clock. If a run calls \<open>clock_settime\<close> at all, it
  calls it once, not in a dry run, with a time no earlier than the floor; it was forced, or the
  wall clock lies outside the common window of its readings (or there is none); the time is the
  decision on the readings that its chosen pairs returned with the trust store that it loaded;
  and every one of these readings is no earlier than the floor and vouched for by the pair's
  own exchange: the datagram that answered the pair's request authenticates the time under the
  key of the pair's session and the identifier of the request, and the chains collected on the
  pair's own legs, which include one of the resolver and one of the server and are each what
  the peer presented and pass 1 took, were all accepted by pass 2 at that reading.
\<close>

theorem run_moves_clock_only_when_believed:
  assumes "run w opts = (r, calls)" and "t \<in> set calls"
  shows "calls = [t] \<and> \<not> opt_dry_run opts \<and> opt_floor opts \<le> t \<and>
    (\<exists>pairs pki rs. choose_pairs opts (draw_seed w) = Inr pairs \<and>
       verifier_new (w_certs w) (w_roots_add w) (w_build w) = Inr pki \<and> length rs = length pairs \<and>
       decide (map (\<lambda>p. ts_operator (snd p)) pairs) (map2 answer_of pairs rs) (opt_tolerance opts) = Inr t \<and>
       (opt_force opts \<or>
        (\<exists>now. epoch_seconds (w_now w) = Inr now \<and> needs_setting now (common_window (map snd rs)))) \<and>
       (\<forall>i < length pairs. \<exists>d. vouched w opts pki i (pairs ! i) (rs ! i) d))"
proof -
  obtain pairs pki rs where g: "gathered w opts pairs pki rs"
    and dec: "decide (map (\<lambda>p. ts_operator (snd p)) pairs) (map2 answer_of pairs rs) (opt_tolerance opts) = Inr t"
    and rea: "reason_to_stand_down w opts (common_window (map snd rs)) = Inr None"
    and calls: "\<not> opt_dry_run opts" "calls = [t]"
    using assms by (rule run_set)
  have "opt_floor opts \<le> t"
    using majority.lower_bound [OF gathered_answers(1) [OF g] dec gathered_answers(2) [OF g]] .
  moreover have "choose_pairs opts (draw_seed w) = Inr pairs" "verifier_new (w_certs w) (w_roots_add w) (w_build w) = Inr pki"
    using g by (simp_all add: gathered_def)
  moreover have "opt_force opts \<or>
      (\<exists>now. epoch_seconds (w_now w) = Inr now \<and> needs_setting now (common_window (map snd rs)))"
    using reason_needs_setting [OF rea] by simp
  ultimately show ?thesis
    using gathered_pair [OF g] gathered_length [OF g] dec calls by blast
qed

theorem run_moves_clock_only_when_believed_witness:
  "\<not> opt_dry_run demo_options \<and> opt_floor demo_options \<le> 1785181654"
  using run_moves_clock_only_when_believed [OF demo_run_set] by simp

text \<open>
  C2. One honest operator is enough. With names that identify servers and resolvers, if any one
  of the chosen operators reported a reading within \<open>\<delta>\<close> of the true time,
  every time the program sets is within the tolerance plus \<open>\<delta>\<close> of it,
  whatever the other operators, the resolvers and the network did.
\<close>

theorem main_one_honest_operator:
  assumes "parse_args args = Inr (Run opts)" and "main w args = (code, calls)" and "t \<in> set calls"
    and "distinct (map ts_name (opt_servers opts))" and "distinct (map rs_name (opt_resolvers opts))"
    and "verifier_new (w_certs w) (w_roots_add w) (w_build w) = Inr pki"
    and "choose_pairs opts (draw_seed w) = Inr pairs" and "i < length pairs"
    and "pair_outcome w pki opts i (pairs ! i) = Some (Inr (ti, win))" and "\<bar>ti - T\<bar> \<le> \<delta>"
  shows "\<bar>t - T\<bar> \<le> opt_tolerance opts + \<delta>"
proof -
  obtain r where run: "run w opts = (r, calls)"
    using assms(1,2) by (auto simp: main_def split: prod.splits sum.splits)
  obtain pairs' pki' rs where g: "gathered w opts pairs' pki' rs"
    and dec: "decide (map (\<lambda>p. ts_operator (snd p)) pairs') (map2 answer_of pairs' rs) (opt_tolerance opts) = Inr t"
    using run assms(3) by (rule run_set)
  from g assms(6,7) have p: "pairs' = pairs" "pki' = pki" by (simp_all add: gathered_def)
  have dist: "distinct (map (\<lambda>p. ts_operator (snd p)) pairs)"
    using choose_pairs_shape [OF parse_args_Run [OF assms(1)] assms(4,5), of "draw_seed w"] assms(7)
    by (auto simp: comp_def)
  from g p assms(8) have "pair_outcome w pki opts i (pairs ! i) = Some (Inr (rs ! i))"
    by (simp add: gathered_def all_answered_def)
  with assms(9,10) have ti: "\<bar>fst (rs ! i) - T\<bar> \<le> \<delta>" by simp
  have "\<forall>a \<in> set (own_answers (map2 answer_of pairs rs) (ts_operator (snd (pairs ! i)))). \<bar>ans_seconds a - T\<bar> \<le> \<delta>"
    using own_answers_distinct [OF dist _ assms(8)] gathered_length [OF g] p ti by auto
  with majority.one_honest [OF gathered_answers(1) [OF g] dec, of "ts_operator (snd (pairs ! i))" T \<delta>] p assms(8)
  show ?thesis by (simp add: image_iff) (use nth_mem in blast)
qed

theorem main_one_honest_operator_witness: "\<bar>1785181654 - 1785181650\<bar> \<le> opt_tolerance demo_options + (4 :: int)"
proof (rule main_one_honest_operator [OF demo_parse_args, where w = "demo_world 0" and i = 0 and pki = demo_pki])
  show "main (demo_world 0) demo_args = (ExitSuccess, [1785181654])"
    by (simp add: main_def demo_parse_args demo_run_set)
  show "distinct (map ts_name (opt_servers demo_options))" "distinct (map rs_name (opt_resolvers demo_options))"
    by (simp_all add: demo_options_def)
  show "choose_pairs demo_options (draw_seed (demo_world 0)) = Inr demo_pairs"
    using demo_choose(1) by (simp add: draw_seed_def demo_world_def)
  show "0 < length demo_pairs" using demo_choose(2) by simp
  then show "pair_outcome (demo_world 0) demo_pki demo_options 0 (demo_pairs ! 0)
      = Some (Inr (1785181654, Some (2000, 1800000000)))"
    using demo_pair_outcome [OF nth_mem] by (simp add: demo_reading_def)
qed (simp_all add: demo_world_def verifier_new_def)

text \<open>
  C15. Standing down is safe. When a run leaves the clock alone it makes no
  \<open>clock_settime\<close> call, the wall clock lies in the common window of the readings
  that its chosen pairs returned with the trust store that it loaded, and every certificate on
  any chain that a pair's own legs collected which was valid at the time the pair reported is
  valid at the current wall clock as well, so TLS to these hosts works now.
\<close>

theorem run_stands_down_only_when_certificates_valid:
  assumes "run w opts = (Inr (LeftAlone (now, span)), calls)"
  shows "calls = [] \<and> epoch_seconds (w_now w) = Inr now \<and>
    (\<exists>pairs pki rs. choose_pairs opts (draw_seed w) = Inr pairs \<and>
       verifier_new (w_certs w) (w_roots_add w) (w_build w) = Inr pki \<and> length rs = length pairs \<and>
       common_window (map snd rs) = Some span \<and> open_at now span \<and>
       (\<forall>i < length pairs. \<exists>d. vouched w opts pki i (pairs ! i) (rs ! i) d \<and>
          (\<forall>p \<in> set (def_pending d). \<forall>cert \<in> set (pend_chain p). \<forall>v.
             x509_validity pki cert = Inr v \<longrightarrow> open_at (fst (rs ! i)) v \<longrightarrow> open_at now v)))"
proof -
  obtain pairs pki rs reason where g: "gathered w opts pairs pki rs"
    and rea: "reason_to_stand_down w opts (common_window (map snd rs)) = Inr reason"
    and calls: "reason \<noteq> None \<Longrightarrow> calls = []" and r: "reason = Some (now, span)"
    by (rule run_effect [OF assms]) auto
  obtain a b where span: "span = (a, b)" by fastforce
  note now = reason_Some [OF rea [unfolded r span]]
  have "\<exists>d. vouched w opts pki i (pairs ! i) (rs ! i) d \<and>
          (\<forall>p \<in> set (def_pending d). \<forall>cert \<in> set (pend_chain p). \<forall>v.
             x509_validity pki cert = Inr v \<longrightarrow> open_at (fst (rs ! i)) v \<longrightarrow> open_at now v)"
    if i: "i < length pairs" for i
  proof -
    from gathered_pair [OF g i] obtain d where h: "half_i64 (fst (rs ! i))" and v: "vouched w opts pki i (pairs ! i) (rs ! i) d"
      by blast
    then have acc: "accept d pki (fst (rs ! i)) = Inr \<lparr>ver_seconds = fst (rs ! i), ver_window = snd (rs ! i)\<rparr>"
      by (simp add: vouched_def believed_def)
    have len: "i < length (map snd rs)" using gathered_length [OF g] i by simp
    obtain a' b' where "map snd rs ! i = Some (a', b')" and ab: "a' \<le> now" "now \<le> b'"
      using now by (elim conjE) (rule common_window_mem [OF _ _ _ len])
    with len have w: "snd (rs ! i) = Some (a', b')" by simp
    have "open_at now v" if "p \<in> set (def_pending d)" "cert \<in> set (pend_chain p)"
        "x509_validity pki cert = Inr v" "open_at (fst (rs ! i)) v" for p cert v
      by (rule pass2.gate_certificates [OF acc half_i64_imp_i64 [OF h] _ that ab]) (simp add: w)
    with v show ?thesis by blast
  qed
  moreover from now have "common_window (map snd rs) = Some span" "open_at now span" by (simp_all add: span open_at_def)
  ultimately show ?thesis using now g calls r gathered_length [OF g] unfolding gathered_def by blast
qed

theorem run_stands_down_only_when_certificates_valid_witness:
  "epoch_seconds (w_now (demo_world 1790000000)) = Inr 1790000000"
  using run_stands_down_only_when_certificates_valid [OF demo_run_left] by simp

text \<open>
  C17. Any error fails the run. If one of the chosen pairs panics or does not come back with a
  believed reading, or the trust store cannot be loaded, the run fails with the list of
  failures and the clock is not touched, whatever the other pairs reported.
\<close>

theorem run_any_failure_fails:
  assumes "choose_pairs opts (draw_seed w) = Inr pairs" and "i < length pairs"
    and "\<nexists>pki r. verifier_new (w_certs w) (w_roots_add w) (w_build w) = Inr pki \<and>
           pair_outcome w pki opts i (pairs ! i) = Some (Inr r)"
  shows "\<exists>fs. fs \<noteq> [] \<and> run w opts = (Inl (PairsFailed (length fs) (length pairs) fs), [])"
proof (rule run_not_gathered [OF _ assms(1)])
  fix pki rs
  show "\<not> gathered w opts pairs pki rs"
    using assms(2,3) unfolding gathered_def all_answered_def by (metis add_0)
qed

theorem run_any_failure_fails_witness:
  "\<exists>fs. fs \<noteq> [] \<and> run (demo_world 0\<lparr>w_thread_panics := (\<lambda>i. i = 1)\<rparr>) demo_options =
     (Inl (PairsFailed (length fs) (length demo_pairs) fs), [])"
  by (rule run_any_failure_fails [where i = 1])
     (use demo_choose(1,2) in \<open>simp_all add: draw_seed_def demo_world_def pair_outcome_def\<close>)

text \<open>
  C19. An agreeing world is acted on: when every chosen pair comes back, the operators are
  distinct, all readings are within the tolerance of each other and the wall clock is outside
  the common window, a run that is not dry does set the clock, to one of the readings.
\<close>

theorem run_sets_clock_when_all_agree:
  assumes "choose_pairs opts (draw_seed w) = Inr pairs" and "pairs \<noteq> []"
    and "verifier_new (w_certs w) (w_roots_add w) (w_build w) = Inr pki" and "length rs = length pairs"
    and "\<forall>i < length pairs. pair_outcome w pki opts i (pairs ! i) = Some (Inr (rs ! i))"
    and "distinct (map (\<lambda>p. ts_operator (snd p)) pairs)"
    and "\<forall>r \<in> set rs. \<forall>r' \<in> set rs. fst r - fst r' \<le> opt_tolerance opts"
    and "\<not> opt_dry_run opts" and "epoch_seconds (w_now w) = Inr now"
    and "needs_setting now (common_window (map snd rs))" and "\<forall>t. w_settime w t = None"
  shows "\<exists>t \<in> fst ` set rs. run w opts = (Inr (ClockSet t), [t])"
proof -
  let ?as = "map2 answer_of pairs rs" and ?ops = "map (\<lambda>p. ts_operator (snd p)) pairs"
  have g: "gathered w opts pairs pki rs"
    using assms(1,3,4,5) by (simp add: gathered_def all_answered_def)
  note rng = gathered_answers(1) [OF g]
  have own: "own_answers ?as (?ops ! i) \<noteq> []
      \<and> (\<forall>a \<in> set (own_answers ?as (?ops ! i)). ans_seconds a = fst (rs ! i))" if i: "i < length pairs" for i
  proof -
    have "?as ! i \<in> set ?as" using i assms(4) by (intro nth_mem) simp
    then have "answer_of (pairs ! i) (rs ! i) \<in> set (own_answers ?as (?ops ! i))"
      using i assms(4) by (simp add: own_answers_iff) (simp add: answer_of_def)
    with own_answers_distinct [OF assms(6,4) i] i show ?thesis by auto
  qed
  have vote: "operator_vote ?as (?ops ! i) = fst (rs ! i)" if "i < length pairs" for i
    using operator_vote_mem [OF conjunct1 [OF own [OF that]]] conjunct2 [OF own [OF that]] by fastforce
  have tol: "0 \<le> opt_tolerance opts"
    using assms(2,4,7) by (cases rs) auto
  have votes: "map (operator_vote ?as) ?ops = map fst rs"
    using vote assms(4) by (intro nth_equalityI) simp_all
  obtain t where t: "middle (map fst rs) = Some t" using assms(2,4) middle_None [of "map fst rs"] by fastforce
  have "decide ?ops ?as (opt_tolerance opts) = Inr t"
    unfolding decide_Inr [OF rng] votes
  proof (intro conjI ballI)
    show "within (opt_tolerance opts) (map fst rs)" using assms(7) by (simp add: within_def)
    fix p assume "p \<in> set ?ops"
    then obtain i where "i < length pairs" "p = ?ops ! i" by (auto simp: in_set_conv_nth)
    with own [of i] tol show "own_answers ?as p \<noteq> []" "within (opt_tolerance opts) (map ans_seconds (own_answers ?as p))"
      by (auto simp: within_def)
  qed (use assms(2) t in simp_all)
  then have "run w opts = (Inr (ClockSet t), [t])"
    using assms(8,9,10,11) by (simp add: run_gathered [OF g] reason_to_stand_down_def)
  moreover have "t \<in> fst ` set rs" using middle_mem [OF t] by simp
  ultimately show ?thesis by blast
qed

theorem run_sets_clock_when_all_agree_witness:
  "\<exists>t \<in> fst ` set [demo_reading, demo_reading]. run (demo_world 0) demo_options = (Inr (ClockSet t), [t])"
proof (rule run_sets_clock_when_all_agree)
  show "choose_pairs demo_options (draw_seed (demo_world 0)) = Inr demo_pairs"
    using demo_choose(1) by (simp add: draw_seed_def demo_world_def)
  show "demo_pairs \<noteq> []" using demo_choose(2) by auto
  show "length [demo_reading, demo_reading] = length demo_pairs" using demo_choose(2) by simp
  show "\<forall>i < length demo_pairs. pair_outcome (demo_world 0) demo_pki demo_options i (demo_pairs ! i) =
      Some (Inr ([demo_reading, demo_reading] ! i))"
    using demo_gathered [of 0] by (simp add: gathered_def all_answered_def)
  show "distinct (map (\<lambda>p. ts_operator (snd p)) demo_pairs)" using demo_choose(3) by (simp add: comp_def)
  show "epoch_seconds (w_now (demo_world 0)) = Inr 0"
    by (simp add: epoch_seconds_def demo_world_def i64_max_def)
  show "needs_setting 0 (common_window (map snd [demo_reading, demo_reading]))"
    by (simp add: needs_setting_def common_window_def demo_reading_def intersect_def i64_min_def i64_max_def)
qed (simp_all add: demo_world_def verifier_new_def demo_options_def demo_reading_def)

end
