(* ===== verification/Bms_Frame.thy ===== *)
theory Bms_Frame
  imports Prelude
begin

text \<open>
  \<open>packages/bms-monitoring/src/frame.rs\<close>: reassembly of 300-byte frames from a byte stream with
  foreign traffic in it.  The reader consumes its buffer in steps of several sizes; the reference
  \<open>frames_of\<close> slides over the whole stream one byte at a time.  The locale \<open>frame_stream\<close> states
  what a client of the reader may rely on, whatever the chunks and the moments it polls.

  The \<open>u64\<close> counters are natural numbers: they count bytes of a serial line and cannot reach
  \<open>2 ^ 64\<close>.
\<close>

section \<open>Model\<close>

definition HEADER :: "byte list" where "HEADER = [0x55, 0xAA, 0xEB, 0x90]"
definition FRAME_LEN :: nat where "FRAME_LEN = 300"
definition CHECKSUM_OFFSET :: nat where "CHECKSUM_OFFSET = 299"
definition REALTIME :: byte where "REALTIME = 0x02"
definition SETTINGS :: byte where "SETTINGS = 0x01"

definition checksum :: "byte list \<Rightarrow> byte" where
  "checksum frame = fold (\<lambda>b sum. sum + b) (take CHECKSUM_OFFSET frame) 0"

record frame =
  fr_code :: byte
  fr_data :: "byte list"

definition is_realtime :: "frame \<Rightarrow> bool" where "is_realtime f \<longleftrightarrow> fr_code f = REALTIME"
definition is_settings :: "frame \<Rightarrow> bool" where "is_settings f \<longleftrightarrow> fr_code f = SETTINGS"

datatype step = Found frame nat | Skip nat | BadChecksum | Incomplete

record frame_reader =
  rd_buffer :: "byte list"
  rd_frames_ok :: nat
  rd_frames_discarded :: nat
  rd_bytes_skipped :: nat
  rd_bytes_read :: nat

definition reader_default :: frame_reader where
  "reader_default = \<lparr>rd_buffer = [], rd_frames_ok = 0, rd_frames_discarded = 0, rd_bytes_skipped = 0,
     rd_bytes_read = 0\<rparr>"

definition feed :: "frame_reader \<Rightarrow> byte list \<Rightarrow> frame_reader" where
  "feed r chunk = r\<lparr>rd_bytes_read := rd_bytes_read r + length chunk, rd_buffer := rd_buffer r @ chunk\<rparr>"

definition find_header :: "byte list \<Rightarrow> nat option" where
  "find_header buffer =
     (if length buffer < length HEADER then None
      else find (\<lambda>i. take (length HEADER) (drop i buffer) = HEADER)
             [0..<Suc (length buffer - length HEADER)])"

definition step_of :: "byte list \<Rightarrow> step" where
  "step_of buffer =
     (case find_header buffer of
        None \<Rightarrow>
          let keep = length HEADER - 1
          in if keep < length buffer then Skip (length buffer - keep) else Incomplete
      | Some start \<Rightarrow>
          if 0 < start then Skip start
          else if length buffer < FRAME_LEN then Incomplete
          else
            let candidate = take FRAME_LEN buffer
            in if checksum candidate \<noteq> candidate ! CHECKSUM_OFFSET then BadChecksum
               else Found \<lparr>fr_code = candidate ! 4, fr_data = candidate\<rparr> FRAME_LEN)"

lemma length_HEADER [simp]: "length HEADER = 4"
  by (simp add: HEADER_def)

lemma find_header_lt: "find_header b = Some i \<Longrightarrow> i + 4 \<le> length b"
  by (auto simp: find_header_def find_upt_Some simp del: upt_Suc split: if_splits)

lemma step_of_progress:
  "step_of b = Found f n \<Longrightarrow> 0 < n \<and> n \<le> length b"
  "step_of b = Skip n \<Longrightarrow> 0 < n \<and> n \<le> length b"
  "step_of b = BadChecksum \<Longrightarrow> b \<noteq> []"
  using find_header_lt [of b]
  by (auto simp: step_of_def FRAME_LEN_def Let_def split: option.splits if_splits)

function next_frame :: "frame_reader \<Rightarrow> frame option \<times> frame_reader" where
  "next_frame r =
     (case step_of (rd_buffer r) of
        Found f consumed \<Rightarrow>
          (Some f, r\<lparr>rd_buffer := drop consumed (rd_buffer r), rd_frames_ok := rd_frames_ok r + 1\<rparr>)
      | Skip n \<Rightarrow>
          next_frame (r\<lparr>rd_bytes_skipped := rd_bytes_skipped r + n,
                        rd_buffer := drop (min n (length (rd_buffer r))) (rd_buffer r)\<rparr>)
      | BadChecksum \<Rightarrow>
          next_frame (r\<lparr>rd_frames_discarded := rd_frames_discarded r + 1,
                        rd_bytes_skipped := rd_bytes_skipped r + 1,
                        rd_buffer := drop 1 (rd_buffer r)\<rparr>)
      | Incomplete \<Rightarrow> (None, r))"
  by pat_completeness auto
termination
  by (relation "measure (\<lambda>r. length (rd_buffer r))") (auto dest: step_of_progress)

declare next_frame.simps [simp del]

section \<open>Reference: the frames of a stream\<close>

definition valid_frame :: "byte list \<Rightarrow> bool" where
  "valid_frame bs \<longleftrightarrow> FRAME_LEN \<le> length bs \<and> take 4 bs = HEADER \<and>
     checksum (take FRAME_LEN bs) = bs ! CHECKSUM_OFFSET"

definition frame_at :: "byte list \<Rightarrow> frame" where
  "frame_at bs = \<lparr>fr_code = bs ! 4, fr_data = take FRAME_LEN bs\<rparr>"

function frames_of :: "byte list \<Rightarrow> frame list" where
  "frames_of bs =
     (if length bs < FRAME_LEN then []
      else if valid_frame bs then frame_at bs # frames_of (drop FRAME_LEN bs)
      else frames_of (drop 1 bs))"
  by pat_completeness auto
termination
  by (relation "measure length") (auto simp: FRAME_LEN_def)

declare frames_of.simps [simp del]

section \<open>Lemmas\<close>

lemma frames_of_short: "length bs < FRAME_LEN \<Longrightarrow> frames_of bs = []"
  by (subst frames_of.simps) simp

lemma frames_of_skip1: "\<not> valid_frame bs \<Longrightarrow> frames_of bs = frames_of (drop 1 bs)"
  by (cases "length bs < FRAME_LEN") (simp_all add: frames_of_short frames_of.simps [of bs])

lemma frames_of_found:
  "valid_frame bs \<Longrightarrow> frames_of bs = frame_at bs # frames_of (drop FRAME_LEN bs)"
  by (subst frames_of.simps) (simp add: valid_frame_def)

lemma frames_of_skip:
  "(\<And>i. i < k \<Longrightarrow> take 4 (drop i bs) \<noteq> HEADER) \<Longrightarrow> frames_of bs = frames_of (drop k bs)"
proof (induction k)
  case (Suc k)
  then have "frames_of bs = frames_of (drop k bs)" by simp
  also have "\<dots> = frames_of (drop 1 (drop k bs))"
    using Suc.prems [of k] by (intro frames_of_skip1) (simp add: valid_frame_def)
  finally show ?case by simp
qed simp

lemma take_drop_append: "i + 4 \<le> length b \<Longrightarrow> take 4 (drop i (b @ x)) = take 4 (drop i b)"
  by simp

lemma find_header_None: "find_header b = None \<Longrightarrow> i + 4 \<le> length b \<Longrightarrow> take 4 (drop i b) \<noteq> HEADER"
  by (auto simp: find_header_def find_upt_None simp del: upt_Suc split: if_splits)

lemma find_header_Some:
  "find_header b = Some n \<Longrightarrow> take 4 (drop n b) = HEADER \<and> (\<forall>i < n. take 4 (drop i b) \<noteq> HEADER)"
  by (auto simp: find_header_def find_upt_Some simp del: upt_Suc split: if_splits)

text \<open>Each step of the reader is a run of steps of the reference, whatever arrives later.\<close>

lemma step_of_Skip:
  assumes "step_of b = Skip n"
  shows "frames_of (b @ x) = frames_of (drop n b @ x)"
proof -
  have "take 4 (drop i (b @ x)) \<noteq> HEADER" if "i < n" for i
  proof (cases "find_header b")
    case None
    with assms have "n = length b - 3" "3 < length b"
      by (auto simp: step_of_def Let_def split: if_splits)
    with that find_header_None [OF None, of i] show ?thesis by (simp add: take_drop_append)
  next
    case (Some s)
    with assms have "n = s" by (auto simp: step_of_def Let_def split: if_splits)
    with that find_header_Some [OF Some] find_header_lt [OF Some] show ?thesis by simp
  qed
  then have "frames_of (b @ x) = frames_of (drop n (b @ x))" by (rule frames_of_skip)
  with step_of_progress(2) [OF assms] show ?thesis by simp
qed

lemma step_of_header:
  assumes "step_of b = BadChecksum \<or> step_of b = Found f n"
  shows "take 4 b = HEADER \<and> FRAME_LEN \<le> length b \<and>
    (step_of b = BadChecksum \<longleftrightarrow> checksum (take FRAME_LEN b) \<noteq> b ! CHECKSUM_OFFSET) \<and>
    (step_of b = Found f n \<longrightarrow> f = frame_at b \<and> n = FRAME_LEN)"
proof -
  from assms have "find_header b = Some 0" and l: "FRAME_LEN \<le> length b"
    by (auto simp: step_of_def Let_def split: option.splits if_splits)
  with find_header_Some [of b 0] assms show ?thesis
    by (auto simp: step_of_def Let_def frame_at_def CHECKSUM_OFFSET_def FRAME_LEN_def split: if_splits)
qed

lemma valid_frame_append: "FRAME_LEN \<le> length b \<Longrightarrow> valid_frame (b @ x) = valid_frame b"
  by (simp add: valid_frame_def FRAME_LEN_def CHECKSUM_OFFSET_def nth_append)

lemma step_of_BadChecksum:
  assumes "step_of b = BadChecksum"
  shows "frames_of (b @ x) = frames_of (drop 1 b @ x)"
proof -
  from step_of_header [of b] assms have h: "FRAME_LEN \<le> length b" "\<not> valid_frame b"
    by (auto simp: valid_frame_def)
  then have "frames_of (b @ x) = frames_of (drop 1 (b @ x))"
    by (intro frames_of_skip1) (simp add: valid_frame_append)
  with h show ?thesis by (cases b) (simp_all add: FRAME_LEN_def)
qed

lemma step_of_Found:
  assumes "step_of b = Found f n"
  shows "frames_of (b @ x) = f # frames_of (drop n b @ x)"
proof -
  from step_of_header [of b f n] assms have h: "FRAME_LEN \<le> length b" "valid_frame b" "f = frame_at b" "n = FRAME_LEN"
    by (auto simp: valid_frame_def)
  then have "frames_of (b @ x) = frame_at (b @ x) # frames_of (drop FRAME_LEN (b @ x))"
    by (intro frames_of_found) (simp add: valid_frame_append)
  with h show ?thesis by (simp add: frame_at_def FRAME_LEN_def nth_append)
qed

lemma step_of_Incomplete: "step_of b = Incomplete \<Longrightarrow> length b < FRAME_LEN"
  by (auto simp: step_of_def FRAME_LEN_def Let_def split: option.splits if_splits)

lemma next_frame_pending:
  "next_frame r = (res, r') \<Longrightarrow>
   frames_of (rd_buffer r @ x) =
     (case res of Some f \<Rightarrow> f # frames_of (rd_buffer r' @ x) | None \<Rightarrow> frames_of (rd_buffer r' @ x)) \<and>
   (res = None \<longrightarrow> length (rd_buffer r') < FRAME_LEN)"
proof (induction r rule: next_frame.induct)
  case (1 r)
  show ?case
  proof (cases "step_of (rd_buffer r)")
    case (Found f n)
    with "1.prems" step_of_Found [OF Found, of x] show ?thesis
      by (subst (asm) next_frame.simps) auto
  next
    case (Skip n)
    with "1.prems" have "next_frame (r\<lparr>rd_bytes_skipped := rd_bytes_skipped r + n,
        rd_buffer := drop (min n (length (rd_buffer r))) (rd_buffer r)\<rparr>) = (res, r')"
      by (subst (asm) next_frame.simps) simp
    from "1.IH"(1) [OF Skip this] step_of_Skip [OF Skip, of x] step_of_progress(2) [OF Skip]
    show ?thesis by (simp add: min_def)
  next
    case BadChecksum
    with "1.prems" have "next_frame (r\<lparr>rd_frames_discarded := rd_frames_discarded r + 1,
        rd_bytes_skipped := rd_bytes_skipped r + 1, rd_buffer := drop 1 (rd_buffer r)\<rparr>) = (res, r')"
      by (subst (asm) next_frame.simps) simp
    from "1.IH"(2) [OF BadChecksum this] step_of_BadChecksum [OF BadChecksum, of x]
    show ?thesis by simp
  next
    case Incomplete
    with "1.prems" step_of_Incomplete [OF Incomplete] show ?thesis
      by (subst (asm) next_frame.simps) auto
  qed
qed

subsection \<open>What a client of the reader may rely on\<close>

datatype reader_op = Feed "byte list" | Poll

fun run_ops ::
  "('s \<Rightarrow> byte list \<Rightarrow> 's) \<Rightarrow> ('s \<Rightarrow> frame option \<times> 's) \<Rightarrow> reader_op list \<Rightarrow> 's \<Rightarrow> frame list \<times> 's" where
  "run_ops push pull [] s = ([], s)"
| "run_ops push pull (Feed chunk # ops) s = run_ops push pull ops (push s chunk)"
| "run_ops push pull (Poll # ops) s =
     (case pull s of
        (None, s') \<Rightarrow> run_ops push pull ops s'
      | (Some f, s') \<Rightarrow> (let (fs, s'') = run_ops push pull ops s' in (f # fs, s'')))"

fun fed :: "reader_op list \<Rightarrow> byte list" where
  "fed [] = []"
| "fed (Feed chunk # ops) = chunk @ fed ops"
| "fed (Poll # ops) = fed ops"

text \<open>
  \<open>outlook s x\<close> is the frames still to come from state \<open>s\<close> when the bytes \<open>x\<close> arrive.
\<close>

locale frame_stream =
  fixes push :: "'s \<Rightarrow> byte list \<Rightarrow> 's"
    and pull :: "'s \<Rightarrow> frame option \<times> 's"
    and outlook :: "'s \<Rightarrow> byte list \<Rightarrow> frame list"
  assumes outlook_push: "outlook (push s c) x = outlook s (c @ x)"
    and outlook_pull: "pull s = (Some f, s') \<Longrightarrow> outlook s x = f # outlook s' x"
    and outlook_idle: "pull s = (None, s') \<Longrightarrow> outlook s x = outlook s' x"
    and outlook_dry: "pull s = (None, s') \<Longrightarrow> outlook s' [] = []"
begin

lemma outlook_run: "run_ops push pull ops s = (fs, s') \<Longrightarrow> outlook s (fed ops @ x) = fs @ outlook s' x"
proof (induction ops arbitrary: s fs rule: fed.induct)
  case (2 chunk ops)
  then show ?case by (simp flip: outlook_push)
next
  case (3 ops)
  obtain res s1 where r: "pull s = (res, s1)" by fastforce
  show ?case
  proof (cases res)
    case None
    with 3 r show ?thesis by (simp add: outlook_idle)
  next
    case (Some f)
    with "3.prems" r obtain gs where "run_ops push pull ops s1 = (gs, s')" "fs = f # gs"
      by (auto split: prod.splits)
    with "3.IH" [of s1 gs] r Some show ?thesis by (simp add: outlook_pull)
  qed
qed simp

lemma drained:
  assumes "run_ops push pull ops s = (fs, s')" and "pull s' = (None, s'')"
  shows "fs = outlook s (fed ops)"
  using outlook_run [OF assms(1), of "[]"] outlook_idle [OF assms(2), of "[]"] outlook_dry [OF assms(2)]
  by simp

lemma undrained_prefix:
  assumes "run_ops push pull ops s = (fs, s')"
  shows "\<exists>gs. outlook s (fed ops) = fs @ gs"
  using outlook_run [OF assms, of "[]"] by auto

end

interpretation reader: frame_stream feed next_frame "\<lambda>r x. frames_of (rd_buffer r @ x)"
proof
  fix r r' :: frame_reader and f x c
  show "frames_of (rd_buffer (feed r c) @ x) = frames_of (rd_buffer r @ c @ x)"
    by (simp add: feed_def)
  show "frames_of (rd_buffer r @ x) = f # frames_of (rd_buffer r' @ x)" if "next_frame r = (Some f, r')"
    using next_frame_pending [OF that, of x] by simp
  show "frames_of (rd_buffer r @ x) = frames_of (rd_buffer r' @ x)" if "next_frame r = (None, r')"
    using next_frame_pending [OF that, of x] by simp
  show "frames_of (rd_buffer r' @ []) = []" if "next_frame r = (None, r')"
    using next_frame_pending [OF that, of "[]"] by (simp add: frames_of_short)
qed

subsection \<open>Accounting\<close>

definition accounted :: "frame_reader \<Rightarrow> bool" where
  "accounted r \<longleftrightarrow>
     rd_bytes_read r = length (rd_buffer r) + rd_bytes_skipped r + FRAME_LEN * rd_frames_ok r \<and>
     rd_frames_discarded r \<le> rd_bytes_skipped r"

lemma feed_accounted: "accounted r \<Longrightarrow> accounted (feed r c)"
  by (simp add: accounted_def feed_def)

lemma next_frame_accounted:
  "next_frame r = (res, r') \<Longrightarrow> accounted r \<Longrightarrow>
   accounted r' \<and> rd_bytes_read r' = rd_bytes_read r \<and>
   rd_frames_ok r' = rd_frames_ok r + (case res of None \<Rightarrow> 0 | Some _ \<Rightarrow> 1)"
proof (induction r rule: next_frame.induct)
  case (1 r)
  note unfold = "1.prems"(1) [unfolded next_frame.simps [of r]]
  show ?case
  proof (cases "step_of (rd_buffer r)")
    case (Found f n)
    have "n = FRAME_LEN" using step_of_header [of "rd_buffer r" f n] Found by simp
    with unfold Found "1.prems"(2) step_of_progress(1) [OF Found] show ?thesis
      by (auto simp: accounted_def)
  next
    case (Skip n)
    with unfold "1.IH"(1) [OF Skip] "1.prems"(2) step_of_progress(2) [OF Skip] show ?thesis
      by (auto simp: accounted_def min_def)
  next
    case BadChecksum
    with unfold "1.IH"(2) [OF BadChecksum] "1.prems"(2) step_of_progress(3) [OF BadChecksum] show ?thesis
      by (cases "rd_buffer r") (auto simp: accounted_def)
  next
    case Incomplete
    with unfold "1.prems"(2) show ?thesis by auto
  qed
qed

lemma run_ops_accounted:
  "run_ops feed next_frame ops r = (fs, r') \<Longrightarrow> accounted r \<Longrightarrow>
   accounted r' \<and> rd_bytes_read r' = rd_bytes_read r + length (fed ops) \<and>
   rd_frames_ok r' = rd_frames_ok r + length fs"
proof (induction ops arbitrary: r fs rule: fed.induct)
  case (2 chunk ops)
  from "2.IH" [of "feed r chunk" fs] "2.prems" feed_accounted show ?case by (simp add: feed_def)
next
  case (3 ops)
  obtain res r1 where n: "next_frame r = (res, r1)" by fastforce
  note one = next_frame_accounted [OF n "3.prems"(2)]
  show ?case
  proof (cases res)
    case None
    with "3.prems"(1) n one "3.IH" [of r1 fs] show ?thesis by simp
  next
    case (Some f)
    with "3.prems"(1) n obtain gs where "run_ops feed next_frame ops r1 = (gs, r')" "fs = f # gs"
      by (auto split: prod.splits)
    with one "3.IH" [of r1 gs] Some show ?thesis by simp
  qed
qed simp

text \<open>Frames separated by traffic in which no header starts.\<close>

definition segment_ok :: "byte list \<times> byte list \<Rightarrow> bool" where
  "segment_ok s \<longleftrightarrow> length (snd s) = FRAME_LEN \<and> valid_frame (snd s) \<and>
     (\<forall>i < length (fst s). take 4 (drop i (fst s @ snd s)) \<noteq> HEADER)"

definition segment_bytes :: "(byte list \<times> byte list) list \<Rightarrow> byte list" where
  "segment_bytes segs = concat (map (\<lambda>s. fst s @ snd s) segs)"

lemma frames_of_segments:
  "\<forall>s \<in> set segs. segment_ok s \<Longrightarrow>
   frames_of (segment_bytes segs @ tail) = map (\<lambda>s. frame_at (snd s)) segs @ frames_of tail"
proof (induction segs)
  case (Cons s segs)
  let ?rest = "segment_bytes segs @ tail"
  from Cons.prems have s: "length (snd s) = FRAME_LEN" "valid_frame (snd s)"
    and junk: "\<And>i. i < length (fst s) \<Longrightarrow> take 4 (drop i (fst s @ snd s)) \<noteq> HEADER"
    by (simp_all add: segment_ok_def)
  have "frames_of (fst s @ snd s @ ?rest) = frames_of (drop (length (fst s)) (fst s @ snd s @ ?rest))"
    by (rule frames_of_skip) (use junk s(1) in \<open>fastforce simp: FRAME_LEN_def\<close>)
  also have "\<dots> = frames_of (snd s @ ?rest)" by simp
  also have "\<dots> = frame_at (snd s @ ?rest) # frames_of (drop FRAME_LEN (snd s @ ?rest))"
    using s by (intro frames_of_found) (simp add: valid_frame_append)
  also have "\<dots> = frame_at (snd s) # frames_of ?rest"
    using s(1) by (simp add: frame_at_def nth_append FRAME_LEN_def)
  finally show ?case using Cons by (simp add: segment_bytes_def)
qed (simp add: segment_bytes_def)

lemma frames_of_sound:
  "f \<in> set (frames_of bs) \<Longrightarrow> \<exists>pre post. bs = pre @ fr_data f @ post \<and> length (fr_data f) = FRAME_LEN \<and>
     take 4 (fr_data f) = HEADER \<and> fr_code f = fr_data f ! 4 \<and>
     checksum (fr_data f) = fr_data f ! CHECKSUM_OFFSET"
proof (induction bs rule: frames_of.induct)
  case (1 bs)
  consider "length bs < FRAME_LEN" | "\<not> length bs < FRAME_LEN" "valid_frame bs" "f = frame_at bs"
    | "\<not> length bs < FRAME_LEN" "valid_frame bs" "f \<in> set (frames_of (drop FRAME_LEN bs))"
    | "\<not> length bs < FRAME_LEN" "\<not> valid_frame bs" "f \<in> set (frames_of (drop 1 bs))"
    using "1.prems" by (subst (asm) frames_of.simps) (auto split: if_splits)
  then show ?case
  proof cases
    case 1
    with "1.prems" show ?thesis by (simp add: frames_of_short)
  next
    case 2
    then show ?thesis
      by (intro exI [of _ "[]"] exI [of _ "drop FRAME_LEN bs"])
         (auto simp: frame_at_def valid_frame_def FRAME_LEN_def CHECKSUM_OFFSET_def)
  next
    case 3
    from "1.IH"(1) [OF 3] obtain pre post where "drop FRAME_LEN bs = pre @ fr_data f @ post"
      and rest: "length (fr_data f) = FRAME_LEN" "take 4 (fr_data f) = HEADER" "fr_code f = fr_data f ! 4"
        "checksum (fr_data f) = fr_data f ! CHECKSUM_OFFSET" by blast
    then have "bs = (take FRAME_LEN bs @ pre) @ fr_data f @ post"
      using append_take_drop_id [of FRAME_LEN bs] by simp
    with rest show ?thesis by blast
  next
    case 4
    from "1.IH"(2) [OF 4] obtain pre post where "drop 1 bs = pre @ fr_data f @ post"
      and rest: "length (fr_data f) = FRAME_LEN" "take 4 (fr_data f) = HEADER" "fr_code f = fr_data f ! 4"
        "checksum (fr_data f) = fr_data f ! CHECKSUM_OFFSET" by blast
    then have "bs = (take 1 bs @ pre) @ fr_data f @ post"
      using append_take_drop_id [of 1 bs] by simp
    with rest show ?thesis by blast
  qed
qed

section \<open>Properties\<close>

definition demo_frame :: "byte list" where
  "demo_frame = HEADER @ [REALTIME] @ replicate 294 0 @ [0x7C]"

definition demo_ops :: "reader_op list" where
  "demo_ops = [Feed [1, 2, 0x55], Poll, Feed ([0xAA, 3] @ take 100 demo_frame), Poll,
               Feed (drop 100 demo_frame @ [9]), Poll, Poll]"

definition demo_reader :: frame_reader where
  "demo_reader = \<lparr>rd_buffer = [9], rd_frames_ok = 1, rd_frames_discarded = 0, rd_bytes_skipped = 5,
     rd_bytes_read = 306\<rparr>"

lemma demo_run_ops: "run_ops feed next_frame demo_ops reader_default = ([frame_at demo_frame], demo_reader)"
  by code_simp

lemma demo_reader_dry: "fst (next_frame demo_reader) = None"
  by code_simp

text \<open>
  Reassembly does not depend on how the serial line delivers the bytes: whatever chunks were
  fed and whenever the reader was polled, once it has nothing more to give it has given exactly
  the frames of the whole stream, as the byte-by-byte reference defines them, in order; at any
  earlier moment it has given a prefix of them.
\<close>

theorem reader_gives_frames_of_stream:
  assumes "run_ops feed next_frame ops reader_default = (fs, r)"
  shows "(\<exists>gs. frames_of (fed ops) = fs @ gs) \<and>
    (fst (next_frame r) = None \<longrightarrow> fs = frames_of (fed ops))"
proof -
  obtain res r' where n: "next_frame r = (res, r')" by fastforce
  show ?thesis
    using reader.undrained_prefix [OF assms] reader.drained [OF assms, of r'] n
    by (auto simp: reader_default_def)
qed

theorem reader_gives_frames_of_stream_witness: "[frame_at demo_frame] = frames_of (fed demo_ops)"
  using reader_gives_frames_of_stream [OF demo_run_ops] demo_reader_dry by blast

text \<open>
  C5. Nothing that is not a checked frame gets out, and nothing checked is lost. Every frame
  the reader gives is a contiguous part of the stream, 300 bytes long, with the header, the
  code it reports and a matching checksum; and when the stream consists of such frames
  separated by traffic in which no header starts, the reader gives all of them, in order.
\<close>

theorem reader_sound_and_complete:
  assumes "run_ops feed next_frame ops reader_default = (fs, r)" and "fst (next_frame r) = None"
  shows "(\<forall>f \<in> set fs. \<exists>pre post. fed ops = pre @ fr_data f @ post \<and> length (fr_data f) = FRAME_LEN \<and>
       take 4 (fr_data f) = HEADER \<and> fr_code f = fr_data f ! 4 \<and>
       checksum (fr_data f) = fr_data f ! CHECKSUM_OFFSET) \<and>
    (\<forall>segs tail. fed ops = segment_bytes segs @ tail \<longrightarrow> (\<forall>s \<in> set segs. segment_ok s) \<longrightarrow>
       length tail < FRAME_LEN \<longrightarrow> fs = map (\<lambda>s. frame_at (snd s)) segs)"
proof -
  obtain r' where "next_frame r = (None, r')" using assms(2) by (metis prod.collapse)
  from reader.drained [OF assms(1) this] have fs: "fs = frames_of (fed ops)"
    by (simp add: reader_default_def)
  show ?thesis unfolding fs using frames_of_sound by (auto simp: frames_of_segments frames_of_short)
qed

theorem reader_sound_and_complete_witness:
  "\<exists>pre post. fed demo_ops = pre @ fr_data (frame_at demo_frame) @ post"
  using reader_sound_and_complete [OF demo_run_ops demo_reader_dry] by auto

text \<open>
  The counters account for every byte: at any time the bytes read are the bytes still buffered,
  the bytes skipped and 300 for each good frame; the good frames counted are the frames given;
  and a poll that gives nothing leaves fewer than 300 bytes buffered, so the buffer does not
  grow without bound.
\<close>

theorem reader_accounts_for_every_byte:
  assumes "run_ops feed next_frame ops reader_default = (fs, r)"
  shows "length (fed ops) = length (rd_buffer r) + rd_bytes_skipped r + FRAME_LEN * length fs \<and>
    rd_bytes_read r = length (fed ops) \<and> rd_frames_ok r = length fs \<and>
    rd_frames_discarded r \<le> rd_bytes_skipped r \<and>
    (fst (next_frame r) = None \<longrightarrow> length (rd_buffer (snd (next_frame r))) < FRAME_LEN)"
proof -
  have "accounted reader_default" by (simp add: accounted_def reader_default_def)
  from run_ops_accounted [OF assms this] next_frame_pending [of r "fst (next_frame r)" "snd (next_frame r)"]
  show ?thesis by (auto simp: accounted_def reader_default_def)
qed

theorem reader_accounts_for_every_byte_witness: "length (fed demo_ops) = 306"
  using reader_accounts_for_every_byte [OF demo_run_ops] by (simp add: demo_reader_def)

end
