(* ===== verification/Bms_Port.thy ===== *)
theory Bms_Port
  imports Bms_Frame
begin

text \<open>
  \<open>packages/bms-monitoring/src/port.rs\<close>: the transport contract, the one blocking read loop
  \<open>read_until\<close>, and what one \<open>poll\<close> and one \<open>read\<close> of the serial port mean.  Opening, locking and
  configuring the tty is in \<open>Serial_Open\<close>.

  A port is the list of what its successive \<open>read_some\<close> calls do: how long each takes and what it
  returns.  When the list ends the line stays idle.  Instants and durations are in nanoseconds.
\<close>

section \<open>Model\<close>

datatype io_error = NotConnected | OsError nat

text \<open>\<open>Inr []\<close> is \<open>Ok(0)\<close>, nothing yet.\<close>

type_synonym read_result = "(io_error, byte list) result"
type_synonym line = "(nat \<times> read_result) list"

subsection \<open>The read loop\<close>

lemma next_frame_shrinks:
  "next_frame r = (Some f, r') \<Longrightarrow> length (rd_buffer r') < length (rd_buffer r)"
proof (induction r rule: next_frame.induct)
  case (1 r)
  note unfold = "1.prems" [unfolded next_frame.simps [of r]]
  show ?case
  proof (cases "step_of (rd_buffer r)")
    case (Found g n)
    with unfold step_of_progress(1) [OF Found] show ?thesis by auto
  next
    case (Skip n)
    with unfold "1.IH"(1) [OF Skip] step_of_progress(2) [OF Skip] show ?thesis by (auto simp: min_def)
  next
    case BadChecksum
    with unfold "1.IH"(2) [OF BadChecksum] step_of_progress(3) [OF BadChecksum] show ?thesis
      by (cases "rd_buffer r") auto
  next
    case Incomplete
    with unfold show ?thesis by simp
  qed
qed

text \<open>\<open>while let Some(frame) = reader.next_frame()\<close>, leaving at the first frame that is wanted.\<close>

function take_accepted :: "(frame \<Rightarrow> bool) \<Rightarrow> frame_reader \<Rightarrow> frame option \<times> frame_reader" where
  "take_accepted acc r =
     (case next_frame r of
        (None, r') \<Rightarrow> (None, r')
      | (Some f, r') \<Rightarrow> if acc f then (Some f, r') else take_accepted acc r')"
  by pat_completeness auto
termination
  by (relation "measure (\<lambda>(acc, r). length (rd_buffer r))") (auto dest: next_frame_shrinks [OF sym])

declare take_accepted.simps [simp del]

fun read_loop ::
  "(frame \<Rightarrow> bool) \<Rightarrow> frame_reader \<Rightarrow> nat \<Rightarrow> nat \<Rightarrow> line
   \<Rightarrow> (io_error, frame option) result \<times> frame_reader \<times> nat \<times> line" where
  "read_loop acc r deadline now [] = (Inr None, r, max now deadline, [])"
| "read_loop acc r deadline now ((dt, ev) # line) =
     (if deadline \<le> now then (Inr None, r, now, (dt, ev) # line)
      else case ev of
        Inl e \<Rightarrow> (Inl e, r, now + dt, line)
      | Inr chunk \<Rightarrow>
          if chunk = [] then read_loop acc r deadline (now + dt) line
          else case take_accepted acc (feed r chunk) of
            (Some f, r') \<Rightarrow> (Inr (Some f), r', now + dt, line)
          | (None, r') \<Rightarrow> read_loop acc r' deadline (now + dt) line)"

definition read_until ::
  "(frame \<Rightarrow> bool) \<Rightarrow> frame_reader \<Rightarrow> nat \<Rightarrow> nat \<Rightarrow> line
   \<Rightarrow> (io_error, frame option) result \<times> frame_reader \<times> nat \<times> line" where
  "read_until acc r deadline now line =
     (case take_accepted acc r of
        (Some f, r') \<Rightarrow> (Inr (Some f), r', now, line)
      | (None, r') \<Rightarrow> read_loop acc r' deadline now line)"

subsection \<open>One wait and one read of the serial port\<close>

record poll_flags =
  poll_in :: bool
  poll_hup :: bool
  poll_err :: bool
  poll_nval :: bool

datatype ready = Readable | Idle | Gone

definition classify :: "poll_flags \<Rightarrow> ready" where
  "classify revents =
     (if poll_hup revents \<or> poll_err revents \<or> poll_nval revents then Gone
      else if poll_in revents then Readable
      else Idle)"

datatype poll_outcome = PollOk poll_flags | PollIntr | PollErr nat

definition wait_port :: "poll_outcome \<Rightarrow> (io_error, ready) result" where
  "wait_port p =
     (case p of PollOk revents \<Rightarrow> Inr (classify revents) | PollIntr \<Rightarrow> Inr Idle | PollErr e \<Rightarrow> Inl (OsError e))"

datatype read_outcome = GotBytes "byte list" | ReadWouldBlock | ReadInterrupted | ReadErr nat

definition read_some :: "poll_outcome \<Rightarrow> read_outcome \<Rightarrow> read_result" where
  "read_some p rd =
     res_bind (wait_port p) (\<lambda>ready.
       case ready of
         Idle \<Rightarrow> Inr []
       | Gone \<Rightarrow> Inl NotConnected
       | Readable \<Rightarrow>
           (case rd of
              GotBytes [] \<Rightarrow> Inl NotConnected
            | GotBytes bytes \<Rightarrow> Inr bytes
            | ReadWouldBlock \<Rightarrow> Inr []
            | ReadInterrupted \<Rightarrow> Inr []
            | ReadErr e \<Rightarrow> Inl (OsError e)))"

section \<open>Lemmas\<close>

definition line_bytes :: "line \<Rightarrow> byte list" where
  "line_bytes l = concat (map (\<lambda>(dt, ev). case ev of Inr chunk \<Rightarrow> chunk | Inl _ \<Rightarrow> []) l)"

lemma line_bytes_simps [simp]:
  "line_bytes [] = []" "line_bytes ((dt, Inr chunk) # l) = chunk @ line_bytes l"
  "line_bytes ((dt, Inl e) # l) = line_bytes l" "line_bytes (k @ l) = line_bytes k @ line_bytes l"
  by (simp_all add: line_bytes_def)

abbreviation outlook :: "frame_reader \<Rightarrow> byte list \<Rightarrow> frame list" where
  "outlook r x \<equiv> frames_of (rd_buffer r @ x)"

lemma take_accepted_outlook:
  "take_accepted acc r = (res, r') \<Longrightarrow>
   \<exists>dropped. (\<forall>f \<in> set dropped. \<not> acc f) \<and>
     (case res of
        Some f \<Rightarrow> acc f \<and> (\<forall>x. outlook r x = dropped @ f # outlook r' x)
      | None \<Rightarrow> (\<forall>x. outlook r x = dropped @ outlook r' x) \<and> length (rd_buffer r') < FRAME_LEN)"
proof (induction acc r rule: take_accepted.induct)
  case (1 acc r)
  obtain o1 r1 where n: "next_frame r = (o1, r1)" by fastforce
  note unfold = "1.prems" [unfolded take_accepted.simps [of acc r] n]
  show ?case
  proof (cases o1)
    case None
    with unfold n next_frame_pending [OF n] show ?thesis by (intro exI [of _ "[]"]) auto
  next
    case (Some f)
    with n have out: "outlook r x = f # outlook r1 x" for x using next_frame_pending [OF n, of x] by simp
    show ?thesis
    proof (cases "acc f")
      case True
      with unfold Some out show ?thesis by (intro exI [of _ "[]"]) auto
    next
      case False
      with unfold Some have "take_accepted acc r1 = (res, r')" by simp
      with "1.IH" [OF n [symmetric] Some False] obtain dropped where
        "\<forall>f \<in> set dropped. \<not> acc f" and
        "case res of Some f \<Rightarrow> acc f \<and> (\<forall>x. outlook r1 x = dropped @ f # outlook r' x)
          | None \<Rightarrow> (\<forall>x. outlook r1 x = dropped @ outlook r' x) \<and> length (rd_buffer r') < FRAME_LEN"
        by blast
      with False out show ?thesis by (intro exI [of _ "f # dropped"]) (auto split: option.splits)
    qed
  qed
qed

definition explains ::
  "(frame \<Rightarrow> bool) \<Rightarrow> frame_reader \<Rightarrow> byte list \<Rightarrow> (io_error, frame option) result \<Rightarrow> frame_reader \<Rightarrow> bool" where
  "explains acc r bytes res r' \<longleftrightarrow>
     (\<exists>dropped. (\<forall>f \<in> set dropped. \<not> acc f) \<and>
        (case res of
           Inr (Some f) \<Rightarrow> acc f \<and> (\<forall>x. outlook r (bytes @ x) = dropped @ f # outlook r' x)
         | Inr None \<Rightarrow> (\<forall>x. outlook r (bytes @ x) = dropped @ outlook r' x) \<and> outlook r' [] = []
         | Inl e \<Rightarrow> (\<forall>x. outlook r (bytes @ x) = dropped @ outlook r' x)))"

lemma explains_step:
  assumes "\<forall>f \<in> set d. \<not> acc f" and "\<And>x. outlook r (bytes @ x) = d @ outlook r1 x"
    and "explains acc r1 bytes' res r'"
  shows "explains acc r (bytes @ bytes') res r'"
proof -
  from assms(3) obtain d' where "\<forall>f \<in> set d'. \<not> acc f" and
    "case res of
       Inr (Some f) \<Rightarrow> acc f \<and> (\<forall>x. outlook r1 (bytes' @ x) = d' @ f # outlook r' x)
     | Inr None \<Rightarrow> (\<forall>x. outlook r1 (bytes' @ x) = d' @ outlook r' x) \<and> outlook r' [] = []
     | Inl e \<Rightarrow> (\<forall>x. outlook r1 (bytes' @ x) = d' @ outlook r' x)"
    unfolding explains_def by blast
  with assms(1,2) show ?thesis
    unfolding explains_def by (intro exI [of _ "d @ d'"]) (auto split: sum.splits option.splits)
qed

lemma explains_now:
  "outlook r [] = [] \<Longrightarrow> explains acc r [] (Inr None) r" "explains acc r [] (Inl e) r"
  by (auto simp: explains_def intro!: exI [of _ "[]"])

lemma read_loop_explained:
  "read_loop acc r deadline now line = (res, r', now', line') \<Longrightarrow> outlook r [] = [] \<Longrightarrow>
   \<exists>used. line = used @ line' \<and> explains acc r (line_bytes used) res r' \<and> now \<le> now' \<and>
     (res = Inr None \<longrightarrow> deadline \<le> now')"
proof (induction acc r deadline now line rule: read_loop.induct)
  case (1 acc r deadline now)
  then show ?case by (intro exI [of _ "[]"]) (auto simp: explains_now)
next
  case (2 acc r deadline now dt ev line)
  show ?case
  proof (cases "deadline \<le> now")
    case True
    with "2.prems" show ?thesis by (intro exI [of _ "[]"]) (auto simp: explains_now)
  next
    case False
    show ?thesis
    proof (cases ev)
      case (Inl e)
      with "2.prems" False show ?thesis by (intro exI [of _ "[(dt, ev)]"]) (auto simp: explains_now)
    next
      case (Inr chunk)
      show ?thesis
      proof (cases "chunk = []")
        case True
        with "2.prems" False Inr have "read_loop acc r deadline (now + dt) line = (res, r', now', line')" by simp
        with "2.IH"(1) [OF False Inr True _ "2.prems"(2)] obtain used where
          "line = used @ line'" "explains acc r (line_bytes used) res r'" "now + dt \<le> now'"
          "res = Inr None \<longrightarrow> deadline \<le> now'" by blast
        with Inr True show ?thesis by (intro exI [of _ "(dt, ev) # used"]) auto
      next
        case ne: False
        obtain o1 r1 where t: "take_accepted acc (feed r chunk) = (o1, r1)" by fastforce
        from take_accepted_outlook [OF t] obtain d where d: "\<forall>f \<in> set d. \<not> acc f" and
          "case o1 of Some f \<Rightarrow> acc f \<and> (\<forall>x. outlook (feed r chunk) x = d @ f # outlook r1 x)
           | None \<Rightarrow> (\<forall>x. outlook (feed r chunk) x = d @ outlook r1 x) \<and> length (rd_buffer r1) < FRAME_LEN"
          by blast
        then have c: "case o1 of Some f \<Rightarrow> acc f \<and> (\<forall>x. outlook r (chunk @ x) = d @ f # outlook r1 x)
           | None \<Rightarrow> (\<forall>x. outlook r (chunk @ x) = d @ outlook r1 x) \<and> length (rd_buffer r1) < FRAME_LEN"
          by (auto simp: reader.outlook_push split: option.splits)
        show ?thesis
        proof (cases o1)
          case None
          with "2.prems" False Inr ne t have "read_loop acc r1 deadline (now + dt) line = (res, r', now', line')"
            by simp
          moreover from c None have "outlook r1 [] = []" by (simp add: frames_of_short)
          ultimately obtain used where u: "line = used @ line'" "explains acc r1 (line_bytes used) res r'"
              "now + dt \<le> now'" "res = Inr None \<longrightarrow> deadline \<le> now'"
            using "2.IH"(2) [OF False Inr ne t [symmetric] None] by blast
          have "explains acc r (chunk @ line_bytes used) res r'"
            using c None by (intro explains_step [OF d _ u(2)]) simp
          with u Inr show ?thesis by (intro exI [of _ "(dt, ev) # used"]) auto
        next
          case (Some f)
          with "2.prems" False Inr ne t have eq: "res = Inr (Some f)" "r' = r1" "line' = line" "now' = now + dt"
            by simp_all
          from c d Some have "explains acc r chunk (Inr (Some f)) r1" unfolding explains_def by auto
          with eq Inr show ?thesis by (intro exI [of _ "[(dt, ev)]"]) auto
        qed
      qed
    qed
  qed
qed

lemma read_until_explained:
  assumes "read_until acc r deadline now line = (res, r', now', line')"
  shows "\<exists>used. line = used @ line' \<and> explains acc r (line_bytes used) res r' \<and> now \<le> now' \<and>
    (res = Inr None \<longrightarrow> deadline \<le> now')"
proof -
  obtain o1 r1 where t: "take_accepted acc r = (o1, r1)" by fastforce
  from take_accepted_outlook [OF t] obtain d where d: "\<forall>f \<in> set d. \<not> acc f" and
    c: "case o1 of Some f \<Rightarrow> acc f \<and> (\<forall>x. outlook r x = d @ f # outlook r1 x)
        | None \<Rightarrow> (\<forall>x. outlook r x = d @ outlook r1 x) \<and> length (rd_buffer r1) < FRAME_LEN"
    by blast
  show ?thesis
  proof (cases o1)
    case None
    with assms t have "read_loop acc r1 deadline now line = (res, r', now', line')"
      by (simp add: read_until_def)
    moreover from c None have "outlook r1 [] = []" by (simp add: frames_of_short)
    ultimately obtain used where u: "line = used @ line'" "explains acc r1 (line_bytes used) res r'"
        "now \<le> now'" "res = Inr None \<longrightarrow> deadline \<le> now'"
      using read_loop_explained by blast
    have "explains acc r ([] @ line_bytes used) res r'"
      using c None by (intro explains_step [OF d _ u(2)]) simp
    with u show ?thesis by auto
  next
    case (Some f)
    with assms t have eq: "res = Inr (Some f)" "r' = r1" "line' = line" "now' = now"
      by (simp_all add: read_until_def)
    from c d Some have "explains acc r [] (Inr (Some f)) r1" unfolding explains_def by auto
    with eq show ?thesis by (intro exI [of _ "[]"]) auto
  qed
qed

text \<open>Every byte a call takes off the line is counted.\<close>

lemma take_accepted_counts:
  "take_accepted acc r = (res, r') \<Longrightarrow> accounted r \<Longrightarrow> accounted r' \<and> rd_bytes_read r' = rd_bytes_read r"
proof (induction acc r rule: take_accepted.induct)
  case (1 acc r)
  obtain o1 r1 where n: "next_frame r = (o1, r1)" by fastforce
  note unfold = "1.prems"(1) [unfolded take_accepted.simps [of acc r] n]
  note one = next_frame_accounted [OF n "1.prems"(2)]
  show ?case
  proof (cases o1)
    case None
    with unfold one show ?thesis by simp
  next
    case (Some f)
    with unfold one "1.IH" [OF n [symmetric] Some] show ?thesis by (auto split: if_splits)
  qed
qed

lemma read_loop_counts:
  "read_loop acc r deadline now line = (res, r', now', line') \<Longrightarrow> accounted r \<Longrightarrow>
   accounted r' \<and> rd_bytes_read r' + length (line_bytes line') = rd_bytes_read r + length (line_bytes line)"
proof (induction acc r deadline now line rule: read_loop.induct)
  case (2 acc r deadline now dt ev line)
  obtain o1 r1 where t: "take_accepted acc (feed r (projr ev)) = (o1, r1)" by fastforce
  have f: "accounted (feed r c)" "rd_bytes_read (feed r c) = rd_bytes_read r + length c" for c
    using feed_accounted [OF "2.prems"(2)] by (simp_all add: feed_def)
  from "2.prems" t take_accepted_counts [OF t f(1)] f show ?case
    by (cases ev; cases o1)
       (auto split: if_splits dest: "2.IH"(1) "2.IH"(2) [OF _ _ _ t [symmetric]])
qed auto

lemma read_until_counts:
  assumes "read_until acc r deadline now line = (res, r', now', line')" and "accounted r"
  shows "accounted r' \<and> rd_bytes_read r' + length (line_bytes line') = rd_bytes_read r + length (line_bytes line)"
proof -
  obtain o1 r1 where t: "take_accepted acc r = (o1, r1)" by fastforce
  from assms(1) t take_accepted_counts [OF t assms(2)] show ?thesis
    by (cases o1) (auto simp: read_until_def dest: read_loop_counts)
qed

lemma accounted_default: "accounted reader_default" "rd_bytes_read reader_default = 0"
  by (simp_all add: accounted_def reader_default_def)

lemma find_skip: "\<forall>x \<in> set xs. \<not> P x \<Longrightarrow> P y \<Longrightarrow> find P (xs @ y # ys) = Some y"
  by (induction xs) auto

lemma explains_find:
  "explains acc r b (Inr (Some f)) r' \<Longrightarrow> find acc (outlook r b) = Some f"
  "explains acc r b (Inr None) r' \<Longrightarrow> find acc (outlook r b) = None"
proof -
  assume "explains acc r b (Inr (Some f)) r'"
  then obtain d where d: "\<forall>f \<in> set d. \<not> acc f" and acc: "acc f"
    and all: "\<And>x. outlook r (b @ x) = d @ f # outlook r' x"
    unfolding explains_def by auto
  from find_skip [OF d acc] all [of "[]"] show "find acc (outlook r b) = Some f" by simp
next
  assume "explains acc r b (Inr None) r'"
  then obtain d where d: "\<forall>f \<in> set d. \<not> acc f" and nil: "outlook r' [] = []"
    and all: "\<And>x. outlook r (b @ x) = d @ outlook r' x"
    unfolding explains_def by auto
  from all [of "[]"] nil d show "find acc (outlook r b) = None" by (simp add: find_None_iff)
qed

lemma explains_continues:
  assumes "explains acc r b res r'"
  shows "\<exists>taken. \<forall>x. outlook r (b @ x) = taken @ outlook r' x"
proof -
  consider e where "res = Inl e" | "res = Inr None" | f where "res = Inr (Some f)"
    by (metis option.exhaust sumE)
  then show ?thesis
  proof cases
    case (3 f)
    with assms obtain d where "\<forall>x. outlook r (b @ x) = d @ f # outlook r' x" unfolding explains_def by auto
    then show ?thesis by (intro exI [of _ "d @ [f]"]) simp
  qed (use assms in \<open>auto simp: explains_def\<close>)
qed

section \<open>Properties\<close>

text \<open>
  Waiting for a frame of one kind returns the first one on the wire: among the frames of the
  buffered bytes and the bytes read, the frame returned is the first that is wanted; a timeout
  is reported only when the deadline has passed and none of them was; and no later frame is
  lost, however the call ended, because the frames still to come continue the same sequence.
\<close>

theorem read_until_returns_first_wanted:
  assumes "read_until acc r deadline now line = (res, r', now', line')"
  shows "\<exists>used. line = used @ line' \<and>
    (\<forall>f. res = Inr (Some f) \<longrightarrow> find acc (frames_of (rd_buffer r @ line_bytes used)) = Some f) \<and>
    (res = Inr None \<longrightarrow> deadline \<le> now' \<and> find acc (frames_of (rd_buffer r @ line_bytes used)) = None) \<and>
    (\<exists>taken. \<forall>x. frames_of (rd_buffer r @ line_bytes used @ x) = taken @ frames_of (rd_buffer r' @ x))"
proof -
  from read_until_explained [OF assms] obtain used where u: "line = used @ line'"
    "explains acc r (line_bytes used) res r'" "res = Inr None \<longrightarrow> deadline \<le> now'" by blast
  show ?thesis
  proof (intro exI [of _ used] conjI allI impI)
    show "line = used @ line'" by (rule u(1))
    show "find acc (frames_of (rd_buffer r @ line_bytes used)) = Some f" if "res = Inr (Some f)" for f
      using u(2) explains_find(1) that by simp
    show "deadline \<le> now'" if "res = Inr None" using u(3) that by simp
    show "find acc (frames_of (rd_buffer r @ line_bytes used)) = None" if "res = Inr None"
      using u(2) explains_find(2) that by simp
    show "\<exists>taken. \<forall>x. frames_of (rd_buffer r @ line_bytes used @ x) = taken @ frames_of (rd_buffer r' @ x)"
      by (rule explains_continues [OF u(2)])
  qed
qed

theorem read_until_returns_first_wanted_witness:
  "\<exists>used. [(5, Inr (take 200 demo_frame)), (7, Inr (drop 200 demo_frame)), (1, Inl NotConnected)] =
     used @ [(1, Inl NotConnected)] \<and>
   find is_realtime (frames_of (rd_buffer reader_default @ line_bytes used)) = Some (frame_at demo_frame)"
proof -
  have "fst (read_until is_realtime reader_default 100 0
      [(5, Inr (take 200 demo_frame)), (7, Inr (drop 200 demo_frame)), (1, Inl NotConnected)]) =
      Inr (Some (frame_at demo_frame))"
    "snd (snd (snd (read_until is_realtime reader_default 100 0
      [(5, Inr (take 200 demo_frame)), (7, Inr (drop 200 demo_frame)), (1, Inl NotConnected)]))) =
      [(1, Inl NotConnected)]"
    by code_simp+
  then obtain r' now' where "read_until is_realtime reader_default 100 0
      [(5, Inr (take 200 demo_frame)), (7, Inr (drop 200 demo_frame)), (1, Inl NotConnected)] =
      (Inr (Some (frame_at demo_frame)), r', now', [(1, Inl NotConnected)])"
    by (metis prod.collapse)
  from read_until_returns_first_wanted [OF this] show ?thesis by blast
qed

text \<open>
  A vanished adapter is never mistaken for a quiet line: whenever the port is hung up, in error
  or invalid, and whenever it claims to be readable and yields nothing,
  \<open>read_some\<close> fails; it answers "nothing yet" only after a wait that found the
  line idle, or for a spurious wakeup.
\<close>

theorem read_some_idle_only_when_waited:
  "(read_some p rd = Inr [] \<longleftrightarrow>
     p = PollIntr \<or> (\<exists>fl. p = PollOk fl \<and> classify fl = Idle) \<or>
     (\<exists>fl. p = PollOk fl \<and> classify fl = Readable \<and> rd \<in> {ReadWouldBlock, ReadInterrupted})) \<and>
   read_some (PollOk (fl\<lparr>poll_hup := True\<rparr>)) rd = Inl NotConnected \<and>
   read_some (PollOk fl) (GotBytes []) \<noteq> Inr (b # bs) \<and>
   (classify fl = Readable \<longleftrightarrow> poll_in fl \<and> read_some (PollOk fl) (GotBytes []) = Inl NotConnected \<and>
      \<not> poll_hup fl \<and> \<not> poll_err fl \<and> \<not> poll_nval fl)"
  by (auto simp: read_some_def wait_port_def classify_def
      split: poll_outcome.splits ready.splits read_outcome.splits list.splits if_splits)

end
