(* ===== verification/Bms_Discover.thy ===== *)
theory Bms_Discover
  imports Bms_Port Rust_Std "HOL-Library.Mapping" "HOL-Library.Char_ord" "HOL-Library.List_Lexorder"
begin

text \<open>
  \<open>packages/bms-monitoring/src/discover.rs\<close>: enumerating the USB serial adapters, shuffling them and
  probing one by listening.  A directory is the list of its entries, or nothing when it cannot be
  read; a link entry carries its name (if it is UTF-8) and the path of what it points
  at (if it resolves); links are keyed by the final component of that path.  Names are ordered as byte strings, as Rust orders them.
\<close>

section \<open>Model\<close>

record candidate =
  ca_tty :: string
  ca_path_id :: string
  ca_by_id :: "string option"

definition describe :: "candidate \<Rightarrow> string" where
  "describe c =
     (case ca_by_id c of Some by_id \<Rightarrow> ca_path_id c @ '' ('' @ by_id @ '')'' | None \<Rightarrow> ca_path_id c)"

type_synonym link_entry = "string option \<times> string option"

definition target_key :: "string \<Rightarrow> string" where
  "target_key path = (case file_name path of Some name \<Rightarrow> name | None \<Rightarrow> path)"

definition link_insert :: "link_entry \<Rightarrow> (string, string) mapping \<Rightarrow> (string, string) mapping" where
  "link_insert entry links =
     (case entry of
        (Some name, Some target) \<Rightarrow>
          (case Mapping.lookup links (target_key target) of
             Some existing \<Rightarrow> if name < existing then Mapping.update (target_key target) name links else links
           | None \<Rightarrow> Mapping.update (target_key target) name links)
      | _ \<Rightarrow> links)"

definition links_by_target :: "link_entry list option \<Rightarrow> (string, string) mapping" where
  "links_by_target dir =
     (case dir of None \<Rightarrow> Mapping.empty | Some entries \<Rightarrow> fold link_insert entries Mapping.empty)"

definition by_id_of :: "link_entry list option \<Rightarrow> string \<Rightarrow> string option" where
  "by_id_of by_id_dir tty = Mapping.lookup (links_by_target by_id_dir) (target_key tty)"

definition is_tty_usb :: "string \<Rightarrow> bool" where
  "is_tty_usb name \<longleftrightarrow> take 6 name = ''ttyUSB''"

definition enumerate_ports ::
  "string \<Rightarrow> string option list option \<Rightarrow> link_entry list option \<Rightarrow> link_entry list option \<Rightarrow> candidate list" where
  "enumerate_ports dev_dir entries by_path_dir by_id_dir =
     (case entries of
        None \<Rightarrow> []
      | Some names \<Rightarrow>
          let by_path = links_by_target by_path_dir;
              by_id = links_by_target by_id_dir;
              found = map (\<lambda>name.
                        let tty = dev_dir @ ''/'' @ name;
                            key = target_key tty
                        in \<lparr>ca_tty = tty,
                            ca_path_id = (case Mapping.lookup by_path key of Some p \<Rightarrow> p | None \<Rightarrow> tty),
                            ca_by_id = Mapping.lookup by_id key\<rparr>)
                      (filter is_tty_usb (List.map_filter (\<lambda>n. n) names))
          in sort_key ca_tty found)"

definition xorshift :: "u64 \<Rightarrow> u64" where
  "xorshift state =
     (let s = state XOR push_bit 13 state;
          s = s XOR drop_bit 7 s
      in s XOR push_bit 17 s)"

definition swap :: "nat \<Rightarrow> nat \<Rightarrow> 'a list \<Rightarrow> 'a list" where
  "swap i j xs = xs[i := xs ! j, j := xs ! i]"

fun shuffle_loop :: "nat \<Rightarrow> 'a list \<Rightarrow> u64 \<Rightarrow> 'a list" where
  "shuffle_loop 0 items state = items"
| "shuffle_loop (Suc k) items state =
     (let state' = xorshift state
      in shuffle_loop k (swap (Suc k) (unat (state' mod (of_nat (Suc k) + 1))) items) state')"

definition shuffle :: "'a list \<Rightarrow> u64 \<Rightarrow> 'a list" where
  "shuffle items seed = shuffle_loop (length items - 1) items (seed OR 1)"

definition order_candidates :: "candidate list \<Rightarrow> u64 \<Rightarrow> candidate list" where
  "order_candidates candidates seed = shuffle candidates seed"

datatype probe = Bms frame | Silent | NotABms nat nat nat

definition probe_port :: "nat \<Rightarrow> nat \<Rightarrow> line \<Rightarrow> (io_error, probe) result \<times> nat \<times> line" where
  "probe_port window now line =
     (case read_until is_realtime reader_default (now + window) now line of
        (Inl e, reader, now', line') \<Rightarrow> (Inl e, now', line')
      | (Inr (Some f), reader, now', line') \<Rightarrow> (Inr (Bms f), now', line')
      | (Inr None, reader, now', line') \<Rightarrow>
          (Inr (if rd_bytes_read reader = 0 then Silent
                else NotABms (rd_bytes_read reader) (rd_frames_ok reader) (rd_frames_discarded reader)),
           now', line'))"

section \<open>Lemmas\<close>

lemma mset_swap_list: "i < length xs \<Longrightarrow> j < length xs \<Longrightarrow> mset (swap i j xs) = mset xs"
  by (simp add: swap_def mset_swap)

lemma length_swap [simp]: "length (swap i j xs) = length xs"
  by (simp add: swap_def)

lemma shuffle_index: "Suc k < 2 ^ 64 - 1 \<Longrightarrow> unat (s mod (of_nat (Suc k) + 1 :: u64)) \<le> Suc k"
proof -
  assume k: "Suc k < 2 ^ 64 - 1"
  have "unat (of_nat (Suc (Suc k)) :: u64) = Suc (Suc k)" using k by (simp only: unat_of_nat) simp
  then have u: "unat (of_nat (Suc k) + 1 :: u64) = Suc (Suc k)" by (simp add: add.commute)
  have "unat (s mod (of_nat (Suc k) + 1)) = unat s mod unat (of_nat (Suc k) + 1 :: u64)" by (rule unat_mod_distrib)
  also have "\<dots> < Suc (Suc k)" unfolding u by simp
  finally show ?thesis by simp
qed

lemma shuffle_loop_mset:
  "k < length items \<or> k = 0 \<Longrightarrow> length items < 2 ^ 64 - 1 \<Longrightarrow> mset (shuffle_loop k items state) = mset items"
proof (induction k items state rule: shuffle_loop.induct)
  case (2 k items state)
  then have "Suc k < length items" "unat (xorshift state mod (of_nat (Suc k) + 1)) \<le> Suc k"
    using shuffle_index [of k "xorshift state"] by simp_all
  with 2 show ?case by (simp add: Let_def mset_swap_list)
qed simp

lemma shuffle_mset: "length items < 2 ^ 64 - 1 \<Longrightarrow> mset (shuffle items seed) = mset items"
  unfolding shuffle_def by (rule shuffle_loop_mset) auto

text \<open>The link kept for a device is the least of the names that point at it.\<close>

definition names_of :: "link_entry list \<Rightarrow> string \<Rightarrow> string set" where
  "names_of entries key = {name. \<exists>target. (Some name, Some target) \<in> set entries \<and> target_key target = key}"

lemma link_insert_lookup:
  "Mapping.lookup (link_insert e links) t =
     (case e of
        (Some name, Some target) \<Rightarrow>
          if target_key target = t then Some (case Mapping.lookup links t of Some x \<Rightarrow> min name x | None \<Rightarrow> name)
          else Mapping.lookup links t
      | _ \<Rightarrow> Mapping.lookup links t)"
  by (auto simp: link_insert_def lookup_update' min_def split: option.splits prod.splits)

lemma fold_links_lookup:
  "Mapping.lookup (fold link_insert entries links) t =
     (let ns = names_of entries t \<union> set_option (Mapping.lookup links t)
      in if ns = {} then None else Some (Min ns))"
proof (induction entries arbitrary: links)
  case Nil
  then show ?case by (cases "Mapping.lookup links t") (simp_all add: names_of_def)
next
  case (Cons e entries)
  have fin: "finite (names_of entries t)"
    by (rule finite_subset [of _ "(\<lambda>e. the (fst e)) ` set entries"]) (force simp: names_of_def)+
  show ?case
  proof (cases "\<exists>name target. e = (Some name, Some target) \<and> target_key target = t")
    case True
    then obtain name target where e: "e = (Some name, Some target)" "target_key target = t" by blast
    have n: "names_of (e # entries) t = insert name (names_of entries t)" by (auto simp: names_of_def e)
    note n = n [unfolded e(1)]
    show ?thesis
    proof (cases "Mapping.lookup links t")
      case None
      then show ?thesis using Cons [of "link_insert e links"] by (simp add: link_insert_lookup e n Let_def)
    next
      case (Some x)
      have "Min (insert name (insert x (names_of entries t))) = Min (insert (min name x) (names_of entries t))"
        by (cases "names_of entries t = {}") (simp_all add: fin Min_insert min.assoc)
      then show ?thesis using Cons [of "link_insert e links"] Some
        by (simp add: link_insert_lookup e n Let_def insert_commute)
    qed
  next
    case False
    then have "Mapping.lookup (link_insert e links) t = Mapping.lookup links t"
      by (auto simp: link_insert_lookup split: option.splits prod.splits)
    moreover have "names_of (e # entries) t = names_of entries t" using False by (auto simp: names_of_def)
    ultimately show ?thesis using Cons [of "link_insert e links"] by (simp only: fold.simps comp_def)
  qed
qed

section \<open>Properties\<close>

text \<open>
  Discovery looks at every adapter exactly once per sweep, whatever the seed: the shuffle is a
  permutation, and the list it permutes has one candidate per \<open>ttyUSB\<close> entry of
  the directory.
\<close>

theorem sweep_covers_every_adapter:
  assumes "length names < 2 ^ 64 - 1"
  shows "mset (map ca_tty (order_candidates (enumerate_ports dev (Some names) by_path by_id) seed)) =
    mset (map (\<lambda>n. dev @ ''/'' @ n) (filter is_tty_usb (List.map_filter (\<lambda>n. n) names)))"
proof -
  let ?names = "filter is_tty_usb (List.map_filter (\<lambda>n. n) names)"
  let ?cs = "enumerate_ports dev (Some names) by_path by_id"
  have ms: "mset (map ca_tty ?cs) = mset (map (\<lambda>n. dev @ ''/'' @ n) ?names)"
    by (simp add: enumerate_ports_def Let_def multiset.map_comp comp_def)
  have "length ?names \<le> length (List.map_filter (\<lambda>n. n) names)" by simp
  also have "\<dots> \<le> length names" by (simp add: List.map_filter_def)
  finally have "length ?cs < 2 ^ 64 - 1"
    using mset_eq_length [OF ms] assms by (simp del: mset_map)
  then have "mset (order_candidates ?cs seed) = mset ?cs"
    unfolding order_candidates_def by (rule shuffle_mset)
  then have "mset (map ca_tty (order_candidates ?cs seed)) = mset (map ca_tty ?cs)" by simp
  with ms show ?thesis by simp
qed

theorem sweep_covers_every_adapter_witness:
  "mset (map ca_tty (order_candidates (enumerate_ports ''/dev''
      (Some [Some ''ttyUSB1'', Some ''null'', None, Some ''ttyUSB0'']) None None) 7)) =
   {#''/dev/ttyUSB0'', ''/dev/ttyUSB1''#}"
  by (subst sweep_covers_every_adapter) (simp_all add: List.map_filter_def is_tty_usb_def)

text \<open>
  A device's name does not depend on the order the directory lists its links in: it is the
  least of the link names that resolve to the device, and there is none exactly when no link
  does.
\<close>

theorem link_name_is_least:
  "by_id_of (Some entries) tty =
     (let names = {name. \<exists>target. (Some name, Some target) \<in> set entries \<and> target_key target = target_key tty}
      in if names = {} then None else Some (Min names))"
  by (simp add: by_id_of_def links_by_target_def fold_links_lookup lookup_empty names_of_def Let_def)

text \<open>
  A probe recognises a BMS by a checked realtime frame and nothing less: it answers
  \<open>Bms\<close> with the first realtime frame among the bytes it heard,
  \<open>Silent\<close> only if it heard no byte at all, and otherwise reports how many bytes
  it heard without such a frame; both negative answers are given only after the whole window.
\<close>

theorem probe_needs_realtime_frame:
  assumes "probe_port window now line = (Inr p, now', line')"
  shows "\<exists>used. line = used @ line' \<and>
    (case p of
       Bms f \<Rightarrow> find is_realtime (frames_of (line_bytes used)) = Some f
     | Silent \<Rightarrow> line_bytes used = [] \<and> now + window \<le> now'
     | NotABms n ok bad \<Rightarrow> n = length (line_bytes used) \<and> 0 < n \<and> now + window \<le> now' \<and>
         find is_realtime (frames_of (line_bytes used)) = None)"
proof -
  obtain res r' t l where r: "read_until is_realtime reader_default (now + window) now line = (res, r', t, l)"
    using prod_cases4 by blast
  from assms r have eq: "t = now'" "l = line'" and res: "\<And>e. res \<noteq> Inl e"
    by (auto simp: probe_port_def split: sum.splits option.splits)
  note r = r [unfolded eq]
  from read_until_explained [OF r] obtain used where u: "line = used @ line'"
    "explains is_realtime reader_default (line_bytes used) res r'" "res = Inr None \<longrightarrow> now + window \<le> now'"
    by blast
  have n: "rd_bytes_read r' = length (line_bytes used)"
    using read_until_counts [OF r accounted_default(1)] accounted_default(2) u(1) by simp
  show ?thesis
  proof (cases "res = Inr None")
    case True
    with u(2) explains_find(2) have "find is_realtime (frames_of (line_bytes used)) = None"
      by (fastforce simp: reader_default_def)
    with True assms r u n show ?thesis by (auto simp: probe_port_def split: if_splits)
  next
    case False
    with res obtain f where f: "res = Inr (Some f)" by (metis sumE option.exhaust)
    with u(2) explains_find(1) have "find is_realtime (frames_of (line_bytes used)) = Some f"
      by (fastforce simp: reader_default_def)
    with f assms r u show ?thesis by (auto simp: probe_port_def)
  qed
qed

theorem probe_needs_realtime_frame_witness:
  "\<exists>used. [(3, Inr [1, 2, 3])] = used @ [] \<and> length (line_bytes used) = 3 \<and>
     find is_realtime (frames_of (line_bytes used)) = None"
proof -
  have "probe_port 10 0 [(3, Inr [1, 2, 3])] = (Inr (NotABms 3 0 0), 10, [])" by code_simp
  from probe_needs_realtime_frame [OF this] show ?thesis by auto
qed

end
