(* ===== verification/F64.thy ===== *)
theory F64
  imports Prelude "HOL-Library.Log_Nat"
begin

text \<open>
  IEEE 754 binary64 arithmetic as the monitoring packages use it: a value is a rational number and
  every operation rounds its exact result to nearest, ties to even, with 53 bits of precision.
  The quantities computed are below \<open>2 ^ 64\<close> in magnitude, so infinities and NaN never arise from
  arithmetic; a number read from text may be one (\<open>f64_value\<close>).  The sign of zero is not
  represented.
\<close>

section \<open>Model\<close>

type_synonym f64 = rat

datatype f64_value = Finite f64 | Infinite bool | NotANumber

definition round_even :: "rat \<Rightarrow> int" where
  "round_even q =
     (let f = \<lfloor>q\<rfloor>; r = q - of_int f
      in if r < 1 / 2 then f else if 1 / 2 < r then f + 1 else if even f then f else f + 1)"

text \<open>The binary exponent: from the bit lengths of numerator and denominator, corrected by one.\<close>

definition f64_exp :: "rat \<Rightarrow> int" where
  "f64_exp x =
     (let (n, d) = quotient_of \<bar>x\<bar>; e = bitlen n - bitlen d
      in if \<bar>x\<bar> < 2 powi e then e - 1 else e)"

definition f64_round :: "rat \<Rightarrow> f64" where
  "f64_round x =
     (if x = 0 then 0
      else let e = max (f64_exp x - 52) (- 1074) in of_int (round_even (x / 2 powi e)) * 2 powi e)"

definition f64_of_int :: "int \<Rightarrow> f64" where "f64_of_int n = f64_round (of_int n)"
definition f64_add :: "f64 \<Rightarrow> f64 \<Rightarrow> f64" where "f64_add x y = f64_round (x + y)"
definition f64_sub :: "f64 \<Rightarrow> f64 \<Rightarrow> f64" where "f64_sub x y = f64_round (x - y)"
definition f64_mul :: "f64 \<Rightarrow> f64 \<Rightarrow> f64" where "f64_mul x y = f64_round (x * y)"
definition f64_div :: "f64 \<Rightarrow> f64 \<Rightarrow> f64" where "f64_div x y = f64_round (x / y)"

section \<open>Lemmas\<close>

lemma round_even_error: "\<bar>of_int (round_even q) - q\<bar> \<le> 1 / 2"
proof -
  have "of_int \<lfloor>q\<rfloor> \<le> q" "q < of_int \<lfloor>q\<rfloor> + 1" by linarith+
  then show ?thesis by (auto simp: round_even_def Let_def)
qed

lemma round_even_int [simp]: "round_even (of_int n) = n"
  by (simp add: round_even_def)

lemma pow2_pos [simp]: "0 < (2 :: rat) powi e"
  by (simp add: zero_less_power_int)

lemma pow2_add: "(2 :: rat) powi (a + b) = 2 powi a * 2 powi b"
  by (rule power_int_add) simp

lemma pow2_mono: "a \<le> b \<Longrightarrow> (2 :: rat) powi a \<le> 2 powi b"
  by (rule power_int_increasing) simp_all

lemma bitlen_pow2:
  assumes "0 < n"
  shows "(2 :: rat) powi (bitlen n - 1) \<le> of_int n" and "of_int n < (2 :: rat) powi (bitlen n)"
proof -
  from assms have b: "2 ^ nat (bitlen n - 1) \<le> n" "n < 2 ^ nat (bitlen n)"
    using bitlen_bounds [of n] by simp_all
  have l: "0 < bitlen n"
  proof (rule ccontr)
    assume "\<not> 0 < bitlen n"
    with b(2) assms show False by simp
  qed
  have "(2 :: rat) powi (bitlen n - 1) = of_int (2 ^ nat (bitlen n - 1))"
    using l by (simp add: power_int_def)
  also have "\<dots> \<le> of_int n" using b(1) by (simp only: of_int_le_iff)
  finally show "(2 :: rat) powi (bitlen n - 1) \<le> of_int n" .
  have "of_int n < (of_int (2 ^ nat (bitlen n)) :: rat)" using b(2) by (simp only: of_int_less_iff)
  also have "\<dots> = 2 powi (bitlen n)" using l by (simp add: power_int_def)
  finally show "of_int n < (2 :: rat) powi (bitlen n)" .
qed

lemma f64_exp_le: 
  assumes "x \<noteq> 0"
  shows "2 powi (f64_exp x) \<le> \<bar>x\<bar>"
proof -
  obtain n d where q: "quotient_of \<bar>x\<bar> = (n, d)" by fastforce
  then have x: "\<bar>x\<bar> = of_int n / of_int d" and d: "0 < d"
    by (simp_all add: quotient_of_div quotient_of_denom_pos)
  with assms have n: "0 < n"
    by (metis abs_ge_zero abs_eq_0 divide_eq_0_iff of_int_0_less_iff of_int_eq_0_iff order_le_less zero_less_divide_iff not_less_iff_gr_or_eq)
  let ?e = "bitlen n - bitlen d"
  have "(2 :: rat) powi (?e - 1) * of_int d \<le> 2 powi (?e - 1) * 2 powi (bitlen d)"
    using bitlen_pow2(2) [OF d] by (intro mult_left_mono) (simp_all add: less_imp_le)
  also have "\<dots> = 2 powi (bitlen n - 1)" by (simp flip: pow2_add)
  also have "\<dots> \<le> of_int n" by (rule bitlen_pow2(1) [OF n])
  finally have "(2 :: rat) powi (?e - 1) \<le> \<bar>x\<bar>" using d x by (simp add: pos_le_divide_eq)
  then show ?thesis by (simp add: f64_exp_def q Let_def)
qed

text \<open>Rounding a normal number loses at most one part in \<open>2 ^ 53\<close>.\<close>

lemma f64_round_error:
  assumes "2 powi (- 1022) \<le> \<bar>x\<bar> \<or> x = 0"
  shows "\<bar>f64_round x - x\<bar> \<le> \<bar>x\<bar> / 2 ^ 53"
proof (cases "x = 0")
  case False
  let ?e = "max (f64_exp x - 52) (- 1074)"
  let ?u = "2 powi ?e :: rat"
  have "?u * 2 ^ 52 \<le> \<bar>x\<bar>"
  proof -
    have "?u * 2 ^ 52 = 2 powi (?e + 52)" by (simp add: pow2_add)
    also have "?e + 52 = max (f64_exp x) (- 1022)" by simp
    finally show ?thesis using assms False f64_exp_le [OF False] by (simp add: max_def)
  qed
  moreover have "\<bar>f64_round x - x\<bar> \<le> ?u / 2"
  proof -
    have "f64_round x - x = (of_int (round_even (x / ?u)) - x / ?u) * ?u"
      using False by (simp add: f64_round_def Let_def left_diff_distrib)
    then have "\<bar>f64_round x - x\<bar> = \<bar>of_int (round_even (x / ?u)) - x / ?u\<bar> * ?u"
      by (simp add: abs_mult)
    also have "\<dots> \<le> 1 / 2 * ?u" by (rule mult_right_mono [OF round_even_error]) (simp add: less_imp_le)
    finally show ?thesis by simp
  qed
  ultimately show ?thesis by simp
qed (simp add: f64_round_def)

lemma f64_round_int:
  assumes "\<bar>n\<bar> < 2 ^ 53"
  shows "f64_round (of_int n) = of_int n"
proof (cases "n = 0")
  case False
  have "quotient_of \<bar>of_int n :: rat\<bar> = (\<bar>n\<bar>, 1)" by (simp flip: of_int_abs)
  then have "f64_exp (of_int n) \<le> bitlen \<bar>n\<bar> - 1" by (simp add: f64_exp_def Let_def bitlen_def floorlog_def)
  also have "\<dots> \<le> 52" using bitlen_le_iff_power [of "\<bar>n\<bar>" 53] assms by simp
  finally have e: "max (f64_exp (of_int n) - 52) (- 1074) \<le> 0" by simp
  then obtain k where k: "max (f64_exp (of_int n) - 52) (- 1074) = - int k"
    by (metis nonpos_int_cases)
  have q: "(of_int n :: rat) / 2 powi (- int k) = of_int (n * 2 ^ k)"
    by (simp add: power_int_minus field_simps)
  have "f64_round (of_int n) = of_int (n * 2 ^ k) * 2 powi (- int k)"
    using False unfolding f64_round_def Let_def k q round_even_int by simp
  then show ?thesis by (simp add: power_int_minus)
qed (simp add: f64_round_def)

text \<open>Rounding keeps the sign of a normal number.\<close>

lemma f64_round_neg_iff:
  assumes "2 powi (- 1022) \<le> \<bar>x\<bar> \<or> x = 0"
  shows "f64_round x < 0 \<longleftrightarrow> x < 0"
proof -
  have "\<bar>f64_round x - x\<bar> \<le> \<bar>x\<bar> / 2 ^ 53" by (rule f64_round_error [OF assms])
  moreover have "\<bar>x\<bar> / 2 ^ 53 \<le> \<bar>x\<bar> / 2" by (simp add: divide_left_mono)
  ultimately show ?thesis by linarith
qed

text \<open>Rounding is monotone.\<close>

lemma round_even_mono: "p \<le> q \<Longrightarrow> round_even p \<le> round_even q"
proof -
  assume "p \<le> q"
  have b: "\<lfloor>x\<rfloor> \<le> round_even x" "round_even x \<le> \<lfloor>x\<rfloor> + 1" for x
    by (auto simp: round_even_def Let_def)
  show ?thesis
  proof (cases "\<lfloor>p\<rfloor> = \<lfloor>q\<rfloor>")
    case True
    then show ?thesis using \<open>p \<le> q\<close> by (auto simp: round_even_def Let_def)
  next
    case False
    with \<open>p \<le> q\<close> have "\<lfloor>p\<rfloor> < \<lfloor>q\<rfloor>" by (simp add: floor_mono order_le_neq_trans)
    then show ?thesis using b(2) [of p] b(1) [of q] by linarith
  qed
qed

lemma f64_exp_less:
  assumes "x \<noteq> 0"
  shows "\<bar>x\<bar> < 2 powi (f64_exp x + 1)"
proof -
  obtain n d where q: "quotient_of \<bar>x\<bar> = (n, d)" by fastforce
  then have x: "\<bar>x\<bar> = of_int n / of_int d" and d: "0 < d"
    by (simp_all add: quotient_of_div quotient_of_denom_pos)
  have n: "0 < n"
  proof (rule ccontr)
    assume "\<not> 0 < n"
    with d have "of_int n / of_int d \<le> (0 :: rat)" by (simp add: divide_nonpos_pos)
    with x assms show False by simp
  qed
  let ?e = "bitlen n - bitlen d"
  have "of_int n < (2 :: rat) powi (bitlen n)" by (rule bitlen_pow2(2) [OF n])
  also have "\<dots> = 2 powi (?e + 1) * 2 powi (bitlen d - 1)" by (simp flip: pow2_add)
  also have "\<dots> \<le> 2 powi (?e + 1) * of_int d"
    using bitlen_pow2(1) [OF d] by (intro mult_left_mono) (simp_all add: less_imp_le)
  finally have "\<bar>x\<bar> < 2 powi (?e + 1)" using d x by (simp add: pos_divide_less_eq)
  then show ?thesis by (simp add: f64_exp_def q Let_def)
qed

lemma f64_exp_mono: "0 < x \<Longrightarrow> x \<le> y \<Longrightarrow> f64_exp x \<le> f64_exp y"
proof (rule ccontr)
  assume a: "0 < x" "x \<le> y" "\<not> f64_exp x \<le> f64_exp y"
  then have "2 powi (f64_exp y + 1) \<le> (2 :: rat) powi (f64_exp x)" by (intro pow2_mono) simp
  with f64_exp_le [of x] f64_exp_less [of y] a show False by simp
qed

lemma f64_round_mono:
  assumes "0 < x" "x \<le> y"
  shows "f64_round x \<le> f64_round y"
proof -
  let ?ex = "max (f64_exp x - 52) (- 1074)" and ?ey = "max (f64_exp y - 52) (- 1074)"
  let ?u = "2 powi ?ex :: rat" and ?v = "2 powi ?ey :: rat"
  have rx: "f64_round x = of_int (round_even (x / ?u)) * ?u" and ry: "f64_round y = of_int (round_even (y / ?v)) * ?v"
    using assms by (simp_all add: f64_round_def Let_def)
  have le: "?ex \<le> ?ey" using f64_exp_mono [OF assms] by simp
  show ?thesis
  proof (cases "?ex = ?ey")
    case True
    have "round_even (x / ?v) \<le> round_even (y / ?v)"
      using assms by (intro round_even_mono divide_right_mono) (simp_all add: less_imp_le)
    then show ?thesis unfolding rx ry True by (intro mult_right_mono) (simp_all add: less_imp_le)
  next
    case False
    with le have ey: "?ey = f64_exp y - 52" and lt: "?ex + 53 \<le> f64_exp y" by auto
    have "x < 2 powi (f64_exp x + 1)" using f64_exp_less [of x] assms by simp
    also have "\<dots> \<le> 2 powi (53 + ?ex)" by (intro pow2_mono) simp
    also have "\<dots> = 2 ^ 53 * ?u" by (subst pow2_add) simp
    finally have "x / ?u \<le> of_int (2 ^ 53)" by (simp add: pos_divide_le_eq less_imp_le)
    then have "round_even (x / ?u) \<le> 2 ^ 53" using round_even_mono [of "x / ?u" "of_int (2 ^ 53)"] by (simp only: round_even_int)
    then have "f64_round x \<le> of_int (2 ^ 53) * ?u"
      unfolding rx by (intro mult_right_mono) (simp_all only: of_int_le_iff, simp add: less_imp_le)
    also have "\<dots> = 2 powi (53 + ?ex)" by (subst pow2_add) simp
    also have "\<dots> \<le> 2 powi (52 + ?ey)" using lt ey by (intro pow2_mono) simp
    also have "\<dots> = of_int (2 ^ 52) * ?v" by (subst pow2_add) simp
    also have "\<dots> \<le> f64_round y"
    proof -
      have "2 powi (52 + ?ey) \<le> y" using f64_exp_le [of y] assms ey by simp
      then have "of_int (2 ^ 52) \<le> y / ?v" by (subst (asm) pow2_add) (simp_all add: pos_le_divide_eq)
      then have "2 ^ 52 \<le> round_even (y / ?v)" using round_even_mono [of "of_int (2 ^ 52)" "y / ?v"] by (simp only: round_even_int)
      then show ?thesis unfolding ry by (intro mult_right_mono) (simp_all only: of_int_le_iff, simp add: less_imp_le)
    qed
    finally show ?thesis .
  qed
qed

lemma f64_round_nonneg: "0 \<le> x \<Longrightarrow> 0 \<le> f64_round x"
proof -
  assume "0 \<le> x"
  have "round_even 0 \<le> round_even (x / 2 powi e)" for e :: int
    using \<open>0 \<le> x\<close> by (intro round_even_mono) (simp add: divide_nonneg_pos)
  moreover have "round_even 0 = 0" by (simp add: round_even_def)
  ultimately show ?thesis by (simp add: f64_round_def Let_def less_imp_le)
qed

subsection \<open>Fixed-point conversions\<close>

text \<open>
  \<open>raw as f64 / d\<close> for an integer that fits in 32 bits and a small divisor: exact up to one
  rounding, zero only at zero, and strictly increasing, so comparing scaled values is comparing
  the raw ones.
\<close>

definition scaled :: "int \<Rightarrow> int \<Rightarrow> f64" where
  "scaled d raw = f64_div (f64_of_int raw) (of_int d)"

definition fits32 :: "int \<Rightarrow> bool" where "fits32 n \<longleftrightarrow> \<bar>n\<bar> < 2 ^ 32"

lemma scaled_eq: "fits32 n \<Longrightarrow> scaled d n = f64_round (of_int n / of_int d)"
  by (simp add: scaled_def f64_div_def f64_of_int_def f64_round_int fits32_def)

lemma scaled_error:
  assumes "fits32 n" and "0 < d" and "d \<le> 10000"
  shows "\<bar>scaled d n - of_int n / of_int d\<bar> \<le> \<bar>of_int n / of_int d\<bar> / 2 ^ 53"
proof -
  have "2 powi (- 1022) \<le> \<bar>of_int n / of_int d :: rat\<bar> \<or> of_int n / of_int d = (0 :: rat)"
  proof (cases "n = 0")
    case False
    have "(2 :: rat) powi (- 1022) \<le> 2 powi (- 14)" by (rule pow2_mono) simp
    also have "\<dots> \<le> 1 / 10000" by (simp add: power_int_minus)
    also have "\<dots> \<le> 1 / of_int d" using assms(2,3) by (intro divide_left_mono) simp_all
    also have "\<dots> \<le> \<bar>of_int n / of_int d\<bar>"
      using False assms(2) by (simp add: abs_divide divide_right_mono)
    finally show ?thesis by simp
  qed simp
  from f64_round_error [OF this] show ?thesis using assms(1) by (simp add: scaled_eq)
qed

lemma scaled_mono:
  assumes "fits32 m" and "fits32 n" and "m < n" and "0 < d" and "d \<le> 10000"
  shows "scaled d m < scaled d n"
proof -
  let ?m = "of_int m / of_int d :: rat" and ?n = "of_int n / of_int d :: rat"
  have err: "\<bar>scaled d k - of_int k / of_int d\<bar> \<le> 1 / (2 ^ 21 * of_int d)" if "fits32 k" for k
  proof -
    have "\<bar>of_int k :: rat\<bar> \<le> 2 ^ 32" using that by (simp add: fits32_def flip: of_int_abs)
    then have "\<bar>of_int k\<bar> / of_int d / 2 ^ 53 \<le> 2 ^ 32 / (of_int d :: rat) / 2 ^ 53"
      using assms(4) by (intro divide_right_mono) simp_all
    then have "\<bar>of_int k / of_int d :: rat\<bar> / 2 ^ 53 \<le> 2 ^ 32 / of_int d / 2 ^ 53"
      using assms(4) by (simp add: abs_divide del: divide_divide_eq_left)
    also have "\<dots> = 1 / (2 ^ 21 * of_int d)" by simp
    finally show ?thesis using scaled_error [OF that assms(4,5)] by linarith
  qed
  have "1 / of_int d \<le> ?n - ?m"
    using assms(3,4) by (simp add: divide_right_mono flip: diff_divide_distrib of_int_diff)
  moreover have "2 * (1 / (2 ^ 21 * of_int d)) < 1 / (of_int d :: rat)"
    using assms(4) by (simp add: divide_simps)
  ultimately show ?thesis using err [OF assms(1)] err [OF assms(2)] by linarith
qed

lemma scaled_less_iff:
  assumes "fits32 m" and "fits32 n" and "0 < d" and "d \<le> 10000"
  shows "scaled d m < scaled d n \<longleftrightarrow> m < n"
  using scaled_mono [OF assms(1,2) _ assms(3,4)] scaled_mono [OF assms(2,1) _ assms(3,4)]
  by (metis linorder_neqE_linordered_idom order_less_asym)

lemma scaled_zero [simp]: "scaled d 0 = 0"
  by (simp add: scaled_def f64_of_int_def f64_div_def f64_round_def)

lemma scaled_neg_iff: "fits32 n \<Longrightarrow> 0 < d \<Longrightarrow> d \<le> 10000 \<Longrightarrow> scaled d n < 0 \<longleftrightarrow> n < 0"
  using scaled_less_iff [of n 0 d] by (simp add: fits32_def)

end
