(* ===== verification/Bms_Parse.thy ===== *)
theory Bms_Parse
  imports Bms_Frame F64 Rust_Std "HOL-Library.Monad_Syntax"
begin

text \<open>
  \<open>packages/bms-monitoring/src/parse.rs\<close>: verified frames to numbers.  The Rust readers index the
  frame and would panic on a short one; here a reader outside the frame is \<open>None\<close>, a parse that
  meets one ends in \<open>ParsePanic\<close>, and the properties show that no frame of the reader does.
\<close>

section \<open>Model\<close>

datatype parse_error = WrongCode byte | TooManyCells nat | ParsePanic

definition u16_at :: "byte list \<Rightarrow> nat \<Rightarrow> u16 option" where
  "u16_at data offset = do {a \<leftarrow> nth_get data offset; b \<leftarrow> nth_get data (offset + 1); Some (from_le16 a b)}"

definition i16_at :: "byte list \<Rightarrow> nat \<Rightarrow> int option" where
  "i16_at data offset = map_option sint (u16_at data offset)"

definition u32_at :: "byte list \<Rightarrow> nat \<Rightarrow> u32 option" where
  "u32_at data offset =
     do {a \<leftarrow> nth_get data offset; b \<leftarrow> nth_get data (offset + 1); c \<leftarrow> nth_get data (offset + 2);
         d \<leftarrow> nth_get data (offset + 3); Some (from_le32 a b c d)}"

definition i32_at :: "byte list \<Rightarrow> nat \<Rightarrow> int option" where
  "i32_at data offset = map_option sint (u32_at data offset)"

definition milli :: "int \<Rightarrow> f64" where "milli raw = scaled 1000 raw"
definition deci :: "int \<Rightarrow> f64" where "deci raw = scaled 10 raw"

record cell =
  cell_index :: nat
  cell_voltage :: f64
  cell_resistance :: f64

record cell_aggregates =
  agg_average :: f64
  agg_minimum :: f64
  agg_maximum :: f64
  agg_delta :: f64
  agg_min_index :: nat
  agg_max_index :: nat

definition agg_step :: "cell \<Rightarrow> cell \<times> cell \<times> f64 \<Rightarrow> cell \<times> cell \<times> f64" where
  "agg_step c acc =
     (let (minimum, maximum, total) = acc
      in (if cell_voltage c < cell_voltage minimum then c else minimum,
          if cell_voltage maximum < cell_voltage c then c else maximum,
          f64_add total (cell_voltage c)))"

definition aggregate :: "cell list \<Rightarrow> cell_aggregates option" where
  "aggregate cells =
     (case cells of
        [] \<Rightarrow> None
      | first # _ \<Rightarrow>
          let (minimum, maximum, total) = fold agg_step cells (first, first, 0)
          in Some \<lparr>agg_average = f64_div total (f64_of_int (int (length cells))),
                   agg_minimum = cell_voltage minimum, agg_maximum = cell_voltage maximum,
                   agg_delta = f64_sub (cell_voltage maximum) (cell_voltage minimum),
                   agg_min_index = cell_index minimum, agg_max_index = cell_index maximum\<rparr>)"

record protection_release =
  pr_discharge_overcurrent :: u16
  pr_discharge_short_circuit :: u16
  pr_charge_overcurrent :: u16
  pr_charge_short_circuit :: u16
  pr_undervoltage :: u16
  pr_overvoltage :: u16

record realtime =
  rt_cells :: "cell list"
  rt_cell_status :: u32
  rt_pack_voltage :: f64
  rt_pack_power :: f64
  rt_pack_current :: f64
  rt_mos_temperature :: f64
  rt_temperatures :: "f64 option list"
  rt_soc :: byte
  rt_soh :: byte
  rt_remaining_capacity :: f64
  rt_full_charge_capacity :: f64
  rt_cycle_count :: u32
  rt_cycle_capacity :: f64
  rt_balance_current :: f64
  rt_balancing :: bool
  rt_charge_mosfet_on :: bool
  rt_discharge_mosfet_on :: bool
  rt_heating_on :: bool
  rt_sys_alarm :: u32
  rt_user_alarm :: u16
  rt_uptime_seconds :: u32
  rt_protection_release :: protection_release

definition optional_temperature :: "int \<Rightarrow> f64 option" where
  "optional_temperature raw = (if raw \<noteq> 0 then Some (deci raw) else None)"

definition cell_of :: "byte list \<Rightarrow> nat \<Rightarrow> cell option" where
  "cell_of data slot =
     do {v \<leftarrow> u16_at data (6 + 2 * slot); r \<leftarrow> u16_at data (80 + 2 * slot);
         Some \<lparr>cell_index = slot + 1, cell_voltage = milli (uint v), cell_resistance = milli (uint r)\<rparr>}"

definition realtime_fields :: "byte list \<Rightarrow> realtime option" where
  "realtime_fields data =
     do {
       cell_status \<leftarrow> u32_at data 70;
       cells \<leftarrow> those (map (cell_of data) (filter (\<lambda>slot. bit cell_status slot) [0..<32]));
       current \<leftarrow> i32_at data 158;
       watt \<leftarrow> u32_at data 154;
       let pack_current = milli current;
       let magnitude = milli (uint watt);
       voltage \<leftarrow> i32_at data 150;
       mos \<leftarrow> i16_at data 144;
       t1 \<leftarrow> i16_at data 162;
       t2 \<leftarrow> i16_at data 164;
       t3 \<leftarrow> i16_at data 252;
       t4 \<leftarrow> i16_at data 254;
       t5 \<leftarrow> i16_at data 256;
       soc \<leftarrow> nth_get data 173;
       soh \<leftarrow> nth_get data 190;
       remaining \<leftarrow> u32_at data 174;
       full \<leftarrow> u32_at data 178;
       cycles \<leftarrow> u32_at data 182;
       cycle_capacity \<leftarrow> u32_at data 186;
       balance \<leftarrow> i16_at data 170;
       balancing \<leftarrow> nth_get data 172;
       charge \<leftarrow> nth_get data 198;
       discharge \<leftarrow> nth_get data 199;
       heating \<leftarrow> nth_get data 215;
       sys_alarm \<leftarrow> u32_at data 166;
       user_alarm \<leftarrow> u16_at data 200;
       uptime \<leftarrow> u32_at data 194;
       p1 \<leftarrow> u16_at data 202;
       p2 \<leftarrow> u16_at data 204;
       p3 \<leftarrow> u16_at data 206;
       p4 \<leftarrow> u16_at data 208;
       p5 \<leftarrow> u16_at data 210;
       p6 \<leftarrow> u16_at data 212;
       Some
         \<lparr>rt_cells = cells,
          rt_cell_status = cell_status,
          rt_pack_voltage = milli voltage,
          rt_pack_power = (if pack_current < 0 then - magnitude else magnitude),
          rt_pack_current = pack_current,
          rt_mos_temperature = deci mos,
          rt_temperatures = [Some (deci t1), Some (deci t2), optional_temperature t3,
                             optional_temperature t4, optional_temperature t5],
          rt_soc = soc,
          rt_soh = soh,
          rt_remaining_capacity = milli (uint remaining),
          rt_full_charge_capacity = milli (uint full),
          rt_cycle_count = cycles,
          rt_cycle_capacity = milli (uint cycle_capacity),
          rt_balance_current = milli balance,
          rt_balancing = (balancing \<noteq> 0),
          rt_charge_mosfet_on = (charge \<noteq> 0),
          rt_discharge_mosfet_on = (discharge \<noteq> 0),
          rt_heating_on = (heating \<noteq> 0),
          rt_sys_alarm = sys_alarm,
          rt_user_alarm = user_alarm,
          rt_uptime_seconds = uptime,
          rt_protection_release =
            \<lparr>pr_discharge_overcurrent = p1, pr_discharge_short_circuit = p2, pr_charge_overcurrent = p3,
             pr_charge_short_circuit = p4, pr_undervoltage = p5, pr_overvoltage = p6\<rparr>\<rparr>
     }"

definition parse_realtime :: "frame \<Rightarrow> (parse_error, realtime) result" where
  "parse_realtime f =
     (if fr_code f \<noteq> REALTIME then Inl (WrongCode (fr_code f))
      else ok_or ParsePanic (realtime_fields (fr_data f)))"

subsection \<open>Alarms\<close>

definition SYS_ALARM_FLAGS :: "string list" where
  "SYS_ALARM_FLAGS =
     [''balancing_wire_resistance_high'', ''mos_over_temp'', ''cell_count_mismatch'',
      ''current_sensor_abnormal'', ''cell_overvoltage'', ''pack_overvoltage'', ''charge_overcurrent'',
      ''charge_short_circuit'', ''charge_over_temp'', ''charge_low_temp'', ''internal_comms_abnormal'',
      ''cell_undervoltage'', ''pack_undervoltage'', ''discharge_overcurrent'', ''discharge_short_circuit'',
      ''discharge_over_temp'', ''charge_anomaly'', ''discharge_anomaly'', ''gps_disconnected'',
      ''change_authorization_password'', ''discharge_on_failure'', ''battery_over_temp'',
      ''temp_sensor_anomaly'', ''parallel_module_failure'', ''reserved_24'', ''reserved_25'',
      ''reserved_26'', ''reserved_27'', ''reserved_28'', ''reserved_29'', ''reserved_30'', ''reserved_31'']"

definition asserted_alarms :: "u32 \<Rightarrow> u16 \<Rightarrow> (string \<times> string) list" where
  "asserted_alarms sys_alarm user_alarm =
     map (\<lambda>b. (''b'' @ nat_str b, SYS_ALARM_FLAGS ! b)) (filter (\<lambda>b. bit sys_alarm b) [0..<32])
     @ map (\<lambda>b. (''u2b'' @ nat_str b, ''user_alarm2_'' @ nat_str b)) (filter (\<lambda>b. bit user_alarm b) [0..<16])"

subsection \<open>Settings\<close>

record settings =
  st_cell_count :: nat
  st_cell_capacity :: f64
  st_cell_undervoltage :: f64
  st_cell_undervoltage_recovery :: f64
  st_cell_overvoltage :: f64
  st_cell_overvoltage_recovery :: f64
  st_cell_request_charge :: f64
  st_cell_request_float :: f64
  st_soc_100_percent :: f64
  st_soc_0_percent :: f64
  st_system_power_off :: f64
  st_balance_trigger_delta :: f64
  st_balance_start_voltage :: f64
  st_balance_current_max :: f64
  st_balancing_enabled :: bool
  st_charge_enabled :: bool
  st_discharge_enabled :: bool
  st_charge_overcurrent :: f64
  st_charge_overcurrent_delay :: u32
  st_charge_overcurrent_release :: u32
  st_discharge_overcurrent :: f64
  st_discharge_overcurrent_delay :: u32
  st_discharge_overcurrent_release :: u32
  st_short_circuit_delay_micros :: u32
  st_short_circuit_release_delay :: u32
  st_charge_over_temp :: f64
  st_charge_over_temp_recovery :: f64
  st_discharge_over_temp :: f64
  st_discharge_over_temp_recovery :: f64
  st_charge_under_temp :: f64
  st_charge_under_temp_recovery :: f64
  st_mos_over_temp :: f64
  st_mos_over_temp_recovery :: f64
  st_smart_sleep_voltage :: f64
  st_smart_sleep_hours :: byte
  st_precharge_seconds :: u32
  st_current_range :: f64
  st_device_address :: u32
  st_switch_status :: u16
  st_cell_resistances :: "f64 list"

definition settings_fields :: "byte list \<Rightarrow> nat \<Rightarrow> settings option" where
  "settings_fields data cells =
     do {
       x130 \<leftarrow> u32_at data 130;
       x10 \<leftarrow> u32_at data 10;
       x14 \<leftarrow> u32_at data 14;
       x18 \<leftarrow> u32_at data 18;
       x22 \<leftarrow> u32_at data 22;
       x38 \<leftarrow> u32_at data 38;
       x42 \<leftarrow> u32_at data 42;
       x30 \<leftarrow> u32_at data 30;
       x34 \<leftarrow> u32_at data 34;
       x46 \<leftarrow> u32_at data 46;
       x26 \<leftarrow> u32_at data 26;
       x138 \<leftarrow> u32_at data 138;
       x78 \<leftarrow> u32_at data 78;
       x126 \<leftarrow> u32_at data 126;
       x118 \<leftarrow> u32_at data 118;
       x122 \<leftarrow> u32_at data 122;
       x50 \<leftarrow> u32_at data 50;
       x54 \<leftarrow> u32_at data 54;
       x58 \<leftarrow> u32_at data 58;
       x62 \<leftarrow> u32_at data 62;
       x66 \<leftarrow> u32_at data 66;
       x70 \<leftarrow> u32_at data 70;
       x134 \<leftarrow> u32_at data 134;
       x74 \<leftarrow> u32_at data 74;
       x82 \<leftarrow> i32_at data 82;
       x86 \<leftarrow> i32_at data 86;
       x90 \<leftarrow> i32_at data 90;
       x94 \<leftarrow> i32_at data 94;
       x98 \<leftarrow> i32_at data 98;
       x102 \<leftarrow> i32_at data 102;
       x106 \<leftarrow> i32_at data 106;
       x110 \<leftarrow> i32_at data 110;
       x6 \<leftarrow> u32_at data 6;
       x284 \<leftarrow> nth_get data 284;
       x274 \<leftarrow> u32_at data 274;
       x278 \<leftarrow> u32_at data 278;
       x270 \<leftarrow> u32_at data 270;
       x282 \<leftarrow> u16_at data 282;
       resistances \<leftarrow> those (map (\<lambda>slot. map_option (\<lambda>x. milli (uint x)) (u32_at data (142 + 4 * slot))) [0..<cells]);
       Some
         \<lparr>st_cell_count = cells,
          st_cell_capacity = milli (uint x130),
          st_cell_undervoltage = milli (uint x10),
          st_cell_undervoltage_recovery = milli (uint x14),
          st_cell_overvoltage = milli (uint x18),
          st_cell_overvoltage_recovery = milli (uint x22),
          st_cell_request_charge = milli (uint x38),
          st_cell_request_float = milli (uint x42),
          st_soc_100_percent = milli (uint x30),
          st_soc_0_percent = milli (uint x34),
          st_system_power_off = milli (uint x46),
          st_balance_trigger_delta = milli (uint x26),
          st_balance_start_voltage = milli (uint x138),
          st_balance_current_max = milli (uint x78),
          st_balancing_enabled = (x126 \<noteq> 0),
          st_charge_enabled = (x118 \<noteq> 0),
          st_discharge_enabled = (x122 \<noteq> 0),
          st_charge_overcurrent = milli (uint x50),
          st_charge_overcurrent_delay = x54,
          st_charge_overcurrent_release = x58,
          st_discharge_overcurrent = milli (uint x62),
          st_discharge_overcurrent_delay = x66,
          st_discharge_overcurrent_release = x70,
          st_short_circuit_delay_micros = x134,
          st_short_circuit_release_delay = x74,
          st_charge_over_temp = deci x82,
          st_charge_over_temp_recovery = deci x86,
          st_discharge_over_temp = deci x90,
          st_discharge_over_temp_recovery = deci x94,
          st_charge_under_temp = deci x98,
          st_charge_under_temp_recovery = deci x102,
          st_mos_over_temp = deci x106,
          st_mos_over_temp_recovery = deci x110,
          st_smart_sleep_voltage = milli (uint x6),
          st_smart_sleep_hours = x284,
          st_precharge_seconds = x274,
          st_current_range = scaled 10000 (uint x278),
          st_device_address = x270,
          st_switch_status = x282,
          st_cell_resistances = resistances\<rparr>
     }"

definition parse_settings :: "frame \<Rightarrow> (parse_error, settings) result" where
  "parse_settings f =
     (if fr_code f \<noteq> SETTINGS then Inl (WrongCode (fr_code f))
      else
        res_bind (ok_or ParsePanic (u32_at (fr_data f) 114)) (\<lambda>cell_count.
          if 32 < cell_count then Inl (TooManyCells (unat cell_count))
          else ok_or ParsePanic (settings_fields (fr_data f) (unat cell_count))))"

section \<open>Lemmas\<close>

subsection \<open>Readers inside the frame\<close>

definition raw16 :: "byte list \<Rightarrow> nat \<Rightarrow> u16" where
  "raw16 data i = from_le16 (data ! i) (data ! (i + 1))"

definition raw32 :: "byte list \<Rightarrow> nat \<Rightarrow> u32" where
  "raw32 data i = from_le32 (data ! i) (data ! (i + 1)) (data ! (i + 2)) (data ! (i + 3))"

named_theorems reader_simps \<open>readers at offsets inside the frame\<close>

lemma u16_at_inside [reader_simps]: "i + 2 \<le> length data \<Longrightarrow> u16_at data i = Some (raw16 data i)"
  by (simp add: u16_at_def raw16_def nth_get_def)

lemma u32_at_inside [reader_simps]: "i + 4 \<le> length data \<Longrightarrow> u32_at data i = Some (raw32 data i)"
  by (simp add: u32_at_def raw32_def nth_get_def)

lemma i16_at_inside [reader_simps]: "i + 2 \<le> length data \<Longrightarrow> i16_at data i = Some (sint (raw16 data i))"
  by (simp add: i16_at_def u16_at_inside)

lemma i32_at_inside [reader_simps]: "i + 4 \<le> length data \<Longrightarrow> i32_at data i = Some (sint (raw32 data i))"
  by (simp add: i32_at_def u32_at_inside)

lemma nth_get_inside [reader_simps]: "i < length data \<Longrightarrow> nth_get data i = Some (data ! i)"
  by (simp add: nth_get_def)

lemma those_all: "(\<And>x. x \<in> set xs \<Longrightarrow> f x = Some (g x)) \<Longrightarrow> those (map f xs) = Some (map g xs)"
  by (induction xs) auto

definition cell_at :: "byte list \<Rightarrow> nat \<Rightarrow> cell" where
  "cell_at data slot =
     \<lparr>cell_index = slot + 1, cell_voltage = milli (uint (raw16 data (6 + 2 * slot))),
      cell_resistance = milli (uint (raw16 data (80 + 2 * slot)))\<rparr>"

definition present_slots :: "byte list \<Rightarrow> nat list" where
  "present_slots data = filter (\<lambda>slot. bit (raw32 data 70) slot) [0..<32]"

lemma cells_decoded:
  assumes "length data = FRAME_LEN"
  shows "those (map (cell_of data) (filter (\<lambda>slot. bit (raw32 data 70) slot) [0..<32])) =
    Some (map (cell_at data) (present_slots data))"
proof -
  have "cell_of data slot = Some (cell_at data slot)" if "slot < 32" for slot
    using that assms by (simp add: cell_of_def cell_at_def reader_simps FRAME_LEN_def)
  then show ?thesis unfolding present_slots_def by (intro those_all) simp
qed

lemma realtime_decoded:
  assumes "length data = FRAME_LEN"
  shows "\<exists>rt. realtime_fields data = Some rt \<and>
    rt_cells rt = map (cell_at data) (present_slots data) \<and> rt_cell_status rt = raw32 data 70 \<and>
    rt_pack_voltage rt = milli (sint (raw32 data 150)) \<and>
    rt_pack_current rt = milli (sint (raw32 data 158)) \<and>
    rt_pack_power rt = (if milli (sint (raw32 data 158)) < 0 then - milli (uint (raw32 data 154))
                        else milli (uint (raw32 data 154))) \<and>
    length (rt_temperatures rt) = 5 \<and> rt_sys_alarm rt = raw32 data 166 \<and> rt_user_alarm rt = raw16 data 200"
  using assms cells_decoded [OF assms]
  by (simp add: realtime_fields_def reader_simps FRAME_LEN_def)

lemma settings_decoded:
  assumes "length data = FRAME_LEN" and "n \<le> 32"
  shows "\<exists>st. settings_fields data n = Some st \<and> st_cell_count st = n \<and>
    st_cell_resistances st = map (\<lambda>slot. milli (uint (raw32 data (142 + 4 * slot)))) [0..<n]"
proof -
  have "those (map (\<lambda>slot. map_option (\<lambda>x. milli (uint x)) (u32_at data (142 + 4 * slot))) [0..<n]) =
      Some (map (\<lambda>slot. milli (uint (raw32 data (142 + 4 * slot)))) [0..<n])"
    by (rule those_all) (use assms in \<open>simp add: reader_simps FRAME_LEN_def\<close>)
  then show ?thesis using assms(1) by (simp add: settings_fields_def reader_simps FRAME_LEN_def)
qed

lemma parse_realtime_frame:
  assumes "length (fr_data f) = FRAME_LEN"
  shows "parse_realtime f \<noteq> Inl ParsePanic"
  using realtime_decoded [OF assms] by (auto simp: parse_realtime_def)

lemma parse_settings_frame:
  assumes "length (fr_data f) = FRAME_LEN"
  shows "parse_settings f \<noteq> Inl ParsePanic"
proof -
  have "u32_at (fr_data f) 114 = Some (raw32 (fr_data f) 114)"
    using assms by (simp add: reader_simps FRAME_LEN_def)
  moreover have "\<exists>st. settings_fields (fr_data f) (unat (raw32 (fr_data f) 114)) = Some st"
    if "\<not> 32 < raw32 (fr_data f) 114"
    using settings_decoded [OF assms, of "unat (raw32 (fr_data f) 114)"] that
    by (auto simp: not_less word_le_nat_alt)
  ultimately show ?thesis by (auto simp: parse_settings_def)
qed

subsection \<open>Aggregates\<close>

definition first_least :: "('a \<Rightarrow> f64) \<Rightarrow> 'a list \<Rightarrow> 'a \<Rightarrow> bool" where
  "first_least v xs m \<longleftrightarrow>
     (\<exists>pre post. xs = pre @ m # post \<and> (\<forall>x \<in> set pre. v m < v x) \<and> (\<forall>x \<in> set post. v m \<le> v x))"

lemma first_least_le: "first_least v xs m \<Longrightarrow> x \<in> set xs \<Longrightarrow> v m \<le> v x"
  by (auto simp: first_least_def less_imp_le)

lemma first_least_snoc:
  assumes "first_least v xs m"
  shows "first_least v (xs @ [x]) (if v x < v m then x else m)"
proof -
  from assms obtain pre post where p: "xs = pre @ m # post" "\<forall>y \<in> set pre. v m < v y" "\<forall>y \<in> set post. v m \<le> v y"
    unfolding first_least_def by blast
  show ?thesis
  proof (cases "v x < v m")
    case True
    then have "\<forall>y \<in> set xs. v x < v y" using p by auto
    with True show ?thesis unfolding first_least_def by (intro exI [of _ xs] exI [of _ "[]"]) simp
  next
    case False
    with p show ?thesis unfolding first_least_def by (intro exI [of _ pre] exI [of _ "post @ [x]"]) auto
  qed
qed

lemma agg_fold:
  "cells \<noteq> [] \<Longrightarrow> fold agg_step cells (hd cells, hd cells, 0) = (m, M, t) \<Longrightarrow>
   first_least cell_voltage cells m \<and> first_least (\<lambda>c. - cell_voltage c) cells M"
proof (induction cells arbitrary: m M t rule: rev_induct)
  case (snoc x xs)
  show ?case
  proof (cases "xs = []")
    case True
    with snoc.prems have "m = x" "M = x" by (auto simp: agg_step_def)
    with True show ?thesis unfolding first_least_def by (auto intro!: exI [of _ "[]"])
  next
    case False
    obtain m1 M1 t1 where f: "fold agg_step xs (hd xs, hd xs, 0) = (m1, M1, t1)" using prod_cases3 by blast
    note IH = snoc.IH [OF False f]
    have "agg_step x (m1, M1, t1) = (m, M, t)" using snoc.prems(2) False f by simp
    then have "m = (if cell_voltage x < cell_voltage m1 then x else m1)"
        "M = (if - cell_voltage x < - cell_voltage M1 then x else M1)"
      by (auto simp: agg_step_def)
    with first_least_snoc [OF conjunct1 [OF IH], of x] first_least_snoc [OF conjunct2 [OF IH], of x]
    show ?thesis by simp
  qed
qed simp

lemma aggregate_Some:
  assumes "aggregate cells = Some a"
  obtains m M where "first_least cell_voltage cells m" and "first_least (\<lambda>c. - cell_voltage c) cells M"
    and "agg_minimum a = cell_voltage m" and "agg_min_index a = cell_index m"
    and "agg_maximum a = cell_voltage M" and "agg_max_index a = cell_index M"
    and "agg_delta a = f64_sub (cell_voltage M) (cell_voltage m)"
proof -
  from assms have ne: "cells \<noteq> []" by (auto simp: aggregate_def)
  obtain m M t where f: "fold agg_step cells (hd cells, hd cells, 0) = (m, M, t)" using prod_cases3 by blast
  from agg_fold [OF ne f] assms f ne show thesis
    by (intro that [of m M]) (auto simp: aggregate_def Let_def split: list.splits prod.splits)
qed

lemma aggregate_None: "aggregate cells = None \<longleftrightarrow> cells = []"
  by (auto simp: aggregate_def Let_def split: list.splits prod.splits)

subsection \<open>Alarm labels\<close>

lemma alarm_labels:
  "map fst (asserted_alarms s u) =
     map (\<lambda>b. ''b'' @ nat_str b) (filter (\<lambda>b. bit s b) [0..<32]) @
     map (\<lambda>b. ''u2b'' @ nat_str b) (filter (\<lambda>b. bit u b) [0..<16])"
  by (simp add: asserted_alarms_def comp_def)

lemma alarm_sys_iff: "''b'' @ nat_str i \<in> fst ` set (asserted_alarms s u) \<longleftrightarrow> i < 32 \<and> bit s i"
  unfolding set_map [symmetric] alarm_labels by auto

lemma alarm_user_iff: "''u2b'' @ nat_str i \<in> fst ` set (asserted_alarms s u) \<longleftrightarrow> i < 16 \<and> bit u i"
  unfolding set_map [symmetric] alarm_labels by auto

lemma alarm_labels_distinct: "distinct (map fst (asserted_alarms s u))"
  unfolding alarm_labels by (auto simp: distinct_map inj_on_def)

section \<open>Properties\<close>

text \<open>
  C26. Every realtime frame decodes. A 300-byte frame with code 0x02 never panics a reader and
  yields one cell per bit of the presence bitmap, in slot order, numbered from one, with
  voltage and resistance scaled from that slot's own words; a cell at zero volts is still
  present; and the reported power is the unsigned magnitude of the frame with the sign of the
  current.
\<close>

theorem parse_realtime_decodes:
  assumes "length (fr_data f) = FRAME_LEN" and "fr_code f = REALTIME"
  shows "\<exists>rt. parse_realtime f = Inr rt \<and>
    map cell_index (rt_cells rt) = map Suc (filter (\<lambda>slot. bit (rt_cell_status rt) slot) [0..<32]) \<and>
    (\<forall>c \<in> set (rt_cells rt).
       cell_voltage c = milli (uint (raw16 (fr_data f) (6 + 2 * (cell_index c - 1)))) \<and>
       cell_resistance c = milli (uint (raw16 (fr_data f) (80 + 2 * (cell_index c - 1))))) \<and>
    rt_cell_status rt = raw32 (fr_data f) 70 \<and>
    (rt_pack_current rt < 0 \<longleftrightarrow> sint (raw32 (fr_data f) 158) < 0) \<and>
    rt_pack_power rt = (if sint (raw32 (fr_data f) 158) < 0 then - milli (uint (raw32 (fr_data f) 154))
                        else milli (uint (raw32 (fr_data f) 154)))"
proof -
  have "fits32 (sint (raw32 (fr_data f) 158))"
    using sint_ge [of "raw32 (fr_data f) 158"] sint_lt [of "raw32 (fr_data f) 158"] by (simp add: fits32_def)
  then have neg: "milli (sint (raw32 (fr_data f) 158)) < 0 \<longleftrightarrow> sint (raw32 (fr_data f) 158) < 0"
    by (simp add: milli_def scaled_neg_iff)
  from realtime_decoded [OF assms(1)] obtain rt where rt: "parse_realtime f = Inr rt"
    "rt_cells rt = map (cell_at (fr_data f)) (present_slots (fr_data f))" "rt_cell_status rt = raw32 (fr_data f) 70"
    "rt_pack_current rt = milli (sint (raw32 (fr_data f) 158))"
    "rt_pack_power rt = (if milli (sint (raw32 (fr_data f) 158)) < 0 then - milli (uint (raw32 (fr_data f) 154))
                        else milli (uint (raw32 (fr_data f) 154)))"
    by (auto simp: parse_realtime_def assms(2))
  show ?thesis
    by (intro exI [of _ rt] conjI) (simp_all add: rt neg present_slots_def cell_at_def)
qed

definition demo_settings_frame :: frame where
  "demo_settings_frame = \<lparr>fr_code = SETTINGS,
     fr_data = HEADER @ [SETTINGS, 0] @ replicate 108 0 @ [2, 0, 0, 0] @ replicate 182 0\<rparr>"

theorem parse_realtime_decodes_witness: "\<exists>rt. parse_realtime (frame_at demo_frame) = Inr rt"
proof -
  have "length (fr_data (frame_at demo_frame)) = FRAME_LEN" "fr_code (frame_at demo_frame) = REALTIME"
    by (simp_all add: frame_at_def demo_frame_def FRAME_LEN_def HEADER_def)
  from parse_realtime_decodes [OF this] show ?thesis by blast
qed

text \<open>
  The aggregates are those of the cells they are reported with: they are missing exactly when
  no cell is present; otherwise minimum and maximum are attained, bound every cell voltage,
  carry the number of the first cell that attains them, and the delta is their rounded
  difference.
\<close>

theorem aggregate_is_min_max:
  "(aggregate cells = None \<longleftrightarrow> cells = []) \<and>
   (\<forall>a. aggregate cells = Some a \<longrightarrow>
      (\<exists>pre c post. cells = pre @ c # post \<and> cell_index c = agg_min_index a \<and>
         cell_voltage c = agg_minimum a \<and> (\<forall>x \<in> set pre. agg_minimum a < cell_voltage x)) \<and>
      (\<exists>pre c post. cells = pre @ c # post \<and> cell_index c = agg_max_index a \<and>
         cell_voltage c = agg_maximum a \<and> (\<forall>x \<in> set pre. cell_voltage x < agg_maximum a)) \<and>
      (\<forall>x \<in> set cells. agg_minimum a \<le> cell_voltage x \<and> cell_voltage x \<le> agg_maximum a) \<and>
      agg_delta a = f64_sub (agg_maximum a) (agg_minimum a))"
proof (intro conjI allI impI)
  show "aggregate cells = None \<longleftrightarrow> cells = []" by (rule aggregate_None)
  fix a assume "aggregate cells = Some a"
  then obtain m M where m: "first_least cell_voltage cells m" "first_least (\<lambda>c. - cell_voltage c) cells M"
    and eq: "agg_minimum a = cell_voltage m" "agg_min_index a = cell_index m"
      "agg_maximum a = cell_voltage M" "agg_max_index a = cell_index M"
      "agg_delta a = f64_sub (cell_voltage M) (cell_voltage m)"
    by (rule aggregate_Some)
  show "agg_delta a = f64_sub (agg_maximum a) (agg_minimum a)" by (simp add: eq)
  show "\<exists>pre c post. cells = pre @ c # post \<and> cell_index c = agg_min_index a \<and>
      cell_voltage c = agg_minimum a \<and> (\<forall>x \<in> set pre. agg_minimum a < cell_voltage x)"
    using m(1) unfolding first_least_def eq by blast
  show "\<exists>pre c post. cells = pre @ c # post \<and> cell_index c = agg_max_index a \<and>
      cell_voltage c = agg_maximum a \<and> (\<forall>x \<in> set pre. cell_voltage x < agg_maximum a)"
    using m(2) unfolding first_least_def eq neg_less_iff_less by blast
  show "\<forall>x \<in> set cells. agg_minimum a \<le> cell_voltage x \<and> cell_voltage x \<le> agg_maximum a"
    using first_least_le [OF m(1)] first_least_le [OF m(2)] by (simp add: eq)
qed

definition demo_cells :: "cell list" where
  "demo_cells = [\<lparr>cell_index = 1, cell_voltage = milli 3310, cell_resistance = 0\<rparr>,
                 \<lparr>cell_index = 4, cell_voltage = milli 3290, cell_resistance = 0\<rparr>]"

theorem aggregate_is_min_max_witness: "\<exists>a. aggregate demo_cells = Some a \<and> agg_minimum a \<le> milli 3290"
proof -
  obtain a where a: "aggregate demo_cells = Some a"
    using aggregate_None [of demo_cells] by (auto simp: demo_cells_def)
  with aggregate_is_min_max [of demo_cells] show ?thesis by (auto simp: demo_cells_def)
qed

text \<open>
  Alarms are reported bit for bit: the labels are distinct, a system (user) alarm label is
  present exactly when its bit is set, and the list determines both registers.
\<close>

theorem asserted_alarms_faithful:
  "distinct (map fst (asserted_alarms s u)) \<and>
   (\<forall>i. ''b'' @ nat_str i \<in> fst ` set (asserted_alarms s u) \<longleftrightarrow> i < 32 \<and> bit s i) \<and>
   (\<forall>i. ''u2b'' @ nat_str i \<in> fst ` set (asserted_alarms s u) \<longleftrightarrow> i < 16 \<and> bit u i) \<and>
   (asserted_alarms s u = asserted_alarms s' u' \<longleftrightarrow> s = s' \<and> u = u')"
proof -
  have "s = s' \<and> u = u'" if "asserted_alarms s u = asserted_alarms s' u'"
  proof
    show "s = s'" using alarm_sys_iff [of _ s u] alarm_sys_iff [of _ s' u'] that
      by (intro bit_word_eqI) (simp, metis)
    show "u = u'" using alarm_user_iff [of _ s u] alarm_user_iff [of _ s' u'] that
      by (intro bit_word_eqI) (simp, metis)
  qed
  then show ?thesis using alarm_sys_iff alarm_user_iff alarm_labels_distinct by blast
qed

text \<open>
  Settings are taken only when they fit the frame: a 300-byte frame with code 0x01 never panics
  a reader; it is refused exactly when it claims more than 32 cells, and otherwise gives one
  connection resistance per claimed cell.
\<close>

theorem parse_settings_decodes:
  assumes "length (fr_data f) = FRAME_LEN" and "fr_code f = SETTINGS"
  shows "if 32 < unat (raw32 (fr_data f) 114)
    then parse_settings f = Inl (TooManyCells (unat (raw32 (fr_data f) 114)))
    else \<exists>st. parse_settings f = Inr st \<and> st_cell_count st = unat (raw32 (fr_data f) 114) \<and>
      length (st_cell_resistances st) = st_cell_count st"
proof -
  have u: "u32_at (fr_data f) 114 = Some (raw32 (fr_data f) 114)"
    using assms(1) by (simp add: reader_simps FRAME_LEN_def)
  have lt: "32 < raw32 (fr_data f) 114 \<longleftrightarrow> 32 < unat (raw32 (fr_data f) 114)"
    by (simp add: word_less_nat_alt)
  show ?thesis
    using settings_decoded [OF assms(1), of "unat (raw32 (fr_data f) 114)"]
    by (auto simp: parse_settings_def assms(2) u lt)
qed

theorem parse_settings_decodes_witness:
  "\<exists>st. parse_settings demo_settings_frame = Inr st \<and> st_cell_count st = 2"
proof -
  have r: "unat (raw32 (fr_data demo_settings_frame) 114) = 2" by code_simp
  have "length (fr_data demo_settings_frame) = FRAME_LEN" "fr_code demo_settings_frame = SETTINGS"
    by (simp_all add: demo_settings_frame_def FRAME_LEN_def HEADER_def)
  from parse_settings_decodes [OF this] r show ?thesis by auto
qed

end
