(* ===== verification/Rust_Text.thy ===== *)
theory Rust_Text
  imports Rust_Std
begin

text \<open>
  Text handling of Rust's standard library beyond \<open>Rust_Std\<close>: the lossy UTF-8 decoder, splitting
  into characters, \<open>lines\<close>, \<open>trim\<close> and \<open>split_whitespace\<close>.  A string is the list of its UTF-8 bytes.
\<close>

section \<open>Characters of a UTF-8 string\<close>

definition second_ok :: "byte \<Rightarrow> byte \<Rightarrow> bool" where
  "second_ok a b \<longleftrightarrow> is_cont b \<and> (a = 0xE0 \<longrightarrow> 0xA0 \<le> b) \<and> (a = 0xED \<longrightarrow> b \<le> 0x9F) \<and>
     (a = 0xF0 \<longrightarrow> 0x90 \<le> b) \<and> (a = 0xF4 \<longrightarrow> b \<le> 0x8F)"

text \<open>Whether a character starts here, and how many bytes it (or the longest broken start of one) takes.\<close>

fun utf8_step :: "byte list \<Rightarrow> bool \<times> nat" where
  "utf8_step [] = (False, 1)"
| "utf8_step (a # bs) =
     (if a < 0x80 then (True, 1)
      else if 0xC2 \<le> a \<and> a \<le> 0xDF then
        (case bs of b # _ \<Rightarrow> if is_cont b then (True, 2) else (False, 1) | [] \<Rightarrow> (False, 1))
      else if 0xE0 \<le> a \<and> a \<le> 0xF4 then
        (case bs of
           [] \<Rightarrow> (False, 1)
         | b # cs \<Rightarrow>
             if \<not> second_ok a b then (False, 1)
             else case cs of
               [] \<Rightarrow> (False, 2)
             | c # ds \<Rightarrow>
                 if \<not> is_cont c then (False, 2)
                 else if a \<le> 0xEF then (True, 3)
                 else case ds of [] \<Rightarrow> (False, 3) | d # _ \<Rightarrow> if is_cont d then (True, 4) else (False, 3))
      else (False, 1))"

lemma utf8_step_pos [simp]: "0 < snd (utf8_step bs)"
  by (cases bs) (auto split: list.splits)

text \<open>\<open>String::from_utf8_lossy\<close>: every broken start becomes one replacement character.\<close>

function utf8_lossy :: "byte list \<Rightarrow> byte list" where
  "utf8_lossy bs =
     (if bs = [] then []
      else let (ok, n) = utf8_step bs
           in (if ok then take n bs else [0xEF, 0xBF, 0xBD]) @ utf8_lossy (drop n bs))"
  by pat_completeness auto
termination
proof (relation "measure length")
  fix bs :: "byte list" and p ok n
  assume "bs \<noteq> []" "p = utf8_step bs" "(ok, n) = p"
  with utf8_step_pos [of bs] have "0 < n" by (metis snd_conv)
  with \<open>bs \<noteq> []\<close> show "(drop n bs, bs) \<in> measure length" by (simp add: diff_less)
qed simp

declare utf8_lossy.simps [simp del]

definition from_utf8_lossy :: "byte list \<Rightarrow> string" where
  "from_utf8_lossy bs = str_of_bytes (utf8_lossy bs)"

text \<open>\<open>str::chars\<close>, each character as its bytes; \<open>n\<close> is at least one byte.\<close>

function utf8_chars :: "byte list \<Rightarrow> byte list list" where
  "utf8_chars bs =
     (if bs = [] then [] else let n = snd (utf8_step bs) in take n bs # utf8_chars (drop n bs))"
  by pat_completeness auto
termination
  by (relation "measure length") (auto simp: Let_def intro: diff_less)

declare utf8_chars.simps [simp del]

lemma utf8_chars_Nil [simp]: "utf8_chars [] = []"
  by (simp add: utf8_chars.simps)

lemma utf8_chars_ascii: "a < 0x80 \<Longrightarrow> utf8_chars (a # bs) = [a] # utf8_chars bs"
  by (simp add: utf8_chars.simps)

lemma concat_utf8_chars [simp]: "concat (utf8_chars bs) = bs"
  by (induction bs rule: utf8_chars.induct) (subst utf8_chars.simps, auto simp: Let_def)

lemma utf8_lossy_Nil [simp]: "utf8_lossy [] = []"
  by (simp add: utf8_lossy.simps)

lemma utf8_lossy_ascii1: "a < 0x80 \<Longrightarrow> utf8_lossy (a # bs) = a # utf8_lossy bs"
  by (simp add: utf8_lossy.simps [of "a # bs"])

lemma utf8_lossy_ascii: "(\<forall>b \<in> set bs. b < 0x80) \<Longrightarrow> utf8_lossy bs = bs"
  by (induction bs) (auto simp: utf8_lossy_ascii1)

lemma utf8_chars_all_ascii: "(\<forall>b \<in> set bs. b < 0x80) \<Longrightarrow> utf8_chars bs = map (\<lambda>b. [b]) bs"
  by (induction bs) (auto simp: utf8_chars_ascii)

section \<open>White space\<close>

definition is_ascii_ws :: "byte \<Rightarrow> bool" where
  "is_ascii_ws b \<longleftrightarrow> (9 \<le> b \<and> b \<le> 13) \<or> b = 32"

text \<open>\<open>char::is_whitespace\<close>: the characters of the Unicode property \<open>White_Space\<close>.\<close>

definition is_whitespace :: "byte list \<Rightarrow> bool" where
  "is_whitespace c \<longleftrightarrow>
     (case c of
        [a] \<Rightarrow> is_ascii_ws a
      | [a, b] \<Rightarrow> a = 0xC2 \<and> (b = 0x85 \<or> b = 0xA0)
      | [a, b, d] \<Rightarrow>
          a = 0xE1 \<and> b = 0x9A \<and> d = 0x80 \<or>
          a = 0xE2 \<and> b = 0x80 \<and> (d \<le> 0x8A \<or> d = 0xA8 \<or> d = 0xA9 \<or> d = 0xAF) \<or>
          a = 0xE2 \<and> b = 0x81 \<and> d = 0x9F \<or>
          a = 0xE3 \<and> b = 0x80 \<and> d = 0x80
      | _ \<Rightarrow> False)"

definition trim :: "string \<Rightarrow> string" where
  "trim s =
     str_of_bytes (concat (rev (dropWhile is_whitespace (rev (dropWhile is_whitespace (utf8_chars (bytes_of_str s)))))))"

fun words_of :: "byte list list \<Rightarrow> byte list \<Rightarrow> byte list list" where
  "words_of [] w = (if w = [] then [] else [w])"
| "words_of (c # cs) w =
     (if is_whitespace c then (if w = [] then [] else [w]) @ words_of cs [] else words_of cs (w @ c))"

definition split_whitespace :: "string \<Rightarrow> string list" where
  "split_whitespace s = map str_of_bytes (words_of (utf8_chars (bytes_of_str s)) [])"

text \<open>\<open>str::lines\<close>: split after every line feed, the line feed and one carriage return before it dropped.\<close>

definition strip_cr :: "string \<Rightarrow> string" where
  "strip_cr l = (if l \<noteq> [] \<and> last l = CHR 0x0D then butlast l else l)"

definition lines_of :: "string \<Rightarrow> string list" where
  "lines_of s =
     (let ps = split_on (CHR 0x0A) s;
          full = map strip_cr (butlast ps)
      in if last ps = [] then full else full @ [last ps])"

section \<open>Facts\<close>

definition plain :: "string \<Rightarrow> bool" where
  "plain w \<longleftrightarrow> w \<noteq> [] \<and> (\<forall>c \<in> set w. 33 \<le> (of_char c :: nat) \<and> (of_char c :: nat) < 127)"

text \<open>What \<open>println!\<close> and \<open>format!("{}\\n")\<close> end with.\<close>

definition newline :: string where
  "newline = [CHR 0x0A]"

definition visible :: "string \<Rightarrow> bool" where
  "visible w \<longleftrightarrow> (\<forall>c \<in> set w. 33 \<le> (of_char c :: nat) \<and> (of_char c :: nat) < 127)"

lemma bytes_of_str_simps [simp]:
  "bytes_of_str [] = []" "bytes_of_str (c # s) = of_char c # bytes_of_str s"
  "bytes_of_str (s @ t) = bytes_of_str s @ bytes_of_str t"
  by (simp_all add: bytes_of_str_def)

lemma str_of_bytes_simps [simp]:
  "str_of_bytes [] = []" "str_of_bytes (a # bs) = char_of (unat a) # str_of_bytes bs"
  "str_of_bytes (a' @ b') = str_of_bytes a' @ str_of_bytes b'"
  by (simp_all add: str_of_bytes_def)

lemma unat_of_char [simp]: "unat (of_char c :: byte) = of_char c"
  by (simp add: of_nat_of_char [symmetric, where 'a = byte] unat_of_nat del: of_nat_of_char)

lemma length_str_of_bytes [simp]: "length (str_of_bytes bs) = length bs"
  by (simp add: str_of_bytes_def)

lemma str_of_bytes_Nil_iff [simp]: "str_of_bytes bs = [] \<longleftrightarrow> bs = []"
  by (simp add: str_of_bytes_def)

lemma bytes_of_str_of_bytes [simp]: "bytes_of_str (str_of_bytes bs) = bs"
proof -
  have "(of_char (char_of (unat b)) :: byte) = b" for b :: byte
  proof -
    have "unat b < 2 ^ LENGTH(8)" by (rule unsigned_less)
    then have "unat (of_char (char_of (unat b)) :: byte) = unat b" by (simp add: take_bit_nat_eq_self)
    then show ?thesis by (simp add: word_unat_eq_iff)
  qed
  then show ?thesis by (simp add: bytes_of_str_def str_of_bytes_def comp_def)
qed

lemma of_char_less_ascii: "(of_char c :: nat) < 128 \<Longrightarrow> (of_char c :: byte) < 0x80"
  by (simp add: word_less_nat_alt)

lemma is_whitespace_single [simp]: "is_whitespace [b] = is_ascii_ws b"
  by (simp add: is_whitespace_def)

lemma not_ws_char: "33 \<le> (of_char c :: nat) \<Longrightarrow> \<not> is_ascii_ws (of_char c)"
  by (auto simp: is_ascii_ws_def word_le_nat_alt dest!: arg_cong [of _ _ unat])

lemma words_of_word:
  "\<forall>b \<in> set p. \<not> is_ascii_ws b \<Longrightarrow> words_of (map (\<lambda>b. [b]) p @ cs) w = words_of cs (w @ p)"
  by (induction p arbitrary: w) auto

lemma plain_ascii:
  assumes "plain w"
  shows "\<forall>b \<in> set (bytes_of_str w). b < 0x80 \<and> \<not> is_ascii_ws b"
  using assms by (auto simp: plain_def bytes_of_str_def intro!: of_char_less_ascii not_ws_char)

lemma utf8_chars_append_ascii:
  "\<forall>b \<in> set p. b < 0x80 \<Longrightarrow> utf8_chars (p @ bs) = map (\<lambda>b. [b]) p @ utf8_chars bs"
  by (induction p) (auto simp: utf8_chars_ascii)

text \<open>The second of two words.\<close>

lemma split_whitespace_second:
  assumes "plain v" "plain w" "t = [] \<or> (\<exists>u. t = CHR '' '' # u)"
  shows "\<exists>ws. split_whitespace (v @ CHR '' '' # w @ t) = v # w # ws"
proof -
  note a = plain_ascii [OF assms(1)] and b = plain_ascii [OF assms(2)]
  have ne: "v \<noteq> []" "w \<noteq> []" "bytes_of_str v \<noteq> []" "bytes_of_str w \<noteq> []"
    using assms by (auto simp: plain_def bytes_of_str_def)
  have sp: "is_ascii_ws 32" "(32::byte) < 0x80" by (simp_all add: is_ascii_ws_def)
  from assms(3) show ?thesis
  proof
    assume "t = []"
    with a b ne sp show ?thesis
      by (simp add: split_whitespace_def utf8_chars_append_ascii utf8_chars_ascii words_of_word
          utf8_chars_append_ascii [of _ "[]", simplified] words_of_word [of _ "[]", simplified])
  next
    assume "\<exists>u. t = CHR '' '' # u"
    then obtain u where "t = CHR '' '' # u" by blast
    with a b ne sp show ?thesis
      by (simp add: split_whitespace_def utf8_chars_append_ascii utf8_chars_ascii words_of_word)
  qed
qed

lemma nat_str_digits: "c \<in> set (nat_str n) \<Longrightarrow> 48 \<le> (of_char c :: nat) \<and> (of_char c :: nat) \<le> 57"
proof (induction n rule: nat_str.induct)
  case (1 n)
  from "1.prems" have "c \<in> set (if n < 10 then [char_of (48 + n)] else nat_str (n div 10) @ [char_of (48 + n mod 10)])"
    by (subst (asm) nat_str.simps)
  with "1.IH" show ?case by (auto split: if_splits)
qed

lemma nat_str_nonempty [simp]: "nat_str n \<noteq> []"
  by (subst nat_str.simps) simp

lemma plain_nat_str [simp]: "plain (nat_str n)"
  by (auto simp: plain_def dest: nat_str_digits)

lemma parse_nat_nat_str: "n < hi \<Longrightarrow> parse_nat hi (nat_str n) = Some n"
proof -
  assume "n < hi"
  obtain c cs where s: "nat_str n = c # cs" by (cases "nat_str n") auto
  with nat_str_digits [of c n] have "c \<noteq> CHR ''+''" by auto
  with s \<open>n < hi\<close> digits_val_nat_str [of n] show ?thesis by (simp add: parse_nat_def)
qed

lemma trim_visible_then:
  assumes "visible w" "bytes_of_str t = bs" "\<forall>b \<in> set bs. is_ascii_ws b"
  shows "trim (w @ t) = w"
proof -
  let ?b = "bytes_of_str w"
  let ?c = "\<lambda>p. map (\<lambda>b. [b]) p :: byte list list"
  have ascii: "\<forall>b \<in> set ?b. b < 0x80 \<and> \<not> is_ascii_ws b"
    using assms(1) by (auto simp: visible_def bytes_of_str_def intro!: of_char_less_ascii not_ws_char)
  have "b < 0x80" if "is_ascii_ws b" for b :: byte
    using that by (auto simp: is_ascii_ws_def word_le_nat_alt word_less_nat_alt)
  with assms(3) have t_ascii: "\<forall>b \<in> set bs. b < 0x80" by blast
  have chars: "utf8_chars (bytes_of_str (w @ t)) = ?c ?b @ ?c bs"
    using ascii t_ascii assms(2) by (simp add: utf8_chars_append_ascii utf8_chars_all_ascii)
  have keep: "dropWhile is_whitespace (?c p @ r) = ?c p @ r" if "\<forall>b \<in> set p. \<not> is_ascii_ws b" "p \<noteq> []" for p r
    using that by (cases p) auto
  have gone: "dropWhile is_whitespace (?c p) = []" if "\<forall>b \<in> set p. is_ascii_ws b" for p
    using that by (induction p) auto
  have cut: "dropWhile is_whitespace (?c p @ r) = dropWhile is_whitespace r" if "\<forall>b \<in> set p. is_ascii_ws b" for p r
    using that by (induction p) auto
  have flat: "concat (?c p) = p" for p by (induction p) auto
  show ?thesis
  proof (cases "w = []")
    case True
    with chars gone [OF assms(3)] show ?thesis by (simp add: trim_def del: dropWhile_eq_Nil_conv)
  next
    case False
    then have ne: "?b \<noteq> []" by (simp add: bytes_of_str_def)
    have "dropWhile is_whitespace (?c ?b @ ?c bs) = ?c ?b @ ?c bs" using ascii ne by (intro keep) auto
    moreover have "dropWhile is_whitespace (rev (?c ?b @ ?c bs)) = rev (?c ?b)"
      using cut [of "rev bs" "?c (rev ?b)"] keep [of "rev ?b" "[]"] assms(3) ascii ne by (simp add: rev_map)
    ultimately show ?thesis
      using chars by (simp add: trim_def flat)
  qed
qed

lemma trim_plain: "plain w \<Longrightarrow> trim w = w"
  using trim_visible_then [of w "[]"] by (simp add: plain_def visible_def)

lemma visible_simps [simp]:
  "visible []" "visible (v @ w) \<longleftrightarrow> visible v \<and> visible w"
  by (auto simp: visible_def)

lemma trim_newline: "visible w \<Longrightarrow> trim (w @ newline) = w"
  by (rule trim_visible_then [OF _ refl]) (auto simp: newline_def is_ascii_ws_def)

lemma from_utf8_line: "visible w \<Longrightarrow> from_utf8 (bytes_of_str (w @ newline)) = Some (w @ newline)"
proof -
  assume "visible w"
  then have "\<forall>b \<in> set (bytes_of_str (w @ newline)). b < 0x80"
    by (auto simp: visible_def newline_def bytes_of_str_def intro!: of_char_less_ascii)
  then show ?thesis
    unfolding from_utf8_def by (simp add: utf8_valid_ascii del: bytes_of_str_simps)
qed

end
