(* ===== verification/Telemetry.thy ===== *)
theory Telemetry
  imports F64 Rust_Text
begin

text \<open>
  What every producer does with its measurements, as \<open>packages/bms-monitoring\<close> has it (the other
  producers keep verbatim copies): the record type and its builder (\<open>record.rs\<close>), the OTLP request
  built from a batch and the rejections read off the answer (\<open>otlp.rs\<close>), one HTTP POST over a unix
  socket (\<open>uds.rs\<close>), and \<open>publish\<close> (\<open>main.rs\<close>), which puts them together.  A record body is the
  association list the builder pushes, in order.

  The protobuf codec (crates \<open>prost\<close> and \<open>opentelemetry-proto\<close>) and the socket are parameters: an
  encoder of requests, a decoder of the answer's \<open>partial_success\<close>, and the bytes the receiver
  sends back for the bytes written to it.
\<close>

section \<open>Records\<close>

datatype attr_value = VStr string | VInt int | VF64 f64_value | VBool bool | VNull

abbreviation VDouble :: "f64 \<Rightarrow> attr_value" where
  "VDouble x \<equiv> VF64 (Finite x)"

record log_record =
  rec_event_name :: string
  rec_attributes :: "(string \<times> attr_value) list"
  rec_body :: "(string \<times> attr_value) list"

definition record_new :: "string \<Rightarrow> log_record" where
  "record_new event_name = \<lparr>rec_event_name = event_name, rec_attributes = [], rec_body = []\<rparr>"

definition with_attr :: "string \<Rightarrow> attr_value \<Rightarrow> log_record \<Rightarrow> log_record" where
  "with_attr key v r = r\<lparr>rec_attributes := rec_attributes r @ [(key, v)]\<rparr>"

definition with_field :: "string \<Rightarrow> attr_value \<Rightarrow> log_record \<Rightarrow> log_record" where
  "with_field key v r = r\<lparr>rec_body := rec_body r @ [(key, v)]\<rparr>"

definition with_fields :: "(string \<times> attr_value) list \<Rightarrow> log_record \<Rightarrow> log_record" where
  "with_fields kvs r = fold (\<lambda>(key, v). with_field key v) kvs r"

definition opt_of :: "attr_value option \<Rightarrow> attr_value" where
  "opt_of v = (case v of Some x \<Rightarrow> x | None \<Rightarrow> VNull)"

definition num_of :: "f64 option \<Rightarrow> attr_value" where
  "num_of v = opt_of (map_option VDouble v)"

section \<open>OTLP request\<close>

text \<open>The messages of \<open>opentelemetry-proto\<close>, with the fields the producers set.\<close>

datatype any_value = AnyValue "any_variant option"
  and any_variant = StringValue string | IntValue int | DoubleValue f64_value | BoolValue bool | KvlistValue "key_value list"
  and key_value = KeyValue string "any_value option"

record otlp_log_record =
  lr_time_unix_nano :: u64
  lr_event_name :: string
  lr_attributes :: "key_value list"
  lr_body :: "any_value option"

record export_request =
  er_resource :: "key_value list"
  er_scope_name :: string
  er_scope_version :: string
  er_log_records :: "otlp_log_record list"

definition SCOPE_VERSION :: string where "SCOPE_VERSION = ''0.1.0''"

definition any_value :: "attr_value \<Rightarrow> any_value" where
  "any_value v =
     (case v of
        VStr s \<Rightarrow> AnyValue (Some (StringValue s))
      | VInt i \<Rightarrow> AnyValue (Some (IntValue i))
      | VF64 d \<Rightarrow> AnyValue (Some (DoubleValue d))
      | VBool b \<Rightarrow> AnyValue (Some (BoolValue b))
      | VNull \<Rightarrow> AnyValue None)"

definition key_values :: "(string \<times> attr_value) list \<Rightarrow> key_value list" where
  "key_values pairs = map (\<lambda>(key, v). KeyValue key (Some (any_value v))) pairs"

definition build_request ::
  "string \<Rightarrow> (string \<times> attr_value) list \<Rightarrow> log_record list \<Rightarrow> u64 \<Rightarrow> export_request" where
  "build_request scope_name resource records time_unix_nano =
     \<lparr>er_resource = key_values resource,
      er_scope_name = scope_name,
      er_scope_version = SCOPE_VERSION,
      er_log_records =
        map (\<lambda>r. \<lparr>lr_time_unix_nano = time_unix_nano,
                  lr_event_name = rec_event_name r,
                  lr_attributes = key_values (rec_attributes r),
                  lr_body = Some (AnyValue (Some (KvlistValue (key_values (rec_body r)))))\<rparr>) records\<rparr>"

record rejections =
  rej_count :: int
  rej_message :: string

text \<open>The decoder yields the \<open>partial_success\<close> field of the answer, or nothing when it cannot decode.\<close>

definition decode_rejections :: "(byte list \<Rightarrow> (int \<times> string) option option) \<Rightarrow> byte list \<Rightarrow> rejections option" where
  "decode_rejections decode body =
     map_option (\<lambda>partial. case partial of
         Some (n, message) \<Rightarrow> \<lparr>rej_count = n, rej_message = message\<rparr>
       | None \<Rightarrow> \<lparr>rej_count = 0, rej_message = []\<rparr>)
       (decode body)"

section \<open>One POST over a unix socket\<close>

record response =
  rsp_status :: nat
  rsp_body :: "byte list"

datatype post_error = Unreachable string | NoTerminator | EmptyResponse | BadStatusLine string

definition CRLF :: string where "CRLF = [CHR 0x0D, CHR 0x0A]"

definition TERMINATOR :: "byte list" where "TERMINATOR = [0x0D, 0x0A, 0x0D, 0x0A]"

fun terminator_position :: "byte list \<Rightarrow> nat option" where
  "terminator_position [] = None"
| "terminator_position (b # bs) =
     (if take 4 (b # bs) = TERMINATOR then Some 0 else map_option Suc (terminator_position bs))"

definition parse_response :: "byte list \<Rightarrow> (post_error, response) result" where
  "parse_response raw =
     res_bind (ok_or NoTerminator (terminator_position raw)) (\<lambda>separator.
     let head = from_utf8_lossy (take separator raw) in
     res_bind (ok_or EmptyResponse (nth_get (lines_of head) 0)) (\<lambda>status_line.
     res_bind (ok_or (BadStatusLine status_line)
                 (Option.bind (nth_get (split_whitespace status_line) 1) (parse_nat 65536))) (\<lambda>status.
     Inr \<lparr>rsp_status = status, rsp_body = drop (separator + 4) raw\<rparr>)))"

definition request_head :: "string \<Rightarrow> string \<Rightarrow> byte list \<Rightarrow> string" where
  "request_head path content_type body =
     ''POST '' @ path @ '' HTTP/1.1'' @ CRLF @
     ''Host: localhost'' @ CRLF @
     ''Content-Type: '' @ content_type @ CRLF @
     ''Content-Length: '' @ nat_str (length body) @ CRLF @
     ''Connection: close'' @ CRLF @ CRLF"

text \<open>
  The receiver is a function of what it is sent: the bytes it answers until it closes, or the
  error of the step (connecting, a timeout, writing, reading) that failed.
\<close>

type_synonym receiver = "byte list \<Rightarrow> (string, byte list) result"

definition post :: "receiver \<Rightarrow> string \<Rightarrow> string \<Rightarrow> byte list \<Rightarrow> (post_error, response) result" where
  "post rcv path content_type body =
     res_bind (map_err Unreachable (rcv (bytes_of_str (request_head path content_type body) @ body))) parse_response"

section \<open>Publishing a batch\<close>

definition INGEST_PATH :: string where "INGEST_PATH = ''/v1/logs''"
definition PROTOBUF :: string where "PROTOBUF = ''application/x-protobuf''"

record collector =
  col_encode :: "export_request \<Rightarrow> byte list"
  col_decode :: "byte list \<Rightarrow> (int \<times> string) option option"
  col_receiver :: receiver

datatype publish_outcome =
    Printed
  | ClockBeforeEpoch
  | PostFailed post_error
  | Answered nat
  | RecordsRejected int string
  | Delivered
  | Undecodable

definition publish_batch ::
  "bool \<Rightarrow> string \<Rightarrow> collector \<Rightarrow> nat option \<Rightarrow> (string \<times> attr_value) list \<Rightarrow> log_record list \<Rightarrow> publish_outcome" where
  "publish_batch dry_run scope_name col unix_nanos resource records =
     (if dry_run then Printed
      else case unix_nanos of
        None \<Rightarrow> ClockBeforeEpoch
      | Some now \<Rightarrow>
          (case post (col_receiver col) INGEST_PATH PROTOBUF
                  (col_encode col (build_request scope_name resource records (of_nat now))) of
             Inl e \<Rightarrow> PostFailed e
           | Inr response \<Rightarrow>
               if rsp_status response \<noteq> 200 then Answered (rsp_status response)
               else case decode_rejections (col_decode col) (rsp_body response) of
                 Some r \<Rightarrow> if rej_count r > 0 then RecordsRejected (rej_count r) (rej_message r) else Delivered
               | None \<Rightarrow> Undecodable))"

section \<open>Lemmas\<close>

lemma with_fields_simps:
  "rec_event_name (with_fields kvs r) = rec_event_name r"
  "rec_attributes (with_fields kvs r) = rec_attributes r"
  "rec_body (with_fields kvs r) = rec_body r @ kvs"
  by (induction kvs arbitrary: r) (auto simp: with_fields_def with_field_def)

lemmas record_simps = record_new_def with_attr_def with_field_def with_fields_simps

lemma any_value_inject [simp]: "any_value v = any_value w \<longleftrightarrow> v = w"
  by (cases v; cases w) (simp_all add: any_value_def)

lemma key_values_inject [simp]: "key_values p = key_values q \<longleftrightarrow> p = q"
  unfolding key_values_def by (subst inj_map_eq_map) (auto simp: inj_on_def)

lemma build_request_inject:
  "build_request sn ra rs t = build_request sn' ra' rs' t' \<longleftrightarrow>
     sn = sn' \<and> ra = ra' \<and> rs = rs' \<and> (rs = [] \<or> t = t')"
proof (induction rs arbitrary: rs')
  case Nil
  then show ?case by (auto simp: build_request_def)
next
  case (Cons r rs)
  show ?case
  proof (cases rs')
    case Nil
    then show ?thesis by (auto simp: build_request_def)
  next
    case (Cons r' rs'')
    have "r = r' \<longleftrightarrow> rec_event_name r = rec_event_name r' \<and> rec_attributes r = rec_attributes r' \<and> rec_body r = rec_body r'"
      by (metis log_record.equality old.unit.exhaust)
    with Cons Cons.IH [of rs''] show ?thesis by (auto simp: build_request_def)
  qed
qed


text \<open>Where the first blank line of a head is.\<close>

definition head_line :: "string \<Rightarrow> bool" where
  "head_line l \<longleftrightarrow> l \<noteq> [] \<and> (\<forall>c \<in> set l. 32 \<le> (of_char c :: nat) \<and> (of_char c :: nat) < 127)"

fun head_of :: "string list \<Rightarrow> string" where
  "head_of [] = []"
| "head_of [l] = l"
| "head_of (l # ls) = l @ CRLF @ head_of ls"

lemma take4_TERMINATOR: "take 4 (b # bs) = TERMINATOR \<Longrightarrow> b = 13"
  by (simp add: TERMINATOR_def take_Cons')

lemma terminator_skip:
  "\<forall>b \<in> set p. b \<noteq> 13 \<Longrightarrow> terminator_position (p @ bs) = map_option ((+) (length p)) (terminator_position bs)"
proof (induction p)
  case Nil
  then show ?case by (simp add: option.map_ident)
next
  case (Cons b p)
  then have "take 4 (b # (p @ bs)) \<noteq> TERMINATOR" using take4_TERMINATOR [of b "p @ bs"] by auto
  then have "terminator_position (b # (p @ bs)) = map_option Suc (terminator_position (p @ bs))"
    by (simp only: terminator_position.simps if_False)
  with Cons show ?case by (simp add: option.map_comp comp_def del: terminator_position.simps)
qed

lemma terminator_line_break:
  assumes "b \<noteq> 13"
  shows "terminator_position (13 # 10 # b # bs) = map_option ((+) 2) (terminator_position (b # bs))"
proof -
  have "take 4 (13 # 10 # b # bs) \<noteq> TERMINATOR" "take 4 (10 # b # bs) \<noteq> TERMINATOR"
    using assms by (auto simp: TERMINATOR_def take_Cons')
  then have "terminator_position (13 # 10 # b # bs) = map_option Suc (map_option Suc (terminator_position (b # bs)))"
    by (simp only: terminator_position.simps if_False)
  then show ?thesis by (cases "terminator_position (b # bs)") (simp_all del: terminator_position.simps)
qed

lemma terminator_here: "terminator_position (TERMINATOR @ bs) = Some 0"
  by (simp add: TERMINATOR_def)

lemma of_char_byte_eq: "(of_char c :: byte) = n \<longleftrightarrow> (of_char c :: nat) = unat n"
  by (metis unat_of_char word_unat_eq_iff)

lemma head_line_bytes: "head_line l \<Longrightarrow> \<forall>b \<in> set (bytes_of_str l). b \<noteq> 13 \<and> b \<noteq> 10 \<and> b < 0x80"
  by (auto simp: head_line_def bytes_of_str_def of_char_byte_eq intro!: of_char_less_ascii)

lemma terminator_head:
  "ls \<noteq> [] \<Longrightarrow> \<forall>l \<in> set ls. head_line l \<Longrightarrow>
   terminator_position (bytes_of_str (head_of ls) @ TERMINATOR @ bs) = Some (length (head_of ls))"
proof (induction ls rule: head_of.induct)
  case (2 l)
  then show ?case by (simp add: terminator_skip head_line_bytes terminator_here)
next
  case (3 l m ls)
  obtain c cs where m: "head_of (m # ls) = c # cs" "(of_char c :: byte) \<noteq> 13"
    using "3.prems" by (cases m; cases ls) (auto simp: head_line_def of_char_byte_eq)
  have "terminator_position (bytes_of_str (head_of (m # ls)) @ TERMINATOR @ bs) = Some (length (head_of (m # ls)))"
    using "3.prems" by (intro "3.IH") auto
  with m have "terminator_position (13 # 10 # bytes_of_str (head_of (m # ls)) @ TERMINATOR @ bs) =
      Some (2 + length (head_of (m # ls)))"
    using terminator_line_break [OF m(2)] by (simp del: terminator_position.simps)
  with "3.prems" terminator_skip [of "bytes_of_str l"] head_line_bytes [of l] show ?case
    by (simp add: CRLF_def del: terminator_position.simps)
qed simp

lemma head_ascii: "\<forall>l \<in> set ls. head_line l \<Longrightarrow> \<forall>b \<in> set (bytes_of_str (head_of ls)). b < 0x80"
  by (induction ls rule: head_of.induct) (auto dest: head_line_bytes simp: CRLF_def)

lemma split_on_line: "c \<notin> set l \<Longrightarrow> split_on c l = [l]"
  by (induction l) auto

lemma split_on_append: "c \<notin> set l \<Longrightarrow> split_on c (l @ c # s) = l # split_on c s"
  by (induction l) auto

lemma first_line_of_head:
  assumes "\<forall>m \<in> set (l # ls). head_line m"
  shows "nth_get (lines_of (head_of (l # ls))) 0 = Some l"
proof -
  have l: "CHR 0x0A \<notin> set l" "l \<noteq> []" "last l \<noteq> CHR 0x0D"
    using assms by (auto simp: head_line_def dest!: last_in_set)
  show ?thesis
  proof (cases ls)
    case Nil
    with l show ?thesis by (simp add: lines_of_def split_on_line nth_get_def)
  next
    case (Cons m ms)
    have "split_on (CHR 0x0A) (head_of (l # ls)) = (l @ [CHR 0x0D]) # split_on (CHR 0x0A) (head_of (m # ms))"
      using l split_on_append [of "CHR 0x0A" "l @ [CHR 0x0D]"] Cons by (simp add: CRLF_def)
    then show ?thesis by (simp add: lines_of_def nth_get_def strip_cr_def Let_def)
  qed
qed

section \<open>Properties\<close>

text \<open>
  Reading back an HTTP answer: for any head of printable ASCII lines whose first is a status
  line with a code that fits 16 bits, followed by the blank line and any body,
  \<open>parse_response\<close> returns exactly that code and that body, whatever bytes the
  body holds.
\<close>

theorem parse_response_round_trip:
  assumes "plain version" "status < 65536" "reason = [] \<or> (\<exists>u. reason = CHR '' '' # u)"
    and "\<forall>l \<in> set ((version @ CHR '' '' # nat_str status @ reason) # headers). head_line l"
  shows "parse_response (bytes_of_str (head_of ((version @ CHR '' '' # nat_str status @ reason) # headers)) @ TERMINATOR @ body)
    = Inr \<lparr>rsp_status = status, rsp_body = body\<rparr>"
proof -
  let ?line = "version @ CHR '' '' # nat_str status @ reason"
  let ?head = "head_of (?line # headers)"
  let ?raw = "bytes_of_str ?head @ TERMINATOR @ body"
  have pos: "terminator_position ?raw = Some (length ?head)" using assms(4) by (intro terminator_head) auto
  have "from_utf8_lossy (take (length ?head) ?raw) = ?head"
    using head_ascii [OF assms(4)] by (simp add: from_utf8_lossy_def utf8_lossy_ascii)
  moreover have "nth_get (lines_of ?head) 0 = Some ?line" using assms(4) by (rule first_line_of_head)
  moreover obtain ws where "split_whitespace ?line = version # nat_str status # ws"
    using split_whitespace_second [OF assms(1) plain_nat_str assms(3)] by blast
  moreover have "parse_nat 65536 (nat_str status) = Some status" using assms(2) by (rule parse_nat_nat_str)
  moreover have "drop (length ?head + 4) ?raw = body" by (simp add: TERMINATOR_def)
  ultimately show ?thesis using pos
    by (simp add: parse_response_def nth_get_def [of "_ # _ # _"] Let_def del: head_of.simps)
qed

theorem parse_response_round_trip_witness:
  "parse_response (bytes_of_str (head_of [''HTTP/1.1 '' @ nat_str 415 @ '' No'', ''a: b'']) @ TERMINATOR @ [8, 1]) =
     Inr \<lparr>rsp_status = 415, rsp_body = [8, 1]\<rparr>"
  using parse_response_round_trip [of "''HTTP/1.1''" 415 "'' No''" "[''a: b'']" "[8, 1]"]
  by (simp add: plain_def head_line_def nat_str.simps)

text \<open>
  The request is framed for any body: when the path and the content type have no line break,
  the first blank line of what is sent ends the head, everything after it is the body, and the
  length the head announces is the number of those bytes.
\<close>

theorem post_request_framing:
  assumes "head_line path" "head_line content_type"
  shows "let sent = bytes_of_str (request_head path content_type body) @ body in
    \<exists>n. terminator_position sent = Some n \<and> drop (n + 4) sent = body \<and>
      take n sent = bytes_of_str (head_of [''POST '' @ path @ '' HTTP/1.1'', ''Host: localhost'',
        ''Content-Type: '' @ content_type, ''Content-Length: '' @ nat_str (length (drop (n + 4) sent)),
        ''Connection: close''])"
proof -
  let ?lines = "[''POST '' @ path @ '' HTTP/1.1'', ''Host: localhost'', ''Content-Type: '' @ content_type,
    ''Content-Length: '' @ nat_str (length body), ''Connection: close'']"
  have T: "bytes_of_str CRLF @ bytes_of_str CRLF = TERMINATOR" by (simp add: CRLF_def TERMINATOR_def)
  have sent: "bytes_of_str (request_head path content_type body) @ body = bytes_of_str (head_of ?lines) @ TERMINATOR @ body"
    by (simp add: request_head_def T [symmetric])
  have "\<forall>l \<in> set ?lines. head_line l"
    using assms nat_str_digits by (fastforce simp: head_line_def)
  then have pos: "terminator_position (bytes_of_str (head_of ?lines) @ TERMINATOR @ body) = Some (length (head_of ?lines))"
    by (intro terminator_head) auto
  show ?thesis unfolding Let_def sent
    by (intro exI [of _ "length (head_of ?lines)"] conjI pos)
       (simp_all add: TERMINATOR_def del: head_of.simps)
qed

theorem post_request_framing_witness:
  "let sent = bytes_of_str (request_head INGEST_PATH PROTOBUF [13, 10, 13, 10, 7]) @ [13, 10, 13, 10, 7] in
    \<exists>n. terminator_position sent = Some n \<and> drop (n + 4) sent = [13, 10, 13, 10, 7]"
proof -
  have "head_line INGEST_PATH" "head_line PROTOBUF" by (simp_all add: head_line_def INGEST_PATH_def PROTOBUF_def)
  from post_request_framing [OF this, of "[13, 10, 13, 10, 7]"] show ?thesis unfolding Let_def by blast
qed

text \<open>
  Nothing of a batch is lost in the request: the request determines the resource attributes and
  every record, names, order and null values included, and for a batch with a record also the
  time stamp, which all its records share.
\<close>

theorem build_request_lossless:
  "build_request scope ra rs t = build_request scope ra' rs' t' \<longleftrightarrow> ra = ra' \<and> rs = rs' \<and> (rs = [] \<or> t = t')"
  by (auto simp: build_request_inject)

end
