(* ===== verification/Bms_Record.thy ===== *)
theory Bms_Record
  imports Bms_Parse Telemetry
begin

text \<open>
  \<open>packages/bms-monitoring/src/record.rs\<close>: readings to the records the receiver stores (the record
  type itself is in \<open>Telemetry\<close>).  The textual rendering for \<open>--dry-run\<close> (\<open>format_pairs\<close>) is not
  modelled.
\<close>

section \<open>Model\<close>

definition STATUS :: string where "STATUS = ''bms.status''"
definition STATUS_CELL :: string where "STATUS_CELL = ''bms.status.cell''"
definition STATUS_ALARM :: string where "STATUS_ALARM = ''bms.status.alarm''"
definition SETTINGS_EVENT :: string where "SETTINGS_EVENT = ''bms.settings''"
definition SETTINGS_CELL :: string where "SETTINGS_CELL = ''bms.settings.cell''"

record link =
  link_connected_seconds :: nat
  link_frames_ok :: nat
  link_frames_discarded :: nat
  link_wait_seconds :: f64

definition count_ones :: "'a::len word \<Rightarrow> nat" where
  "count_ones w = length (filter (\<lambda>i. bit w i) [0..<LENGTH('a)])"

definition status_record :: "realtime \<Rightarrow> link \<Rightarrow> log_record" where
  "status_record rt link =
     (let aggregates = aggregate (rt_cells rt) in
      with_fields
       [(''pack_voltage_volts'', VDouble (rt_pack_voltage rt)),
        (''pack_current_amps'', VDouble (rt_pack_current rt)),
        (''pack_power_watts'', VDouble (rt_pack_power rt)),
        (''soc_percent'', VInt (uint (rt_soc rt))),
        (''soh_percent'', VInt (uint (rt_soh rt))),
        (''remaining_capacity_ah'', VDouble (rt_remaining_capacity rt)),
        (''full_charge_capacity_ah'', VDouble (rt_full_charge_capacity rt)),
        (''cycle_capacity_ah'', VDouble (rt_cycle_capacity rt)),
        (''cycle_count'', VInt (uint (rt_cycle_count rt))),
        (''cell_voltage_average_volts'', num_of (map_option agg_average aggregates)),
        (''cell_voltage_delta_volts'', num_of (map_option agg_delta aggregates)),
        (''cell_voltage_min_volts'', num_of (map_option agg_minimum aggregates)),
        (''cell_voltage_max_volts'', num_of (map_option agg_maximum aggregates)),
        (''cell_min_index'', opt_of (map_option (\<lambda>a. VInt (int (agg_min_index a))) aggregates)),
        (''cell_max_index'', opt_of (map_option (\<lambda>a. VInt (int (agg_max_index a))) aggregates)),
        (''cells_present'', VInt (int (length (rt_cells rt)))),
        (''mos_temperature_celsius'', VDouble (rt_mos_temperature rt)),
        (''temperature_1_celsius'', num_of (rt_temperatures rt ! 0)),
        (''temperature_2_celsius'', num_of (rt_temperatures rt ! 1)),
        (''temperature_3_celsius'', num_of (rt_temperatures rt ! 2)),
        (''temperature_4_celsius'', num_of (rt_temperatures rt ! 3)),
        (''temperature_5_celsius'', num_of (rt_temperatures rt ! 4)),
        (''balance_current_amps'', VDouble (rt_balance_current rt)),
        (''balancing'', VBool (rt_balancing rt)),
        (''charge_mosfet_on'', VBool (rt_charge_mosfet_on rt)),
        (''discharge_mosfet_on'', VBool (rt_discharge_mosfet_on rt)),
        (''heating_on'', VBool (rt_heating_on rt)),
        (''alarms_raw'', VInt (uint (rt_sys_alarm rt))),
        (''alarms_asserted_count'', VInt (int (count_ones (rt_sys_alarm rt) + count_ones (rt_user_alarm rt)))),
        (''alarms2_raw'', VInt (uint (rt_user_alarm rt))),
        (''bms_uptime_seconds'', VInt (uint (rt_uptime_seconds rt))),
        (''protection_release_discharge_oc_seconds'', VInt (uint (pr_discharge_overcurrent (rt_protection_release rt)))),
        (''protection_release_discharge_sc_seconds'', VInt (uint (pr_discharge_short_circuit (rt_protection_release rt)))),
        (''protection_release_charge_oc_seconds'', VInt (uint (pr_charge_overcurrent (rt_protection_release rt)))),
        (''protection_release_charge_sc_seconds'', VInt (uint (pr_charge_short_circuit (rt_protection_release rt)))),
        (''protection_release_uv_seconds'', VInt (uint (pr_undervoltage (rt_protection_release rt)))),
        (''protection_release_ov_seconds'', VInt (uint (pr_overvoltage (rt_protection_release rt)))),
        (''link_connected_seconds'', VInt (wrap_i64 (int (link_connected_seconds link)))),
        (''link_frames_ok'', VInt (wrap_i64 (int (link_frames_ok link)))),
        (''link_frames_discarded'', VInt (wrap_i64 (int (link_frames_discarded link)))),
        (''link_frame_wait_seconds'', VDouble (link_wait_seconds link))]
       (record_new STATUS))"

definition cell_record :: "cell \<Rightarrow> log_record" where
  "cell_record c =
     with_field ''wire_resistance_ohms'' (VDouble (cell_resistance c))
       (with_field ''voltage_volts'' (VDouble (cell_voltage c))
         (with_attr ''cell'' (VInt (int (cell_index c))) (record_new STATUS_CELL)))"

definition alarm_record :: "string \<times> string \<Rightarrow> log_record" where
  "alarm_record alarm =
     with_field ''asserted'' (VBool True)
       (with_attr ''flag'' (VStr (snd alarm)) (with_attr ''bit'' (VStr (fst alarm)) (record_new STATUS_ALARM)))"

definition status_records :: "realtime \<Rightarrow> link \<Rightarrow> log_record list" where
  "status_records rt link =
     status_record rt link # map cell_record (rt_cells rt)
     @ map alarm_record (asserted_alarms (rt_sys_alarm rt) (rt_user_alarm rt))"

definition settings_record :: "settings \<Rightarrow> log_record" where
  "settings_record st =
      with_fields
       [(''cell_count'', VInt (int (st_cell_count st))),
        (''cell_capacity_ah'', VDouble (st_cell_capacity st)),
        (''cell_undervoltage_volts'', VDouble (st_cell_undervoltage st)),
        (''cell_undervoltage_recovery_volts'', VDouble (st_cell_undervoltage_recovery st)),
        (''cell_overvoltage_volts'', VDouble (st_cell_overvoltage st)),
        (''cell_overvoltage_recovery_volts'', VDouble (st_cell_overvoltage_recovery st)),
        (''cell_request_charge_volts'', VDouble (st_cell_request_charge st)),
        (''cell_request_float_volts'', VDouble (st_cell_request_float st)),
        (''soc_100_percent_volts'', VDouble (st_soc_100_percent st)),
        (''soc_0_percent_volts'', VDouble (st_soc_0_percent st)),
        (''system_power_off_volts'', VDouble (st_system_power_off st)),
        (''balance_trigger_delta_volts'', VDouble (st_balance_trigger_delta st)),
        (''balance_start_voltage_volts'', VDouble (st_balance_start_voltage st)),
        (''balance_current_max_amps'', VDouble (st_balance_current_max st)),
        (''balancing_enabled'', VBool (st_balancing_enabled st)),
        (''charge_enabled'', VBool (st_charge_enabled st)),
        (''discharge_enabled'', VBool (st_discharge_enabled st)),
        (''charge_overcurrent_amps'', VDouble (st_charge_overcurrent st)),
        (''charge_overcurrent_delay_seconds'', VInt (uint (st_charge_overcurrent_delay st))),
        (''charge_overcurrent_release_seconds'', VInt (uint (st_charge_overcurrent_release st))),
        (''discharge_overcurrent_amps'', VDouble (st_discharge_overcurrent st)),
        (''discharge_overcurrent_delay_seconds'', VInt (uint (st_discharge_overcurrent_delay st))),
        (''discharge_overcurrent_release_seconds'', VInt (uint (st_discharge_overcurrent_release st))),
        (''short_circuit_delay_micros'', VInt (uint (st_short_circuit_delay_micros st))),
        (''short_circuit_release_delay_seconds'', VInt (uint (st_short_circuit_release_delay st))),
        (''charge_over_temp_celsius'', VDouble (st_charge_over_temp st)),
        (''charge_over_temp_recovery_celsius'', VDouble (st_charge_over_temp_recovery st)),
        (''discharge_over_temp_celsius'', VDouble (st_discharge_over_temp st)),
        (''discharge_over_temp_recovery_celsius'', VDouble (st_discharge_over_temp_recovery st)),
        (''charge_under_temp_celsius'', VDouble (st_charge_under_temp st)),
        (''charge_under_temp_recovery_celsius'', VDouble (st_charge_under_temp_recovery st)),
        (''mos_over_temp_celsius'', VDouble (st_mos_over_temp st)),
        (''mos_over_temp_recovery_celsius'', VDouble (st_mos_over_temp_recovery st)),
        (''smart_sleep_volts'', VDouble (st_smart_sleep_voltage st)),
        (''smart_sleep_hours'', VInt (uint (st_smart_sleep_hours st))),
        (''precharge_seconds'', VInt (uint (st_precharge_seconds st))),
        (''current_range_amps'', VDouble (st_current_range st)),
        (''device_address'', VInt (uint (st_device_address st))),
        (''switch_status_raw'', VInt (uint (st_switch_status st)))]
       (record_new SETTINGS_EVENT)"

definition settings_cell_record :: "nat \<times> f64 \<Rightarrow> log_record" where
  "settings_cell_record sr =
     with_field ''connection_resistance_ohms'' (VDouble (snd sr))
       (with_attr ''cell'' (VInt (int (fst sr) + 1)) (record_new SETTINGS_CELL))"

definition settings_records :: "settings \<Rightarrow> log_record list" where
  "settings_records st =
     settings_record st # map settings_cell_record (List.enumerate 0 (st_cell_resistances st))"

definition device_attributes :: "string \<Rightarrow> string option \<Rightarrow> (string \<times> attr_value) list" where
  "device_attributes device device_name =
     [(''bms.device'', VStr device)] @
     (case device_name of Some name \<Rightarrow> [(''bms.device_name'', VStr name)] | None \<Rightarrow> [])"

section \<open>Lemmas\<close>

definition STATUS_KEYS :: "string list" where
  "STATUS_KEYS =
     [''pack_voltage_volts'', ''pack_current_amps'', ''pack_power_watts'', ''soc_percent'',
      ''soh_percent'', ''remaining_capacity_ah'', ''full_charge_capacity_ah'',
      ''cycle_capacity_ah'', ''cycle_count'', ''cell_voltage_average_volts'',
      ''cell_voltage_delta_volts'', ''cell_voltage_min_volts'', ''cell_voltage_max_volts'',
      ''cell_min_index'', ''cell_max_index'', ''cells_present'', ''mos_temperature_celsius'',
      ''temperature_1_celsius'', ''temperature_2_celsius'', ''temperature_3_celsius'',
      ''temperature_4_celsius'', ''temperature_5_celsius'', ''balance_current_amps'',
      ''balancing'', ''charge_mosfet_on'', ''discharge_mosfet_on'', ''heating_on'',
      ''alarms_raw'', ''alarms_asserted_count'', ''alarms2_raw'', ''bms_uptime_seconds'',
      ''protection_release_discharge_oc_seconds'', ''protection_release_discharge_sc_seconds'',
      ''protection_release_charge_oc_seconds'', ''protection_release_charge_sc_seconds'',
      ''protection_release_uv_seconds'', ''protection_release_ov_seconds'',
      ''link_connected_seconds'', ''link_frames_ok'', ''link_frames_discarded'',
      ''link_frame_wait_seconds'']"

definition SETTINGS_KEYS :: "string list" where
  "SETTINGS_KEYS =
     [''cell_count'', ''cell_capacity_ah'', ''cell_undervoltage_volts'',
      ''cell_undervoltage_recovery_volts'', ''cell_overvoltage_volts'',
      ''cell_overvoltage_recovery_volts'', ''cell_request_charge_volts'',
      ''cell_request_float_volts'', ''soc_100_percent_volts'', ''soc_0_percent_volts'',
      ''system_power_off_volts'', ''balance_trigger_delta_volts'',
      ''balance_start_voltage_volts'', ''balance_current_max_amps'', ''balancing_enabled'',
      ''charge_enabled'', ''discharge_enabled'', ''charge_overcurrent_amps'',
      ''charge_overcurrent_delay_seconds'', ''charge_overcurrent_release_seconds'',
      ''discharge_overcurrent_amps'', ''discharge_overcurrent_delay_seconds'',
      ''discharge_overcurrent_release_seconds'', ''short_circuit_delay_micros'',
      ''short_circuit_release_delay_seconds'', ''charge_over_temp_celsius'',
      ''charge_over_temp_recovery_celsius'', ''discharge_over_temp_celsius'',
      ''discharge_over_temp_recovery_celsius'', ''charge_under_temp_celsius'',
      ''charge_under_temp_recovery_celsius'', ''mos_over_temp_celsius'',
      ''mos_over_temp_recovery_celsius'', ''smart_sleep_volts'', ''smart_sleep_hours'',
      ''precharge_seconds'', ''current_range_amps'', ''device_address'', ''switch_status_raw'']"

lemma status_record_body:
  "rec_event_name (status_record rt link) = STATUS" "rec_attributes (status_record rt link) = []"
  "map fst (rec_body (status_record rt link)) = STATUS_KEYS"
  by (simp_all add: status_record_def record_simps STATUS_KEYS_def Let_def)

lemma settings_record_body:
  "rec_event_name (settings_record st) = SETTINGS_EVENT" "rec_attributes (settings_record st) = []"
  "map fst (rec_body (settings_record st)) = SETTINGS_KEYS"
  by (simp_all add: settings_record_def record_simps SETTINGS_KEYS_def)

lemma status_keys_distinct: "distinct STATUS_KEYS"
  unfolding STATUS_KEYS_def by simp

lemma settings_keys_distinct: "distinct SETTINGS_KEYS"
  unfolding SETTINGS_KEYS_def by simp

lemma length_asserted_alarms: "length (asserted_alarms s u) = count_ones s + count_ones u"
  by (simp add: asserted_alarms_def count_ones_def)

lemma status_record_lookups:
  "map_of (rec_body (status_record rt link)) ''cells_present'' = Some (VInt (int (length (rt_cells rt))))"
  "map_of (rec_body (status_record rt link)) ''alarms_asserted_count'' =
     Some (VInt (int (count_ones (rt_sys_alarm rt) + count_ones (rt_user_alarm rt))))"
  "map_of (rec_body (status_record rt link)) ''cell_min_index'' =
     Some (opt_of (map_option (\<lambda>a. VInt (int (agg_min_index a))) (aggregate (rt_cells rt))))"
  "map_of (rec_body (status_record rt link)) ''cell_voltage_min_volts'' =
     Some (num_of (map_option agg_minimum (aggregate (rt_cells rt))))"
  by (simp_all add: status_record_def record_simps Let_def)

lemma sub_record_simps:
  "rec_event_name (cell_record c) = STATUS_CELL"
  "rec_attributes (cell_record c) = [(''cell'', VInt (int (cell_index c)))]"
  "rec_body (cell_record c) = [(''voltage_volts'', VDouble (cell_voltage c)),
     (''wire_resistance_ohms'', VDouble (cell_resistance c))]"
  "rec_event_name (alarm_record al) = STATUS_ALARM"
  by (simp_all add: cell_record_def alarm_record_def record_simps)

lemma event_names_distinct: "distinct [STATUS, STATUS_CELL, STATUS_ALARM, SETTINGS_EVENT, SETTINGS_CELL]"
  by (simp add: STATUS_def STATUS_CELL_def STATUS_ALARM_def SETTINGS_EVENT_def SETTINGS_CELL_def)

lemma status_records_by_event:
  "filter (\<lambda>r. rec_event_name r = STATUS_CELL) (status_records rt link) = map cell_record (rt_cells rt)"
  "filter (\<lambda>r. rec_event_name r = STATUS_ALARM) (status_records rt link) =
     map alarm_record (asserted_alarms (rt_sys_alarm rt) (rt_user_alarm rt))"
  using event_names_distinct not_sym [of STATUS_CELL STATUS_ALARM]
  by (simp_all add: status_records_def status_record_body sub_record_simps filter_map comp_def)

section \<open>Properties\<close>

text \<open>
  The records of one cycle agree with each other. The status record comes first, always with
  the same keys in the same order; the number of cells it reports is the number of cell records
  and the number of alarms it reports is the number of alarm records; and the cell number it
  gives for the minimum names a cell record with exactly the voltage it reports.
\<close>

theorem status_records_consistent:
  "map fst (rec_body (hd (status_records rt link))) = STATUS_KEYS \<and> distinct STATUS_KEYS \<and>
   map_of (rec_body (hd (status_records rt link))) ''cells_present'' =
     Some (VInt (int (length (filter (\<lambda>r. rec_event_name r = STATUS_CELL) (status_records rt link))))) \<and>
   map_of (rec_body (hd (status_records rt link))) ''alarms_asserted_count'' =
     Some (VInt (int (length (filter (\<lambda>r. rec_event_name r = STATUS_ALARM) (status_records rt link))))) \<and>
   (rt_cells rt \<noteq> [] \<longrightarrow> (\<exists>r v i. r \<in> set (status_records rt link) \<and> rec_event_name r = STATUS_CELL \<and>
      map_of (rec_body (hd (status_records rt link))) ''cell_min_index'' = Some (VInt i) \<and>
      map_of (rec_body (hd (status_records rt link))) ''cell_voltage_min_volts'' = Some (VDouble v) \<and>
      rec_attributes r = [(''cell'', VInt i)] \<and> map_of (rec_body r) ''voltage_volts'' = Some (VDouble v)))"
proof -
  have hd: "hd (status_records rt link) = status_record rt link" by (simp add: status_records_def)
  have min: "\<exists>r v i. r \<in> set (status_records rt link) \<and> rec_event_name r = STATUS_CELL \<and>
      map_of (rec_body (status_record rt link)) ''cell_min_index'' = Some (VInt i) \<and>
      map_of (rec_body (status_record rt link)) ''cell_voltage_min_volts'' = Some (VDouble v) \<and>
      rec_attributes r = [(''cell'', VInt i)] \<and> map_of (rec_body r) ''voltage_volts'' = Some (VDouble v)"
    if "rt_cells rt \<noteq> []"
  proof -
    from that aggregate_None obtain a where a: "aggregate (rt_cells rt) = Some a" by fastforce
    then obtain c where "first_least cell_voltage (rt_cells rt) c" "agg_minimum a = cell_voltage c"
        "agg_min_index a = cell_index c"
      by (rule aggregate_Some)
    then have "c \<in> set (rt_cells rt)" by (auto simp: first_least_def)
    then have "cell_record c \<in> set (status_records rt link)" by (simp add: status_records_def)
    with a \<open>agg_minimum a = cell_voltage c\<close> \<open>agg_min_index a = cell_index c\<close> show ?thesis
      by (intro exI [of _ "cell_record c"] exI [of _ "cell_voltage c"] exI [of _ "int (cell_index c)"])
         (simp add: status_record_lookups sub_record_simps opt_of_def num_of_def)
  qed
  show ?thesis
    unfolding hd status_records_by_event status_record_body status_record_lookups(1,2)
    using min status_keys_distinct by (simp add: length_asserted_alarms)
qed

definition demo_realtime :: realtime where
  "demo_realtime =
     \<lparr>rt_cells = demo_cells, rt_cell_status = 9, rt_pack_voltage = 0, rt_pack_power = 0, rt_pack_current = 0,
      rt_mos_temperature = 0, rt_temperatures = replicate 5 None, rt_soc = 50, rt_soh = 100,
      rt_remaining_capacity = 0, rt_full_charge_capacity = 0, rt_cycle_count = 0, rt_cycle_capacity = 0,
      rt_balance_current = 0, rt_balancing = False, rt_charge_mosfet_on = True, rt_discharge_mosfet_on = True,
      rt_heating_on = False, rt_sys_alarm = 0, rt_user_alarm = 0, rt_uptime_seconds = 7,
      rt_protection_release =
        \<lparr>pr_discharge_overcurrent = 0, pr_discharge_short_circuit = 0, pr_charge_overcurrent = 0,
         pr_charge_short_circuit = 0, pr_undervoltage = 0, pr_overvoltage = 0\<rparr>\<rparr>"

definition demo_link :: link where
  "demo_link = \<lparr>link_connected_seconds = 1, link_frames_ok = 1, link_frames_discarded = 0, link_wait_seconds = 0\<rparr>"

theorem status_records_consistent_witness:
  "\<exists>r \<in> set (status_records demo_realtime demo_link). rec_event_name r = STATUS_CELL"
proof -
  have "rt_cells demo_realtime \<noteq> []" by (simp add: demo_realtime_def demo_cells_def)
  with status_records_consistent [of demo_realtime demo_link] show ?thesis by blast
qed

text \<open>
  A settings record has the same keys in the same order every time, and one numbered record per
  configured cell follows it.
\<close>

theorem settings_records_consistent:
  "map fst (rec_body (hd (settings_records st))) = SETTINGS_KEYS \<and> distinct SETTINGS_KEYS \<and>
   map rec_attributes (tl (settings_records st)) =
     map (\<lambda>i. [(''cell'', VInt (int i))]) [1..<Suc (length (st_cell_resistances st))]"
proof -
  let ?rs = "st_cell_resistances st"
  have one: "rec_attributes (settings_cell_record sr) = [(''cell'', VInt (int (Suc (fst sr))))]" for sr
    by (simp add: settings_cell_record_def record_simps)
  have "map rec_attributes (tl (settings_records st)) =
      map (\<lambda>sr. [(''cell'', VInt (int (Suc (fst sr))))]) (List.enumerate 0 ?rs)"
    by (simp only: settings_records_def list.sel(3) map_map comp_def one)
  also have "\<dots> = map (\<lambda>i. [(''cell'', VInt (int (Suc i)))]) (map fst (List.enumerate 0 ?rs))"
    by (simp only: map_map comp_def)
  also have "\<dots> = map (\<lambda>i. [(''cell'', VInt (int i))]) (map Suc [0..<length ?rs])"
    by (simp only: map_fst_enumerate map_map comp_def add_0)
  finally have "map rec_attributes (tl (settings_records st)) =
      map (\<lambda>i. [(''cell'', VInt (int i))]) (map Suc [0..<length ?rs])" .
  then show ?thesis
    using settings_record_body settings_keys_distinct
    by (simp only: map_Suc_upt) (simp add: settings_records_def del: upt_Suc)
qed

end
