(* ===== verification/Bms_Main.thy ===== *)
theory Bms_Main
  imports Bms_Discover Bms_Record
begin

text \<open>
  \<open>packages/bms-monitoring/src/main.rs\<close>: connecting, and the measurement loop as a state machine
  whose step is one publishing interval.  Time passes while the port is read (as the line says)
  and while a batch is published (as the environment says).  A published batch is appended to the
  log with the outcome of its publication, which has no influence on the loop.  The command line
  is in \<open>Monitor_Cli\<close>.
\<close>

section \<open>Model\<close>

definition MAX_SILENT_CYCLES :: nat where "MAX_SILENT_CYCLES = 3"
definition NANOS :: nat where "NANOS = 1000000000"
definition RETRY_PAUSE :: nat where "RETRY_PAUSE = 3 * NANOS"

record bms_options =
  bo_dev_dir :: string
  bo_interval :: nat
  bo_settings_interval :: nat
  bo_listen :: nat
  bo_frame_timeout :: nat
  bo_discovery_window :: nat
  bo_resource_attributes :: "(string \<times> attr_value) list"
  bo_dry_run :: bool
  bo_once :: bool

record bms_env =
  env_hostname :: "string option"
  env_boot_id :: "string option"
  env_by_id :: "nat \<Rightarrow> link_entry list option"
  env_publish_time :: "nat \<Rightarrow> nat"
  env_unix_nanos :: "nat \<Rightarrow> nat option"
  env_collector :: "nat \<Rightarrow> collector"

type_synonym batch = "(string \<times> attr_value) list \<times> log_record list \<times> publish_outcome"

datatype bms_error = NoDevices string | NoBmsFound | PortFailed string io_error | PushedNothing string nat

subsection \<open>Session and freshest frames\<close>

record session =
  ses_device :: string
  ses_tty :: string
  ses_connected_at :: nat
  ses_reader :: frame_reader

definition as_secs_f64 :: "nat \<Rightarrow> f64" where
  "as_secs_f64 d =
     f64_add (f64_of_int (int (d div NANOS))) (f64_div (f64_of_int (int (d mod NANOS))) (of_nat NANOS))"

definition session_link :: "session \<Rightarrow> nat \<Rightarrow> nat \<Rightarrow> link" where
  "session_link s now wait =
     \<lparr>link_connected_seconds = (now - ses_connected_at s) div NANOS,
      link_frames_ok = rd_frames_ok (ses_reader s),
      link_frames_discarded = rd_frames_discarded (ses_reader s),
      link_wait_seconds = as_secs_f64 wait\<rparr>"

definition wait_frame ::
  "(frame \<Rightarrow> bool) \<Rightarrow> session \<Rightarrow> nat \<Rightarrow> nat \<Rightarrow> line
   \<Rightarrow> (io_error, (frame \<times> nat) option) result \<times> session \<times> nat \<times> line" where
  "wait_frame acc s timeout now line =
     (let (res, reader, now', line') = read_until acc (ses_reader s) (now + timeout) now line;
          s' = s\<lparr>ses_reader := reader\<rparr>
      in case res of
           Inl e \<Rightarrow> (Inl e, s', now', line')
         | Inr found \<Rightarrow> (Inr (map_option (\<lambda>f. (f, now' - now)) found), s', now', line'))"

record freshest =
  fh_realtime :: "(frame \<times> nat) option"
  fh_settings :: "(frame \<times> nat) option"

definition freshest_accept :: "nat \<Rightarrow> frame \<Rightarrow> freshest \<Rightarrow> freshest" where
  "freshest_accept now f fh =
     (if is_realtime f then fh\<lparr>fh_realtime := Some (f, now)\<rparr>
      else if is_settings f then fh\<lparr>fh_settings := Some (f, now)\<rparr>
      else fh)"

lemma read_loop_consumes:
  "read_loop acc r deadline now line = (Inr (Some f), r', now', line') \<Longrightarrow> length line' < length line"
proof (induction line arbitrary: r now)
  case (Cons e line)
  obtain dt ev where e: "e = (dt, ev)" by fastforce
  obtain o1 r1 where "take_accepted acc (feed r (projr ev)) = (o1, r1)" by fastforce
  with Cons.prems e show ?case
    by (cases ev; cases o1) (auto simp: less_Suc_eq split: if_splits dest: Cons.IH)
qed simp

lemma take_accepted_shrinks:
  "take_accepted acc r = (Some f, r') \<Longrightarrow> length (rd_buffer r') < length (rd_buffer r)"
proof (induction acc r rule: take_accepted.induct)
  case (1 acc r)
  obtain o1 r1 where n: "next_frame r = (o1, r1)" by fastforce
  note unfold = "1.prems" [unfolded take_accepted.simps [of acc r] n]
  show ?case
  proof (cases o1)
    case None
    with unfold show ?thesis by simp
  next
    case (Some g)
    with n next_frame_shrinks have "length (rd_buffer r1) < length (rd_buffer r)" by simp
    with unfold Some "1.IH" [OF n [symmetric] Some] show ?thesis by (auto split: if_splits)
  qed
qed

lemma read_until_consumes:
  "read_until acc r deadline now line = (Inr (Some f), r', now', line') \<Longrightarrow>
   line' = line \<and> length (rd_buffer r') < length (rd_buffer r) \<or> length line' < length line"
proof -
  assume r: "read_until acc r deadline now line = (Inr (Some f), r', now', line')"
  obtain o1 r1 where t: "take_accepted acc r = (o1, r1)" by fastforce
  with r show ?thesis
    by (cases o1) (auto simp: read_until_def dest: read_loop_consumes take_accepted_shrinks)
qed

function drain_until ::
  "session \<Rightarrow> freshest \<Rightarrow> nat \<Rightarrow> nat \<Rightarrow> line
   \<Rightarrow> (io_error, unit) result \<times> session \<times> freshest \<times> nat \<times> line" where
  "drain_until s fh deadline now line =
     (if now < deadline then
        case read_until (\<lambda>_. True) (ses_reader s) deadline now line of
          (Inl e, reader, now', line') \<Rightarrow> (Inl e, s\<lparr>ses_reader := reader\<rparr>, fh, now', line')
        | (Inr (Some f), reader, now', line') \<Rightarrow>
            drain_until (s\<lparr>ses_reader := reader\<rparr>) (freshest_accept now' f fh) deadline now' line'
        | (Inr None, reader, now', line') \<Rightarrow> (Inr (), s\<lparr>ses_reader := reader\<rparr>, fh, now', line')
      else (Inr (), s, fh, now, line))"
  by pat_completeness auto
termination
  by (relation "measures [\<lambda>(s, fh, deadline, now, line). length line,
                          \<lambda>(s, fh, deadline, now, line). length (rd_buffer (ses_reader s))]")
     (auto dest: read_until_consumes [OF sym])

declare drain_until.simps [simp del]

subsection \<open>Publishing\<close>

definition SCOPE_NAME :: string where "SCOPE_NAME = ''bms-monitoring''"

definition resource_attributes ::
  "bms_options \<Rightarrow> bms_env \<Rightarrow> session \<Rightarrow> nat \<Rightarrow> (string \<times> attr_value) list" where
  "resource_attributes opts env s now =
     [(''service.name'', VStr ''bms-monitoring'')]
     @ (case env_hostname env of Some h \<Rightarrow> [(''host.name'', VStr h)] | None \<Rightarrow> [])
     @ (case env_boot_id env of Some b \<Rightarrow> [(''boot_id'', VStr b)] | None \<Rightarrow> [])
     @ device_attributes (ses_device s) (by_id_of (env_by_id env now) (ses_tty s))
     @ bo_resource_attributes opts"

definition publish :: "bms_options \<Rightarrow> bms_env \<Rightarrow> session \<Rightarrow> nat \<Rightarrow> log_record list \<Rightarrow> batch list \<Rightarrow> batch list \<times> nat" where
  "publish opts env s now records batches =
     (let resource = resource_attributes opts env s now;
          outcome = publish_batch (bo_dry_run opts) SCOPE_NAME (env_collector env now) (env_unix_nanos env now)
                      resource records
      in (batches @ [(resource, records, outcome)], now + env_publish_time env now))"

definition publish_settings ::
  "bms_options \<Rightarrow> bms_env \<Rightarrow> session \<Rightarrow> nat \<Rightarrow> frame \<Rightarrow> batch list \<Rightarrow> batch list \<times> nat" where
  "publish_settings opts env s now f batches =
     (case parse_settings f of
        Inr settings \<Rightarrow> publish opts env s now (settings_records settings) batches
      | Inl e \<Rightarrow> (batches, now))"

subsection \<open>Connecting\<close>

datatype opened = Port line | Busy | OpenFailed nat

record sweep =
  sw_entries :: "string option list option"
  sw_by_path :: "link_entry list option"
  sw_by_id :: "link_entry list option"
  sw_seed :: u64
  sw_open :: "string \<Rightarrow> opened"
  sw_overhead :: nat

fun connect_loop ::
  "nat \<Rightarrow> (string \<Rightarrow> opened) \<Rightarrow> candidate list \<Rightarrow> nat \<Rightarrow> (line \<times> candidate \<times> frame) option \<times> nat" where
  "connect_loop listen open_port [] now = (None, now)"
| "connect_loop listen open_port (c # cs) now =
     (case open_port (ca_tty c) of
        Port line \<Rightarrow>
          (case probe_port listen now line of
             (Inr (Bms f), now', line') \<Rightarrow> (Some (line', c, f), now')
           | (_, now', _) \<Rightarrow> connect_loop listen open_port cs now')
      | _ \<Rightarrow> connect_loop listen open_port cs now)"

text \<open>A sweep takes at least a nanosecond, whatever it finds.\<close>

definition connect ::
  "bms_options \<Rightarrow> sweep \<Rightarrow> nat \<Rightarrow> (bms_error, line \<times> candidate \<times> frame) result \<times> nat" where
  "connect opts sw now =
     (let all = enumerate_ports (bo_dev_dir opts) (sw_entries sw) (sw_by_path sw) (sw_by_id sw);
          start = now + Suc (sw_overhead sw)
      in if all = [] then (Inl (NoDevices (bo_dev_dir opts)), start)
         else case connect_loop (bo_listen opts) (sw_open sw) (order_candidates all (sw_seed sw)) start of
           (Some found, now') \<Rightarrow> (Inr found, now')
         | (None, now') \<Rightarrow> (Inl NoBmsFound, now'))"

lemma read_until_time:
  "read_until acc r deadline now line = (res, r', now', line') \<Longrightarrow> now \<le> now'"
  using read_until_explained by blast

lemma probe_port_time: "probe_port window now line = (res, now', line') \<Longrightarrow> now \<le> now'"
  by (auto simp: probe_port_def dest: read_until_time split: prod.splits sum.splits option.splits)

lemma connect_loop_time: "connect_loop listen op cs now = (res, now') \<Longrightarrow> now \<le> now'"
proof (induction cs arbitrary: now)
  case (Cons c cs)
  show ?case
  proof (cases "op (ca_tty c)")
    case (Port line)
    obtain p t l where p: "probe_port listen now line = (p, t, l)" using prod_cases3 by blast
    with Cons.prems Port have "now' = t \<or> connect_loop listen op cs t = (res, now')"
      by (auto split: sum.splits probe.splits)
    with Cons.IH [of t] probe_port_time [OF p] show ?thesis by auto
  qed (use Cons in simp_all)
qed simp

lemma connect_time: "connect opts sw now = (res, now') \<Longrightarrow> now < now'"
  by (auto simp: connect_def Let_def dest: connect_loop_time split: if_splits prod.splits option.splits)


text \<open>Sweeps until one finds the BMS or the window has passed.\<close>

function connect_within ::
  "bms_options \<Rightarrow> (nat \<Rightarrow> sweep) \<Rightarrow> nat \<Rightarrow> nat \<Rightarrow> nat
   \<Rightarrow> (bms_error, line \<times> candidate \<times> frame) result \<times> nat" where
  "connect_within opts sweeps i deadline now =
     (case connect opts (sweeps i) now of
        (Inr found, now') \<Rightarrow> (Inr found, now')
      | (Inl reason, now') \<Rightarrow>
          if deadline < now' then (Inl reason, now')
          else connect_within opts sweeps (Suc i) deadline (now' + min RETRY_PAUSE (deadline - now')))"
  by pat_completeness auto
termination
  by (relation "measure (\<lambda>(opts, sweeps, i, deadline, now). Suc deadline - now)")
     (auto dest!: connect_time [OF sym])

declare connect_within.simps [simp del]

subsection \<open>The measurement loop\<close>

record loop_state =
  ls_session :: session
  ls_freshest :: freshest
  ls_silent :: nat
  ls_last_settings :: nat
  ls_started :: nat
  ls_tick :: nat
  ls_now :: nat
  ls_line :: line
  ls_batches :: "batch list"

text \<open>
  When a tick is due.  The counter is cast to 32 bits before it is incremented; instants have no
  upper end here, where the multiplication and the addition would panic beyond theirs.
\<close>

definition publish_at :: "bms_options \<Rightarrow> loop_state \<Rightarrow> nat" where
  "publish_at opts st =
     ls_started st + bo_interval opts * unat (of_nat (ls_tick st) + 1 :: u32)"

definition fresh :: "nat \<Rightarrow> nat \<Rightarrow> (frame \<times> nat) option \<Rightarrow> (frame \<times> nat) option" where
  "fresh timeout now kept =
     (case kept of
        Some (f, arrived) \<Rightarrow> if now - arrived \<le> timeout then Some (f, arrived) else None
      | None \<Rightarrow> None)"

text \<open>The part of a tick that reads: the port is drained until the tick is due.\<close>

definition tick_drain :: "bms_options \<Rightarrow> loop_state \<Rightarrow> (bms_error, loop_state) result" where
  "tick_drain opts st =
     (let (res, s, fh, now, line) =
            drain_until (ls_session st) (ls_freshest st) (publish_at opts st) (ls_now st) (ls_line st)
      in case res of
           Inl e \<Rightarrow> Inl (PortFailed (ses_device s) e)
         | Inr _ \<Rightarrow> Inr (st\<lparr>ls_session := s, ls_freshest := fh, ls_now := now, ls_line := line\<rparr>))"

text \<open>The part that publishes the status, or counts a silent cycle.\<close>

definition tick_status :: "bms_options \<Rightarrow> bms_env \<Rightarrow> loop_state \<Rightarrow> (bms_error, loop_state) result" where
  "tick_status opts env st =
     (case fresh (bo_frame_timeout opts) (ls_now st) (fh_realtime (ls_freshest st)) of
        Some (f, arrived) \<Rightarrow>
          (case parse_realtime f of
             Inr rt \<Rightarrow>
               (let lk = session_link (ls_session st) (ls_now st) (ls_now st - arrived);
                    (batches, now) = publish opts env (ls_session st) (ls_now st)
                                       (status_records rt lk) (ls_batches st)
                in Inr (st\<lparr>ls_silent := 0, ls_now := now, ls_batches := batches\<rparr>))
           | Inl reason \<Rightarrow> Inr (st\<lparr>ls_silent := 0\<rparr>))
      | None \<Rightarrow>
          (let silent = ls_silent st + 1
           in if silent \<ge> MAX_SILENT_CYCLES then Inl (PushedNothing (ses_device (ls_session st)) silent)
              else Inr (st\<lparr>ls_silent := silent\<rparr>)))"

text \<open>The settings are published again when they are due and a fresh frame was seen.\<close>

definition tick_settings :: "bms_options \<Rightarrow> bms_env \<Rightarrow> loop_state \<Rightarrow> loop_state" where
  "tick_settings opts env st =
     (if ls_now st - ls_last_settings st \<ge> bo_settings_interval opts then
        case fresh (bo_frame_timeout opts) (ls_now st) (fh_settings (ls_freshest st)) of
          Some (f, arrived) \<Rightarrow>
            (let (batches, now) = publish_settings opts env (ls_session st) (ls_now st) f (ls_batches st)
             in st\<lparr>ls_last_settings := now, ls_now := now, ls_batches := batches\<rparr>)
        | None \<Rightarrow> st
      else st)"

text \<open>\<open>Inl\<close> carries the value \<open>run\<close> returns, \<open>Inr\<close> the state the next tick starts from.\<close>

definition bms_tick ::
  "bms_options \<Rightarrow> bms_env \<Rightarrow> loop_state \<Rightarrow> ((bms_error, batch list) result, loop_state) result" where
  "bms_tick opts env st =
     (case res_bind (tick_drain opts st) (tick_status opts env) of
        Inl e \<Rightarrow> Inl (Inl e)
      | Inr st' \<Rightarrow>
          if bo_once opts then Inl (Inr (ls_batches st'))
          else Inr ((tick_settings opts env st')\<lparr>ls_tick := ls_tick st + 1\<rparr>))"

fun bms_loop ::
  "bms_options \<Rightarrow> bms_env \<Rightarrow> nat \<Rightarrow> loop_state \<Rightarrow> ((bms_error, batch list) result, loop_state) result" where
  "bms_loop opts env 0 st = Inr st"
| "bms_loop opts env (Suc n) st =
     (case bms_tick opts env st of Inl exit \<Rightarrow> Inl exit | Inr st' \<Rightarrow> bms_loop opts env n st')"

definition loop_start :: "session \<Rightarrow> frame \<Rightarrow> nat \<Rightarrow> line \<Rightarrow> batch list \<Rightarrow> loop_state" where
  "loop_start s first now line batches =
     \<lparr>ls_session = s,
      ls_freshest = freshest_accept now first \<lparr>fh_realtime = None, fh_settings = None\<rparr>,
      ls_silent = 0, ls_last_settings = now, ls_started = now, ls_tick = 0, ls_now = now,
      ls_line = line, ls_batches = batches\<rparr>"

definition bms_begin ::
  "bms_options \<Rightarrow> bms_env \<Rightarrow> (nat \<Rightarrow> sweep) \<Rightarrow> nat \<Rightarrow> (bms_error, loop_state) result" where
  "bms_begin opts env sweeps now =
     (case connect_within opts sweeps 0 (now + bo_discovery_window opts) now of
        (Inl e, _) \<Rightarrow> Inl e
      | (Inr (line, c, first), now1) \<Rightarrow>
          (let s = \<lparr>ses_device = ca_path_id c, ses_tty = ca_tty c, ses_connected_at = now1,
                    ses_reader = reader_default\<rparr>;
               (res, s', now2, line') = wait_frame is_settings s (bo_frame_timeout opts) now1 line
           in case res of
                Inl e \<Rightarrow> Inl (PortFailed (ses_device s') e)
              | Inr (Some (f, _)) \<Rightarrow>
                  (let (batches, now3) = publish_settings opts env s' now2 f []
                   in Inr (loop_start s' first now3 line' batches))
              | Inr None \<Rightarrow> Inr (loop_start s' first now2 line' [])))"

text \<open>\<open>run\<close>, observed for \<open>n\<close> ticks.\<close>

definition bms_run ::
  "bms_options \<Rightarrow> bms_env \<Rightarrow> (nat \<Rightarrow> sweep) \<Rightarrow> nat \<Rightarrow> nat
   \<Rightarrow> ((bms_error, batch list) result, loop_state) result" where
  "bms_run opts env sweeps n now =
     (case bms_begin opts env sweeps now of
        Inl e \<Rightarrow> Inl (Inl e)
      | Inr st \<Rightarrow> bms_loop opts env n st)"

end
