(* ===== verification/Bms_Loop.thy ===== *)
theory Bms_Loop
  imports Bms_Main "HOL-Library.AList_Mapping"
begin

text \<open>
  What the measurement loop of \<open>packages/bms-monitoring/src/main.rs\<close> guarantees, over the
  definitions of \<open>Bms_Main\<close>: the invariant of its state, what it publishes, when it gives up and
  how it connects.
\<close>

section \<open>Draining the port\<close>

text \<open>How long the reads of a stretch of the line take.\<close>

definition line_time :: "line \<Rightarrow> nat" where
  "line_time l = sum_list (map fst l)"

lemma line_time_append [simp]: "line_time (a @ b) = line_time a + line_time b"
  by (simp add: line_time_def)

definition last_where :: "('a \<Rightarrow> bool) \<Rightarrow> 'a list \<Rightarrow> 'a option \<Rightarrow> 'a option" where
  "last_where P xs old = (case filter P xs of [] \<Rightarrow> old | ys \<Rightarrow> Some (last ys))"

lemma last_where_Cons:
  "last_where P (x # xs) old = last_where P xs (if P x then Some x else old)"
  by (auto simp: last_where_def split: list.splits)

lemma last_where_Nil [simp]: "last_where P [] old = old"
  by (simp add: last_where_def)

lemma realtime_not_settings: "is_realtime f \<Longrightarrow> \<not> is_settings f"
  by (simp add: is_realtime_def is_settings_def REALTIME_def SETTINGS_def)

lemma freshest_accept_fst:
  "map_option fst (fh_realtime (freshest_accept t f fh)) =
     (if is_realtime f then Some f else map_option fst (fh_realtime fh))"
  "map_option fst (fh_settings (freshest_accept t f fh)) =
     (if is_settings f then Some f else map_option fst (fh_settings fh))"
  by (auto simp: freshest_accept_def realtime_not_settings)

definition drains ::
  "session \<Rightarrow> freshest \<Rightarrow> frame list \<Rightarrow> byte list \<Rightarrow> session \<Rightarrow> freshest \<Rightarrow> bool" where
  "drains s fh fs bytes s' fh' \<longleftrightarrow>
     (\<forall>x. outlook (ses_reader s) (bytes @ x) = fs @ outlook (ses_reader s') x) \<and>
     map_option fst (fh_realtime fh') = last_where is_realtime fs (map_option fst (fh_realtime fh)) \<and>
     map_option fst (fh_settings fh') = last_where is_settings fs (map_option fst (fh_settings fh))"

lemma drains_step:
  assumes "\<And>x. outlook (ses_reader s) (b @ x) = f # outlook (ses_reader s1) x"
    and "drains s1 (freshest_accept t f fh) fs c s' fh'"
  shows "drains s fh (f # fs) (b @ c) s' fh'"
  using assms by (simp add: drains_def last_where_Cons freshest_accept_fst)

lemma explains_any:
  "explains (\<lambda>_. True) r b (Inr (Some f)) r' \<Longrightarrow> outlook r (b @ x) = f # outlook r' x"
  "explains (\<lambda>_. True) r b (Inr None) r' \<Longrightarrow> outlook r (b @ x) = outlook r' x"
  "explains (\<lambda>_. True) r b (Inl e) r' \<Longrightarrow> outlook r (b @ x) = outlook r' x"
  by (auto simp: explains_def)

lemma drain_until_drains:
  "drain_until s fh deadline now line = (res, s', fh', now', line') \<Longrightarrow>
   \<exists>used fs. line = used @ line' \<and> drains s fh fs (line_bytes used) s' fh' \<and>
     now \<le> now' \<and> (res = Inr () \<longrightarrow> deadline \<le> now') \<and> s'\<lparr>ses_reader := ses_reader s\<rparr> = s"
proof (induction s fh deadline now line rule: drain_until.induct)
  case (1 s fh deadline now line)
  show ?case
  proof (cases "now < deadline")
    case False
    with "1.prems" show ?thesis
      by (intro exI [of _ "[]"]) (auto simp: drain_until.simps [of s fh] drains_def)
  next
    case True
    obtain out r1 t l where r: "read_until (\<lambda>_. True) (ses_reader s) deadline now line = (out, r1, t, l)"
      using prod_cases4 by blast
    note unfold = "1.prems" [unfolded drain_until.simps [of s fh] r]
    from read_until_explained [OF r] obtain used where u: "line = used @ l"
      "explains (\<lambda>_. True) (ses_reader s) (line_bytes used) out r1" "now \<le> t" "out = Inr None \<longrightarrow> deadline \<le> t"
      by blast
    consider e where "out = Inl e" | "out = Inr None" | f where "out = Inr (Some f)"
      by (metis option.exhaust sumE)
    then show ?thesis
    proof cases
      case (1 e)
      with unfold True u show ?thesis
        by (intro exI [of _ used] exI [of _ "[]"]) (auto simp: drains_def explains_any)
    next
      case 2
      with unfold True u show ?thesis
        by (intro exI [of _ used] exI [of _ "[]"]) (auto simp: drains_def explains_any)
    next
      case (3 f)
      with unfold True have "drain_until (s\<lparr>ses_reader := r1\<rparr>) (freshest_accept t f fh) deadline t l =
          (res, s', fh', now', line')" by simp
      from "1.IH" [OF True r [symmetric] 3 refl refl refl this] obtain used' fs where
        "l = used' @ line'" "drains (s\<lparr>ses_reader := r1\<rparr>) (freshest_accept t f fh) fs (line_bytes used') s' fh'"
        "t \<le> now'" "res = Inr () \<longrightarrow> deadline \<le> now'"
        "s'\<lparr>ses_reader := r1\<rparr> = s\<lparr>ses_reader := r1\<rparr>"
        by auto
      moreover from this(5) have "s'\<lparr>ses_reader := ses_reader s\<rparr> = s"
        by (metis session.surjective session.update_convs(4) session.ext_inject)
      moreover have "drains s fh (f # fs) (line_bytes used @ line_bytes used') s' fh'"
        using u(2) 3 by (intro drains_step [OF _ calculation(2)]) (simp add: explains_any)
      ultimately show ?thesis using u by (intro exI [of _ "used @ used'"] exI [of _ "f # fs"]) simp
    qed
  qed
qed


section \<open>The loop invariant\<close>

definition checked :: "frame \<Rightarrow> bool" where
  "checked f \<longleftrightarrow> length (fr_data f) = FRAME_LEN \<and> take 4 (fr_data f) = HEADER \<and>
     fr_code f = fr_data f ! 4 \<and> checksum (fr_data f) = fr_data f ! CHECKSUM_OFFSET"

definition kept_ok :: "(frame \<Rightarrow> bool) \<Rightarrow> nat \<Rightarrow> (frame \<times> nat) option \<Rightarrow> bool" where
  "kept_ok P now kept \<longleftrightarrow> (case kept of None \<Rightarrow> True | Some (f, t) \<Rightarrow> P f \<and> checked f \<and> t \<le> now)"

definition freshest_ok :: "nat \<Rightarrow> freshest \<Rightarrow> bool" where
  "freshest_ok now fh \<longleftrightarrow> kept_ok is_realtime now (fh_realtime fh) \<and> kept_ok is_settings now (fh_settings fh)"

definition loop_ok :: "bms_options \<Rightarrow> loop_state \<Rightarrow> bool" where
  "loop_ok opts st \<longleftrightarrow>
     ls_silent st < MAX_SILENT_CYCLES \<and> freshest_ok (ls_now st) (ls_freshest st) \<and>
     ls_last_settings st \<le> ls_now st \<and> ls_started st \<le> ls_now st \<and>
     accounted (ses_reader (ls_session st))"

lemma frames_of_checked: "f \<in> set (frames_of bs) \<Longrightarrow> checked f"
  using frames_of_sound unfolding checked_def by blast

lemma explains_checked: "explains acc r b (Inr (Some f)) r' \<Longrightarrow> checked f \<and> acc f"
proof -
  assume "explains acc r b (Inr (Some f)) r'"
  then have "find acc (outlook r b) = Some f" by (rule explains_find)
  then have "f \<in> set (outlook r b)" "acc f" by (auto simp: find_Some_iff)
  then show ?thesis using frames_of_checked by blast
qed

lemma read_until_checked:
  "read_until acc r deadline now line = (Inr (Some f), r', now', line') \<Longrightarrow> checked f \<and> acc f"
  using read_until_explained explains_checked by blast

lemma kept_ok_mono: "kept_ok P now kept \<Longrightarrow> now \<le> now' \<Longrightarrow> kept_ok P now' kept"
  by (auto simp: kept_ok_def split: option.splits)

lemma freshest_ok_mono: "freshest_ok now fh \<Longrightarrow> now \<le> now' \<Longrightarrow> freshest_ok now' fh"
  by (auto simp: freshest_ok_def intro: kept_ok_mono)

lemma freshest_ok_accept: "freshest_ok now fh \<Longrightarrow> checked f \<Longrightarrow> freshest_ok now (freshest_accept now f fh)"
  by (simp add: freshest_ok_def freshest_accept_def kept_ok_def)

lemma drain_until_ok:
  "drain_until s fh deadline now line = (res, s', fh', now', line') \<Longrightarrow>
   freshest_ok now fh \<Longrightarrow> accounted (ses_reader s) \<Longrightarrow> freshest_ok now' fh' \<and> accounted (ses_reader s')"
proof (induction s fh deadline now line rule: drain_until.induct)
  case (1 s fh deadline now line)
  show ?case
  proof (cases "now < deadline")
    case True
    obtain out r1 t l where r: "read_until (\<lambda>_. True) (ses_reader s) deadline now line = (out, r1, t, l)"
      using prod_cases4 by blast
    note unfold = "1.prems"(1) [unfolded drain_until.simps [of s fh] r]
    note ok = read_until_counts [OF r "1.prems"(3)] freshest_ok_mono [OF "1.prems"(2) read_until_time [OF r]]
    consider e where "out = Inl e" | "out = Inr None" | f where "out = Inr (Some f)"
      by (metis option.exhaust sumE)
    then show ?thesis
    proof cases
      case (3 f)
      with r have "checked f" using read_until_checked by blast
      with 3 unfold True ok show ?thesis
        by (intro "1.IH" [OF True r [symmetric] 3 refl refl refl]) (auto intro: freshest_ok_accept)
    qed (use unfold True ok in auto)
  qed (use "1.prems" in \<open>simp add: drain_until.simps [of s fh]\<close>)
qed

lemma tick_drain_ok:
  assumes "tick_drain opts st = Inr st'" and "loop_ok opts st"
  shows "loop_ok opts st' \<and> publish_at opts st \<le> ls_now st' \<and> ls_tick st' = ls_tick st \<and> ls_started st' = ls_started st"
proof -
  obtain res s fh now line where d: "drain_until (ls_session st) (ls_freshest st) (publish_at opts st) (ls_now st) (ls_line st)
      = (res, s, fh, now, line)"
    using prod_cases5 by blast
  with assms(1) have st': "st' = st\<lparr>ls_session := s, ls_freshest := fh, ls_now := now, ls_line := line\<rparr>"
    and res: "res = Inr ()"
    by (auto simp: tick_drain_def split: sum.splits)
  have "freshest_ok now fh \<and> accounted (ses_reader s)"
    using assms(2) by (intro drain_until_ok [OF d]) (auto simp: loop_ok_def)
  moreover have "ls_now st \<le> now \<and> publish_at opts st \<le> now" using drain_until_drains [OF d] res by blast
  ultimately show ?thesis using assms(2) by (auto simp: st' loop_ok_def)
qed


lemma tick_status_ok:
  assumes "tick_status opts env st = Inr st'" and "loop_ok opts st"
  shows "loop_ok opts st' \<and> ls_now st \<le> ls_now st' \<and> ls_tick st' = ls_tick st \<and> ls_started st' = ls_started st"
proof -
  have "freshest_ok (ls_now st + d) (ls_freshest st)" for d
    using assms(2) freshest_ok_mono [of "ls_now st" "ls_freshest st" "ls_now st + d"] by (simp add: loop_ok_def)
  with assms show ?thesis
    by (auto simp: tick_status_def loop_ok_def MAX_SILENT_CYCLES_def Let_def publish_def
        split: option.splits if_splits sum.splits)
qed

lemma publish_settings_time: "publish_settings opts env s now f batches = (batches', now') \<Longrightarrow> now \<le> now'"
  by (auto simp: publish_settings_def publish_def Let_def split: sum.splits)

lemma tick_settings_ok:
  assumes "loop_ok opts st"
  shows "loop_ok opts (tick_settings opts env st) \<and> ls_now st \<le> ls_now (tick_settings opts env st) \<and>
    ls_tick (tick_settings opts env st) = ls_tick st \<and> ls_started (tick_settings opts env st) = ls_started st"
  using assms
  by (auto simp: tick_settings_def loop_ok_def intro: freshest_ok_mono dest: publish_settings_time
      split: option.splits prod.splits)

lemma bms_tick_ok:
  assumes "bms_tick opts env st = Inr st'" and "loop_ok opts st"
  shows "loop_ok opts st' \<and> publish_at opts st \<le> ls_now st' \<and> ls_tick st' = ls_tick st + 1 \<and> ls_started st' = ls_started st"
proof -
  from assms(1) obtain st1 st2 where d: "tick_drain opts st = Inr st1" "tick_status opts env st1 = Inr st2"
    and st': "st' = (tick_settings opts env st2)\<lparr>ls_tick := ls_tick st + 1\<rparr>"
    by (auto simp: bms_tick_def res_bind_def split: sum.splits if_splits)
  note one = tick_drain_ok [OF d(1) assms(2)]
  note two = tick_status_ok [OF d(2)]
  have "loop_ok opts st2" "publish_at opts st \<le> ls_now st2" "ls_started st2 = ls_started st" using one two by auto
  with tick_settings_ok [OF this(1), of env] show ?thesis by (auto simp: st' loop_ok_def)
qed

lemma bms_tick_time:
  assumes "bms_tick opts env st = Inr st'" and "loop_ok opts st"
  shows "ls_now st \<le> ls_now st'"
proof -
  from assms(1) obtain st1 st2 where d: "tick_drain opts st = Inr st1" "tick_status opts env st1 = Inr st2"
    and st': "st' = (tick_settings opts env st2)\<lparr>ls_tick := ls_tick st + 1\<rparr>"
    by (auto simp: bms_tick_def res_bind_def split: sum.splits if_splits)
  from d(1) have "ls_now st \<le> ls_now st1"
    by (auto simp: tick_drain_def dest!: drain_until_drains split: prod.splits sum.splits)
  moreover note tick_status_ok [OF d(2) conjunct1 [OF tick_drain_ok [OF d(1) assms(2)]]]
  moreover from this have "ls_now st2 \<le> ls_now (tick_settings opts env st2)" by (blast dest: tick_settings_ok)
  ultimately show ?thesis by (simp add: st')
qed

lemma loop_start_ok:
  assumes "checked first" "accounted (ses_reader s)"
  shows "loop_ok opts (loop_start s first now line batches)"
proof -
  have "freshest_ok now (freshest_accept now first \<lparr>fh_realtime = None, fh_settings = None\<rparr>)"
    using assms(1) by (intro freshest_ok_accept) (simp_all add: freshest_ok_def kept_ok_def)
  with assms show ?thesis by (simp add: loop_ok_def loop_start_def MAX_SILENT_CYCLES_def)
qed

section \<open>Connecting\<close>

lemma probe_port_frame: "probe_port w now line = (Inr (Bms f), now', line') \<Longrightarrow> checked f \<and> is_realtime f"
  by (auto simp: probe_port_def dest: read_until_checked split: prod.splits sum.splits option.splits if_splits)

lemma connect_loop_frame:
  "connect_loop listen op cs now = (Some (line, c, f), now') \<Longrightarrow> checked f \<and> is_realtime f \<and> c \<in> set cs"
proof (induction cs arbitrary: now)
  case (Cons d cs)
  show ?case
  proof (cases "op (ca_tty d)")
    case (Port l)
    obtain p t k where p: "probe_port listen now l = (p, t, k)" using prod_cases3 by blast
    with Cons.prems Port probe_port_frame [of listen now l f t k] Cons.IH [of t] show ?thesis
      by (auto split: sum.splits probe.splits)
  qed (use Cons in auto)
qed simp

lemma connect_frame: "connect opts sw now = (Inr (line, c, f), now') \<Longrightarrow> checked f \<and> is_realtime f"
  by (auto simp: connect_def Let_def dest!: connect_loop_frame split: if_splits prod.splits option.splits)

definition no_bms :: "nat \<Rightarrow> nat \<Rightarrow> opened \<Rightarrow> bool" where
  "no_bms listen t d \<longleftrightarrow> (case d of Port l \<Rightarrow> \<forall>f. fst (probe_port listen t l) \<noteq> Inr (Bms f) | _ \<Rightarrow> True)"

lemma connect_loop_first:
  "connect_loop listen op cs now = (Some (line, c, f), now') \<Longrightarrow>
   \<exists>pre post t l. cs = pre @ c # post \<and> op (ca_tty c) = Port l \<and>
     probe_port listen t l = (Inr (Bms f), now', line) \<and> (\<forall>d \<in> set pre. \<exists>t. no_bms listen t (op (ca_tty d)))"
proof (induction cs arbitrary: now)
  case (Cons d cs)
  have rest: ?case if "no_bms listen now (op (ca_tty d))"
    and "connect_loop listen op cs t = (Some (line, c, f), now')" for t
  proof -
    from Cons.IH [OF that(2)] obtain pre post u l where "cs = pre @ c # post" "op (ca_tty c) = Port l"
      "probe_port listen u l = (Inr (Bms f), now', line)" "\<forall>d \<in> set pre. \<exists>t. no_bms listen t (op (ca_tty d))" by blast
    with that(1) show ?thesis by (intro exI [of _ "d # pre"] exI) auto
  qed
  show ?case
  proof (cases "op (ca_tty d)")
    case (Port l)
    obtain p t k where p: "probe_port listen now l = (p, t, k)" using prod_cases3 by blast
    show ?thesis
    proof (cases "\<exists>g. p = Inr (Bms g)")
      case True
      with Cons.prems Port p have "c = d" "probe_port listen now l = (Inr (Bms f), now', line)" by auto
      with Port show ?thesis by (intro exI [of _ "[]"] exI [of _ cs]) auto
    next
      case False
      with Cons.prems Port p show ?thesis
        by (intro rest [of t]) (auto simp: no_bms_def split: sum.splits probe.splits)
    qed
  qed (use Cons.prems rest in \<open>auto simp: no_bms_def\<close>)
qed simp

lemma connect_within_result:
  "connect_within opts sweeps i deadline now = (res, now') \<Longrightarrow>
   \<exists>j t. i \<le> j \<and> now \<le> t \<and> connect opts (sweeps j) t = (res, now') \<and> (isl res \<longrightarrow> deadline < now')"
proof (induction opts sweeps i deadline now rule: connect_within.induct)
  case (1 opts sweeps i deadline now)
  obtain out t where c: "connect opts (sweeps i) now = (out, t)" by fastforce
  note unfold = "1.prems" [unfolded connect_within.simps [of opts sweeps i] c]
  show ?case
  proof (cases "\<exists>e. out = Inl e \<and> \<not> deadline < t")
    case True
    then obtain e where e: "out = Inl e" "\<not> deadline < t" by blast
    with unfold "1.IH" [OF c [symmetric] e] connect_time [OF c] show ?thesis
      by simp (metis Suc_leD add_leD1 less_imp_le order_trans)
  next
    case False
    with unfold c show ?thesis by (intro exI [of _ i] exI [of _ now]) (auto split: sum.splits if_splits)
  qed
qed

lemma bms_begin_ok: "bms_begin opts env sweeps now = Inr st \<Longrightarrow> loop_ok opts st \<and> ls_tick st = 0"
proof -
  assume b: "bms_begin opts env sweeps now = Inr st"
  obtain res now1 where c: "connect_within opts sweeps 0 (now + bo_discovery_window opts) now = (res, now1)" by fastforce
  with b obtain line ca first where res: "res = Inr (line, ca, first)"
    by (auto simp: bms_begin_def split: sum.splits)
  from connect_within_result [OF c] res have ok: "checked first" by (auto dest: connect_frame)
  let ?s = "\<lparr>ses_device = ca_path_id ca, ses_tty = ca_tty ca, ses_connected_at = now1, ses_reader = reader_default\<rparr>"
  obtain out r t l where r: "read_until is_settings reader_default (now1 + bo_frame_timeout opts) now1 line = (out, r, t, l)"
    using prod_cases4 by blast
  note acc = read_until_counts [OF r accounted_default(1)]
  let ?s' = "?s\<lparr>ses_reader := r\<rparr>"
  consider e where "out = Inl e" | "out = Inr None" | f where "out = Inr (Some f)"
    by (metis option.exhaust sumE)
  then show ?thesis
  proof cases
    case 1
    with b c res r show ?thesis by (simp add: bms_begin_def wait_frame_def)
  next
    case 2
    with b c res r have "st = loop_start ?s' first t l []" by (simp add: bms_begin_def wait_frame_def)
    with ok acc show ?thesis by (auto intro!: loop_start_ok) (simp add: loop_start_def)
  next
    case (3 f)
    obtain bs n where p: "publish_settings opts env ?s' t f [] = (bs, n)" by fastforce
    with b c res r 3 have "st = loop_start ?s' first n l bs" by (simp add: bms_begin_def wait_frame_def)
    then show ?thesis using ok acc by (auto intro!: loop_start_ok) (simp add: loop_start_def)
  qed
qed


section \<open>A line that goes dead\<close>

definition dead :: "loop_state \<Rightarrow> bool" where
  "dead st \<longleftrightarrow> ls_line st = [] \<and> frames_of (rd_buffer (ses_reader (ls_session st))) = []"

lemma read_until_dead:
  assumes "frames_of (rd_buffer r) = []"
  shows "\<exists>r'. read_until acc r deadline now [] = (Inr None, r', max now deadline, []) \<and> frames_of (rd_buffer r') = []"
proof -
  obtain o1 r1 where t: "take_accepted acc r = (o1, r1)" by fastforce
  from take_accepted_outlook [OF t] obtain d where
    c: "case o1 of Some f \<Rightarrow> \<forall>x. outlook r x = d @ f # outlook r1 x | None \<Rightarrow> \<forall>x. outlook r x = d @ outlook r1 x"
    by (auto split: option.splits)
  with assms have "o1 = None" by (cases o1) (auto dest: spec [of _ "[]"])
  with c assms have "frames_of (rd_buffer r1) = []" by (auto dest: spec [of _ "[]"])
  with \<open>o1 = None\<close> t show ?thesis by (simp add: read_until_def)
qed

lemma drain_until_dead:
  assumes "frames_of (rd_buffer (ses_reader s)) = []"
  shows "\<exists>r'. drain_until s fh deadline now [] = (Inr (), s\<lparr>ses_reader := r'\<rparr>, fh, max now deadline, []) \<and>
    frames_of (rd_buffer r') = []"
proof (cases "now < deadline")
  case True
  from read_until_dead [OF assms] obtain r' where
    "read_until (\<lambda>_. True) (ses_reader s) deadline now [] = (Inr None, r', max now deadline, [])"
    "frames_of (rd_buffer r') = []" by blast
  with True show ?thesis by (auto simp: drain_until.simps [of s fh])
next
  case False
  then show ?thesis using assms
    by (intro exI [of _ "ses_reader s"]) (auto simp: drain_until.simps [of s fh] max_def)
qed

definition stale :: "bms_options \<Rightarrow> nat \<Rightarrow> loop_state \<Rightarrow> bool" where
  "stale opts t st \<longleftrightarrow> fresh (bo_frame_timeout opts) t (fh_realtime (ls_freshest st)) = None"

lemma stale_mono: "stale opts t st \<Longrightarrow> t \<le> t' \<Longrightarrow> stale opts t' st"
  by (auto simp: stale_def fresh_def split: option.splits if_splits)

abbreviation gave_up :: "loop_state \<Rightarrow> (bms_error, batch list) result" where
  "gave_up st \<equiv> Inl (PushedNothing (ses_device (ls_session st)) MAX_SILENT_CYCLES)"

lemma tick_settings_keeps:
  "ls_silent (tick_settings opts env st) = ls_silent st" "ls_session (tick_settings opts env st) = ls_session st"
  "ls_line (tick_settings opts env st) = ls_line st" "ls_freshest (tick_settings opts env st) = ls_freshest st"
  by (auto simp: tick_settings_def split: option.splits prod.splits)

lemma tick_status_keeps:
  assumes "tick_status opts env st = Inr st'"
  shows "ls_session st' = ls_session st" "ls_line st' = ls_line st" "ls_freshest st' = ls_freshest st"
    "stale opts (ls_now st) st \<Longrightarrow> ls_silent st' = ls_silent st + 1"
  using assms
  by (auto simp: tick_status_def Let_def publish_def stale_def split: option.splits if_splits sum.splits prod.splits)

lemma bms_tick_dead:
  assumes "dead st" "loop_ok opts st" "\<not> bo_once opts"
  shows "bms_tick opts env st = Inl (gave_up st) \<or>
    (\<exists>st'. bms_tick opts env st = Inr st' \<and> dead st' \<and> ls_freshest st' = ls_freshest st \<and>
       ses_device (ls_session st') = ses_device (ls_session st) \<and>
       (stale opts (max (ls_now st) (publish_at opts st)) st \<longrightarrow> ls_silent st' = ls_silent st + 1))"
proof -
  from assms(1) obtain r' where d: "tick_drain opts st =
      Inr (st\<lparr>ls_session := (ls_session st)\<lparr>ses_reader := r'\<rparr>, ls_now := max (ls_now st) (publish_at opts st),
        ls_line := []\<rparr>)"
      "frames_of (rd_buffer r') = []"
    using drain_until_dead [of "ls_session st" "ls_freshest st" "publish_at opts st" "ls_now st"]
    by (auto simp: dead_def tick_drain_def)
  let ?st1 = "st\<lparr>ls_session := (ls_session st)\<lparr>ses_reader := r'\<rparr>, ls_now := max (ls_now st) (publish_at opts st),
    ls_line := []\<rparr>"
  show ?thesis
  proof (cases "tick_status opts env ?st1")
    case (Inl e)
    with assms(2) have "e = PushedNothing (ses_device (ls_session st)) MAX_SILENT_CYCLES"
      by (auto simp: tick_status_def loop_ok_def Let_def MAX_SILENT_CYCLES_def publish_def
          split: option.splits if_splits sum.splits prod.splits)
    with d Inl show ?thesis by (simp add: bms_tick_def)
  next
    case (Inr st2)
    have "stale opts (max (ls_now st) (publish_at opts st)) st \<longrightarrow> ls_silent st2 = ls_silent st + 1"
      using tick_status_keeps(4) [OF Inr] by (simp add: stale_def)
    with d Inr assms tick_status_keeps(1-3) [OF Inr] show ?thesis
      by (simp add: bms_tick_def tick_settings_keeps dead_def)
  qed
qed

lemma bms_loop_stale:
  "dead st \<Longrightarrow> loop_ok opts st \<Longrightarrow> \<not> bo_once opts \<Longrightarrow> stale opts (ls_now st) st \<Longrightarrow>
   MAX_SILENT_CYCLES \<le> ls_silent st + n \<Longrightarrow> bms_loop opts env n st = Inl (gave_up st)"
proof (induction n arbitrary: st)
  case 0
  then show ?case by (simp add: loop_ok_def)
next
  case (Suc n)
  have st: "stale opts (max (ls_now st) (publish_at opts st)) st" using Suc.prems(4) by (rule stale_mono) simp
  show ?case
  proof (cases "bms_tick opts env st")
    case (Inl e)
    with bms_tick_dead [OF Suc.prems(1,2,3), of env] show ?thesis by auto
  next
    case (Inr st')
    with bms_tick_dead [OF Suc.prems(1,2,3), of env] st have st': "dead st'" "ls_freshest st' = ls_freshest st"
      "ses_device (ls_session st') = ses_device (ls_session st)" "ls_silent st' = ls_silent st + 1"
      by auto
    have ok: "loop_ok opts st' \<and> publish_at opts st \<le> ls_now st'" "ls_now st \<le> ls_now st'"
      using bms_tick_ok [OF Inr Suc.prems(2)] bms_tick_time [OF Inr Suc.prems(2)] by auto
    with stale_mono [OF Suc.prems(4)] st'(2) have "stale opts (ls_now st') st'" by (simp add: stale_def)
    with Suc.IH [of st'] Inr st' ok Suc.prems show ?thesis by simp
  qed
qed


text \<open>Until the kept frame is stale, a dead line lets time pass.\<close>

lemma publish_at_eq:
  "ls_tick st + 1 < 2 ^ 32 \<Longrightarrow> publish_at opts st = ls_started st + bo_interval opts * (ls_tick st + 1)"
proof -
  assume lt: "ls_tick st + 1 < 2 ^ 32"
  have "unat (of_nat n :: u32) = n" if "n < 2 ^ 32" for n
    using that by (simp add: unsigned_of_nat take_bit_nat_eq_self)
  from this [OF lt] show ?thesis by (simp add: publish_at_def add.commute)
qed

lemma bms_loop_append:
  "bms_loop opts env (m + n) st =
     (case bms_loop opts env m st of Inl e \<Rightarrow> Inl e | Inr st' \<Rightarrow> bms_loop opts env n st')"
  by (induction m arbitrary: st) (auto split: sum.splits)

lemma bms_loop_dead:
  "dead st \<Longrightarrow> loop_ok opts st \<Longrightarrow> \<not> bo_once opts \<Longrightarrow>
   bms_loop opts env n st = Inl (gave_up st) \<or>
   (\<exists>st'. bms_loop opts env n st = Inr st' \<and> dead st' \<and> ls_freshest st' = ls_freshest st \<and>
      ses_device (ls_session st') = ses_device (ls_session st))"
proof (induction n arbitrary: st)
  case (Suc n)
  show ?case
  proof (cases "bms_tick opts env st")
    case (Inl e)
    with bms_tick_dead [OF Suc.prems, of env] show ?thesis by auto
  next
    case (Inr st')
    with bms_tick_dead [OF Suc.prems, of env] have "dead st'" "ls_freshest st' = ls_freshest st"
      "ses_device (ls_session st') = ses_device (ls_session st)" by auto
    with Suc.IH [of st'] Inr bms_tick_ok [OF Inr Suc.prems(2)] Suc.prems(3) show ?thesis by auto
  qed
qed simp

lemma bms_loop_ok:
  "bms_loop opts env n st = Inr st' \<Longrightarrow> loop_ok opts st \<Longrightarrow>
   loop_ok opts st' \<and> ls_tick st' = ls_tick st + n \<and> ls_started st' = ls_started st \<and>
   (0 < n \<longrightarrow> ls_tick st' < 2 ^ 32 \<longrightarrow> ls_started st' + bo_interval opts * ls_tick st' \<le> ls_now st')"
proof (induction n arbitrary: st)
  case (Suc n)
  then obtain st1 where t: "bms_tick opts env st = Inr st1" and l: "bms_loop opts env n st1 = Inr st'"
    by (auto split: sum.splits)
  note one = bms_tick_ok [OF t Suc.prems(2)]
  show ?case
  proof (cases n)
    case 0
    with l have "st1 = st'" by simp
    with 0 one publish_at_eq [of st opts] show ?thesis by (auto simp del: One_nat_def)
  next
    case (Suc k)
    then have "0 < n" by simp
    with Suc.IH [OF l] one show ?thesis by auto
  qed
qed simp

section \<open>An I/O error while draining\<close>

definition no_error :: "line \<Rightarrow> bool" where
  "no_error l \<longleftrightarrow> list_all (\<lambda>(dt, ev). \<not> isl ev) l"

lemma read_loop_error:
  "no_error pre \<Longrightarrow> now + line_time pre < deadline \<Longrightarrow>
   read_loop acc r deadline now (pre @ (dt, Inl e) # rest) = (res, r', now', line') \<Longrightarrow>
   res = Inl e \<or> (\<exists>f pre'. res = Inr (Some f) \<and> line' = pre' @ (dt, Inl e) # rest \<and> no_error pre' \<and>
     now' + line_time pre' = now + line_time pre)"
proof (induction pre arbitrary: r now)
  case Nil
  then show ?case by (auto simp: line_time_def)
next
  case (Cons a pre)
  obtain d ev where a: "a = (d, ev)" by fastforce
  with Cons.prems(1) obtain chunk where ev: "ev = Inr chunk" by (cases ev) (auto simp: no_error_def)
  have pre: "no_error pre" "now + d + line_time pre < deadline" "now < deadline"
    using Cons.prems a by (auto simp: no_error_def line_time_def)
  obtain o1 r1 where t: "take_accepted acc (feed r chunk) = (o1, r1)" by fastforce
  show ?case
  proof (cases "chunk = [] \<or> o1 = None")
    case True
    then obtain r2 where "read_loop acc r2 deadline (now + d) (pre @ (dt, Inl e) # rest) = (res, r', now', line')"
      using Cons.prems(3) pre(3) a ev t by (auto split: if_splits)
    from Cons.IH [OF pre(1,2) this] show ?thesis by (auto simp: a line_time_def add.assoc)
  next
    case False
    with Cons.prems(3) pre a ev t show ?thesis by (auto simp: line_time_def)
  qed
qed

lemma drain_until_error:
  "no_error pre \<Longrightarrow> now + line_time pre < deadline \<Longrightarrow> line = pre @ (dt, Inl e) # rest \<Longrightarrow>
   fst (drain_until s fh deadline now line) = Inl e"
proof (induction s fh deadline now line arbitrary: pre rule: drain_until.induct)
  case (1 s fh deadline now line)
  have lt: "now < deadline" using "1.prems" by simp
  obtain out r1 t l where r: "read_until (\<lambda>_. True) (ses_reader s) deadline now line = (out, r1, t, l)"
    using prod_cases4 by blast
  have "out = Inl e \<or> (\<exists>f pre'. out = Inr (Some f) \<and> l = pre' @ (dt, Inl e) # rest \<and> no_error pre' \<and>
      t + line_time pre' = now + line_time pre)"
    using r "1.prems" read_loop_error [OF "1.prems"(1,2)]
    by (auto simp: read_until_def split: prod.splits option.splits)
  then consider "out = Inl e" | f pre' where "out = Inr (Some f)" "l = pre' @ (dt, Inl e) # rest"
      "no_error pre'" "t + line_time pre' = now + line_time pre" by blast
  then show ?case
  proof cases
    case 1
    with lt r show ?thesis by (simp add: drain_until.simps [of s fh])
  next
    case (2 f pre')
    with "1.IH" [OF lt r [symmetric] 2(1) refl refl refl 2(3) _ 2(2)] "1.prems"(2) lt r show ?thesis
      by (simp add: drain_until.simps [of s fh])
  qed
qed


lemma begin_shape:
  assumes "bms_begin opts env sweeps now = Inr st"
  shows "\<exists>line c f heard. connect_within opts sweeps 0 (now + bo_discovery_window opts) now = (Inr (line, c, f), heard) \<and>
    heard \<le> ls_started st \<and> fh_realtime (ls_freshest st) = Some (f, ls_started st) \<and>
    ls_tick st = 0 \<and> ls_silent st = 0 \<and> ls_now st = ls_started st"
proof -
  obtain res heard where c: "connect_within opts sweeps 0 (now + bo_discovery_window opts) now = (res, heard)" by fastforce
  with assms obtain line ca f where res: "res = Inr (line, ca, f)" by (auto simp: bms_begin_def split: sum.splits)
  from connect_within_result [OF c] res have rt: "is_realtime f" by (auto dest: connect_frame)
  obtain out r t l where r: "read_until is_settings reader_default (heard + bo_frame_timeout opts) heard line = (out, r, t, l)"
    using prod_cases4 by blast
  from read_until_time [OF r] have "heard \<le> t" .
  with assms c res r rt show ?thesis
    by (auto simp: bms_begin_def wait_frame_def Let_def loop_start_def freshest_accept_def publish_settings_def publish_def
        split: sum.splits option.splits)
qed

section \<open>When a frame arrived\<close>













section \<open>What is published\<close>







lemma publish_appends:
  "fst (publish opts env s now records batches) = batches @ fst (publish opts env s now records [])"
  "\<exists>b. fst (publish opts env s now records []) = [b]"
  by (simp_all add: publish_def Let_def)


lemma bms_loop_last:
  "bms_loop opts env (Suc n) st0 = Inr st' \<longleftrightarrow> (\<exists>st. bms_loop opts env n st0 = Inr st \<and> bms_tick opts env st = Inr st')"
  "bms_loop opts env (Suc n) st0 = Inl e \<longleftrightarrow>
     bms_loop opts env n st0 = Inl e \<or> (\<exists>st. bms_loop opts env n st0 = Inr st \<and> bms_tick opts env st = Inl e)"
  using bms_loop_append [of opts env n 1 st0] by (auto split: sum.splits)








section \<open>How long a tick takes\<close>

lemma read_loop_late:
  "read_loop acc r deadline now line = (res, r', now', line') \<Longrightarrow> \<forall>e \<in> set line. fst e \<le> W \<Longrightarrow> now' \<le> max now (deadline + W)"
proof (induction line arbitrary: r now)
  case (Cons e line)
  obtain dt ev where e: "e = (dt, ev)" by fastforce
  obtain o1 r1 where t: "take_accepted acc (feed r (projr ev)) = (o1, r1)" by fastforce
  show ?case
  proof (cases "deadline \<le> now")
    case False
    have "dt \<le> W" "\<forall>e \<in> set line. fst e \<le> W" using Cons.prems(2) e by simp_all
    then have late: "now' \<le> deadline + W" if "read_loop acc q deadline (now + dt) line = (res, r', now', line')" for q
      using Cons.IH [OF that] False by simp
    have "now' = now + dt \<or> (\<exists>q. read_loop acc q deadline (now + dt) line = (res, r', now', line'))"
      using Cons.prems(1) False t by (cases ev; cases o1) (auto simp: e split: if_splits)
    with late False \<open>dt \<le> W\<close> show ?thesis by auto
  qed (use Cons.prems e in auto)
qed auto

lemma read_until_late:
  "read_until acc r deadline now line = (res, r', now', line') \<Longrightarrow> \<forall>e \<in> set line. fst e \<le> W \<Longrightarrow> now' \<le> max now (deadline + W)"
  by (auto simp: read_until_def dest: read_loop_late split: prod.splits option.splits)

lemma drain_until_late:
  "drain_until s fh deadline now line = (res, s', fh', now', line') \<Longrightarrow> \<forall>e \<in> set line. fst e \<le> W \<Longrightarrow>
   now' \<le> max now (deadline + W)"
proof (induction s fh deadline now line rule: drain_until.induct)
  case (1 s fh deadline now line)
  show ?case
  proof (cases "now < deadline")
    case True
    obtain out r1 t l where r: "read_until (\<lambda>_. True) (ses_reader s) deadline now line = (out, r1, t, l)"
      using prod_cases4 by blast
    note unfold = "1.prems"(1) [unfolded drain_until.simps [of s fh] r]
    from read_until_explained [OF r] have l: "\<forall>e \<in> set l. fst e \<le> W" using "1.prems"(2) by auto
    note late = read_until_late [OF r "1.prems"(2)]
    consider e where "out = Inl e" | "out = Inr None" | f where "out = Inr (Some f)"
      by (metis option.exhaust sumE)
    then show ?thesis
    proof cases
      case (3 f)
      with unfold True "1.IH" [OF True r [symmetric] 3 refl refl refl _ l] late show ?thesis by simp
    qed (use unfold True late in auto)
  qed (use "1.prems" in \<open>simp add: drain_until.simps [of s fh]\<close>)
qed

lemma bms_tick_late:
  assumes "bms_tick opts env st = Inr st'" "\<forall>e \<in> set (ls_line st). fst e \<le> W" "\<And>t. env_publish_time env t \<le> P"
  shows "ls_now st' \<le> max (ls_now st) (publish_at opts st + W) + 2 * P \<and> (\<forall>e \<in> set (ls_line st'). fst e \<le> W)"
proof -
  from assms(1) obtain st1 st2 where d: "tick_drain opts st = Inr st1" "tick_status opts env st1 = Inr st2"
    and st': "st' = (tick_settings opts env st2)\<lparr>ls_tick := ls_tick st + 1\<rparr>"
    by (auto simp: bms_tick_def res_bind_def split: sum.splits if_splits)
  obtain res s fh now line where u: "drain_until (ls_session st) (ls_freshest st) (publish_at opts st) (ls_now st) (ls_line st)
      = (res, s, fh, now, line)"
    using prod_cases5 by blast
  with d(1) have st1: "ls_now st1 = now" "ls_line st1 = line" by (auto simp: tick_drain_def split: sum.splits)
  from drain_until_drains [OF u] assms(2) have line: "\<forall>e \<in> set line. fst e \<le> W" by auto
  have one: "now + env_publish_time env t \<le> now + P" for now t using assms(3) by simp
  have "ls_now st2 \<le> now + P"
    using d(2) one by (auto simp: tick_status_def publish_def st1 Let_def split: option.splits if_splits sum.splits)
  moreover have "ls_now (tick_settings opts env st2) \<le> ls_now st2 + P"
    using one by (auto simp: tick_settings_def publish_settings_def publish_def Let_def split: option.splits sum.splits)
  ultimately show ?thesis
    using drain_until_late [OF u assms(2)] line tick_status_keeps(2) [OF d(2)] by (auto simp: st' st1 tick_settings_keeps)
qed

lemma bms_loop_late:
  assumes "ls_now st0 = ls_started st0" "ls_tick st0 = 0" "loop_ok opts st0" "\<forall>e \<in> set (ls_line st0). fst e \<le> W"
    and "\<And>t. env_publish_time env t \<le> P" "W + 2 * P \<le> bo_interval opts"
  shows "n < 2 ^ 32 \<Longrightarrow> bms_loop opts env n st0 = Inr st \<Longrightarrow>
    ls_now st \<le> ls_started st + bo_interval opts * n + W + 2 * P \<and> (\<forall>e \<in> set (ls_line st). fst e \<le> W)"
proof (induction n arbitrary: st)
  case 0
  with assms show ?case by simp
next
  case (Suc n)
  then obtain st' where st': "bms_loop opts env n st0 = Inr st'" and t: "bms_tick opts env st' = Inr st"
    using bms_loop_last(1) by blast
  note ok = bms_loop_ok [OF st' assms(3)]
  have at: "publish_at opts st' = ls_started st' + bo_interval opts * Suc n"
    using ok assms(2) Suc.prems(1) by (subst publish_at_eq) simp_all
  have "ls_now st' \<le> publish_at opts st' + W" using Suc.IH [OF _ st'] Suc.prems(1) assms(6) by (simp add: at)
  with bms_tick_late [OF t _ assms(5), of W] Suc.IH [OF _ st'] Suc.prems(1) bms_tick_ok [OF t] ok
  show ?case by (simp add: at max_def split: if_splits)
qed

section \<open>Properties\<close>

definition demo_opts :: bms_options where
  "demo_opts = \<lparr>bo_dev_dir = ''/dev'', bo_interval = 10, bo_settings_interval = 1000, bo_listen = 20,
     bo_frame_timeout = 20, bo_discovery_window = 100, bo_resource_attributes = [], bo_dry_run = False, bo_once = False\<rparr>"

definition demo_env :: bms_env where
  "demo_env = \<lparr>env_hostname = Some ''host'', env_boot_id = None, env_by_id = (\<lambda>_. None),
     env_publish_time = (\<lambda>_. 1), env_unix_nanos = (\<lambda>t. Some t),
     env_collector = (\<lambda>_. \<lparr>col_encode = (\<lambda>_. []), col_decode = (\<lambda>_. None), col_receiver = (\<lambda>_. Inl [])\<rparr>)\<rparr>"

definition demo_sweep :: "line \<Rightarrow> sweep" where
  "demo_sweep l = \<lparr>sw_entries = Some [Some ''ttyUSB0''], sw_by_path = None, sw_by_id = None, sw_seed = 1,
     sw_open = (\<lambda>_. Port l), sw_overhead = 0\<rparr>"

definition demo_line :: line where
  "demo_line = [(5, Inr demo_frame)]"

definition demo_start :: loop_state where
  "demo_start = loop_start \<lparr>ses_device = ''/dev/ttyUSB0'', ses_tty = ''/dev/ttyUSB0'', ses_connected_at = 6,
     ses_reader = reader_default\<rparr> (frame_at demo_frame) 26 [] []"

lemma demo_begin: "bms_begin demo_opts demo_env (\<lambda>_. demo_sweep demo_line) 0 = Inr demo_start"
  by code_simp

lemma demo_drain: "tick_drain demo_opts demo_start = Inr (demo_start\<lparr>ls_now := 36\<rparr>)"
  by code_simp

lemma demo_status:
  "\<exists>st. tick_status demo_opts demo_env (demo_start\<lparr>ls_now := 36\<rparr>) = Inr st \<and> length (ls_batches st) = 1"
proof -
  have "length (fr_data (frame_at demo_frame)) = FRAME_LEN" "fr_code (frame_at demo_frame) = REALTIME" by code_simp+
  then obtain rt where "parse_realtime (frame_at demo_frame) = Inr rt"
    using realtime_decoded by (fastforce simp: parse_realtime_def ok_or_def)
  moreover have "fresh (bo_frame_timeout demo_opts) 36 (fh_realtime (ls_freshest demo_start)) =
      Some (frame_at demo_frame, 26)" "ls_batches demo_start = []" by code_simp+
  ultimately show ?thesis by (simp add: tick_status_def publish_def Let_def)
qed

lemma demo_run:
  "\<exists>st. bms_run demo_opts demo_env (\<lambda>_. demo_sweep demo_line) 1 0 = Inr st \<and> length (ls_batches st) = 1"
proof -
  obtain st where st: "tick_status demo_opts demo_env (demo_start\<lparr>ls_now := 36\<rparr>) = Inr st"
    and one: "length (ls_batches st) = 1" using demo_status by blast
  have "\<not> bo_once demo_opts" "fh_settings (ls_freshest demo_start) = None" by code_simp+
  moreover from tick_status_keeps(3) [OF st] this(2) have "fh_settings (ls_freshest st) = None" by simp
  ultimately show ?thesis using st one
    by (simp add: bms_run_def demo_begin bms_tick_def demo_drain tick_settings_def fresh_def)
qed

text \<open>
  C10. After \<open>n\<close> ticks the state of the measurement loop is sound: fewer than
  three silent cycles are counted, each kept frame is of the kind it is kept as, passed its
  header and checksum and did not arrive in the future, and every byte read is accounted for.
  The cadence does not drift, for \<open>n\<close> below 2 to the 32: at least \<open>n\<close>
  intervals have passed since the start and, when no read overruns by more than
  \<open>W\<close>, no publication takes more than \<open>P\<close> and together they fit into
  an interval, no more than \<open>n\<close> intervals and one such delay, however many ticks
  there were.
\<close>

theorem bms_loop_invariant:
  assumes "bms_run opts env sweeps n now = Inr st"
  shows "loop_ok opts st \<and> ls_tick st = n \<and>
    (n < 2 ^ 32 \<longrightarrow> ls_started st + bo_interval opts * n \<le> ls_now st \<and>
      (\<forall>W P. (\<forall>st0. bms_begin opts env sweeps now = Inr st0 \<longrightarrow> (\<forall>e \<in> set (ls_line st0). fst e \<le> W)) \<and>
         (\<forall>t. env_publish_time env t \<le> P) \<and> W + 2 * P \<le> bo_interval opts \<longrightarrow>
         ls_now st \<le> ls_started st + bo_interval opts * n + W + 2 * P))"
proof -
  from assms obtain st0 where b: "bms_begin opts env sweeps now = Inr st0" and l: "bms_loop opts env n st0 = Inr st"
    by (auto simp: bms_run_def split: sum.splits)
  note ok = conjunct1 [OF bms_begin_ok [OF b]]
  from begin_shape [OF b] have start: "ls_now st0 = ls_started st0" "ls_tick st0 = 0" by blast+
  have low: "ls_started st + bo_interval opts * n \<le> ls_now st" if "n < 2 ^ 32"
    using bms_loop_ok [OF l ok] start that l by (cases "n = 0") auto
  have high: "ls_now st \<le> ls_started st + bo_interval opts * n + W + 2 * P"
    if "n < 2 ^ 32" "\<forall>e \<in> set (ls_line st0). fst e \<le> W" "\<forall>t. env_publish_time env t \<le> P" "W + 2 * P \<le> bo_interval opts" for W P
    using bms_loop_late [OF start ok that(2) _ that(4,1) l] that(3) by blast
  show ?thesis using bms_loop_ok [OF l ok] start(2) low high b by simp
qed

theorem bms_loop_invariant_witness:
  "\<exists>st. bms_run demo_opts demo_env (\<lambda>_. demo_sweep demo_line) 1 0 = Inr st \<and> loop_ok demo_opts st \<and> ls_tick st = 1 \<and>
     ls_started st + 10 \<le> ls_now st \<and> ls_now st \<le> ls_started st + 12"
proof -
  obtain st where st: "bms_run demo_opts demo_env (\<lambda>_. demo_sweep demo_line) 1 0 = Inr st" using demo_run by blast
  have "\<forall>st0. bms_begin demo_opts demo_env (\<lambda>_. demo_sweep demo_line) 0 = Inr st0 \<longrightarrow> (\<forall>e \<in> set (ls_line st0). fst e \<le> 0)"
    by (simp add: demo_begin demo_start_def loop_start_def)
  moreover have "\<forall>t. env_publish_time demo_env t \<le> 1" "bo_interval demo_opts = 10" by (simp_all add: demo_env_def demo_opts_def)
  moreover note all = bms_loop_invariant [OF st]
  then have low: "loop_ok demo_opts st" "ls_tick st = 1" "ls_started st + bo_interval demo_opts * 1 \<le> ls_now st"
    and "\<And>W P. (\<forall>st0. bms_begin demo_opts demo_env (\<lambda>_. demo_sweep demo_line) 0 = Inr st0 \<longrightarrow> (\<forall>e \<in> set (ls_line st0). fst e \<le> W)) \<Longrightarrow>
      \<forall>t. env_publish_time demo_env t \<le> P \<Longrightarrow> W + 2 * P \<le> bo_interval demo_opts \<Longrightarrow>
      ls_now st \<le> ls_started st + bo_interval demo_opts * 1 + W + 2 * P" by simp_all
  from this(4) [of 0 1] calculation have "ls_now st \<le> ls_started st + bo_interval demo_opts * 1 + 0 + 2 * 1" by simp
  with low st \<open>bo_interval demo_opts = 10\<close> show ?thesis by (intro exI [of _ st]) simp
qed



text \<open>
  C25. A pack that falls silent is noticed: once the line is dead, the program exits with the
  error that names the device after at most three ticks more than it takes the last frame to
  outlive the frame timeout, whatever was published before.
\<close>

theorem bms_gives_up_on_dead_line:
  assumes "loop_ok opts st" "dead st" "\<not> bo_once opts" "0 < k" "ls_tick st + k < 2 ^ 32"
    and "\<And>f t. fh_realtime (ls_freshest st) = Some (f, t) \<Longrightarrow>
      t + bo_frame_timeout opts < ls_started st + bo_interval opts * (ls_tick st + k)"
  shows "bms_loop opts env (k + MAX_SILENT_CYCLES) st =
    Inl (Inl (PushedNothing (ses_device (ls_session st)) MAX_SILENT_CYCLES))"
proof -
  consider "bms_loop opts env k st = Inl (gave_up st)" |
    st' where "bms_loop opts env k st = Inr st'" "dead st'" "ls_freshest st' = ls_freshest st"
      "ses_device (ls_session st') = ses_device (ls_session st)"
    using bms_loop_dead [OF assms(2,1,3), of env k] by blast
  then show ?thesis
  proof cases
    case 1
    then show ?thesis by (simp add: bms_loop_append)
  next
    case (2 st')
    note ok = bms_loop_ok [OF 2(1) assms(1)]
    have now: "ls_started st + bo_interval opts * (ls_tick st + k) \<le> ls_now st'"
      using ok assms(4,5) by metis
    have "stale opts (ls_now st') st'"
      using assms(6) now 2(3) by (fastforce simp: stale_def fresh_def split: option.splits)
    then have "bms_loop opts env MAX_SILENT_CYCLES st' = Inl (gave_up st')"
      using ok assms(3) by (intro bms_loop_stale [OF 2(2)]) auto
    with 2 show ?thesis by (simp add: bms_loop_append)
  qed
qed

theorem bms_gives_up_on_dead_line_witness:
  "bms_loop demo_opts demo_env (3 + MAX_SILENT_CYCLES) demo_start =
     Inl (Inl (PushedNothing ''/dev/ttyUSB0'' MAX_SILENT_CYCLES))"
proof -
  have "loop_ok demo_opts demo_start" using bms_begin_ok [OF demo_begin] by simp
  moreover have "ls_line demo_start = []" "frames_of (rd_buffer (ses_reader (ls_session demo_start))) = []"
    "\<not> bo_once demo_opts" "ls_tick demo_start = 0" "ls_started demo_start = 26" "bo_interval demo_opts = 10"
    "bo_frame_timeout demo_opts = 20" "fh_realtime (ls_freshest demo_start) = Some (frame_at demo_frame, 26)"
    "ses_device (ls_session demo_start) = ''/dev/ttyUSB0''"
    by code_simp+
  ultimately show ?thesis using bms_gives_up_on_dead_line [of demo_opts demo_start 3 demo_env]
    by (simp add: dead_def)
qed

text \<open>
  A lost adapter ends the program: if the port reports an I/O error before the measurement is
  due, whatever arrived before it, the tick publishes nothing and the program exits with that
  error and the name of the device; it does not keep publishing the last frame it saw.
\<close>

theorem bms_io_error_is_fatal:
  assumes "ls_line st = pre @ (dt, Inl e) # rest" "no_error pre" "ls_now st + line_time pre < publish_at opts st"
  shows "bms_tick opts env st = Inl (Inl (PortFailed (ses_device (ls_session st)) e))"
proof -
  obtain res s fh now line where d: "drain_until (ls_session st) (ls_freshest st) (publish_at opts st) (ls_now st) (ls_line st)
      = (res, s, fh, now, line)"
    using prod_cases5 by blast
  from drain_until_error [OF assms(2,3,1), of "ls_session st" "ls_freshest st"] d have "res = Inl e" by simp
  moreover from drain_until_drains [OF d] have "s\<lparr>ses_reader := ses_reader (ls_session st)\<rparr> = ls_session st" by blast
  then have "ses_device s = ses_device (ls_session st)" by (metis session.select_convs(1) session.surjective session.update_convs(4))
  ultimately show ?thesis using d by (simp add: bms_tick_def tick_drain_def)
qed

theorem bms_io_error_is_fatal_witness:
  "bms_tick demo_opts demo_env (demo_start\<lparr>ls_line := [(4, Inr [1, 2]), (3, Inl NotConnected)]\<rparr>) =
     Inl (Inl (PortFailed ''/dev/ttyUSB0'' NotConnected))"
proof -
  let ?st = "demo_start\<lparr>ls_line := [(4, Inr [1, 2]), (3, Inl NotConnected)]\<rparr>"
  have "no_error [(4, Inr [1, 2])]" "ls_now ?st + line_time [(4, Inr [1, 2])] < publish_at demo_opts ?st"
    "ses_device (ls_session ?st) = ''/dev/ttyUSB0''" by code_simp+
  with bms_io_error_is_fatal [of ?st "[(4, Inr [1, 2])]" 3 NotConnected "[]" demo_opts demo_env]
  show ?thesis by simp
qed

text \<open>
  The port is drained, not sampled: when a tick is due, the frame kept of each kind is the last
  one of that kind on the wire, among the frames of everything read up to that moment, or the
  one kept before if there was none; the drain ends only once the tick is due, and the frames
  still to come are not disturbed.
\<close>

theorem drain_keeps_the_last_frame:
  assumes "drain_until s fh deadline now line = (Inr (), s', fh', now', line')"
  shows "\<exists>used fs. line = used @ line' \<and> deadline \<le> now' \<and>
    (\<forall>x. frames_of (rd_buffer (ses_reader s) @ line_bytes used @ x) = fs @ frames_of (rd_buffer (ses_reader s') @ x)) \<and>
    map_option fst (fh_realtime fh') = last_where is_realtime fs (map_option fst (fh_realtime fh)) \<and>
    map_option fst (fh_settings fh') = last_where is_settings fs (map_option fst (fh_settings fh))"
  using drain_until_drains [OF assms] unfolding drains_def by blast

theorem drain_keeps_the_last_frame_witness:
  "\<exists>used fs. ([(2, Inr demo_frame), (3, Inr demo_frame)] :: line) = used @ [] \<and> last_where is_realtime fs None = Some (frame_at demo_frame)"
proof -
  let ?s = "\<lparr>ses_device = ''d'', ses_tty = ''d'', ses_connected_at = 0, ses_reader = reader_default\<rparr>"
  let ?d = "drain_until ?s \<lparr>fh_realtime = None, fh_settings = None\<rparr> 9 0 [(2, Inr demo_frame), (3, Inr demo_frame)]"
  have "fst ?d = Inr ()" "snd (snd (snd (snd ?d))) = []"
    "map_option fst (fh_realtime (fst (snd (snd ?d)))) = Some (frame_at demo_frame)" by code_simp+
  then obtain s' fh' now' where "?d = (Inr (), s', fh', now', [])"
    and f: "map_option fst (fh_realtime fh') = Some (frame_at demo_frame)" by (metis prod.collapse)
  from drain_keeps_the_last_frame [OF this(1)] f show ?thesis by auto
qed

text \<open>
  C34. Connecting ends, one way or the other: it fails only after the discovery window has
  passed, and when it succeeds the port is the first of its sweep, in the order drawn, on which
  a checksummed realtime frame was heard, every port before it being held, unopenable or
  without a BMS.
\<close>

theorem connect_within_outcome:
  assumes "connect_within opts sweeps 0 (now + window) now = (res, now')"
  shows "(\<exists>e. res = Inl e \<and> now + window < now') \<or>
    (\<exists>j line c f pre post t l. res = Inr (line, c, f) \<and> checked f \<and> is_realtime f \<and>
       order_candidates (enumerate_ports (bo_dev_dir opts) (sw_entries (sweeps j)) (sw_by_path (sweeps j))
         (sw_by_id (sweeps j))) (sw_seed (sweeps j)) = pre @ c # post \<and>
       sw_open (sweeps j) (ca_tty c) = Port l \<and> probe_port (bo_listen opts) t l = (Inr (Bms f), now', line) \<and>
       (\<forall>d \<in> set pre. \<exists>t. no_bms (bo_listen opts) t (sw_open (sweeps j) (ca_tty d))))"
proof -
  from connect_within_result [OF assms] obtain j t where c: "connect opts (sweeps j) t = (res, now')"
    and late: "isl res \<longrightarrow> now + window < now'" by blast
  show ?thesis
  proof (cases res)
    case (Inl e)
    with late show ?thesis by simp
  next
    case (Inr found)
    obtain line ca f where found: "found = (line, ca, f)" using prod_cases3 by blast
    let ?order = "order_candidates (enumerate_ports (bo_dev_dir opts) (sw_entries (sweeps j)) (sw_by_path (sweeps j))
      (sw_by_id (sweeps j))) (sw_seed (sweeps j))"
    from c Inr found obtain t' where
      l: "connect_loop (bo_listen opts) (sw_open (sweeps j)) ?order t' = (Some (line, ca, f), now')"
      by (auto simp: connect_def Let_def split: if_splits prod.splits option.splits)
    from connect_loop_first [OF l] connect_loop_frame [OF l] Inr found show ?thesis by blast
  qed
qed

theorem connect_within_outcome_witness:
  "\<exists>line c f now'. connect_within demo_opts (\<lambda>_. demo_sweep demo_line) 0 (0 + 100) 0 = (Inr (line, c, f), now') \<and>
     checked f \<and> is_realtime f \<and> now' = 6"
proof -
  let ?c = "connect_within demo_opts (\<lambda>_. demo_sweep demo_line) 0 (0 + 100) 0"
  have "\<not> isl (fst ?c)" "snd ?c = 6" by code_simp+
  then obtain line c f where "?c = (Inr (line, c, f), 6)"
    by (cases "fst ?c") (auto simp: prod_eq_iff)
  from connect_within_outcome [OF this] this show ?thesis by auto
qed



text \<open>
  The first status record is not published at once: although the loop is seeded with the frame
  that identified the BMS, the first tick drains the port for a whole interval before it looks
  at it; so when the frame timeout is shorter than the interval, as it is by default, and the
  line stays quiet, the seeded frame is never published and the tick counts as silent.
\<close>

theorem seeded_frame_waits_an_interval:
  assumes "bms_begin opts env sweeps now = Inr st" "dead st" "bo_frame_timeout opts < bo_interval opts"
  shows "\<exists>st'. res_bind (tick_drain opts st) (tick_status opts env) = Inr st' \<and>
    ls_batches st' = ls_batches st \<and> ls_silent st' = 1 \<and> ls_started st + bo_interval opts \<le> ls_now st'"
proof -
  from begin_shape [OF assms(1)] obtain f where st: "ls_tick st = 0" "ls_silent st = 0" "ls_now st = ls_started st"
    "fh_realtime (ls_freshest st) = Some (f, ls_started st)" by blast
  then have at: "publish_at opts st = ls_started st + bo_interval opts" by (simp add: publish_at_def)
  from assms(2) obtain r' where d: "tick_drain opts st =
      Inr (st\<lparr>ls_session := (ls_session st)\<lparr>ses_reader := r'\<rparr>, ls_now := max (ls_now st) (publish_at opts st),
        ls_line := []\<rparr>)"
    using drain_until_dead [of "ls_session st" "ls_freshest st" "publish_at opts st" "ls_now st"]
    by (auto simp: dead_def tick_drain_def)
  with st at assms(3) show ?thesis
    by (simp add: tick_status_def fresh_def MAX_SILENT_CYCLES_def Let_def)
qed

theorem seeded_frame_waits_an_interval_witness:
  "\<exists>st'. res_bind (tick_drain (demo_opts\<lparr>bo_interval := 60\<rparr>) demo_start) (tick_status (demo_opts\<lparr>bo_interval := 60\<rparr>) demo_env) =
     Inr st' \<and> ls_silent st' = 1"
proof -
  let ?o = "demo_opts\<lparr>bo_interval := 60\<rparr>"
  have "bms_begin ?o demo_env (\<lambda>_. demo_sweep demo_line) 0 = Inr demo_start" by code_simp
  moreover have "dead demo_start" "bo_frame_timeout ?o < bo_interval ?o" by code_simp+
  ultimately show ?thesis using seeded_frame_waits_an_interval by blast
qed

end
