(* ===== verification/Inv_Protocol.thy ===== *)
theory Inv_Protocol
  imports Rust_Text
begin

unbundle bit_operations_syntax

text \<open>
  \<open>packages/inverter-monitoring/src/crc.rs\<close> and \<open>protocol.rs\<close>: the CRC of a frame, the commands
  and the framing of a response.
\<close>

section \<open>Model\<close>

subsection \<open>CRC\<close>

definition crc_shift :: "u16 \<Rightarrow> u16" where
  "crc_shift acc = (if acc AND 0x8000 \<noteq> 0 then push_bit 1 acc XOR 0x1021 else push_bit 1 acc)"

definition crc_byte :: "byte \<Rightarrow> u16 \<Rightarrow> u16" where
  "crc_byte b crc = (crc_shift ^^ 8) (crc XOR push_bit 8 (ucast b))"

definition xmodem :: "byte list \<Rightarrow> u16" where
  "xmodem data = fold crc_byte data 0"

definition escape :: "byte \<Rightarrow> byte" where
  "escape b = (if b \<in> {0x28, 0x0A, 0x0D} then b + 1 else b)"

definition frame_crc :: "byte list \<Rightarrow> byte list" where
  "frame_crc data = (let crc = xmodem data in [escape (ucast (drop_bit 8 crc)), escape (ucast (crc AND 0xFF))])"

subsection \<open>Commands\<close>

datatype command = Qid | Qvfw | Qvfw3 | Qmn | Qgmn | Qmod | Qpigs | Qpigs2 | Qpiws

definition STATIC_COMMANDS :: "command list" where
  "STATIC_COMMANDS = [Qid, Qvfw, Qvfw3, Qmn, Qgmn]"

definition LIVE_COMMANDS :: "command list" where
  "LIVE_COMMANDS = [Qmod, Qpigs, Qpigs2, Qpiws]"

fun command_text :: "command \<Rightarrow> string" where
  "command_text Qid = ''QID''"
| "command_text Qvfw = ''QVFW''"
| "command_text Qvfw3 = ''QVFW3''"
| "command_text Qmn = ''QMN''"
| "command_text Qgmn = ''QGMN''"
| "command_text Qmod = ''QMOD''"
| "command_text Qpigs = ''QPIGS''"
| "command_text Qpigs2 = ''QPIGS2''"
| "command_text Qpiws = ''QPIWS''"

definition CR :: byte where "CR = 0x0D"
definition LEADING :: byte where "LEADING = 0x28"

definition command_request :: "command \<Rightarrow> byte list" where
  "command_request c = (let text = bytes_of_str (command_text c) in text @ frame_crc text @ [CR])"

subsection \<open>Responses\<close>

datatype answer = Payload "byte list" | Nak

datatype frame_error =
    TooShort nat
  | NotAResponse byte
  | Unterminated
  | CrcMismatch "byte list" "byte list"

definition NAK :: "byte list" where "NAK = bytes_of_str ''NAK''"

definition parse_answer :: "byte list \<Rightarrow> (frame_error, answer) result" where
  "parse_answer frame =
     (if length frame < 4 then Inl (TooShort (length frame))
      else if frame ! 0 \<noteq> LEADING then Inl (NotAResponse (frame ! 0))
      else if last frame \<noteq> CR then Inl Unterminated
      else
        let covered = take (length frame - 3) frame;
            received = [frame ! (length frame - 3), frame ! (length frame - 2)];
            computed = frame_crc covered
        in if computed \<noteq> received then Inl (CrcMismatch computed received)
           else
             let payload = drop 1 (take (length frame - 3) frame)
             in if payload = NAK then Inr Nak else Inr (Payload payload))"

section \<open>Lemmas\<close>

text \<open>The well-formed response frame of a payload, as the device sends it.\<close>

definition response_frame :: "byte list \<Rightarrow> byte list" where
  "response_frame payload = LEADING # payload @ frame_crc (LEADING # payload) @ [CR]"

lemma length_frame_crc [simp]: "length (frame_crc data) = 2"
  by (simp add: frame_crc_def Let_def)

lemma frame_crc_two: "\<exists>h l. frame_crc data = [h, l]"
  by (simp add: frame_crc_def Let_def)

lemma escape_not_framing: "escape b \<notin> {0x28, 0x0A, 0x0D}"
  by (auto simp: escape_def)

lemma frame_crc_not_framing: "set (frame_crc data) \<inter> {0x28, 0x0A, 0x0D} = {}"
  using escape_not_framing by (auto simp: frame_crc_def Let_def)

text \<open>The CRC is linear over exclusive or.\<close>

lemma top_bit: "(acc :: u16) AND 0x8000 \<noteq> 0 \<longleftrightarrow> bit acc 15"
proof -
  have "(0x8000 :: u16) = 2 ^ 15" by simp
  then show ?thesis by (simp only: and_exp_eq_0_iff_not_bit not_not)
qed

lemma crc_shift_xor: "crc_shift (a XOR b) = crc_shift a XOR crc_shift b"
  unfolding crc_shift_def top_bit by (auto simp: bit_simps ac_simps)

lemma crc_shifts_xor: "(crc_shift ^^ n) (a XOR b) = (crc_shift ^^ n) a XOR (crc_shift ^^ n) b"
  by (induction n) (simp_all add: crc_shift_xor)

lemma crc_shift_0 [simp]: "crc_shift 0 = 0" "(crc_shift ^^ n) 0 = 0"
proof -
  show *: "crc_shift 0 = 0" by (simp add: crc_shift_def)
  show "(crc_shift ^^ n) 0 = 0" by (induction n) (simp_all add: *)
qed

lemma crc_byte_xor: "crc_byte (a XOR b) (c XOR d) = crc_byte a c XOR crc_byte b d"
proof -
  have "(c XOR d) XOR push_bit 8 (ucast (a XOR b) :: u16) =
      (c XOR push_bit 8 (ucast a)) XOR (d XOR push_bit 8 (ucast b))"
    by (auto intro!: bit_word_eqI simp: bit_simps)
  then show ?thesis by (simp only: crc_byte_def crc_shifts_xor)
qed

lemma fold_crc_xor:
  "length xs = length ys \<Longrightarrow>
   fold crc_byte (map2 (XOR) xs ys) (c XOR d) = fold crc_byte xs c XOR fold crc_byte ys d"
proof (induction xs ys arbitrary: c d rule: list_induct2)
  case (Cons x xs y ys)
  then show ?case by (simp add: crc_byte_xor)
qed simp

lemma fold_crc_zeros: "fold crc_byte (replicate n 0) c = (crc_shift ^^ (8 * n)) c"
proof (induction n arbitrary: c)
  case (Suc n)
  then show ?case by (simp add: crc_byte_def funpow_add [symmetric, unfolded comp_def, THEN fun_cong] funpow_swap1 add.commute)
qed simp


text \<open>
  What one flipped bit does to the CRC: the shift register started at \<open>0x0100\<close>, run for as many
  steps as there are bits up to the end of the covered bytes.  \<open>masked\<close> says that the change could
  hide behind the substitution of framing bytes.
\<close>

definition masked :: "u16 \<Rightarrow> bool" where
  "masked x \<longleftrightarrow> (ucast (drop_bit 8 x) :: byte) \<in> {0, 1, 3} \<and> (ucast (x AND 0xFF) :: byte) \<in> {0, 1, 3}"

fun never_masked :: "nat \<Rightarrow> u16 \<Rightarrow> bool" where
  "never_masked 0 x = True"
| "never_masked (Suc n) x = (let y = crc_shift x in \<not> masked y \<and> never_masked n y)"

lemma never_masked_funpow: "never_masked n x \<Longrightarrow> 0 < k \<Longrightarrow> k \<le> n \<Longrightarrow> \<not> masked ((crc_shift ^^ k) x)"
proof (induction n arbitrary: x k)
  case (Suc n)
  show ?case
  proof (cases "k = 1")
    case True
    with Suc.prems show ?thesis by (simp add: Let_def)
  next
    case False
    then obtain j where j: "k = Suc j" "0 < j" using Suc.prems(2) by (cases k) auto
    have "\<not> masked ((crc_shift ^^ j) (crc_shift x))" using Suc.prems j by (intro Suc.IH) (auto simp: Let_def)
    with j show ?thesis by (simp add: funpow_swap1)
  qed
qed simp

lemma flips_never_masked: "never_masked 904 0x0100"
  by code_simp


lemma escape_eq_cases: "escape a = escape b \<Longrightarrow> a XOR b \<in> {0, 1, 3}"
proof -
  assume eq: "escape a = escape b"
  consider "a = b" | "a \<noteq> b" "a \<in> {0x28, 0x0A, 0x0D}" | "a \<noteq> b" "b \<in> {0x28, 0x0A, 0x0D}"
    using eq by (auto simp: escape_def split: if_splits)
  then show ?thesis
  proof cases
    case 1
    then show ?thesis by simp
  next
    case 2
    with eq have "b = a + 1" by (auto simp: escape_def split: if_splits)
    with 2 show ?thesis by auto
  next
    case 3
    with eq have "a = b + 1" by (auto simp: escape_def split: if_splits)
    with 3 show ?thesis by auto
  qed
qed

lemma frame_crc_eq_masked:
  assumes "frame_crc xs = frame_crc ys"
  shows "masked (xmodem xs XOR xmodem ys)"
proof -
  let ?x = "xmodem xs" and ?y = "xmodem ys"
  have hi: "(ucast (drop_bit 8 ?x) :: byte) XOR ucast (drop_bit 8 ?y) \<in> {0, 1, 3}"
    and lo: "(ucast (?x AND 0xFF) :: byte) XOR ucast (?y AND 0xFF) \<in> {0, 1, 3}"
    using assms by (auto simp: frame_crc_def Let_def dest!: escape_eq_cases)
  have "(ucast (drop_bit 8 (?x XOR ?y)) :: byte) = ucast (drop_bit 8 ?x) XOR ucast (drop_bit 8 ?y)"
    "(ucast ((?x XOR ?y) AND 0xFF) :: byte) = ucast (?x AND 0xFF) XOR ucast (?y AND 0xFF)"
    by (auto intro!: bit_word_eqI simp: bit_simps)
  with hi lo show ?thesis by (simp add: masked_def)
qed

text \<open>A flipped bit among the covered bytes changes the CRC beyond what the substitution can hide.\<close>

definition flip_at :: "nat \<Rightarrow> nat \<Rightarrow> byte list \<Rightarrow> byte list" where
  "flip_at i b bs = bs[i := bs ! i XOR push_bit b 1]"

lemma length_flip_at [simp]: "length (flip_at i b bs) = length bs"
  by (simp add: flip_at_def)

lemma flip_at_append: "flip_at i b (xs @ ys) = (if i < length xs then flip_at i b xs @ ys else xs @ flip_at (i - length xs) b ys)"
  by (simp add: flip_at_def list_update_append nth_append)

lemma flip_at_neq: "b < 8 \<Longrightarrow> (x :: byte) XOR push_bit b 1 \<noteq> x"
proof
  assume "b < 8" "x XOR push_bit b 1 = x"
  then have "bit (x XOR push_bit b 1) b = bit x b" by simp
  with \<open>b < 8\<close> show False by (simp add: bit_simps)
qed

lemma crc_shift_small: "b < 8 \<Longrightarrow> (crc_shift ^^ b) 0x0100 = push_bit (8 + b) 1"
proof (induction b)
  case (Suc b)
  have "\<not> bit (push_bit (8 + b) 1 :: u16) 15" using Suc.prems by (simp add: bit_simps)
  then have "crc_shift (push_bit (8 + b) 1) = push_bit 1 (push_bit (8 + b) 1)"
    unfolding crc_shift_def top_bit by (simp only: if_False)
  with Suc show ?case by (simp add: numeral_eq_Suc)
qed simp

lemma xmodem_flip:
  assumes "i < length bs" "b < 8"
  shows "xmodem bs XOR xmodem (flip_at i b bs) = (crc_shift ^^ (8 * (length bs - i) + b)) 0x0100"
proof -
  define d where "d = replicate i 0 @ push_bit b 1 # replicate (length bs - Suc i) (0 :: byte)"
  have len: "length d = length bs" using assms by (simp add: d_def)
  have "flip_at i b bs = map2 (XOR) bs d"
    using assms len by (auto intro!: nth_equalityI simp: flip_at_def d_def nth_append nth_Cons nth_list_update split: nat.splits)
  then have "xmodem (flip_at i b bs) = xmodem bs XOR xmodem d"
    using fold_crc_xor [of bs d 0 0] len by (simp add: xmodem_def)
  then have "xmodem bs XOR xmodem (flip_at i b bs) = xmodem d" by (simp add: xor.assoc [symmetric])
  also have "xmodem d = (crc_shift ^^ (8 * (length bs - Suc i))) (crc_byte (push_bit b 1) 0)"
    using fold_crc_zeros by (simp add: xmodem_def d_def del: fold_replicate)
  also have "crc_byte (push_bit b 1) 0 = (crc_shift ^^ 8) (push_bit (8 + b) 1)"
  proof -
    have "push_bit 8 (ucast (push_bit b 1 :: byte)) = (push_bit (8 + b) 1 :: u16)"
      using assms(2) by (auto intro!: bit_word_eqI simp: bit_simps)
    then show ?thesis by (simp add: crc_byte_def)
  qed
  also have "push_bit (8 + b) 1 = (crc_shift ^^ b) 0x0100" using assms(2) by (simp add: crc_shift_small)
  also have "(crc_shift ^^ (8 * (length bs - Suc i))) ((crc_shift ^^ 8) ((crc_shift ^^ b) 0x0100)) =
      (crc_shift ^^ (8 * (length bs - Suc i) + 8 + b)) 0x0100"
    by (simp only: funpow_add comp_def)
  also have "8 * (length bs - Suc i) + 8 + b = 8 * (length bs - i) + b" using assms(1) by simp
  finally show ?thesis .
qed

lemma frame_crc_flip:
  assumes "i < length bs" "b < 8" "length bs \<le> 112"
  shows "frame_crc (flip_at i b bs) \<noteq> frame_crc bs"
proof
  assume "frame_crc (flip_at i b bs) = frame_crc bs"
  then have "masked ((crc_shift ^^ (8 * (length bs - i) + b)) 0x0100)"
    using frame_crc_eq_masked [of bs "flip_at i b bs"] xmodem_flip [OF assms(1,2)] by simp
  moreover have "\<not> masked ((crc_shift ^^ (8 * (length bs - i) + b)) 0x0100)"
    using assms by (intro never_masked_funpow [OF flips_never_masked]) auto
  ultimately show False by blast
qed


lemma parse_answer_response:
  "parse_answer (response_frame p) = Inr (if p = NAK then Nak else Payload p)"
proof -
  let ?c = "frame_crc (LEADING # p)"
  obtain h l where c: "?c = [h, l]" using frame_crc_two by blast
  then have f: "response_frame p = (LEADING # p) @ [h, l, CR]" by (simp add: response_frame_def)
  have "length (response_frame p) = length p + 4" "response_frame p ! 0 = LEADING" "last (response_frame p) = CR"
    "take (length (response_frame p) - 3) (response_frame p) = LEADING # p"
    "response_frame p ! (length (response_frame p) - 3) = h" "response_frame p ! (length (response_frame p) - 2) = l"
    unfolding f by (simp_all add: nth_append nth_Cons' numeral_eq_Suc)
  with c show ?thesis by (simp add: parse_answer_def Let_def)
qed

lemma parse_answer_Inr:
  assumes "parse_answer f = Inr a"
  shows "\<exists>p. f = response_frame p \<and> a = (if p = NAK then Nak else Payload p)"
proof -
  from assms have len: "4 \<le> length f" and hd: "f ! 0 = LEADING" and lst: "last f = CR"
    and crc: "frame_crc (take (length f - 3) f) = [f ! (length f - 3), f ! (length f - 2)]"
    and a: "a = (if drop 1 (take (length f - 3) f) = NAK then Nak else Payload (drop 1 (take (length f - 3) f)))"
    by (auto simp: parse_answer_def Let_def split: if_splits)
  let ?p = "drop 1 (take (length f - 3) f)"
  have cov: "take (length f - 3) f = LEADING # ?p"
    using len hd by (cases f) (auto simp: take_Cons')
  have "drop (length f - 3) f = [f ! (length f - 3), f ! (length f - 2), f ! (length f - 1)]"
  proof -
    have "length f - 2 = Suc (length f - 3)" "length f - 1 = Suc (Suc (length f - 3))" "Suc (Suc (Suc (length f - 3))) = length f"
      using len by auto
    then show ?thesis using len by (simp add: Cons_nth_drop_Suc [symmetric])
  qed
  moreover have "f ! (length f - 1) = CR" using lst len by (metis last_conv_nth list.size(3) not_numeral_le_zero)
  ultimately have "f = take (length f - 3) f @ frame_crc (LEADING # ?p) @ [CR]"
    using crc cov by (metis append_Cons append_Nil append_take_drop_id)
  with cov have "f = response_frame ?p" unfolding response_frame_def by (metis append_Cons)
  with a show ?thesis by blast
qed

lemma command_request_inject: "command_request c = command_request d \<longleftrightarrow> c = d"
proof
  assume "command_request c = command_request d"
  then have "bytes_of_str (command_text c) = bytes_of_str (command_text d)"
    by (simp add: command_request_def Let_def append_eq_append_conv flip: append_assoc)
  then have "str_of_bytes (bytes_of_str (command_text c)) = str_of_bytes (bytes_of_str (command_text d))" by simp
  then show "c = d" by (cases c; cases d) simp_all
qed simp

section \<open>Properties\<close>

text \<open>
  C7. Framing and its verification are inverse to each other: a frame is accepted with a
  payload exactly when it is the well-formed frame of that payload (leading parenthesis, CRC
  with the substituted framing bytes, carriage return), and the payload \<open>NAK\<close>
  alone is read as a refusal.
\<close>

theorem parse_answer_exact:
  "(parse_answer f = Inr (Payload p) \<longleftrightarrow> f = response_frame p \<and> p \<noteq> NAK) \<and>
   (parse_answer f = Inr Nak \<longleftrightarrow> f = response_frame NAK)"
  using parse_answer_Inr [of f] parse_answer_response by (auto split: if_splits)

text \<open>
  C27. Line noise is caught: no single flipped bit, at any position of a response whose payload
  fits the protocol (the longest documented one is 106 bytes), makes a frame that is accepted,
  in spite of the framing-byte substitution, which makes distinct CRCs look alike.
\<close>

theorem single_bit_flip_rejected:
  assumes "length p \<le> 111" "i < length (response_frame p)" "b < 8"
  shows "\<exists>e. parse_answer (flip_at i b (response_frame p)) = Inl e"
proof (rule ccontr)
  let ?f = "response_frame p" and ?g = "flip_at i b (response_frame p)"
  assume "\<not> (\<exists>e. parse_answer ?g = Inl e)"
  then obtain a where "parse_answer ?g = Inr a" by (cases "parse_answer ?g") auto
  then obtain q where q: "?g = response_frame q" using parse_answer_Inr by blast
  have len: "length q = length p" using arg_cong [OF q, of length] by (simp add: response_frame_def)
  obtain h l where c: "frame_crc (LEADING # p) = [h, l]"
    using frame_crc_two by blast
  have split: "?f = (LEADING # p) @ frame_crc (LEADING # p) @ [CR]" "?g = (LEADING # q) @ frame_crc (LEADING # q) @ [CR]"
    using q by (simp_all add: response_frame_def)
  show False
  proof (cases "i < length (LEADING # p)")
    case True
    then have "?g = flip_at i b (LEADING # p) @ frame_crc (LEADING # p) @ [CR]"
      unfolding split(1) flip_at_append by (simp only: if_True)
    then have e: "flip_at i b (LEADING # p) @ (frame_crc (LEADING # p) @ [CR]) = (LEADING # q) @ (frame_crc (LEADING # q) @ [CR])"
      using split(2) by simp
    have l: "length (flip_at i b (LEADING # p)) = length (LEADING # q)" using len by simp
    from iffD1 [OF append_eq_append_conv [OF disjI1 [OF l]] e]
    have "flip_at i b (LEADING # p) = LEADING # q" "frame_crc (LEADING # p) = frame_crc (LEADING # q)" by simp_all
    with frame_crc_flip [OF True assms(3)] assms(1) show False by simp
  next
    case False
    then have "?g = (LEADING # p) @ flip_at (i - length (LEADING # p)) b (frame_crc (LEADING # p) @ [CR])"
      unfolding split(1) flip_at_append by (simp only: if_False)
    then have "p = q" and e: "flip_at (i - length (LEADING # p)) b (frame_crc (LEADING # p) @ [CR]) = frame_crc (LEADING # q) @ [CR]"
      using split(2) len by (auto simp: append_eq_append_conv)
    let ?t = "frame_crc (LEADING # p) @ [CR]" and ?j = "i - length (LEADING # p)"
    have "?j < length ?t" using assms(2) False by (simp add: response_frame_def)
    moreover from e \<open>p = q\<close> have "flip_at ?j b ?t ! ?j = ?t ! ?j" by simp
    ultimately show False using flip_at_neq [OF assms(3)] by (simp add: flip_at_def)
  qed
qed

theorem single_bit_flip_rejected_witness:
  "\<exists>e. parse_answer (flip_at 2 5 (response_frame (bytes_of_str ''92932210103714''))) = Inl e"
  by (rule single_bit_flip_rejected) (simp_all add: response_frame_def)

text \<open>
  A request is one frame: it ends in its only carriage return, so neither the text nor the CRC
  can end it early, and different commands have different requests.
\<close>

theorem command_request_framed:
  "last (command_request c) = CR \<and> CR \<notin> set (butlast (command_request c)) \<and>
   (command_request c = command_request d \<longleftrightarrow> c = d)"
proof -
  have req: "command_request c = (bytes_of_str (command_text c) @ frame_crc (bytes_of_str (command_text c))) @ [CR]"
    by (simp add: command_request_def Let_def)
  have "CR \<notin> set (bytes_of_str (command_text c))" by (cases c) (simp_all add: CR_def)
  moreover have "CR \<notin> set (frame_crc (bytes_of_str (command_text c)))" using frame_crc_not_framing by (auto simp: CR_def)
  ultimately have "last (command_request c) = CR \<and> CR \<notin> set (butlast (command_request c))"
    by (auto simp: req butlast_append)
  then show ?thesis using command_request_inject by blast
qed

end
