(* ===== verification/Inv_Parse.thy ===== *)
theory Inv_Parse
  imports Inv_Protocol F64
begin

text \<open>
  \<open>packages/inverter-monitoring/src/parse.rs\<close>: payloads to typed readings, every field at a fixed
  offset with a fixed width.  Messages of errors are reduced to their cause and offset.
\<close>

section \<open>Model\<close>

datatype inv_error =
    BadLength string nat
  | BadSeparator nat
  | PastEnd nat
  | NotAscii nat
  | BadInteger nat
  | BadDecimal nat
  | BadBit nat
  | NotPrintable
  | EmptyPayload

subsection \<open>Fields\<close>

definition is_ascii_digit :: "byte \<Rightarrow> bool" where
  "is_ascii_digit b \<longleftrightarrow> 0x30 \<le> b \<and> b \<le> 0x39"

definition is_ascii_graphic :: "byte \<Rightarrow> bool" where
  "is_ascii_graphic b \<longleftrightarrow> 0x21 \<le> b \<and> b \<le> 0x7E"

definition expect_len :: "string \<Rightarrow> byte list \<Rightarrow> nat \<Rightarrow> (inv_error, unit) result" where
  "expect_len command payload want =
     (if length payload \<noteq> want then Inl (BadLength command (length payload)) else Inr ())"

definition field :: "byte list \<Rightarrow> nat \<Rightarrow> nat \<Rightarrow> (inv_error, string) result" where
  "field payload offset width =
     res_bind (ok_or (PastEnd offset) (slice_get payload offset (offset + width))) (\<lambda>slice.
     ok_or (NotAscii offset) (from_utf8 slice))"

definition integer :: "byte list \<Rightarrow> nat \<Rightarrow> nat \<Rightarrow> (inv_error, int) result" where
  "integer payload offset width =
     res_bind (field payload offset width) (\<lambda>text.
     if length text \<noteq> width \<or> \<not> list_all is_ascii_digit (bytes_of_str text) then Inl (BadInteger offset)
     else ok_or (BadInteger offset) (parse_i64 text))"

text \<open>\<open>str::parse::<f64>\<close> on digits around one point: the nearest double.\<close>

definition parse_decimal :: "string \<Rightarrow> f64 option" where
  "parse_decimal text =
     Option.bind (split_once (CHR ''.'') text) (\<lambda>(a, b).
     if a @ b = [] then None
     else map_option (\<lambda>n. f64_round (of_nat n / 10 ^ length b)) (digits_val 0 (a @ b)))"

definition decimal :: "byte list \<Rightarrow> nat \<Rightarrow> nat \<Rightarrow> (inv_error, f64) result" where
  "decimal payload offset width =
     res_bind (field payload offset width) (\<lambda>text.
     let digits = length (filter is_ascii_digit (bytes_of_str text)) in
     if length text \<noteq> width \<or> count_list text (CHR ''.'') \<noteq> 1 \<or> digits \<noteq> width - 1 then Inl (BadDecimal offset)
     else ok_or (BadDecimal offset) (parse_decimal text))"

definition bit_at :: "byte list \<Rightarrow> nat \<Rightarrow> (inv_error, bool) result" where
  "bit_at payload offset =
     (case nth_get payload offset of
        None \<Rightarrow> Inl (PastEnd offset)
      | Some c \<Rightarrow> if c = 0x30 then Inr False else if c = 0x31 then Inr True else Inl (BadBit offset))"

fun separators :: "byte list \<Rightarrow> nat list \<Rightarrow> (inv_error, unit) result" where
  "separators payload [] = Inr ()"
| "separators payload (offset # offsets) =
     (if payload ! offset \<noteq> 0x20 then Inl (BadSeparator offset) else separators payload offsets)"

subsection \<open>QMOD\<close>

datatype mode = PowerOn | Standby | LineMode | Battery | Fault | Shutdown | Charge | Bypass | Eco

definition mode_codes :: "(string \<times> mode) list" where
  "mode_codes =
     [(''P'', PowerOn), (''S'', Standby), (''L'', LineMode), (''B'', Battery), (''F'', Fault),
      (''D'', Shutdown), (''C'', Charge), (''Y'', Bypass), (''E'', Eco)]"

definition mode_from_code :: "byte \<Rightarrow> mode option" where
  "mode_from_code code = map_of mode_codes (str_of_bytes [code])"

fun mode_name :: "mode \<Rightarrow> string" where
  "mode_name PowerOn = ''power_on''"
| "mode_name Standby = ''standby''"
| "mode_name LineMode = ''line''"
| "mode_name Battery = ''battery''"
| "mode_name Fault = ''fault''"
| "mode_name Shutdown = ''shutdown''"
| "mode_name Charge = ''charge''"
| "mode_name Bypass = ''bypass''"
| "mode_name Eco = ''eco''"

record mode_reading =
  mr_code :: char
  mr_mode :: "mode option"

definition parse_qmod :: "byte list \<Rightarrow> (inv_error, mode_reading) result" where
  "parse_qmod payload =
     (case payload of
        [code] \<Rightarrow>
          if \<not> is_ascii_graphic code then Inl NotPrintable
          else Inr \<lparr>mr_code = char_of (unat code), mr_mode = mode_from_code code\<rparr>
      | _ \<Rightarrow> Inl (BadLength ''QMOD'' (length payload)))"

subsection \<open>QPIGS\<close>

record qpigs =
  qp_grid_voltage :: f64
  qp_grid_frequency :: f64
  qp_output_voltage :: f64
  qp_output_frequency :: f64
  qp_output_apparent_power :: int
  qp_output_active_power :: int
  qp_output_load_percent :: int
  qp_bus_voltage :: int
  qp_battery_voltage :: f64
  qp_battery_charging_current :: int
  qp_battery_capacity :: int
  qp_heat_sink_temperature :: int
  qp_pv1_current :: f64
  qp_pv1_voltage :: f64
  qp_battery_voltage_from_scc1 :: f64
  qp_battery_discharge_current :: int
  qp_battery_voltage_offset_fans_on :: f64
  qp_eeprom_version :: int
  qp_pv1_charging_power :: int
  qp_add_sbu_priority_version :: bool
  qp_configuration_changed :: bool
  qp_scc_firmware_updated :: bool
  qp_load_on :: bool
  qp_battery_voltage_to_steady_while_charging :: bool
  qp_charging :: bool
  qp_charging_scc :: bool
  qp_charging_ac :: bool
  qp_float_charge :: bool
  qp_switch_on :: bool

definition QPIGS_LEN :: nat where "QPIGS_LEN = 106"

definition QPIGS_SEPARATORS :: "nat list" where
  "QPIGS_SEPARATORS = [5, 10, 16, 21, 26, 31, 35, 39, 45, 49, 53, 58, 63, 69, 75, 81, 90, 93, 96, 102]"

definition parse_qpigs :: "byte list \<Rightarrow> (inv_error, qpigs) result" where
  "parse_qpigs payload =
     res_bind (expect_len ''QPIGS'' payload QPIGS_LEN) (\<lambda>_.
     res_bind (separators payload QPIGS_SEPARATORS) (\<lambda>_.
     res_bind (decimal payload 0 5) (\<lambda>grid_voltage.
     res_bind (decimal payload 6 4) (\<lambda>grid_frequency.
     res_bind (decimal payload 11 5) (\<lambda>output_voltage.
     res_bind (decimal payload 17 4) (\<lambda>output_frequency.
     res_bind (integer payload 22 4) (\<lambda>output_apparent_power.
     res_bind (integer payload 27 4) (\<lambda>output_active_power.
     res_bind (integer payload 32 3) (\<lambda>output_load_percent.
     res_bind (integer payload 36 3) (\<lambda>bus_voltage.
     res_bind (decimal payload 40 5) (\<lambda>battery_voltage.
     res_bind (integer payload 46 3) (\<lambda>battery_charging_current.
     res_bind (integer payload 50 3) (\<lambda>battery_capacity.
     res_bind (integer payload 54 4) (\<lambda>heat_sink_temperature.
     res_bind (decimal payload 59 4) (\<lambda>pv1_current.
     res_bind (decimal payload 64 5) (\<lambda>pv1_voltage.
     res_bind (decimal payload 70 5) (\<lambda>battery_voltage_from_scc1.
     res_bind (integer payload 76 5) (\<lambda>battery_discharge_current.
     res_bind (bit_at payload 82) (\<lambda>add_sbu_priority_version.
     res_bind (bit_at payload 83) (\<lambda>configuration_changed.
     res_bind (bit_at payload 84) (\<lambda>scc_firmware_updated.
     res_bind (bit_at payload 85) (\<lambda>load_on.
     res_bind (bit_at payload 86) (\<lambda>to_steady.
     res_bind (bit_at payload 87) (\<lambda>charging.
     res_bind (bit_at payload 88) (\<lambda>charging_scc.
     res_bind (bit_at payload 89) (\<lambda>charging_ac.
     res_bind (integer payload 91 2) (\<lambda>fans_offset.
     res_bind (integer payload 94 2) (\<lambda>eeprom_version.
     res_bind (integer payload 97 5) (\<lambda>pv1_charging_power.
     res_bind (bit_at payload 103) (\<lambda>float_charge.
     res_bind (bit_at payload 104) (\<lambda>switch_on.
     Inr \<lparr>qp_grid_voltage = grid_voltage, qp_grid_frequency = grid_frequency,
          qp_output_voltage = output_voltage, qp_output_frequency = output_frequency,
          qp_output_apparent_power = output_apparent_power, qp_output_active_power = output_active_power,
          qp_output_load_percent = output_load_percent, qp_bus_voltage = bus_voltage,
          qp_battery_voltage = battery_voltage, qp_battery_charging_current = battery_charging_current,
          qp_battery_capacity = battery_capacity, qp_heat_sink_temperature = heat_sink_temperature,
          qp_pv1_current = pv1_current, qp_pv1_voltage = pv1_voltage,
          qp_battery_voltage_from_scc1 = battery_voltage_from_scc1,
          qp_battery_discharge_current = battery_discharge_current,
          qp_battery_voltage_offset_fans_on = f64_div (f64_of_int fans_offset) 100,
          qp_eeprom_version = eeprom_version, qp_pv1_charging_power = pv1_charging_power,
          qp_add_sbu_priority_version = add_sbu_priority_version,
          qp_configuration_changed = configuration_changed, qp_scc_firmware_updated = scc_firmware_updated,
          qp_load_on = load_on, qp_battery_voltage_to_steady_while_charging = to_steady,
          qp_charging = charging, qp_charging_scc = charging_scc, qp_charging_ac = charging_ac,
          qp_float_charge = float_charge, qp_switch_on = switch_on\<rparr>)))))))))))))))))))))))))))))))"

subsection \<open>QPIGS2\<close>

record qpigs2 =
  q2_pv2_current :: f64
  q2_pv2_voltage :: f64
  q2_pv2_charging_power :: int

definition QPIGS2_LEN :: nat where "QPIGS2_LEN = 17"

definition parse_qpigs2 :: "byte list \<Rightarrow> (inv_error, qpigs2) result" where
  "parse_qpigs2 payload =
     res_bind (expect_len ''QPIGS2'' payload QPIGS2_LEN) (\<lambda>_.
     res_bind (separators payload [4, 10, 16]) (\<lambda>_.
     res_bind (decimal payload 0 4) (\<lambda>pv2_current.
     res_bind (decimal payload 5 5) (\<lambda>pv2_voltage.
     res_bind (integer payload 11 5) (\<lambda>pv2_charging_power.
     Inr \<lparr>q2_pv2_current = pv2_current, q2_pv2_voltage = pv2_voltage,
          q2_pv2_charging_power = pv2_charging_power\<rparr>)))))"

subsection \<open>QPIWS\<close>

definition WARNING_FLAGS :: "string list" where
  "WARNING_FLAGS =
     [''reserved1'', ''inverter_fault'', ''bus_over'', ''bus_under'', ''bus_soft_fail'', ''line_fail'', ''opvshort'',
      ''inverter_voltage_too_low'', ''inverter_voltage_too_high'', ''over_temperature'', ''fan_locked'',
      ''battery_voltage_high'', ''battery_low_alarm'', ''reserved_overcharge'', ''battery_under_shutdown'',
      ''reserved_battery_derating'', ''over_load'', ''eeprom_fault'', ''inverter_over_current'',
      ''inverter_soft_fail'', ''self_test_fail'', ''op_dv_voltage_over'', ''bat_open'', ''current_sensor_fail'',
      ''battery_short'', ''power_limit'', ''pv_voltage_high_1'', ''mppt_overload_fault_1'',
      ''mppt_overload_warning_1'', ''battery_too_low_to_charge_1'', ''pv_voltage_high_2'',
      ''mppt_overload_fault_2'', ''mppt_overload_warning_2'', ''battery_too_low_to_charge_2'',
      ''unknown1'', ''unknown2'']"

definition INVERTER_FAULT_BIT :: nat where "INVERTER_FAULT_BIT = 1"

record qpiws =
  qw_raw :: string
  qw_bits :: "bool list"

definition asserted_count :: "qpiws \<Rightarrow> int" where
  "asserted_count q = int (length (filter (\<lambda>b. b) (qw_bits q)))"

definition asserted :: "qpiws \<Rightarrow> (nat \<times> string) list" where
  "asserted q =
     map (\<lambda>(index, _). (index, WARNING_FLAGS ! index)) (filter (\<lambda>(_, set). set) (List.enumerate 0 (qw_bits q)))"

definition parse_qpiws :: "byte list \<Rightarrow> (inv_error, qpiws) result" where
  "parse_qpiws payload =
     res_bind (expect_len ''QPIWS'' payload (length WARNING_FLAGS)) (\<lambda>_.
     res_bind (res_collect (bit_at payload) [0..<36]) (\<lambda>bits.
     res_bind (ok_or (NotAscii 0) (from_utf8 payload)) (\<lambda>raw.
     Inr \<lparr>qw_raw = raw, qw_bits = bits\<rparr>)))"

subsection \<open>Identity\<close>

definition parse_identity :: "byte list \<Rightarrow> (inv_error, string) result" where
  "parse_identity payload =
     (if payload = [] then Inl EmptyPayload
      else if \<not> list_all (\<lambda>b. is_ascii_graphic b \<or> b = 0x20) payload then Inl NotPrintable
      else Inr (trim (from_utf8_lossy payload)))"

section \<open>Lemmas\<close>

text \<open>Numbers in decimal digits.\<close>

definition number_of :: "byte list \<Rightarrow> nat" where
  "number_of ds = foldl (\<lambda>acc b. 10 * acc + (unat b - 48)) 0 ds"

lemma digit_ascii: "is_ascii_digit b \<Longrightarrow> b < 0x80"
  by (simp add: is_ascii_digit_def word_le_nat_alt word_less_nat_alt)

lemma digit_val_byte: "is_ascii_digit b \<Longrightarrow> digit_val (char_of (unat b)) = Some (unat b - 48)"
  by (simp add: digit_val_def is_ascii_digit_def word_le_nat_alt)

lemma digits_val_bytes:
  "list_all is_ascii_digit ds \<Longrightarrow> digits_val acc (str_of_bytes ds) = Some (foldl (\<lambda>acc b. 10 * acc + (unat b - 48)) acc ds)"
  by (induction ds arbitrary: acc) (simp_all add: digit_val_byte)

lemma number_bound: "list_all is_ascii_digit ds \<Longrightarrow> foldl (\<lambda>acc b. 10 * acc + (unat b - 48)) acc ds < (acc + 1) * 10 ^ length ds"
proof (induction ds arbitrary: acc)
  case (Cons d ds)
  then have d: "unat d - 48 \<le> 9" by (auto simp: is_ascii_digit_def word_le_nat_alt)
  from Cons have "foldl (\<lambda>acc b. 10 * acc + (unat b - 48)) acc (d # ds) < (10 * acc + (unat d - 48) + 1) * 10 ^ length ds"
    by simp
  also have "\<dots> \<le> (10 * (acc + 1)) * 10 ^ length ds" using d by (intro mult_right_mono) auto
  finally show ?case by (simp add: algebra_simps)
qed simp

lemma number_of_less: "list_all is_ascii_digit ds \<Longrightarrow> number_of ds < 10 ^ length ds"
  using number_bound [of ds 0] by (simp add: number_of_def)

lemma field_ascii:
  assumes "off + w \<le> length p" "take w (drop off p) = f" "\<forall>b \<in> set f. b < 0x80"
  shows "field p off w = Inr (str_of_bytes f)"
proof -
  have "slice_get p off (off + w) = Some f" using assms by (simp add: slice_get_eq_Some drop_take)
  then show ?thesis using assms(3) by (simp add: field_def from_utf8_def utf8_valid_ascii)
qed

text \<open>The three shapes a field can have.\<close>

definition int_field :: "nat \<Rightarrow> byte list \<Rightarrow> bool" where
  "int_field w f \<longleftrightarrow> length f = w \<and> list_all is_ascii_digit f"

definition dec_field :: "nat \<Rightarrow> byte list \<Rightarrow> bool" where
  "dec_field w f \<longleftrightarrow> length f = w \<and> (\<exists>a b. f = a @ 0x2E # b \<and> list_all is_ascii_digit (a @ b) \<and> a @ b \<noteq> [])"

definition bits_field :: "nat \<Rightarrow> byte list \<Rightarrow> bool" where
  "bits_field w f \<longleftrightarrow> length f = w \<and> set f \<subseteq> {0x30, 0x31}"

definition dec_val :: "byte list \<Rightarrow> f64" where
  "dec_val f =
     f64_round (of_nat (number_of (filter is_ascii_digit f)) / 10 ^ (length (dropWhile is_ascii_digit f) - 1))"

lemma integer_field:
  assumes "off + w \<le> length p" "take w (drop off p) = f" "int_field w f" "0 < w" "w \<le> 18"
  shows "integer p off w = Inr (int (number_of f))"
proof -
  from assms(3) have d: "list_all is_ascii_digit f" "length f = w" by (simp_all add: int_field_def)
  then have "\<forall>b \<in> set f. b < 0x80" by (auto simp: list_all_iff digit_ascii)
  from field_ascii [OF assms(1,2) this] have fld: "field p off w = Inr (str_of_bytes f)" .
  obtain c cs where f: "f = c # cs" using d(2) assms(4) by (cases f) auto
  have c: "char_of (unat c) \<noteq> CHR ''-''" "char_of (unat c) \<noteq> CHR ''+''"
    using d(1) f by (auto simp: is_ascii_digit_def word_le_nat_alt dest!: arg_cong [of _ _ "of_char :: char \<Rightarrow> nat"])
  have "number_of f < 10 ^ w" using number_of_less [OF d(1)] d(2) by simp
  also have "(10 :: nat) ^ w \<le> 10 ^ 18" using assms(5) by (intro power_increasing) auto
  finally have "number_of f < 2 ^ 63" by simp
  with digits_val_bytes [OF d(1), of 0] f c have "parse_i64 (str_of_bytes f) = Some (int (number_of f))"
    by (simp add: parse_i64_def parse_nat_def number_of_def)
  with fld d show ?thesis by (simp add: integer_def)
qed

lemma number_of_append: "number_of (a @ b) = foldl (\<lambda>acc b. 10 * acc + (unat b - 48)) (number_of a) b"
  by (simp add: number_of_def)

lemma dec_parts:
  assumes "list_all is_ascii_digit (a @ b)"
  shows "filter is_ascii_digit (a @ 0x2E # b) = a @ b" "dropWhile is_ascii_digit (a @ 0x2E # b) = 0x2E # b"
    "count_list (str_of_bytes (a @ 0x2E # b)) (CHR ''.'') = 1"
    "split_once (CHR ''.'') (str_of_bytes (a @ 0x2E # b)) = Some (str_of_bytes a, str_of_bytes b)"
proof -
  have dot: "\<not> is_ascii_digit 0x2E" by (simp add: is_ascii_digit_def)
  have dot_char: "char_of (unat (0x2E :: byte)) = CHR ''.''" by code_simp
  have no: "CHR ''.'' \<notin> set (str_of_bytes ds)" if "list_all is_ascii_digit ds" for ds
    using that by (auto simp: str_of_bytes_def list_all_iff is_ascii_digit_def word_le_nat_alt
        dest!: arg_cong [of _ _ "of_char :: char \<Rightarrow> nat"])
  show "filter is_ascii_digit (a @ 0x2E # b) = a @ b" using assms dot by (simp add: list_all_iff filter_id_conv)
  show "dropWhile is_ascii_digit (a @ 0x2E # b) = 0x2E # b"
    using assms dot by (simp add: list_all_iff dropWhile_append3 dropWhile_append2)
  show "count_list (str_of_bytes (a @ 0x2E # b)) (CHR ''.'') = 1"
    using no [of a] no [of b] assms dot_char by (simp add: count_list_0_iff)
  show "split_once (CHR ''.'') (str_of_bytes (a @ 0x2E # b)) = Some (str_of_bytes a, str_of_bytes b)"
    using no [of a] assms dot_char by (simp add: split_once_Some)
qed

lemma decimal_field:
  assumes "off + w \<le> length p" "take w (drop off p) = f" "dec_field w f"
  shows "decimal p off w = Inr (dec_val f)"
proof -
  from assms(3) obtain a b where f: "f = a @ 0x2E # b" and d: "list_all is_ascii_digit (a @ b)" "a @ b \<noteq> []"
    and w: "length f = w" by (auto simp: dec_field_def)
  note parts = dec_parts [OF d(1)]
  have "\<forall>x \<in> set f. x < 0x80" using d(1) f by (auto simp: list_all_iff digit_ascii)
  from field_ascii [OF assms(1,2) this] have fld: "field p off w = Inr (str_of_bytes f)" .
  have "str_of_bytes a @ str_of_bytes b = str_of_bytes (a @ b)" by simp
  then have "parse_decimal (str_of_bytes f) = Some (f64_round (of_nat (number_of (a @ b)) / 10 ^ length b))"
    using d digits_val_bytes [OF d(1), of 0] unfolding f parse_decimal_def parts(4)
    by (simp add: number_of_def)
  with fld w parts d show ?thesis
    by (simp add: decimal_def Let_def f dec_val_def del: str_of_bytes_simps)
qed

lemma bit_field:
  assumes "off + w \<le> length p" "take w (drop off p) = f" "bits_field w f" "i < w"
  shows "bit_at p (off + i) = Inr (f ! i = 0x31)"
proof -
  have "f ! i = p ! (off + i)" "f ! i \<in> set f" using assms by (auto simp: bits_field_def)
  with assms show ?thesis by (auto simp: bit_at_def nth_get_def bits_field_def)
qed


text \<open>A payload as the protocol document gives it: fields of fixed width, one space between them.\<close>

datatype shape = Decimal nat | Digits nat | Flags nat

fun width :: "shape \<Rightarrow> nat" where
  "width (Decimal w) = w"
| "width (Digits w) = w"
| "width (Flags w) = w"

fun shaped :: "shape \<Rightarrow> byte list \<Rightarrow> bool" where
  "shaped (Decimal w) f = dec_field w f"
| "shaped (Digits w) f = int_field w f"
| "shaped (Flags w) f = bits_field w f"

fun joined :: "byte list list \<Rightarrow> byte list" where
  "joined [] = []"
| "joined [f] = f"
| "joined (f # fs) = f @ 0x20 # joined fs"

definition offset_of :: "shape list \<Rightarrow> nat \<Rightarrow> nat" where
  "offset_of ss k = sum_list (map (\<lambda>s. Suc (width s)) (take k ss))"

lemma shaped_width: "shaped s f \<Longrightarrow> length f = width s"
  by (cases s) (simp_all add: dec_field_def int_field_def bits_field_def)

lemma joined_at:
  "list_all2 shaped ss fs \<Longrightarrow> k < length ss \<Longrightarrow>
   offset_of ss k + width (ss ! k) \<le> length (joined fs) \<and>
   take (width (ss ! k)) (drop (offset_of ss k) (joined fs)) = fs ! k \<and>
   (0 < k \<longrightarrow> joined fs ! (offset_of ss k - 1) = 0x20)"
proof (induction fs arbitrary: ss k rule: joined.induct)
  case (2 f)
  then obtain s where "ss = [s]" "shaped s f" by (auto simp: list_all2_Cons2)
  with 2 show ?case by (simp add: offset_of_def shaped_width [symmetric])
next
  case (3 f g fs)
  then obtain s ss' where ss: "ss = s # ss'" "shaped s f" "list_all2 shaped ss' (g # fs)" by (auto simp: list_all2_Cons2)
  have len: "length f = width s" using ss(2) by (rule shaped_width)
  show ?case
  proof (cases k)
    case 0
    with ss len show ?thesis by (simp add: offset_of_def)
  next
    case (Suc j)
    have off: "offset_of ss k = Suc (width s) + offset_of ss' j" by (simp add: offset_of_def ss(1) Suc)
    from "3.IH" [OF ss(3), of j] "3.prems"(2) have ih:
      "offset_of ss' j + width (ss' ! j) \<le> length (joined (g # fs))"
      "take (width (ss' ! j)) (drop (offset_of ss' j) (joined (g # fs))) = (g # fs) ! j"
      "0 < j \<longrightarrow> joined (g # fs) ! (offset_of ss' j - 1) = 0x20"
      by (simp_all add: ss(1) Suc)
    have sep: "(f @ 0x20 # joined (g # fs)) ! (Suc (width s) + offset_of ss' j - 1) = 0x20"
    proof (cases "j = 0")
      case True
      then show ?thesis using len by (simp add: offset_of_def nth_append)
    next
      case False
      then have "0 < offset_of ss' j" using ss(3) by (cases j; cases ss') (auto simp: offset_of_def)
      with ih(3) False len show ?thesis by (simp add: nth_append nth_Cons')
    qed
    with ih len off Suc ss(1) show ?thesis by simp
  qed
qed simp

lemma shaped_decimal:
  assumes "list_all2 shaped ss fs" "k < length ss" "ss ! k = Decimal w"
  shows "decimal (joined fs) (offset_of ss k) w = Inr (dec_val (fs ! k))"
proof -
  have "dec_field w (fs ! k)" using list_all2_nthD [OF assms(1,2)] assms(3) by simp
  with joined_at [OF assms(1,2)] assms(3) show ?thesis by (intro decimal_field) auto
qed

lemma shaped_integer:
  assumes "list_all2 shaped ss fs" "k < length ss" "ss ! k = Digits w" "0 < w" "w \<le> 18"
  shows "integer (joined fs) (offset_of ss k) w = Inr (int (number_of (fs ! k)))"
proof -
  have "int_field w (fs ! k)" using list_all2_nthD [OF assms(1,2)] assms(3) by simp
  with joined_at [OF assms(1,2)] assms(3,4,5) show ?thesis by (intro integer_field) auto
qed

lemma shaped_bit:
  assumes "list_all2 shaped ss fs" "k < length ss" "ss ! k = Flags w" "i < w"
  shows "bit_at (joined fs) (offset_of ss k + i) = Inr (fs ! k ! i = 0x31)"
proof -
  have "bits_field w (fs ! k)" using list_all2_nthD [OF assms(1,2)] assms(3) by simp
  with joined_at [OF assms(1,2)] assms(3,4) show ?thesis by (intro bit_field) auto
qed

lemma length_joined: "list_all2 shaped ss fs \<Longrightarrow> length (joined fs) = sum_list (map width ss) + (length ss - 1)"
proof (induction fs arbitrary: ss rule: joined.induct)
  case (3 f g fs)
  then obtain s ss' where "ss = s # ss'" "shaped s f" "list_all2 shaped ss' (g # fs)" by (auto simp: list_all2_Cons2)
  with "3.IH" [of ss'] show ?case by (auto simp: shaped_width list_all2_Cons2)
qed (auto simp: list_all2_Cons2 shaped_width)

lemma separators_ok: "\<forall>i \<in> set offsets. p ! i = 0x20 \<Longrightarrow> separators p offsets = Inr ()"
  by (induction offsets) auto

definition QPIGS_SHAPE :: "shape list" where
  "QPIGS_SHAPE = [Decimal 5, Decimal 4, Decimal 5, Decimal 4, Digits 4, Digits 4, Digits 3, Digits 3, Decimal 5, Digits 3, Digits 3, Digits 4, Decimal 4, Decimal 5, Decimal 5, Digits 5, Flags 8, Digits 2, Digits 2, Digits 5, Flags 3]"

lemma qpigs_separators:
  assumes "list_all2 shaped QPIGS_SHAPE fs"
  shows "separators (joined fs) QPIGS_SEPARATORS = Inr ()"
proof (rule separators_ok)
  have seps: "QPIGS_SEPARATORS = map (\<lambda>k. offset_of QPIGS_SHAPE k - 1) [1..<21]"
    by (simp add: QPIGS_SEPARATORS_def offset_of_def QPIGS_SHAPE_def upt_rec)
  have "joined fs ! (offset_of QPIGS_SHAPE k - 1) = 0x20" if "0 < k" "k < 21" for k
    using joined_at [OF assms, of k] that by (simp add: QPIGS_SHAPE_def)
  then show "\<forall>i \<in> set QPIGS_SEPARATORS. joined fs ! i = 0x20" by (auto simp: seps)
qed

lemma qpigs_decimals:
  assumes "list_all2 shaped QPIGS_SHAPE fs"
  shows "decimal (joined fs) 0 5 = Inr (dec_val (fs ! 0))"
    "decimal (joined fs) 6 4 = Inr (dec_val (fs ! 1))"
    "decimal (joined fs) 11 5 = Inr (dec_val (fs ! 2))"
    "decimal (joined fs) 17 4 = Inr (dec_val (fs ! 3))"
    "decimal (joined fs) 40 5 = Inr (dec_val (fs ! 8))"
    "decimal (joined fs) 59 4 = Inr (dec_val (fs ! 12))"
    "decimal (joined fs) 64 5 = Inr (dec_val (fs ! 13))"
    "decimal (joined fs) 70 5 = Inr (dec_val (fs ! 14))"
  using shaped_decimal [OF assms, of 0 5]
    shaped_decimal [OF assms, of 1 4]
    shaped_decimal [OF assms, of 2 5]
    shaped_decimal [OF assms, of 3 4]
    shaped_decimal [OF assms, of 8 5]
    shaped_decimal [OF assms, of 12 4]
    shaped_decimal [OF assms, of 13 5]
    shaped_decimal [OF assms, of 14 5]
  by (simp_all add: offset_of_def QPIGS_SHAPE_def)

lemma qpigs_integers:
  assumes "list_all2 shaped QPIGS_SHAPE fs"
  shows "integer (joined fs) 22 4 = Inr (int (number_of (fs ! 4)))"
    "integer (joined fs) 27 4 = Inr (int (number_of (fs ! 5)))"
    "integer (joined fs) 32 3 = Inr (int (number_of (fs ! 6)))"
    "integer (joined fs) 36 3 = Inr (int (number_of (fs ! 7)))"
    "integer (joined fs) 46 3 = Inr (int (number_of (fs ! 9)))"
    "integer (joined fs) 50 3 = Inr (int (number_of (fs ! 10)))"
    "integer (joined fs) 54 4 = Inr (int (number_of (fs ! 11)))"
    "integer (joined fs) 76 5 = Inr (int (number_of (fs ! 15)))"
    "integer (joined fs) 91 2 = Inr (int (number_of (fs ! 17)))"
    "integer (joined fs) 94 2 = Inr (int (number_of (fs ! 18)))"
    "integer (joined fs) 97 5 = Inr (int (number_of (fs ! 19)))"
  using shaped_integer [OF assms, of 4 4]
    shaped_integer [OF assms, of 5 4]
    shaped_integer [OF assms, of 6 3]
    shaped_integer [OF assms, of 7 3]
    shaped_integer [OF assms, of 9 3]
    shaped_integer [OF assms, of 10 3]
    shaped_integer [OF assms, of 11 4]
    shaped_integer [OF assms, of 15 5]
    shaped_integer [OF assms, of 17 2]
    shaped_integer [OF assms, of 18 2]
    shaped_integer [OF assms, of 19 5]
  by (simp_all add: offset_of_def QPIGS_SHAPE_def)

lemma qpigs_bits:
  assumes "list_all2 shaped QPIGS_SHAPE fs"
  shows "i < 8 \<Longrightarrow> bit_at (joined fs) (82 + i) = Inr (fs ! 16 ! i = 0x31)"
    "i < 3 \<Longrightarrow> bit_at (joined fs) (103 + i) = Inr (fs ! 20 ! i = 0x31)"
  using shaped_bit [OF assms, of 16 8 i] shaped_bit [OF assms, of 20 3 i]
  by (simp_all add: offset_of_def QPIGS_SHAPE_def)


lemma parse_identity_plain: "plain w \<Longrightarrow> parse_identity (bytes_of_str w) = Inr w"
proof -
  assume w: "plain w"
  have "list_all (\<lambda>b. is_ascii_graphic b \<or> b = 0x20) (bytes_of_str w)" "bytes_of_str w \<noteq> []"
    using w by (auto simp: plain_def list_all_iff bytes_of_str_def is_ascii_graphic_def word_le_nat_alt)
  moreover have "\<forall>b \<in> set (bytes_of_str w). b < 0x80" using plain_ascii [OF w] by blast
  ultimately show ?thesis
    by (simp add: parse_identity_def from_utf8_lossy_def utf8_lossy_ascii trim_plain [OF w])
qed

lemma separators_Inr: "separators p offsets = Inr () \<longleftrightarrow> (\<forall>i \<in> set offsets. p ! i = 0x20)"
  by (induction offsets) auto

lemma expect_len_Inr [simp]: "expect_len c p n = Inr u \<longleftrightarrow> length p = n"
  by (simp add: expect_len_def)

lemma res_collect_bits:
  "set f \<subseteq> {0x30, 0x31} \<Longrightarrow> res_collect (bit_at f) [0..<length f] = Inr (map (\<lambda>b. b = 0x31) f)"
proof -
  assume f: "set f \<subseteq> {0x30, 0x31}"
  have "bit_at f i = Inr (f ! i = 0x31)" if "i < length f" for i
    using subsetD [OF f nth_mem [OF that]] that by (auto simp: bit_at_def nth_get_def)
  then have "res_collect (bit_at f) [0..<length f] = Inr (map (\<lambda>i. f ! i = 0x31) [0..<length f])"
    by (intro res_collect_map) auto
  also have "map (\<lambda>i. f ! i = 0x31) [0..<length f] = map (\<lambda>b. b = 0x31) f"
    by (metis (mono_tags, lifting) map_nth map_map comp_def map_cong)
  finally show ?thesis .
qed

lemma WARNING_FLAGS_facts: "length WARNING_FLAGS = 36" "distinct WARNING_FLAGS"
  by (simp_all add: WARNING_FLAGS_def)

lemma asserted_eq: "asserted q = map (\<lambda>i. (i, WARNING_FLAGS ! i)) (filter (\<lambda>i. qw_bits q ! i) [0..<length (qw_bits q)])"
proof -
  have "List.enumerate 0 (qw_bits q) = map (\<lambda>i. (i, qw_bits q ! i)) [0..<length (qw_bits q)]"
    by (intro nth_equalityI) (auto simp: nth_enumerate_eq)
  then show ?thesis by (simp add: asserted_def filter_map comp_def)
qed

lemma asserted_count_eq: "asserted_count q = int (length (asserted q))"
proof -
  have "length (filter (\<lambda>b. b) (qw_bits q)) = length (filter (\<lambda>i. qw_bits q ! i) [0..<length (qw_bits q)])"
    by (subst (1) map_nth [symmetric]) (simp add: filter_map comp_def)
  then show ?thesis by (simp add: asserted_count_def asserted_eq)
qed

section \<open>Properties\<close>

definition demo_qpigs :: "byte list list" where
  "demo_qpigs = map bytes_of_str
     [''230.1'', ''50.0'', ''229.9'', ''49.9'', ''0574'', ''0521'', ''011'', ''431'', ''54.20'', ''005'', ''087'', ''0041'',
      ''03.4'', ''251.7'', ''54.10'', ''00000'', ''00010110'', ''57'', ''00'', ''00855'', ''010'']"

lemma demo_shaped: "list_all2 shaped QPIGS_SHAPE demo_qpigs"
proof -
  have dec: "dec_field 5 (bytes_of_str [a, b, c, CHR ''.'', d])" "dec_field 5 (bytes_of_str [a, b, CHR ''.'', c, d])"
    if "list_all is_ascii_digit (map of_char [a, b, c, d])" for a b c d
  proof -
    show "dec_field 5 (bytes_of_str [a, b, c, CHR ''.'', d])" unfolding dec_field_def
      using that by (intro conjI exI [of _ "map of_char [a, b, c]"] exI [of _ "map of_char [d]"]) simp_all
    show "dec_field 5 (bytes_of_str [a, b, CHR ''.'', c, d])" unfolding dec_field_def
      using that by (intro conjI exI [of _ "map of_char [a, b]"] exI [of _ "map of_char [c, d]"]) simp_all
  qed
  have dec4: "dec_field 4 (bytes_of_str [a, b, CHR ''.'', d])" if "list_all is_ascii_digit (map of_char [a, b, d])" for a b d
    unfolding dec_field_def
    using that by (intro conjI exI [of _ "map of_char [a, b]"] exI [of _ "map of_char [d]"]) simp_all
  show ?thesis
    unfolding QPIGS_SHAPE_def demo_qpigs_def
    by (simp del: bytes_of_str_simps, intro conjI dec dec4)
       (simp_all add: int_field_def bits_field_def is_ascii_digit_def bytes_of_str_def)
qed

lemma parse_qpigs_shaped:
  assumes "list_all2 shaped QPIGS_SHAPE fs"
  shows "parse_qpigs (joined fs) = Inr
    \<lparr>qp_grid_voltage = dec_val (fs ! 0), qp_grid_frequency = dec_val (fs ! 1),
     qp_output_voltage = dec_val (fs ! 2), qp_output_frequency = dec_val (fs ! 3),
     qp_output_apparent_power = int (number_of (fs ! 4)), qp_output_active_power = int (number_of (fs ! 5)),
     qp_output_load_percent = int (number_of (fs ! 6)), qp_bus_voltage = int (number_of (fs ! 7)),
     qp_battery_voltage = dec_val (fs ! 8), qp_battery_charging_current = int (number_of (fs ! 9)),
     qp_battery_capacity = int (number_of (fs ! 10)), qp_heat_sink_temperature = int (number_of (fs ! 11)),
     qp_pv1_current = dec_val (fs ! 12), qp_pv1_voltage = dec_val (fs ! 13),
     qp_battery_voltage_from_scc1 = dec_val (fs ! 14),
     qp_battery_discharge_current = int (number_of (fs ! 15)),
     qp_battery_voltage_offset_fans_on = f64_div (f64_of_int (int (number_of (fs ! 17)))) 100,
     qp_eeprom_version = int (number_of (fs ! 18)), qp_pv1_charging_power = int (number_of (fs ! 19)),
     qp_add_sbu_priority_version = (fs ! 16 ! 0 = 0x31), qp_configuration_changed = (fs ! 16 ! 1 = 0x31),
     qp_scc_firmware_updated = (fs ! 16 ! 2 = 0x31), qp_load_on = (fs ! 16 ! 3 = 0x31),
     qp_battery_voltage_to_steady_while_charging = (fs ! 16 ! 4 = 0x31), qp_charging = (fs ! 16 ! 5 = 0x31),
     qp_charging_scc = (fs ! 16 ! 6 = 0x31), qp_charging_ac = (fs ! 16 ! 7 = 0x31),
     qp_float_charge = (fs ! 20 ! 0 = 0x31), qp_switch_on = (fs ! 20 ! 1 = 0x31)\<rparr>"
proof -
  have "length (joined fs) = QPIGS_LEN"
    using length_joined [OF assms] by (simp add: QPIGS_SHAPE_def QPIGS_LEN_def)
  with qpigs_separators [OF assms] qpigs_decimals [OF assms] qpigs_integers [OF assms]
    qpigs_bits(1) [OF assms, of 0] qpigs_bits(1) [OF assms, of 1] qpigs_bits(1) [OF assms, of 2]
    qpigs_bits(1) [OF assms, of 3] qpigs_bits(1) [OF assms, of 4] qpigs_bits(1) [OF assms, of 5]
    qpigs_bits(1) [OF assms, of 6] qpigs_bits(1) [OF assms, of 7]
    qpigs_bits(2) [OF assms, of 0] qpigs_bits(2) [OF assms, of 1]
  show ?thesis by (simp add: parse_qpigs_def expect_len_def)
qed

text \<open>
  The general status is read field by field: for every payload laid out as the protocol
  document says (21 fields of the given widths with one space between them),
  \<open>parse_qpigs\<close> succeeds and each reading is the value of its field: decimals as
  the nearest double, counters exactly, and each status flag the digit at its place; nothing is
  read from the neighbouring field.
\<close>

theorem parse_qpigs_reads_fields:
  assumes "list_all2 shaped QPIGS_SHAPE fs"
  shows "parse_qpigs (joined fs) = Inr
    \<lparr>qp_grid_voltage = dec_val (fs ! 0), qp_grid_frequency = dec_val (fs ! 1),
     qp_output_voltage = dec_val (fs ! 2), qp_output_frequency = dec_val (fs ! 3),
     qp_output_apparent_power = int (number_of (fs ! 4)), qp_output_active_power = int (number_of (fs ! 5)),
     qp_output_load_percent = int (number_of (fs ! 6)), qp_bus_voltage = int (number_of (fs ! 7)),
     qp_battery_voltage = dec_val (fs ! 8), qp_battery_charging_current = int (number_of (fs ! 9)),
     qp_battery_capacity = int (number_of (fs ! 10)), qp_heat_sink_temperature = int (number_of (fs ! 11)),
     qp_pv1_current = dec_val (fs ! 12), qp_pv1_voltage = dec_val (fs ! 13),
     qp_battery_voltage_from_scc1 = dec_val (fs ! 14),
     qp_battery_discharge_current = int (number_of (fs ! 15)),
     qp_battery_voltage_offset_fans_on = f64_div (f64_of_int (int (number_of (fs ! 17)))) 100,
     qp_eeprom_version = int (number_of (fs ! 18)), qp_pv1_charging_power = int (number_of (fs ! 19)),
     qp_add_sbu_priority_version = (fs ! 16 ! 0 = 0x31), qp_configuration_changed = (fs ! 16 ! 1 = 0x31),
     qp_scc_firmware_updated = (fs ! 16 ! 2 = 0x31), qp_load_on = (fs ! 16 ! 3 = 0x31),
     qp_battery_voltage_to_steady_while_charging = (fs ! 16 ! 4 = 0x31), qp_charging = (fs ! 16 ! 5 = 0x31),
     qp_charging_scc = (fs ! 16 ! 6 = 0x31), qp_charging_ac = (fs ! 16 ! 7 = 0x31),
     qp_float_charge = (fs ! 20 ! 0 = 0x31), qp_switch_on = (fs ! 20 ! 1 = 0x31)\<rparr>"
  using assms by (rule parse_qpigs_shaped)

theorem parse_qpigs_reads_fields_witness:
  "\<exists>q. parse_qpigs (joined demo_qpigs) = Inr q \<and> qp_output_active_power q = 521 \<and> qp_charging q \<and> \<not> qp_charging_ac q"
proof -
  from parse_qpigs_reads_fields [OF demo_shaped] show ?thesis
    by (simp add: demo_qpigs_def number_of_def)
qed

text \<open>
  A payload whose widths have changed is refused, not misread: whatever
  \<open>parse_qpigs\<close> accepts is exactly 106 bytes long and has a space at each of the
  20 documented places, and what \<open>parse_qpigs2\<close> accepts is 17 bytes long with its
  three spaces, the trailing one included.
\<close>

theorem parse_qpigs_strict:
  "(parse_qpigs p = Inr q \<longrightarrow> length p = 106 \<and> (\<forall>i \<in> set QPIGS_SEPARATORS. p ! i = 0x20)) \<and>
   (parse_qpigs2 p = Inr q2 \<longrightarrow> length p = 17 \<and> p ! 4 = 0x20 \<and> p ! 10 = 0x20 \<and> p ! 16 = 0x20)"
proof -
  have "length p = 106 \<and> (\<forall>i \<in> set QPIGS_SEPARATORS. p ! i = 0x20)" if "parse_qpigs p = Inr q"
  proof -
    from that have "expect_len ''QPIGS'' p QPIGS_LEN = Inr ()" "separators p QPIGS_SEPARATORS = Inr ()"
      unfolding parse_qpigs_def res_bind_eq_Inr by auto
    then show ?thesis by (simp add: separators_Inr QPIGS_LEN_def)
  qed
  moreover have "length p = 17 \<and> p ! 4 = 0x20 \<and> p ! 10 = 0x20 \<and> p ! 16 = 0x20" if "parse_qpigs2 p = Inr q2"
  proof -
    from that have "expect_len ''QPIGS2'' p QPIGS2_LEN = Inr ()" "separators p [4, 10, 16] = Inr ()"
      unfolding parse_qpigs2_def res_bind_eq_Inr by auto
    then show ?thesis by (simp add: separators_Inr QPIGS2_LEN_def del: separators.simps)
  qed
  ultimately show ?thesis by blast
qed

theorem parse_qpigs_strict_witness:
  "\<exists>q. parse_qpigs (joined demo_qpigs) = Inr q \<and> length (joined demo_qpigs) = 106 \<and> joined demo_qpigs ! 102 = 0x20"
proof -
  obtain q where q: "parse_qpigs (joined demo_qpigs) = Inr q" using parse_qpigs_shaped [OF demo_shaped] by blast
  with parse_qpigs_strict [of "joined demo_qpigs" q] show ?thesis by (auto simp: QPIGS_SEPARATORS_def)
qed

text \<open>
  Warnings are reported bit for bit: for a payload of 36 flag digits,
  \<open>parse_qpiws\<close> succeeds and keeps the payload verbatim, the flags it reports are
  exactly the set bits in order, each under its own name (no two bits share one), and the count
  is their number.
\<close>

theorem parse_qpiws_faithful:
  assumes "bits_field 36 p"
  shows "\<exists>q. parse_qpiws p = Inr q \<and> bytes_of_str (qw_raw q) = p \<and>
    asserted q = map (\<lambda>i. (i, WARNING_FLAGS ! i)) (filter (\<lambda>i. p ! i = 0x31) [0..<36]) \<and>
    asserted_count q = int (length (asserted q)) \<and> distinct (map snd (asserted q))"
proof -
  from assms have len: "length p = 36" and set: "set p \<subseteq> {0x30, 0x31}" by (simp_all add: bits_field_def)
  have "utf8_valid p" using set by (intro utf8_valid_ascii) auto
  let ?q = "\<lparr>qw_raw = str_of_bytes p, qw_bits = map (\<lambda>b. b = 0x31) p\<rparr>"
  have "parse_qpiws p = Inr ?q"
    using res_collect_bits [OF set] len \<open>utf8_valid p\<close>
    by (simp add: parse_qpiws_def expect_len_def WARNING_FLAGS_facts from_utf8_def)
  moreover have a: "asserted ?q = map (\<lambda>i. (i, WARNING_FLAGS ! i)) (filter (\<lambda>i. p ! i = 0x31) [0..<36])"
    unfolding asserted_eq using len by (auto intro!: filter_cong arg_cong [of _ _ "map _"])
  moreover have "distinct (map snd (asserted ?q))"
    unfolding a using WARNING_FLAGS_facts by (auto simp: comp_def distinct_map inj_on_def nth_eq_iff_index_eq)
  ultimately show ?thesis by (intro exI [of _ ?q]) (simp add: asserted_count_eq)
qed

theorem parse_qpiws_faithful_witness:
  "\<exists>q. parse_qpiws (replicate 5 0x30 @ [0x31] @ replicate 30 0x30) = Inr q \<and> asserted_count q = int (length (asserted q))"
proof -
  have "bits_field 36 (replicate 5 0x30 @ [0x31] @ replicate 30 0x30)" by (auto simp: bits_field_def)
  from parse_qpiws_faithful [OF this] show ?thesis by blast
qed

end
