(* ===== verification/Inv_Port.thy ===== *)
theory Inv_Port
  imports Bms_Discover Inv_Parse
begin

text \<open>
  \<open>packages/inverter-monitoring/src/port.rs\<close> and \<open>discover.rs\<close>: the transport interface, the serial
  port behind it, and what one open port is taken for.  The trait \<open>Transport\<close> is the record of its
  operations over an arbitrary port state, so the code that is generic over it is modelled once for
  every port.  Enumeration and the shuffle are the same code as the BMS producer's and are taken
  from \<open>Bms_Discover\<close>; \<open>read_some\<close> is \<open>Bms_Port\<close>'s.
\<close>

section \<open>Model\<close>

subsection \<open>The transport\<close>

record 's transport =
  tr_write_request :: "byte list \<Rightarrow> 's \<Rightarrow> (io_error, unit) result \<times> 's"
  tr_read_frame :: "nat \<Rightarrow> 's \<Rightarrow> (io_error, byte list option) result \<times> 's"
  tr_listen :: "nat \<Rightarrow> 's \<Rightarrow> (io_error, nat) result \<times> 's"
  tr_now :: "'s \<Rightarrow> nat"

subsection \<open>The serial port\<close>

text \<open>
  Time, what the reads to come will deliver, how the writes to come will end (a write that is not
  in the list succeeds at once), and what was sent.
\<close>

record serial_port =
  sp_now :: nat
  sp_line :: line
  sp_writes :: "(nat \<times> (io_error, unit) result) list"
  sp_sent :: "byte list list"

text \<open>
  A write.  The input that is flushed before it is not represented: the line holds what the reads to
  come will return, whatever was thrown away before, so flushing leaves it as it is.
\<close>

definition sp_write_request :: "byte list \<Rightarrow> serial_port \<Rightarrow> (io_error, unit) result \<times> serial_port" where
  "sp_write_request data p =
     (case sp_writes p of
        [] \<Rightarrow> (Inr (), p\<lparr>sp_sent := sp_sent p @ [data]\<rparr>)
      | (dt, res) # ws \<Rightarrow>
          (res, p\<lparr>sp_now := sp_now p + dt, sp_writes := ws,
                  sp_sent := (case res of Inr _ \<Rightarrow> sp_sent p @ [data] | Inl _ \<Rightarrow> sp_sent p)\<rparr>))"

definition MAX_FRAME :: nat where "MAX_FRAME = 512"

text \<open>The bytes of a chunk up to and including the first carriage return, if it has one.\<close>

definition upto_CR :: "byte list \<Rightarrow> byte list option" where
  "upto_CR chunk = (if CR \<in> set chunk then Some (takeWhile (\<lambda>b. b \<noteq> CR) chunk @ [CR]) else None)"

fun read_frame_loop ::
  "nat \<Rightarrow> byte list \<Rightarrow> nat \<Rightarrow> line \<Rightarrow> (io_error, byte list option) result \<times> nat \<times> line" where
  "read_frame_loop deadline frame now [] = (Inr None, max now deadline, [])"
| "read_frame_loop deadline frame now ((dt, ev) # line) =
     (if deadline \<le> now then (Inr None, now, (dt, ev) # line)
      else case ev of
        Inl e \<Rightarrow> (Inl e, now + dt, line)
      | Inr chunk \<Rightarrow>
          (case upto_CR chunk of
             Some part \<Rightarrow> (Inr (Some (frame @ part)), now + dt, line)
           | None \<Rightarrow>
               if length (frame @ chunk) > MAX_FRAME then (Inr (Some (frame @ chunk)), now + dt, line)
               else read_frame_loop deadline (frame @ chunk) (now + dt) line))"

definition sp_read_frame :: "nat \<Rightarrow> serial_port \<Rightarrow> (io_error, byte list option) result \<times> serial_port" where
  "sp_read_frame timeout p =
     (case read_frame_loop (sp_now p + timeout) [] (sp_now p) (sp_line p) of
        (res, now, line) \<Rightarrow> (res, p\<lparr>sp_now := now, sp_line := line\<rparr>))"

fun listen_loop :: "nat \<Rightarrow> nat \<Rightarrow> nat \<Rightarrow> line \<Rightarrow> (io_error, nat) result \<times> nat \<times> line" where
  "listen_loop deadline seen now [] = (Inr seen, max now deadline, [])"
| "listen_loop deadline seen now ((dt, ev) # line) =
     (if deadline \<le> now then (Inr seen, now, (dt, ev) # line)
      else case ev of
        Inl e \<Rightarrow> (Inl e, now + dt, line)
      | Inr chunk \<Rightarrow> listen_loop deadline (seen + length chunk) (now + dt) line)"

definition sp_listen :: "nat \<Rightarrow> serial_port \<Rightarrow> (io_error, nat) result \<times> serial_port" where
  "sp_listen window p =
     (case listen_loop (sp_now p + window) 0 (sp_now p) (sp_line p) of
        (res, now, line) \<Rightarrow> (res, p\<lparr>sp_now := now, sp_line := line\<rparr>))"

definition serial_transport :: "serial_port transport" where
  "serial_transport =
     \<lparr>tr_write_request = sp_write_request, tr_read_frame = sp_read_frame, tr_listen = sp_listen, tr_now = sp_now\<rparr>"

subsection \<open>Discovery\<close>

definition inv_order :: "candidate list \<Rightarrow> string option \<Rightarrow> u64 \<Rightarrow> candidate list" where
  "inv_order candidates remembered seed =
     (let (first, rest) = partition (\<lambda>c. Some (ca_path_id c) = remembered) candidates
      in first @ shuffle rest seed)"

datatype no_inverter = NoResponse | NakToQid | BadFrame frame_error | BadIdentity inv_error

datatype inv_probe = Chatty nat | Inverter string | NotAnInverter no_inverter

definition inv_probe_port ::
  "'s transport \<Rightarrow> nat \<Rightarrow> nat \<Rightarrow> 's \<Rightarrow> (io_error, inv_probe) result \<times> 's" where
  "inv_probe_port tr listen_window response_timeout s =
     (case tr_listen tr listen_window s of
        (Inl e, s1) \<Rightarrow> (Inl e, s1)
      | (Inr unsolicited, s1) \<Rightarrow>
          if unsolicited > 0 then (Inr (Chatty unsolicited), s1)
          else case tr_write_request tr (command_request Qid) s1 of
            (Inl e, s2) \<Rightarrow> (Inl e, s2)
          | (Inr _, s2) \<Rightarrow>
              (case tr_read_frame tr response_timeout s2 of
                 (Inl e, s3) \<Rightarrow> (Inl e, s3)
               | (Inr None, s3) \<Rightarrow> (Inr (NotAnInverter NoResponse), s3)
               | (Inr (Some frame), s3) \<Rightarrow>
                   (Inr (case parse_answer frame of
                           Inr (Payload payload) \<Rightarrow>
                             (case parse_identity payload of
                                Inr serial \<Rightarrow> Inverter serial
                              | Inl reason \<Rightarrow> NotAnInverter (BadIdentity reason))
                         | Inr Nak \<Rightarrow> NotAnInverter NakToQid
                         | Inl error \<Rightarrow> NotAnInverter (BadFrame error)), s3)))"

section \<open>Reading a frame\<close>

text \<open>The first frame of a stream: up to the first carriage return.\<close>

lemma upto_CR_Some: "upto_CR chunk = Some part \<longleftrightarrow> (\<exists>a b. chunk = a @ CR # b \<and> CR \<notin> set a \<and> part = a @ [CR])"
proof
  assume "upto_CR chunk = Some part"
  then have "CR \<in> set chunk" "part = takeWhile (\<lambda>b. b \<noteq> CR) chunk @ [CR]" by (auto simp: upto_CR_def split: if_splits)
  moreover from this obtain a b where c: "chunk = a @ CR # b" "CR \<notin> set a" by (metis split_list_first)
  moreover from c have "takeWhile (\<lambda>b. b \<noteq> CR) chunk = a" by (auto simp: takeWhile_append takeWhile_eq_all_conv)
  ultimately show "\<exists>a b. chunk = a @ CR # b \<and> CR \<notin> set a \<and> part = a @ [CR]" by blast
next
  assume "\<exists>a b. chunk = a @ CR # b \<and> CR \<notin> set a \<and> part = a @ [CR]"
  then show "upto_CR chunk = Some part"
    by (auto simp: upto_CR_def takeWhile_append takeWhile_eq_all_conv)
qed

lemma upto_CR_None: "upto_CR chunk = None \<longleftrightarrow> CR \<notin> set chunk"
  by (simp add: upto_CR_def)

text \<open>What \<open>read_frame\<close> returns ends in its only carriage return, or is oversized and has none.\<close>

definition frame_shape :: "byte list \<Rightarrow> bool" where
  "frame_shape f \<longleftrightarrow> (\<exists>a. f = a @ [CR] \<and> CR \<notin> set a) \<or> CR \<notin> set f \<and> MAX_FRAME < length f"

lemma read_frame_loop_shape:
  "read_frame_loop deadline frame now line = (Inr (Some f), now', line') \<Longrightarrow> CR \<notin> set frame \<Longrightarrow> frame_shape f"
proof (induction deadline frame now line rule: read_frame_loop.induct)
  case (2 deadline frame now dt ev line)
  then obtain chunk where ev: "ev = Inr chunk" and now: "\<not> deadline \<le> now"
    by (auto split: if_splits sum.splits)
  show ?case
  proof (cases "upto_CR chunk")
    case (Some part)
    with 2 ev now have "f = frame @ part" by simp
    with Some "2.prems"(2) show ?thesis by (auto simp: frame_shape_def upto_CR_Some)
  next
    case None
    with 2 ev now show ?thesis by (auto simp: upto_CR_None frame_shape_def split: if_splits)
  qed
qed simp

text \<open>Any way of cutting a frame into reads gives it back.\<close>

lemma read_frame_loop_any_chunking:
  assumes "concat chunks = rest @ [CR]" "CR \<notin> set (frame @ rest)" "length (frame @ rest) < MAX_FRAME"
    and "now + sum_list (map fst (zip dts chunks)) < deadline" "length dts = length chunks"
  shows "\<exists>now' line'. read_frame_loop deadline frame now (map2 (\<lambda>dt c. (dt, Inr c)) dts chunks @ later) =
    (Inr (Some (frame @ rest @ [CR])), now', line')"
  using assms
proof (induction chunks arbitrary: frame rest now dts)
  case Nil
  then show ?case by simp
next
  case (Cons c cs)
  then obtain dt dts' where dts: "dts = dt # dts'" by (cases dts) auto
  have now: "\<not> deadline \<le> now" using Cons.prems by simp
  show ?case
  proof (cases "CR \<in> set c")
    case True
    then obtain a b where c: "c = a @ CR # b" "CR \<notin> set a" by (metis split_list_first)
    have "rest = a"
    proof -
      have "a @ CR # b @ concat cs = rest @ [CR]" using Cons.prems(1) c by simp
      then show ?thesis using c(2) Cons.prems(2)
        by (metis append_Nil2 append_eq_append_conv2 in_set_conv_decomp list.inject set_append Un_iff append_Cons
            append_is_Nil_conv butlast_append butlast_snoc list.discI)
    qed
    with c have "upto_CR c = Some (rest @ [CR])" by (auto simp: upto_CR_Some)
    with dts now show ?thesis by simp
  next
    case False
    then obtain rest' where r: "rest = c @ rest'" "concat cs = rest' @ [CR]"
    proof -
      have "c @ concat cs = rest @ [CR]" using Cons.prems(1) by simp
      moreover have "concat cs \<noteq> []" using False calculation by (metis append_Nil2 in_set_conv_decomp)
      ultimately have "rest = c @ butlast (concat cs)" "concat cs = butlast (concat cs) @ [CR]"
        by (metis butlast_append butlast_snoc, metis append_butlast_last_id last_appendR last_snoc)
      then show thesis by (rule that)
    qed
    have "\<exists>now' line'. read_frame_loop deadline (frame @ c) (now + dt) (map2 (\<lambda>dt c. (dt, Inr c)) dts' cs @ later) =
        (Inr (Some ((frame @ c) @ rest' @ [CR])), now', line')"
      using Cons.prems r dts by (intro Cons.IH) auto
    moreover have "upto_CR c = None" using False by (simp add: upto_CR_None)
    ultimately show ?thesis using dts now r Cons.prems(3) by simp
  qed
qed


section \<open>The interface the session relies on\<close>

text \<open>
  What a client of the transport may assume of a frame it is handed; every client lemma is proved
  from it, and the serial port is shown to provide it.
\<close>

locale framed_transport =
  fixes tr :: "'s transport"
  assumes read_frame_framed: "tr_read_frame tr timeout s = (Inr (Some f), s') \<Longrightarrow> frame_shape f"
begin

text \<open>A payload read through such a transport cannot hide a second frame, unless the line is desynchronised.\<close>

lemma accepted_payload_single_frame:
  assumes "tr_read_frame tr timeout s = (Inr (Some f), s')" "parse_answer f = Inr (Payload p)"
  shows "f = response_frame p \<and> CR \<notin> set p"
proof -
  from parse_answer_Inr [OF assms(2)] have f: "f = response_frame p" by (auto split: if_splits)
  with read_frame_framed [OF assms(1)] show ?thesis
    by (auto simp: frame_shape_def response_frame_def append_eq_append_conv2 dest!: arg_cong [of "_ # _" _ butlast])
qed

lemma probe_identifies:
  assumes "inv_probe_port tr w t s = (Inr (Inverter serial), s')"
  shows "\<exists>p s1 s2. tr_listen tr w s = (Inr 0, s1) \<and> tr_write_request tr (command_request Qid) s1 = (Inr (), s2) \<and>
    tr_read_frame tr t s2 = (Inr (Some (response_frame p)), s') \<and> parse_identity p = Inr serial"
proof -
  obtain r1 s1 where l: "tr_listen tr w s = (r1, s1)" by fastforce
  obtain r2 s2 where q: "tr_write_request tr (command_request Qid) s1 = (r2, s2)" by fastforce
  obtain r3 s3 where r: "tr_read_frame tr t s2 = (r3, s3)" by fastforce
  from assms l q r obtain f p where "r1 = Inr 0" "r2 = Inr ()" "r3 = Inr (Some f)" "s3 = s'"
      "parse_answer f = Inr (Payload p)" "parse_identity p = Inr serial"
    by (auto simp: inv_probe_port_def split: sum.splits if_splits option.splits answer.splits)
  with l q r parse_answer_Inr show ?thesis by (fastforce split: if_splits)
qed

end

lemma sp_read_frame_shape: "sp_read_frame timeout p = (Inr (Some f), p') \<Longrightarrow> frame_shape f"
  by (auto simp: sp_read_frame_def dest: read_frame_loop_shape split: prod.splits)

interpretation serial: framed_transport serial_transport
  by unfold_locales (auto simp: serial_transport_def dest: sp_read_frame_shape)

section \<open>Properties\<close>

definition demo_serial :: "byte list" where "demo_serial = bytes_of_str ''92932210103714''"

definition demo_port :: "nat \<Rightarrow> serial_port" where
  "demo_port now = \<lparr>sp_now = now, sp_line = [(9, Inr []), (2, Inr (response_frame demo_serial))], sp_writes = [], sp_sent = []\<rparr>"

lemma demo_probe:
  "inv_probe_port serial_transport 5 10 (demo_port now) =
     (Inr (Inverter ''92932210103714''),
      \<lparr>sp_now = now + 11, sp_line = [], sp_writes = [], sp_sent = [command_request Qid]\<rparr>)"
proof -
  have "CR \<notin> set (LEADING # demo_serial @ frame_crc (LEADING # demo_serial))"
    using frame_crc_not_framing [of "LEADING # demo_serial"] by (auto simp: CR_def LEADING_def demo_serial_def)
  then have "upto_CR (response_frame demo_serial) = Some (response_frame demo_serial)"
    unfolding upto_CR_Some by (intro exI [of _ "LEADING # demo_serial @ frame_crc (LEADING # demo_serial)"] exI [of _ "[]"])
      (simp add: response_frame_def)
  moreover have "parse_answer (response_frame demo_serial) = Inr (Payload demo_serial)"
    by (simp add: parse_answer_response demo_serial_def NAK_def)
  moreover have "parse_identity demo_serial = Inr ''92932210103714''"
    unfolding demo_serial_def by (rule parse_identity_plain) (simp add: plain_def)
  ultimately show ?thesis
    by (simp add: demo_port_def inv_probe_port_def serial_transport_def sp_listen_def sp_write_request_def sp_read_frame_def)
qed

text \<open>
  A response is reassembled however the line delivers it: for every payload without a carriage
  return that fits the limit, cut into reads in any way that ends before the deadline,
  \<open>read_frame\<close> returns the whole frame, and it is accepted with that payload.
\<close>

theorem response_survives_any_chunking:
  assumes "concat chunks = response_frame p" "CR \<notin> set p" "p \<noteq> NAK" "length p \<le> 500"
    and "length dts = length chunks" "sum_list (map fst (zip dts chunks)) < timeout"
    and "sp_line port = map2 (\<lambda>dt c. (dt, Inr c)) dts chunks @ later"
  shows "\<exists>f port'. sp_read_frame timeout port = (Inr (Some f), port') \<and> parse_answer f = Inr (Payload p)"
proof -
  let ?rest = "LEADING # p @ frame_crc (LEADING # p)"
  have "CR \<notin> set ?rest" using assms(2) frame_crc_not_framing [of "LEADING # p"] by (auto simp: CR_def LEADING_def)
  then obtain now' line' where "read_frame_loop (sp_now port + timeout) [] (sp_now port) (sp_line port) =
      (Inr (Some ([] @ ?rest @ [CR])), now', line')"
    using read_frame_loop_any_chunking [of chunks ?rest "[]" "sp_now port" dts "sp_now port + timeout" later] assms
    by (auto simp: response_frame_def MAX_FRAME_def)
  then have "sp_read_frame timeout port = (Inr (Some (response_frame p)), port\<lparr>sp_now := now', sp_line := line'\<rparr>)"
    by (simp add: sp_read_frame_def response_frame_def)
  with assms(3) parse_answer_response show ?thesis by auto
qed

theorem response_survives_any_chunking_witness:
  "\<exists>f port'. sp_read_frame 10
      \<lparr>sp_now = 3, sp_line = [(2, Inr (take 5 (response_frame demo_serial))), (3, Inr (drop 5 (response_frame demo_serial)))],
       sp_writes = [], sp_sent = []\<rparr> = (Inr (Some f), port') \<and> parse_answer f = Inr (Payload demo_serial)"
  by (rule response_survives_any_chunking
      [of "[take 5 (response_frame demo_serial), drop 5 (response_frame demo_serial)]" _ "[2, 3]" _ _ "[]"])
     (auto simp: demo_serial_def CR_def NAK_def)

text \<open>
  A port is taken for the inverter only on evidence: it was silent for the whole listening
  window, the identity command was sent, and a frame with the right CRC came back whose payload
  is printable and, trimmed, is the serial number reported.
\<close>

theorem probe_inverter_only_on_evidence:
  assumes "inv_probe_port serial_transport w t port = (Inr (Inverter serial), port')"
  shows "\<exists>p port1 port2. sp_listen w port = (Inr 0, port1) \<and> sp_write_request (command_request Qid) port1 = (Inr (), port2) \<and>
    sp_read_frame t port2 = (Inr (Some (response_frame p)), port') \<and> CR \<notin> set p \<and> parse_identity p = Inr serial"
proof -
  from serial.probe_identifies [OF assms] obtain p s1 s2 where
    e: "sp_listen w port = (Inr 0, s1)" "sp_write_request (command_request Qid) s1 = (Inr (), s2)"
      "sp_read_frame t s2 = (Inr (Some (response_frame p)), port')" "parse_identity p = Inr serial"
    by (auto simp: serial_transport_def)
  have "p \<noteq> NAK \<or> p = NAK" by blast
  moreover have "CR \<notin> set p" if "p \<noteq> NAK"
    using serial.accepted_payload_single_frame [of t s2 "response_frame p" port' p] e(3) that parse_answer_response
    by (simp add: serial_transport_def)
  moreover have "CR \<notin> set NAK" by (simp add: NAK_def CR_def)
  ultimately show ?thesis using e by blast
qed

theorem probe_inverter_only_on_evidence_witness:
  "\<exists>p port1 port2. sp_listen 5 \<lparr>sp_now = 0, sp_line = [(9, Inr []), (2, Inr (response_frame demo_serial))], sp_writes = [],
     sp_sent = []\<rparr> = (Inr 0, port1) \<and> sp_write_request (command_request Qid) port1 = (Inr (), port2) \<and>
     parse_identity p = Inr ''92932210103714''"
proof -
  let ?port = "\<lparr>sp_now = 0, sp_line = [(9, Inr []), (2, Inr (response_frame demo_serial))], sp_writes = [], sp_sent = []\<rparr>"
  obtain port' where "inv_probe_port serial_transport 5 10 ?port = (Inr (Inverter ''92932210103714''), port')"
    using demo_probe [of 0] by (simp add: demo_port_def)
  from probe_inverter_only_on_evidence [OF this] show ?thesis by blast
qed

text \<open>
  Probing covers every adapter and starts with the remembered one: the order is a permutation
  of the candidates found, and when the remembered port is among them it comes first.
\<close>

theorem inv_order_remembered_first:
  assumes "length candidates < 2 ^ 64 - 1"
  shows "mset (inv_order candidates remembered seed) = mset candidates \<and>
    (\<forall>c \<in> set candidates. Some (ca_path_id c) = remembered \<longrightarrow>
       Some (ca_path_id (hd (inv_order candidates remembered seed))) = remembered)"
proof -
  let ?P = "\<lambda>c. Some (ca_path_id c) = remembered"
  have ord: "inv_order candidates remembered seed = filter ?P candidates @ shuffle (filter (Not \<circ> ?P) candidates) seed"
    by (simp add: inv_order_def)
  have "length (filter (Not \<circ> ?P) candidates) < 2 ^ 64 - 1"
    using assms length_filter_le [of "Not \<circ> ?P" candidates] by linarith
  then have "mset (inv_order candidates remembered seed) = mset candidates"
    unfolding ord by (simp add: shuffle_mset comp_def)
  moreover have "?P (hd (inv_order candidates remembered seed))" if "c \<in> set candidates" "?P c" for c
  proof -
    have "filter ?P candidates \<noteq> []" using that by (auto simp: filter_empty_conv)
    then have "hd (inv_order candidates remembered seed) = hd (filter ?P candidates)"
      "hd (filter ?P candidates) \<in> set (filter ?P candidates)" unfolding ord by (simp_all only: hd_append2 hd_in_set not_False_eq_True)
    then show ?thesis by auto
  qed
  ultimately show ?thesis by blast
qed

theorem inv_order_remembered_first_witness:
  "let cs = [\<lparr>ca_tty = ''/dev/ttyUSB0'', ca_path_id = ''p0'', ca_by_id = None\<rparr>,
             \<lparr>ca_tty = ''/dev/ttyUSB1'', ca_path_id = ''p1'', ca_by_id = None\<rparr>]
   in ca_path_id (hd (inv_order cs (Some ''p1'') 7)) = ''p1''"
proof -
  let ?cs = "[\<lparr>ca_tty = ''/dev/ttyUSB0'', ca_path_id = ''p0'', ca_by_id = None\<rparr>,
             \<lparr>ca_tty = ''/dev/ttyUSB1'', ca_path_id = ''p1'', ca_by_id = None\<rparr>]"
  from inv_order_remembered_first [of ?cs "Some ''p1''" 7] show ?thesis by simp
qed

end
