(* ===== verification/Inv_Record.thy ===== *)
theory Inv_Record
  imports Inv_Parse Telemetry
begin

text \<open>
  \<open>packages/inverter-monitoring/src/record.rs\<close>: the readings of one poll cycle to the records the
  receiver stores.  The textual rendering for \<open>--dry-run\<close> is not modelled.
\<close>

section \<open>Model\<close>

definition INV_STATUS :: string where "INV_STATUS = ''inverter.status''"
definition FLAG :: string where "FLAG = ''inverter.status.flag''"

record inv_link =
  il_connected_seconds :: nat
  il_discarded_frames :: nat
  il_unsupported_commands :: nat

record cycle =
  cy_mode :: "mode_reading option"
  cy_qpigs :: "qpigs option"
  cy_qpigs2 :: "qpigs2 option"
  cy_qpiws :: "qpiws option"
  cy_link :: inv_link

definition cycle_default :: cycle where
  "cycle_default =
     \<lparr>cy_mode = None, cy_qpigs = None, cy_qpigs2 = None, cy_qpiws = None,
      cy_link = \<lparr>il_connected_seconds = 0, il_discarded_frames = 0, il_unsupported_commands = 0\<rparr>\<rparr>"

definition cycle_is_empty :: "cycle \<Rightarrow> bool" where
  "cycle_is_empty c \<longleftrightarrow> cy_mode c = None \<and> cy_qpigs c = None \<and> cy_qpigs2 c = None \<and> cy_qpiws c = None"

definition int_opt :: "int option \<Rightarrow> attr_value" where
  "int_opt v = opt_of (map_option VInt v)"

definition flag_opt :: "bool option \<Rightarrow> attr_value" where
  "flag_opt v = opt_of (map_option VBool v)"

definition inv_status_record :: "cycle \<Rightarrow> log_record" where
  "inv_status_record c =
     (let num = (\<lambda>f. num_of (map_option f (cy_qpigs c)));
          int' = (\<lambda>f. int_opt (map_option f (cy_qpigs c)));
          flag = (\<lambda>f. flag_opt (map_option f (cy_qpigs c))) in
      with_fields
       [(''mode_code'', opt_of (map_option (\<lambda>m. VStr [mr_code m]) (cy_mode c))),
        (''mode'', opt_of (map_option (\<lambda>m. VStr (mode_name m)) (Option.bind (cy_mode c) mr_mode))),
        (''grid_voltage_volts'', num qp_grid_voltage),
        (''grid_frequency_hz'', num qp_grid_frequency),
        (''output_voltage_volts'', num qp_output_voltage),
        (''output_frequency_hz'', num qp_output_frequency),
        (''output_apparent_power_va'', int' qp_output_apparent_power),
        (''output_active_power_watts'', int' qp_output_active_power),
        (''output_load_percent'', int' qp_output_load_percent),
        (''battery_voltage_volts'', num qp_battery_voltage),
        (''battery_capacity_percent'', int' qp_battery_capacity),
        (''battery_charging_current_amps'', int' qp_battery_charging_current),
        (''battery_discharge_current_amps'', int' qp_battery_discharge_current),
        (''battery_voltage_from_scc1_volts'', num qp_battery_voltage_from_scc1),
        (''battery_voltage_offset_fans_on_volts'', num qp_battery_voltage_offset_fans_on),
        (''pv1_current_amps'', num qp_pv1_current),
        (''pv1_voltage_volts'', num qp_pv1_voltage),
        (''pv1_charging_power_watts'', int' qp_pv1_charging_power),
        (''pv2_current_amps'', num_of (map_option q2_pv2_current (cy_qpigs2 c))),
        (''pv2_voltage_volts'', num_of (map_option q2_pv2_voltage (cy_qpigs2 c))),
        (''pv2_charging_power_watts'', int_opt (map_option q2_pv2_charging_power (cy_qpigs2 c))),
        (''bus_voltage_volts'', int' qp_bus_voltage),
        (''heat_sink_temperature_celsius'', int' qp_heat_sink_temperature),
        (''eeprom_version'', int' qp_eeprom_version),
        (''load_on'', flag qp_load_on),
        (''charging'', flag qp_charging),
        (''charging_scc'', flag qp_charging_scc),
        (''charging_ac'', flag qp_charging_ac),
        (''float_charge'', flag qp_float_charge),
        (''switch_on'', flag qp_switch_on),
        (''configuration_changed'', flag qp_configuration_changed),
        (''scc_firmware_updated'', flag qp_scc_firmware_updated),
        (''add_sbu_priority_version'', flag qp_add_sbu_priority_version),
        (''battery_voltage_to_steady_while_charging'', flag qp_battery_voltage_to_steady_while_charging),
        (''warnings_raw'', opt_of (map_option (\<lambda>q. VStr (qw_raw q)) (cy_qpiws c))),
        (''warnings_asserted_count'', int_opt (map_option asserted_count (cy_qpiws c))),
        (''inverter_fault'', flag_opt (map_option (\<lambda>q. qw_bits q ! INVERTER_FAULT_BIT) (cy_qpiws c))),
        (''link_connected_seconds'', VInt (int (il_connected_seconds (cy_link c)))),
        (''link_discarded_frames'', VInt (int (il_discarded_frames (cy_link c)))),
        (''link_unsupported_commands'', VInt (int (il_unsupported_commands (cy_link c))))]
       (record_new INV_STATUS))"

definition flag_record :: "nat \<times> string \<Rightarrow> log_record" where
  "flag_record f =
     (case f of (index, name) \<Rightarrow>
        with_field ''asserted'' (VBool True)
          (with_attr ''flag'' (VStr name) (with_attr ''bit'' (VStr (CHR ''a'' # nat_str index)) (record_new FLAG))))"

definition flag_records :: "cycle \<Rightarrow> log_record list" where
  "flag_records c = (case cy_qpiws c of None \<Rightarrow> [] | Some q \<Rightarrow> map flag_record (asserted q))"

definition identity_attributes ::
  "string \<Rightarrow> string option \<Rightarrow> (string \<times> string option) list \<Rightarrow> (string \<times> attr_value) list" where
  "identity_attributes device device_name identity =
     [(''inverter.device'', VStr device)]
     @ (case device_name of Some name \<Rightarrow> [(''inverter.device_name'', VStr name)] | None \<Rightarrow> [])
     @ List.map_filter (\<lambda>(key, v). map_option (\<lambda>x. (''inverter.'' @ key, VStr x)) v) identity"

section \<open>Lemmas\<close>

definition INV_STATUS_KEYS :: "string list" where
  "INV_STATUS_KEYS = map fst (rec_body (inv_status_record cycle_default))"

lemma inv_status_keys: "map fst (rec_body (inv_status_record c)) = INV_STATUS_KEYS"
  by (simp add: INV_STATUS_KEYS_def inv_status_record_def Let_def with_fields_simps record_new_def)

lemma inv_status_keys_distinct: "distinct INV_STATUS_KEYS"
  by (simp add: INV_STATUS_KEYS_def inv_status_record_def Let_def with_fields_simps record_new_def)

lemma flag_record_simps:
  "rec_event_name (flag_record f) = FLAG" "map_of (rec_attributes (flag_record f)) ''flag'' = Some (VStr (snd f))"
  "map_of (rec_attributes (flag_record f)) ''bit'' = Some (VStr (CHR ''a'' # nat_str (fst f)))"
  by (auto simp: flag_record_def with_field_def with_attr_def record_new_def split: prod.splits)

section \<open>Properties\<close>

text \<open>
  The records of a poll cycle agree with each other whatever was read: the status record always
  has the same distinct keys in the same order; when the warnings were read, the number it
  reports is the number of flag records, and there is a flag record for exactly the bits that
  are set, under that bit's number and name; when they were not read, there is none.
\<close>

theorem inv_records_consistent:
  "map fst (rec_body (inv_status_record c)) = INV_STATUS_KEYS \<and> distinct INV_STATUS_KEYS \<and>
   (case cy_qpiws c of
      None \<Rightarrow> flag_records c = [] \<and> map_of (rec_body (inv_status_record c)) ''warnings_asserted_count'' = Some VNull
    | Some q \<Rightarrow>
        map_of (rec_body (inv_status_record c)) ''warnings_asserted_count'' = Some (VInt (int (length (flag_records c)))) \<and>
        map (\<lambda>r. (map_of (rec_attributes r) ''bit'', map_of (rec_attributes r) ''flag'')) (flag_records c) =
          map (\<lambda>i. (Some (VStr (CHR ''a'' # nat_str i)), Some (VStr (WARNING_FLAGS ! i))))
            (filter (\<lambda>i. qw_bits q ! i) [0..<length (qw_bits q)]))"
proof -
  have lookup: "map_of (rec_body (inv_status_record c)) ''warnings_asserted_count'' =
      Some (int_opt (map_option asserted_count (cy_qpiws c)))"
    by (simp add: inv_status_record_def Let_def with_fields_simps record_new_def)
  show ?thesis
    using inv_status_keys inv_status_keys_distinct asserted_count_eq lookup
    by (simp add: flag_records_def int_opt_def opt_of_def flag_record_simps asserted_eq comp_def split: option.splits)
qed

end
