(* ===== verification/Inv_Main.thy ===== *)
theory Inv_Main
  imports Bms_Main Inv_Port Inv_Record
begin

text \<open>
  \<open>packages/inverter-monitoring/src/main.rs\<close>: exchanges with the bookkeeping of a session, the poll
  cycle, the identity commands, connecting, and the polling loop.  What is generic over
  \<open>Transport\<close> in the source is generic over a transport here; \<open>connect\<close> and \<open>run\<close> use the serial
  port.  The environment record is the one of \<open>Bms_Main\<close>.  The command line is not modelled.
\<close>

section \<open>Model\<close>

subsection \<open>Exchanges\<close>

datatype transient = TimedOut command | BadResponse command frame_error
datatype fatal = WriteFailed command io_error | ReadFailed command io_error
datatype failure = Transient transient | Fatal fatal

record inv_session =
  is_device :: string
  is_tty :: string
  is_connected_at :: nat
  is_discarded_frames :: nat
  is_unsupported_commands :: nat
  is_unsupported :: "command set"
  is_identity :: "(string \<times> string option) list"

definition inv_session_link :: "inv_session \<Rightarrow> nat \<Rightarrow> inv_link" where
  "inv_session_link s now =
     \<lparr>il_connected_seconds = (now - is_connected_at s) div NANOS,
      il_discarded_frames = is_discarded_frames s,
      il_unsupported_commands = is_unsupported_commands s\<rparr>"

definition exchange :: "'s transport \<Rightarrow> command \<Rightarrow> nat \<Rightarrow> 's \<Rightarrow> (failure, byte list option) result \<times> 's" where
  "exchange tr c timeout s =
     (case tr_write_request tr (command_request c) s of
        (Inl e, s1) \<Rightarrow> (Inl (Fatal (WriteFailed c e)), s1)
      | (Inr _, s1) \<Rightarrow>
          (case tr_read_frame tr timeout s1 of
             (Inl e, s2) \<Rightarrow> (Inl (Fatal (ReadFailed c e)), s2)
           | (Inr None, s2) \<Rightarrow> (Inl (Transient (TimedOut c)), s2)
           | (Inr (Some frame), s2) \<Rightarrow>
               (case parse_answer frame of
                  Inr (Payload payload) \<Rightarrow> Inr (Some payload)
                | Inr Nak \<Rightarrow> Inr None
                | Inl error \<Rightarrow> Inl (Transient (BadResponse c error)), s2)))"

definition read_command ::
  "'s transport \<Rightarrow> command \<Rightarrow> nat \<Rightarrow> inv_session \<Rightarrow> 's \<Rightarrow> (fatal, byte list option) result \<times> inv_session \<times> 's" where
  "read_command tr c timeout sess s =
     (if c \<in> is_unsupported sess then (Inr None, sess, s)
      else case exchange tr c timeout s of
        (Inr (Some payload), s') \<Rightarrow> (Inr (Some payload), sess, s')
      | (Inr None, s') \<Rightarrow>
          (Inr None,
           sess\<lparr>is_unsupported := insert c (is_unsupported sess),
                is_unsupported_commands := is_unsupported_commands sess + 1\<rparr>, s')
      | (Inl (Transient reason), s') \<Rightarrow>
          (Inr None, sess\<lparr>is_discarded_frames := is_discarded_frames sess + 1\<rparr>, s')
      | (Inl (Fatal reason), s') \<Rightarrow> (Inl reason, sess, s'))"

definition store_reading :: "command \<Rightarrow> byte list \<Rightarrow> cycle \<Rightarrow> (inv_error, cycle) result" where
  "store_reading c payload cy =
     (case c of
        Qmod \<Rightarrow> res_bind (parse_qmod payload) (\<lambda>m. Inr (cy\<lparr>cy_mode := Some m\<rparr>))
      | Qpigs \<Rightarrow> res_bind (parse_qpigs payload) (\<lambda>q. Inr (cy\<lparr>cy_qpigs := Some q\<rparr>))
      | Qpigs2 \<Rightarrow> res_bind (parse_qpigs2 payload) (\<lambda>q. Inr (cy\<lparr>cy_qpigs2 := Some q\<rparr>))
      | Qpiws \<Rightarrow> res_bind (parse_qpiws payload) (\<lambda>q. Inr (cy\<lparr>cy_qpiws := Some q\<rparr>))
      | _ \<Rightarrow> Inr cy)"

fun poll_loop ::
  "'s transport \<Rightarrow> nat \<Rightarrow> command list \<Rightarrow> cycle \<Rightarrow> inv_session \<Rightarrow> 's \<Rightarrow> (fatal, cycle) result \<times> inv_session \<times> 's" where
  "poll_loop tr timeout [] cy sess s = (Inr cy, sess, s)"
| "poll_loop tr timeout (c # cs) cy sess s =
     (case read_command tr c timeout sess s of
        (Inl e, sess', s') \<Rightarrow> (Inl e, sess', s')
      | (Inr None, sess', s') \<Rightarrow> poll_loop tr timeout cs cy sess' s'
      | (Inr (Some payload), sess', s') \<Rightarrow>
          (case store_reading c payload cy of
             Inr cy' \<Rightarrow> poll_loop tr timeout cs cy' sess' s'
           | Inl reason \<Rightarrow>
               poll_loop tr timeout cs cy (sess'\<lparr>is_discarded_frames := is_discarded_frames sess' + 1\<rparr>) s'))"

definition poll_cycle ::
  "'s transport \<Rightarrow> nat \<Rightarrow> inv_session \<Rightarrow> 's \<Rightarrow> (fatal, cycle) result \<times> inv_session \<times> 's" where
  "poll_cycle tr timeout sess s =
     (case poll_loop tr timeout LIVE_COMMANDS cycle_default sess s of
        (Inl e, sess', s') \<Rightarrow> (Inl e, sess', s')
      | (Inr cy, sess', s') \<Rightarrow> (Inr (cy\<lparr>cy_link := inv_session_link sess' (tr_now tr s')\<rparr>), sess', s'))"

subsection \<open>Identity\<close>

definition identity_key :: "command \<Rightarrow> string option" where
  "identity_key c =
     (case c of
        Qid \<Rightarrow> Some ''serial_number''
      | Qvfw \<Rightarrow> Some ''firmware''
      | Qvfw3 \<Rightarrow> Some ''firmware_panel''
      | Qmn \<Rightarrow> Some ''model''
      | Qgmn \<Rightarrow> Some ''model_code''
      | _ \<Rightarrow> None)"

fun identity_loop ::
  "'s transport \<Rightarrow> nat \<Rightarrow> command list \<Rightarrow> (string \<times> string option) list \<Rightarrow> inv_session \<Rightarrow> 's
   \<Rightarrow> (fatal, (string \<times> string option) list) result \<times> inv_session \<times> 's" where
  "identity_loop tr timeout [] identity sess s = (Inr identity, sess, s)"
| "identity_loop tr timeout (c # cs) identity sess s =
     (case identity_key c of
        None \<Rightarrow> identity_loop tr timeout cs identity sess s
      | Some key \<Rightarrow>
          (case read_command tr c timeout sess s of
             (Inl e, sess', s') \<Rightarrow> (Inl e, sess', s')
           | (Inr answer, sess', s') \<Rightarrow>
               (let v = (case answer of
                           Some payload \<Rightarrow> (case parse_identity payload of Inr text \<Rightarrow> Some text | Inl _ \<Rightarrow> None)
                         | None \<Rightarrow> None)
                in identity_loop tr timeout cs (identity @ [(key, v)]) sess' s')))"

definition read_identity ::
  "'s transport \<Rightarrow> nat \<Rightarrow> inv_session \<Rightarrow> 's \<Rightarrow> (fatal, (string \<times> string option) list) result \<times> inv_session \<times> 's" where
  "read_identity tr timeout sess s = identity_loop tr timeout STATIC_COMMANDS [] sess s"

subsection \<open>Connecting\<close>

record inv_options =
  io_dev_dir :: string
  io_interval :: nat
  io_static_refresh :: nat
  io_bms_listen :: nat
  io_response_timeout :: nat
  io_discovery_window :: nat
  io_resource_attributes :: "(string \<times> attr_value) list"
  io_dry_run :: bool
  io_once :: bool

datatype inv_opened = InvPort line "(nat \<times> (io_error, unit) result) list" | InvBusy | InvOpenFailed nat

record inv_sweep =
  isw_entries :: "string option list option"
  isw_by_path :: "link_entry list option"
  isw_by_id :: "link_entry list option"
  isw_remembered :: "string option"
  isw_seed :: u64
  isw_open :: "string \<Rightarrow> inv_opened"
  isw_overhead :: nat

datatype inv_run_error =
    InvNoDevices string
  | NoInverterFound
  | ExchangeFailed fatal
  | AnsweredNothing string nat

definition port_at :: "nat \<Rightarrow> line \<Rightarrow> (nat \<times> (io_error, unit) result) list \<Rightarrow> serial_port" where
  "port_at now line writes = \<lparr>sp_now = now, sp_line = line, sp_writes = writes, sp_sent = []\<rparr>"

fun inv_connect_loop ::
  "inv_options \<Rightarrow> (string \<Rightarrow> inv_opened) \<Rightarrow> candidate list \<Rightarrow> nat \<Rightarrow> (serial_port \<times> candidate \<times> string) option \<times> nat" where
  "inv_connect_loop opts open_port [] now = (None, now)"
| "inv_connect_loop opts open_port (c # cs) now =
     (case open_port (ca_tty c) of
        InvPort line writes \<Rightarrow>
          (case inv_probe_port serial_transport (io_bms_listen opts) (io_response_timeout opts) (port_at now line writes) of
             (Inr (Inverter serial_number), port) \<Rightarrow> (Some (port, c, serial_number), sp_now port)
           | (_, port) \<Rightarrow> inv_connect_loop opts open_port cs (sp_now port))
      | _ \<Rightarrow> inv_connect_loop opts open_port cs now)"

definition inv_connect ::
  "inv_options \<Rightarrow> inv_sweep \<Rightarrow> nat \<Rightarrow> (inv_run_error, serial_port \<times> candidate \<times> string) result \<times> nat" where
  "inv_connect opts sw now =
     (let all = enumerate_ports (io_dev_dir opts) (isw_entries sw) (isw_by_path sw) (isw_by_id sw);
          start = now + Suc (isw_overhead sw)
      in if all = [] then (Inl (InvNoDevices (io_dev_dir opts)), start)
         else case inv_connect_loop opts (isw_open sw) (inv_order all (isw_remembered sw) (isw_seed sw)) start of
           (Some found, now') \<Rightarrow> (Inr found, now')
         | (None, now') \<Rightarrow> (Inl NoInverterFound, now'))"

lemma sp_listen_time: "sp_listen w p = (r, p') \<Longrightarrow> sp_now p \<le> sp_now p'"
proof -
  have "listen_loop d n t l = (r, t', l') \<Longrightarrow> t \<le> t'" for d n t l t' l'
    by (induction d n t l rule: listen_loop.induct) (auto split: if_splits sum.splits)
  then show "sp_listen w p = (r, p') \<Longrightarrow> sp_now p \<le> sp_now p'"
    by (auto simp: sp_listen_def split: prod.splits)
qed

lemma sp_read_frame_time: "sp_read_frame w p = (r, p') \<Longrightarrow> sp_now p \<le> sp_now p'"
proof -
  have "read_frame_loop d f t l = (r, t', l') \<Longrightarrow> t \<le> t'" for d f t l t' l'
    by (induction d f t l rule: read_frame_loop.induct) (auto split: if_splits sum.splits option.splits)
  then show "sp_read_frame w p = (r, p') \<Longrightarrow> sp_now p \<le> sp_now p'"
    by (auto simp: sp_read_frame_def split: prod.splits)
qed

lemma sp_write_request_time: "sp_write_request d p = (r, p') \<Longrightarrow> sp_now p \<le> sp_now p'"
  by (auto simp: sp_write_request_def split: list.splits prod.splits)

lemmas serial_time = sp_listen_time sp_read_frame_time sp_write_request_time

lemma inv_probe_port_time: "inv_probe_port serial_transport w t p = (r, p') \<Longrightarrow> sp_now p \<le> sp_now p'"
  by (auto simp: inv_probe_port_def serial_transport_def dest!: serial_time
      split: prod.splits sum.splits if_splits option.splits)

lemma inv_connect_loop_time: "inv_connect_loop opts op cs now = (res, now') \<Longrightarrow> now \<le> now'"
proof (induction cs arbitrary: now)
  case (Cons c cs)
  show ?case
  proof (cases "op (ca_tty c)")
    case (InvPort line writes)
    obtain r p where p: "inv_probe_port serial_transport (io_bms_listen opts) (io_response_timeout opts)
        (port_at now line writes) = (r, p)" by fastforce
    with Cons.prems InvPort have "now' = sp_now p \<or> inv_connect_loop opts op cs (sp_now p) = (res, now')"
      by (auto split: sum.splits inv_probe.splits)
    with Cons.IH [of "sp_now p"] inv_probe_port_time [OF p] show ?thesis by (auto simp: port_at_def)
  qed (use Cons in simp_all)
qed simp

lemma inv_connect_time: "inv_connect opts sw now = (res, now') \<Longrightarrow> now < now'"
  by (auto simp: inv_connect_def Let_def dest: inv_connect_loop_time split: if_splits prod.splits option.splits)

function inv_connect_within ::
  "inv_options \<Rightarrow> (nat \<Rightarrow> inv_sweep) \<Rightarrow> nat \<Rightarrow> nat \<Rightarrow> nat
   \<Rightarrow> (inv_run_error, serial_port \<times> candidate \<times> string) result \<times> nat" where
  "inv_connect_within opts sweeps i deadline now =
     (case inv_connect opts (sweeps i) now of
        (Inr found, now') \<Rightarrow> (Inr found, now')
      | (Inl reason, now') \<Rightarrow>
          if deadline < now' then (Inl reason, now')
          else inv_connect_within opts sweeps (Suc i) deadline (now' + min RETRY_PAUSE (deadline - now')))"
  by pat_completeness auto
termination
  by (relation "measure (\<lambda>(opts, sweeps, i, deadline, now). Suc deadline - now)")
     (auto dest!: inv_connect_time [OF sym])

declare inv_connect_within.simps [simp del]

subsection \<open>The polling loop\<close>

definition INV_SCOPE_NAME :: string where "INV_SCOPE_NAME = ''inverter-monitoring''"

definition inv_resource_attributes ::
  "inv_options \<Rightarrow> bms_env \<Rightarrow> inv_session \<Rightarrow> nat \<Rightarrow> (string \<times> attr_value) list" where
  "inv_resource_attributes opts env s now =
     [(''service.name'', VStr ''inverter-monitoring'')]
     @ (case env_hostname env of Some h \<Rightarrow> [(''host.name'', VStr h)] | None \<Rightarrow> [])
     @ (case env_boot_id env of Some b \<Rightarrow> [(''boot_id'', VStr b)] | None \<Rightarrow> [])
     @ identity_attributes (is_device s) (by_id_of (env_by_id env now) (is_tty s)) (is_identity s)
     @ io_resource_attributes opts"

record inv_state =
  iv_session :: inv_session
  iv_port :: serial_port
  iv_silent :: nat
  iv_last_static :: nat
  iv_started :: nat
  iv_tick :: nat
  iv_batches :: "batch list"

definition inv_publish :: "inv_options \<Rightarrow> bms_env \<Rightarrow> cycle \<Rightarrow> inv_state \<Rightarrow> inv_state" where
  "inv_publish opts env cy st =
     (let now = sp_now (iv_port st);
          records = inv_status_record cy # flag_records cy;
          resource = inv_resource_attributes opts env (iv_session st) now;
          outcome = publish_batch (io_dry_run opts) INV_SCOPE_NAME (env_collector env now) (env_unix_nanos env now)
                      resource records
      in st\<lparr>iv_batches := iv_batches st @ [(resource, records, outcome)],
            iv_port := (iv_port st)\<lparr>sp_now := now + env_publish_time env now\<rparr>\<rparr>)"

text \<open>Polling, counting silent cycles and publishing.\<close>

definition inv_poll_step :: "inv_options \<Rightarrow> bms_env \<Rightarrow> inv_state \<Rightarrow> (inv_run_error, inv_state) result" where
  "inv_poll_step opts env st =
     (case poll_cycle serial_transport (io_response_timeout opts) (iv_session st) (iv_port st) of
        (Inl e, _, _) \<Rightarrow> Inl (ExchangeFailed e)
      | (Inr cy, sess, port) \<Rightarrow>
          (let silent = (if cycle_is_empty cy then iv_silent st + 1 else 0)
           in if cycle_is_empty cy \<and> silent \<ge> MAX_SILENT_CYCLES then Inl (AnsweredNothing (is_device sess) silent)
              else Inr (inv_publish opts env cy (st\<lparr>iv_session := sess, iv_port := port, iv_silent := silent\<rparr>))))"

definition inv_refresh :: "inv_options \<Rightarrow> inv_state \<Rightarrow> (inv_run_error, inv_state) result" where
  "inv_refresh opts st =
     (if sp_now (iv_port st) - iv_last_static st \<ge> io_static_refresh opts then
        case read_identity serial_transport (io_response_timeout opts) (iv_session st) (iv_port st) of
          (Inl e, _, _) \<Rightarrow> Inl (ExchangeFailed e)
        | (Inr identity, sess, port) \<Rightarrow>
            Inr (st\<lparr>iv_session := sess\<lparr>is_identity := identity\<rparr>, iv_port := port, iv_last_static := sp_now port\<rparr>)
      else Inr st)"

text \<open>
  The sleep until the next tick is due.  As in \<open>publish_at\<close>, the counter is cast to 32 bits and instants have
  no upper end.
\<close>

definition inv_sleep :: "inv_options \<Rightarrow> inv_state \<Rightarrow> inv_state" where
  "inv_sleep opts st =
     (let due = iv_started st + io_interval opts * unat (of_nat (iv_tick st) + 1 :: u32)
      in st\<lparr>iv_port := (iv_port st)\<lparr>sp_now := max (sp_now (iv_port st)) due\<rparr>, iv_tick := iv_tick st + 1\<rparr>)"

definition inv_tick ::
  "inv_options \<Rightarrow> bms_env \<Rightarrow> inv_state \<Rightarrow> ((inv_run_error, batch list) result, inv_state) result" where
  "inv_tick opts env st =
     (case inv_poll_step opts env st of
        Inl e \<Rightarrow> Inl (Inl e)
      | Inr st1 \<Rightarrow>
          if io_once opts then Inl (Inr (iv_batches st1))
          else case inv_refresh opts st1 of
            Inl e \<Rightarrow> Inl (Inl e)
          | Inr st2 \<Rightarrow> Inr (inv_sleep opts st2))"

fun inv_loop ::
  "inv_options \<Rightarrow> bms_env \<Rightarrow> nat \<Rightarrow> inv_state \<Rightarrow> ((inv_run_error, batch list) result, inv_state) result" where
  "inv_loop opts env 0 st = Inr st"
| "inv_loop opts env (Suc n) st =
     (case inv_tick opts env st of Inl exit \<Rightarrow> Inl exit | Inr st' \<Rightarrow> inv_loop opts env n st')"

definition inv_begin :: "inv_options \<Rightarrow> (nat \<Rightarrow> inv_sweep) \<Rightarrow> nat \<Rightarrow> (inv_run_error, inv_state) result" where
  "inv_begin opts sweeps now =
     (case inv_connect_within opts sweeps 0 (now + io_discovery_window opts) now of
        (Inl e, _) \<Rightarrow> Inl e
      | (Inr (port, c, serial_number), now1) \<Rightarrow>
          (let sess = \<lparr>is_device = ca_path_id c, is_tty = ca_tty c, is_connected_at = now1,
                       is_discarded_frames = 0, is_unsupported_commands = 0, is_unsupported = {},
                       is_identity = [(''serial_number'', Some serial_number)]\<rparr>
           in case read_identity serial_transport (io_response_timeout opts) sess port of
                (Inl e, _, _) \<Rightarrow> Inl (ExchangeFailed e)
              | (Inr identity, sess', port') \<Rightarrow>
                  Inr \<lparr>iv_session = sess'\<lparr>is_identity := identity\<rparr>, iv_port = port', iv_silent = 0,
                       iv_last_static = sp_now port', iv_started = sp_now port', iv_tick = 0, iv_batches = []\<rparr>))"

definition inv_run ::
  "inv_options \<Rightarrow> bms_env \<Rightarrow> (nat \<Rightarrow> inv_sweep) \<Rightarrow> nat \<Rightarrow> nat
   \<Rightarrow> ((inv_run_error, batch list) result, inv_state) result" where
  "inv_run opts env sweeps n now =
     (case inv_begin opts sweeps now of
        Inl e \<Rightarrow> Inl (Inl e)
      | Inr st \<Rightarrow> inv_loop opts env n st)"

end
