(* ===== verification/Inv_Loop.thy ===== *)
theory Inv_Loop
  imports Inv_Main "HOL-Library.AList_Mapping"
begin

text \<open>
  What the polling loop of \<open>packages/inverter-monitoring/src/main.rs\<close> guarantees, over the
  definitions of \<open>Inv_Main\<close>.
\<close>

section \<open>The session's bookkeeping\<close>

definition session_ok :: "inv_session \<Rightarrow> bool" where
  "session_ok sess \<longleftrightarrow> finite (is_unsupported sess) \<and> is_unsupported_commands sess = card (is_unsupported sess)"

text \<open>
  How a session may change: commands are only ever added to the refused ones, counters only grow,
  and who the session talks to stays.
\<close>

definition session_step :: "inv_session \<Rightarrow> inv_session \<Rightarrow> bool" where
  "session_step sess sess' \<longleftrightarrow>
     (session_ok sess \<longrightarrow> session_ok sess') \<and> is_unsupported sess \<subseteq> is_unsupported sess' \<and>
     is_discarded_frames sess \<le> is_discarded_frames sess' \<and>
     is_device sess' = is_device sess \<and> is_tty sess' = is_tty sess \<and> is_connected_at sess' = is_connected_at sess"

lemma session_step_refl [simp]: "session_step sess sess"
  by (simp add: session_step_def)

lemma session_step_trans: "session_step a b \<Longrightarrow> session_step b c \<Longrightarrow> session_step a c"
  by (auto simp: session_step_def)

lemma session_step_discard [simp]: "session_step sess (sess\<lparr>is_discarded_frames := Suc (is_discarded_frames sess)\<rparr>)"
  by (simp add: session_step_def session_ok_def)

lemma session_step_identity [simp]: "session_step sess (sess\<lparr>is_identity := i\<rparr>)"
  by (simp add: session_step_def session_ok_def)

lemma session_step_refuse:
  "c \<notin> is_unsupported sess \<Longrightarrow>
   session_step sess (sess\<lparr>is_unsupported := insert c (is_unsupported sess),
     is_unsupported_commands := Suc (is_unsupported_commands sess)\<rparr>)"
  by (auto simp: session_step_def session_ok_def)

lemma read_command_session: "read_command tr c t sess s = (r, sess', s') \<Longrightarrow> session_step sess sess'"
  by (auto simp: read_command_def session_step_refuse
      split: if_splits prod.splits sum.splits option.splits failure.splits)

lemma poll_loop_step:
  assumes "poll_loop tr t (c # cs) cy sess s = (r, sess', s')" "read_command tr c t sess s = (a, sess1, s1)"
  shows "isl a \<and> sess' = sess1 \<and> s' = s1 \<or>
    (\<exists>cy' sess2. (sess2 = sess1 \<or> sess2 = sess1\<lparr>is_discarded_frames := Suc (is_discarded_frames sess1)\<rparr>) \<and>
       poll_loop tr t cs cy' sess2 s1 = (r, sess', s'))"
proof (cases a)
  case (Inr ans)
  show ?thesis
  proof (cases ans)
    case None
    with assms Inr show ?thesis by auto
  next
    case (Some p)
    with assms Inr show ?thesis
      by (cases "store_reading c p cy") (simp_all, blast+)
  qed
qed (use assms in simp)

lemma poll_loop_session: "poll_loop tr t cs cy sess s = (r, sess', s') \<Longrightarrow> session_step sess sess'"
proof (induction cs arbitrary: cy sess s)
  case (Cons c cs)
  obtain a sess1 s1 where rc: "read_command tr c t sess s = (a, sess1, s1)" using prod_cases3 by blast
  from poll_loop_step [OF Cons.prems rc] have "session_step sess1 sess'"
    using Cons.IH by (metis session_step_discard session_step_refl session_step_trans)
  with read_command_session [OF rc] show ?case by (rule session_step_trans)
qed simp

lemma identity_loop_session: "identity_loop tr t cs i sess s = (r, sess', s') \<Longrightarrow> session_step sess sess'"
proof (induction cs arbitrary: i sess s)
  case (Cons c cs)
  obtain a sess1 s1 where rc: "read_command tr c t sess s = (a, sess1, s1)" using prod_cases3 by blast
  note step = read_command_session [OF rc]
  show ?case
  proof (cases "identity_key c")
    case None
    with Cons show ?thesis by simp
  next
    case (Some key)
    with Cons.prems rc step show ?thesis
      by (cases a) (auto simp: Let_def intro: session_step_trans Cons.IH)
  qed
qed simp

section \<open>What is sent\<close>

text \<open>Requests a port has seen beyond those of an earlier state, all of them for commands still supported.\<close>

definition asks :: "command set \<Rightarrow> byte list list \<Rightarrow> byte list list \<Rightarrow> bool" where
  "asks refused old sent \<longleftrightarrow> (\<exists>cs. sent = old @ map command_request cs \<and> set cs \<inter> refused = {})"

lemma asks_refl [simp]: "asks r x x"
  by (auto simp: asks_def intro: exI [of _ "[]"])

lemma asks_trans: "asks r x y \<Longrightarrow> asks r' y z \<Longrightarrow> r \<subseteq> r' \<Longrightarrow> asks r x z"
proof -
  assume "asks r x y" "asks r' y z" "r \<subseteq> r'"
  then obtain cs ds where "y = x @ map command_request cs" "set cs \<inter> r = {}"
    "z = y @ map command_request ds" "set ds \<inter> r' = {}" by (auto simp: asks_def)
  with \<open>r \<subseteq> r'\<close> have "z = x @ map command_request (cs @ ds)" "set (cs @ ds) \<inter> r = {}" by auto
  then show ?thesis unfolding asks_def by blast
qed

lemma sp_read_frame_sent: "sp_read_frame w p = (r, p') \<Longrightarrow> sp_sent p' = sp_sent p"
  by (auto simp: sp_read_frame_def split: prod.splits)

lemma sp_write_request_sent:
  "sp_write_request d p = (r, p') \<Longrightarrow> sp_sent p' = (case r of Inr _ \<Rightarrow> sp_sent p @ [d] | Inl _ \<Rightarrow> sp_sent p)"
  by (auto simp: sp_write_request_def split: list.splits sum.splits)

lemma exchange_sent:
  "exchange serial_transport c t p = (r, p') \<Longrightarrow> sp_sent p' = sp_sent p \<or> sp_sent p' = sp_sent p @ [command_request c]"
  by (auto simp: exchange_def serial_transport_def dest!: sp_write_request_sent sp_read_frame_sent
      split: prod.splits sum.splits option.splits)

lemma read_command_asks:
  assumes "read_command serial_transport c t sess p = (r, sess', p')"
  shows "asks (is_unsupported sess) (sp_sent p) (sp_sent p')"
proof (cases "c \<in> is_unsupported sess")
  case True
  with assms show ?thesis by (simp add: read_command_def)
next
  case False
  obtain e q where x: "exchange serial_transport c t p = (e, q)" by fastforce
  with assms False have "p' = q"
    by (auto simp: read_command_def split: sum.splits option.splits failure.splits)
  with exchange_sent [OF x] False show ?thesis
    by (auto simp: asks_def intro: exI [of _ "[]"] exI [of _ "[c]"])
qed

lemma poll_loop_asks:
  "poll_loop serial_transport t cs cy sess p = (r, sess', p') \<Longrightarrow> asks (is_unsupported sess) (sp_sent p) (sp_sent p')"
proof (induction cs arbitrary: cy sess p)
  case (Cons c cs)
  obtain a sess1 p1 where rc: "read_command serial_transport c t sess p = (a, sess1, p1)" using prod_cases3 by blast
  have "is_unsupported sess \<subseteq> is_unsupported sess1"
    using read_command_session [OF rc] by (simp add: session_step_def)
  moreover from poll_loop_step [OF Cons.prems rc] have "asks (is_unsupported sess1) (sp_sent p1) (sp_sent p')"
    using Cons.IH by (metis asks_refl inv_session.select_convs(6) inv_session.surjective inv_session.update_convs(4))
  ultimately show ?case using read_command_asks [OF rc] by (blast intro: asks_trans)
qed simp

lemma identity_loop_asks:
  "identity_loop serial_transport t cs i sess p = (r, sess', p') \<Longrightarrow> asks (is_unsupported sess) (sp_sent p) (sp_sent p')"
proof (induction cs arbitrary: i sess p)
  case (Cons c cs)
  obtain a sess1 p1 where rc: "read_command serial_transport c t sess p = (a, sess1, p1)" using prod_cases3 by blast
  have sub: "is_unsupported sess \<subseteq> is_unsupported sess1"
    using read_command_session [OF rc] by (simp add: session_step_def)
  show ?case
  proof (cases "identity_key c")
    case None
    with Cons show ?thesis by simp
  next
    case (Some key)
    with Cons.prems rc sub read_command_asks [OF rc] show ?thesis
      by (cases a) (auto simp: Let_def intro: asks_trans Cons.IH)
  qed
qed simp


section \<open>The loop invariant\<close>

definition inv_ok :: "inv_state \<Rightarrow> bool" where
  "inv_ok st \<longleftrightarrow> session_ok (iv_session st) \<and> iv_silent st < MAX_SILENT_CYCLES \<and>
     iv_last_static st \<le> sp_now (iv_port st) \<and> iv_started st \<le> sp_now (iv_port st)"

lemma exchange_time: "exchange serial_transport c t p = (r, p') \<Longrightarrow> sp_now p \<le> sp_now p'"
  by (auto simp: exchange_def serial_transport_def dest!: serial_time
      split: prod.splits sum.splits option.splits)

lemma read_command_time: "read_command serial_transport c t sess p = (r, sess', p') \<Longrightarrow> sp_now p \<le> sp_now p'"
  by (auto simp: read_command_def dest!: exchange_time
      split: if_splits prod.splits sum.splits option.splits failure.splits)

lemma poll_loop_time: "poll_loop serial_transport t cs cy sess p = (r, sess', p') \<Longrightarrow> sp_now p \<le> sp_now p'"
proof (induction cs arbitrary: cy sess p)
  case (Cons c cs)
  obtain a sess1 p1 where rc: "read_command serial_transport c t sess p = (a, sess1, p1)" using prod_cases3 by blast
  from poll_loop_step [OF Cons.prems rc] Cons.IH read_command_time [OF rc] show ?case by (metis order_trans)
qed simp

lemma identity_loop_time: "identity_loop serial_transport t cs i sess p = (r, sess', p') \<Longrightarrow> sp_now p \<le> sp_now p'"
proof (induction cs arbitrary: i sess p)
  case (Cons c cs)
  obtain a sess1 p1 where rc: "read_command serial_transport c t sess p = (a, sess1, p1)" using prod_cases3 by blast
  note time = read_command_time [OF rc]
  show ?case
  proof (cases "identity_key c")
    case (Some key)
    with Cons.prems rc time show ?thesis
      by (cases a) (auto simp: Let_def dest: Cons.IH intro: order_trans)
  qed (use Cons in simp)
qed simp

text \<open>How one tick changes the state.\<close>

definition tick_rel :: "inv_state \<Rightarrow> inv_state \<Rightarrow> bool" where
  "tick_rel st st' \<longleftrightarrow>
     session_step (iv_session st) (iv_session st') \<and>
     asks (is_unsupported (iv_session st)) (sp_sent (iv_port st)) (sp_sent (iv_port st')) \<and>
     sp_now (iv_port st) \<le> sp_now (iv_port st') \<and> iv_started st' = iv_started st \<and>
     (iv_silent st < MAX_SILENT_CYCLES \<longrightarrow> iv_silent st' < MAX_SILENT_CYCLES) \<and>
     (iv_last_static st \<le> sp_now (iv_port st) \<longrightarrow> iv_last_static st' \<le> sp_now (iv_port st'))"

lemma tick_rel_trans: "tick_rel a b \<Longrightarrow> tick_rel b c \<Longrightarrow> tick_rel a c"
proof -
  assume ab: "tick_rel a b" and bc: "tick_rel b c"
  then have sub: "is_unsupported (iv_session a) \<subseteq> is_unsupported (iv_session b)" by (simp add: tick_rel_def session_step_def)
  have "session_step (iv_session a) (iv_session c)"
    using ab bc session_step_trans unfolding tick_rel_def by blast
  moreover have "asks (is_unsupported (iv_session a)) (sp_sent (iv_port a)) (sp_sent (iv_port c))"
    using ab bc asks_trans [OF _ _ sub] unfolding tick_rel_def by blast
  ultimately show ?thesis using ab bc unfolding tick_rel_def by auto
qed

lemma tick_rel_refl [simp]: "tick_rel st st"
  by (simp add: tick_rel_def)

lemma tick_rel_ok: "tick_rel st st' \<Longrightarrow> inv_ok st \<Longrightarrow> inv_ok st'"
  by (auto simp: tick_rel_def inv_ok_def session_step_def)

lemma inv_poll_step_rel:
  assumes "inv_poll_step opts env st = Inr st'"
  shows "tick_rel st st' \<and> iv_tick st' = iv_tick st"
proof -
  obtain r sess p where c: "poll_loop serial_transport (io_response_timeout opts) LIVE_COMMANDS cycle_default
      (iv_session st) (iv_port st) = (r, sess, p)" using prod_cases3 by blast
  with assms obtain cy where "r = Inr cy" by (cases r) (auto simp: inv_poll_step_def poll_cycle_def)
  with assms c poll_loop_session [OF c] poll_loop_asks [OF c] poll_loop_time [OF c] show ?thesis
    by (auto simp: inv_poll_step_def poll_cycle_def inv_publish_def tick_rel_def Let_def MAX_SILENT_CYCLES_def
        split: if_splits)
qed

lemma inv_refresh_rel:
  assumes "inv_refresh opts st = Inr st'"
  shows "tick_rel st st' \<and> iv_tick st' = iv_tick st"
proof (cases "sp_now (iv_port st) - iv_last_static st \<ge> io_static_refresh opts")
  case True
  obtain r sess p where c: "identity_loop serial_transport (io_response_timeout opts) STATIC_COMMANDS []
      (iv_session st) (iv_port st) = (r, sess, p)" using prod_cases3 by blast
  with assms True obtain i where "r = Inr i" by (cases r) (auto simp: inv_refresh_def read_identity_def)
  with assms True c have st': "st' = st\<lparr>iv_session := sess\<lparr>is_identity := i\<rparr>, iv_port := p, iv_last_static := sp_now p\<rparr>"
    by (simp add: inv_refresh_def read_identity_def)
  have "session_step (iv_session st) (sess\<lparr>is_identity := i\<rparr>)"
    using identity_loop_session [OF c] session_step_identity by (rule session_step_trans)
  with identity_loop_asks [OF c] identity_loop_time [OF c] show ?thesis by (simp add: st' tick_rel_def)
qed (use assms in \<open>simp add: inv_refresh_def\<close>)

lemma inv_sleep_rel: "tick_rel st (inv_sleep opts st) \<and> iv_tick (inv_sleep opts st) = iv_tick st + 1"
  by (auto simp: inv_sleep_def tick_rel_def Let_def)

lemma inv_tick_rel:
  assumes "inv_tick opts env st = Inr st'"
  shows "tick_rel st st' \<and> iv_tick st' = iv_tick st + 1 \<and>
    iv_started st + io_interval opts * unat (of_nat (iv_tick st) + 1 :: u32) \<le> sp_now (iv_port st')"
proof -
  from assms obtain st1 st2 where s: "inv_poll_step opts env st = Inr st1" "inv_refresh opts st1 = Inr st2"
    "st' = inv_sleep opts st2" by (auto simp: inv_tick_def split: sum.splits if_splits)
  have rel: "tick_rel st st2" "iv_tick st2 = iv_tick st"
    using inv_poll_step_rel [OF s(1)] inv_refresh_rel [OF s(2)] by (auto intro: tick_rel_trans)
  then have "iv_started st2 = iv_started st" by (simp add: tick_rel_def)
  with rel show ?thesis using inv_sleep_rel [of st2 opts] tick_rel_trans s(3)
    by (auto simp: inv_sleep_def Let_def)
qed

lemma inv_loop_rel:
  "inv_loop opts env n st = Inr st' \<Longrightarrow> tick_rel st st' \<and> iv_tick st' = iv_tick st + n"
proof (induction n arbitrary: st)
  case (Suc n)
  then obtain st1 where "inv_tick opts env st = Inr st1" "inv_loop opts env n st1 = Inr st'" by (auto split: sum.splits)
  with inv_tick_rel [of opts env st st1] Suc.IH [of st1] show ?case by (auto intro: tick_rel_trans)
qed simp

text \<open>The part of a tick before its sleep.\<close>

definition inv_work :: "inv_options \<Rightarrow> bms_env \<Rightarrow> inv_state \<Rightarrow> (inv_run_error, inv_state) result" where
  "inv_work opts env st = res_bind (inv_poll_step opts env st) (inv_refresh opts)"

lemma inv_loop_last:
  "inv_loop opts env (Suc n) st0 = Inr st' \<longleftrightarrow> (\<exists>st. inv_loop opts env n st0 = Inr st \<and> inv_tick opts env st = Inr st')"
  by (induction n arbitrary: st0) (auto split: sum.splits)

lemma inv_tick_ends:
  assumes "inv_tick opts env st = Inr st'" "iv_tick st + 1 < 2 ^ 32"
  shows "\<exists>st2. inv_work opts env st = Inr st2 \<and>
    sp_now (iv_port st') = max (sp_now (iv_port st2)) (iv_started st + io_interval opts * (iv_tick st + 1))"
proof -
  from assms(1) obtain st1 st2 where s: "inv_poll_step opts env st = Inr st1" "inv_refresh opts st1 = Inr st2"
    "st' = inv_sleep opts st2" by (auto simp: inv_tick_def split: sum.splits if_splits)
  have "tick_rel st st2" "iv_tick st2 = iv_tick st"
    using inv_poll_step_rel [OF s(1)] inv_refresh_rel [OF s(2)] by (auto intro: tick_rel_trans)
  moreover have "unat (of_nat k :: u32) = k" if "k < 2 ^ 32" for k
    using that by (simp add: unsigned_of_nat take_bit_nat_eq_self)
  from this [OF assms(2)] have "unat (of_nat (iv_tick st) + 1 :: u32) = iv_tick st + 1" by (simp add: add.commute)
  ultimately show ?thesis using s by (simp add: inv_work_def inv_sleep_def tick_rel_def)
qed

text \<open>When every tick has done its work within an interval, the loop keeps time exactly.\<close>

lemma inv_loop_punctual:
  assumes "sp_now (iv_port st0) = iv_started st0" "iv_tick st0 = 0"
  shows "n < 2 ^ 32 \<Longrightarrow> inv_loop opts env n st0 = Inr st \<Longrightarrow>
    (\<And>k st' st2. k < n \<Longrightarrow> inv_loop opts env k st0 = Inr st' \<Longrightarrow> inv_work opts env st' = Inr st2 \<Longrightarrow>
       sp_now (iv_port st2) \<le> sp_now (iv_port st') + io_interval opts) \<Longrightarrow>
    sp_now (iv_port st) = iv_started st + io_interval opts * n"
proof (induction n arbitrary: st)
  case 0
  with assms show ?case by simp
next
  case (Suc n)
  then obtain st' where st': "inv_loop opts env n st0 = Inr st'" and t: "inv_tick opts env st' = Inr st"
    using inv_loop_last by blast
  have tick: "iv_tick st' = n" "iv_started st = iv_started st'"
    using inv_loop_rel [OF st'] inv_tick_rel [OF t] assms(2) by (simp_all add: tick_rel_def)
  have now: "sp_now (iv_port st') = iv_started st' + io_interval opts * n" using Suc.prems(1) Suc.prems(3) [OF less_SucI] by (intro Suc.IH [OF _ st']) auto
  from inv_tick_ends [OF t] tick Suc.prems(1) obtain st2 where w: "inv_work opts env st' = Inr st2"
    "sp_now (iv_port st) = max (sp_now (iv_port st2)) (iv_started st' + io_interval opts * (n + 1))" by auto
  with Suc.prems(3) [OF _ st' w(1)] now tick show ?case by (simp add: algebra_simps)
qed

lemma inv_begin_ok: "inv_begin opts sweeps now = Inr st \<Longrightarrow> inv_ok st \<and> iv_tick st = 0 \<and> sp_now (iv_port st) = iv_started st"
proof -
  assume b: "inv_begin opts sweeps now = Inr st"
  obtain res now1 where c: "inv_connect_within opts sweeps 0 (now + io_discovery_window opts) now = (res, now1)" by fastforce
  with b obtain port ca serial where res: "res = Inr (port, ca, serial)" by (auto simp: inv_begin_def split: sum.splits)
  let ?s = "\<lparr>is_device = ca_path_id ca, is_tty = ca_tty ca, is_connected_at = now1, is_discarded_frames = 0,
    is_unsupported_commands = 0, is_unsupported = {}, is_identity = [(''serial_number'', Some serial)]\<rparr>"
  obtain r sess p where i: "identity_loop serial_transport (io_response_timeout opts) STATIC_COMMANDS [] ?s port = (r, sess, p)"
    using prod_cases3 by blast
  with b c res obtain ident where "r = Inr ident" by (cases r) (auto simp: inv_begin_def read_identity_def)
  with b c res i have st: "st = \<lparr>iv_session = sess\<lparr>is_identity := ident\<rparr>, iv_port = p, iv_silent = 0,
      iv_last_static = sp_now p, iv_started = sp_now p, iv_tick = 0, iv_batches = []\<rparr>"
    by (simp add: inv_begin_def read_identity_def)
  have "session_step ?s (sess\<lparr>is_identity := ident\<rparr>)"
    using identity_loop_session [OF i] session_step_identity by (rule session_step_trans)
  moreover have "session_ok ?s" by (simp add: session_ok_def)
  ultimately have "session_ok (sess\<lparr>is_identity := ident\<rparr>)" by (simp add: session_step_def)
  then show ?thesis by (simp add: st inv_ok_def MAX_SILENT_CYCLES_def)
qed


section \<open>A unit that stops answering\<close>

definition mute :: "serial_port \<Rightarrow> bool" where
  "mute p \<longleftrightarrow> sp_line p = [] \<and> sp_writes p = []"

lemma exchange_mute:
  "mute p \<Longrightarrow> \<exists>p'. exchange serial_transport c t p = (Inl (Transient (TimedOut c)), p') \<and> mute p'"
  by (simp add: exchange_def serial_transport_def sp_write_request_def sp_read_frame_def mute_def)

lemma read_command_mute:
  assumes "mute p"
  shows "\<exists>sess' p'. read_command serial_transport c t sess p = (Inr None, sess', p') \<and> mute p' \<and> is_device sess' = is_device sess"
  using exchange_mute [OF assms, of c t] assms by (auto simp: read_command_def)

lemma poll_loop_mute:
  "mute p \<Longrightarrow> \<exists>sess' p'. poll_loop serial_transport t cs cy sess p = (Inr cy, sess', p') \<and> mute p' \<and> is_device sess' = is_device sess"
proof (induction cs arbitrary: sess p)
  case (Cons c cs)
  from read_command_mute [OF Cons.prems] obtain sess1 p1 where
    "read_command serial_transport c t sess p = (Inr None, sess1, p1)" "mute p1" "is_device sess1 = is_device sess" by metis
  with Cons.IH [of p1 sess1] show ?case by auto
qed simp

lemma identity_loop_mute:
  "mute p \<Longrightarrow> \<exists>i' sess' p'. identity_loop serial_transport t cs i sess p = (Inr i', sess', p') \<and> mute p' \<and> is_device sess' = is_device sess"
proof (induction cs arbitrary: i sess p)
  case (Cons c cs)
  show ?case
  proof (cases "identity_key c")
    case None
    with Cons show ?thesis by simp
  next
    case (Some key)
    from read_command_mute [OF Cons.prems] obtain sess1 p1 where
      rc: "read_command serial_transport c t sess p = (Inr None, sess1, p1)" "mute p1" "is_device sess1 = is_device sess" by metis
    from Cons.IH [OF rc(2), of "i @ [(key, None)]" sess1] Some rc show ?thesis by (auto simp: Let_def)
  qed
qed simp

lemma inv_tick_mute:
  assumes "mute (iv_port st)" "\<not> io_once opts"
  shows "if iv_silent st + 1 \<ge> MAX_SILENT_CYCLES
    then inv_tick opts env st = Inl (Inl (AnsweredNothing (is_device (iv_session st)) (iv_silent st + 1)))
    else \<exists>st'. inv_tick opts env st = Inr st' \<and> mute (iv_port st') \<and> iv_silent st' = iv_silent st + 1 \<and>
      is_device (iv_session st') = is_device (iv_session st)"
proof -
  from poll_loop_mute [OF assms(1)] obtain sess p where
    c: "poll_loop serial_transport (io_response_timeout opts) LIVE_COMMANDS cycle_default (iv_session st) (iv_port st) =
        (Inr cycle_default, sess, p)" and m: "mute p" and d: "is_device sess = is_device (iv_session st)" by metis
  let ?cy = "cycle_default\<lparr>cy_link := inv_session_link sess (tr_now serial_transport p)\<rparr>"
  have empty: "cycle_is_empty ?cy" by (simp add: cycle_is_empty_def cycle_default_def)
  let ?st1 = "inv_publish opts env ?cy (st\<lparr>iv_session := sess, iv_port := p, iv_silent := iv_silent st + 1\<rparr>)"
  have step: "inv_poll_step opts env st =
      (if iv_silent st + 1 \<ge> MAX_SILENT_CYCLES then Inl (AnsweredNothing (is_device sess) (iv_silent st + 1)) else Inr ?st1)"
    using c empty by (simp add: inv_poll_step_def poll_cycle_def Let_def)
  have m1: "mute (iv_port ?st1)" "iv_silent ?st1 = iv_silent st + 1" "iv_session ?st1 = sess"
    using m by (simp_all add: inv_publish_def Let_def mute_def)
  obtain i sess2 p2 where "identity_loop serial_transport (io_response_timeout opts) STATIC_COMMANDS [] (iv_session ?st1)
      (iv_port ?st1) = (Inr i, sess2, p2)" "mute p2" "is_device sess2 = is_device sess"
    using identity_loop_mute [OF m1(1)] m1(3) by metis
  then have "\<exists>st2. inv_refresh opts ?st1 = Inr st2 \<and> mute (iv_port st2) \<and> iv_silent st2 = iv_silent st + 1 \<and>
      is_device (iv_session st2) = is_device sess"
    using m1 by (auto simp: inv_refresh_def read_identity_def)
  with step d assms(2) show ?thesis by (auto simp: inv_tick_def inv_sleep_def Let_def mute_def)
qed

lemma inv_loop_mute:
  "mute (iv_port st) \<Longrightarrow> \<not> io_once opts \<Longrightarrow> iv_silent st < MAX_SILENT_CYCLES \<Longrightarrow>
   inv_loop opts env (MAX_SILENT_CYCLES - iv_silent st) st =
     Inl (Inl (AnsweredNothing (is_device (iv_session st)) MAX_SILENT_CYCLES))"
proof (induction "MAX_SILENT_CYCLES - iv_silent st" arbitrary: st)
  case (Suc n)
  note tick = inv_tick_mute [OF Suc.prems(1,2), of env]
  show ?case
  proof (cases "iv_silent st + 1 \<ge> MAX_SILENT_CYCLES")
    case True
    with Suc.prems(3) have "iv_silent st + 1 = MAX_SILENT_CYCLES" by simp
    with tick Suc.hyps(2) show ?thesis by (simp flip: Suc.hyps(2))
  next
    case False
    with tick obtain st' where "inv_tick opts env st = Inr st'" "mute (iv_port st')" "iv_silent st' = iv_silent st + 1"
      "is_device (iv_session st') = is_device (iv_session st)" by auto
    moreover have "n = MAX_SILENT_CYCLES - Suc (iv_silent st)" using Suc.hyps(2) by simp
    ultimately show ?thesis using Suc.hyps(1) [of st'] Suc.prems False unfolding Suc.hyps(2) [symmetric] by simp
  qed
qed simp

section \<open>One command, one reading\<close>

definition reading ::
  "(byte list \<Rightarrow> (inv_error, 'a) result) \<Rightarrow> (command \<Rightarrow> byte list option) \<Rightarrow> inv_session \<Rightarrow> command \<Rightarrow> 'a option" where
  "reading parse answer sess c =
     (if c \<in> is_unsupported sess then None
      else case answer c of
        None \<Rightarrow> None
      | Some f \<Rightarrow>
          (case parse_answer f of
             Inr (Payload p) \<Rightarrow> (case parse p of Inr x \<Rightarrow> Some x | Inl _ \<Rightarrow> None)
           | _ \<Rightarrow> None))"

definition with_reading :: "(command \<Rightarrow> byte list option) \<Rightarrow> inv_session \<Rightarrow> command \<Rightarrow> cycle \<Rightarrow> cycle" where
  "with_reading answer sess c cy =
     (case reading (\<lambda>p. store_reading c p cy) answer sess c of Some cy' \<Rightarrow> cy' | None \<Rightarrow> cy)"

text \<open>What a command contributes depends on its own answer and on whether it was refused.\<close>

lemma poll_loop_answered:
  assumes "\<And>c s. tr_write_request tr (command_request c) s = (Inr (), asked c s)"
    and "\<And>c s. tr_read_frame tr t (asked c s) = (Inr (answer c), back c s)"
  shows "\<exists>sess2 s2. poll_loop tr t (c # cs) cy sess s = poll_loop tr t cs (with_reading answer sess c cy) sess2 s2 \<and>
    (\<forall>d. d \<noteq> c \<longrightarrow> (d \<in> is_unsupported sess2 \<longleftrightarrow> d \<in> is_unsupported sess))"
proof (cases "c \<in> is_unsupported sess")
  case True
  then show ?thesis by (auto simp: read_command_def with_reading_def reading_def)
next
  case False
  have ex: "exchange tr c t s =
      (case answer c of
         None \<Rightarrow> Inl (Transient (TimedOut c))
       | Some f \<Rightarrow> (case parse_answer f of Inr (Payload p) \<Rightarrow> Inr (Some p) | Inr Nak \<Rightarrow> Inr None
                    | Inl e \<Rightarrow> Inl (Transient (BadResponse c e))), back c s)"
    using assms by (auto simp: exchange_def split: option.splits)
  show ?thesis
  proof (cases "\<exists>f p. answer c = Some f \<and> parse_answer f = Inr (Payload p)")
    case True
    then obtain f p where f: "answer c = Some f" "parse_answer f = Inr (Payload p)" by blast
    with False ex have rc: "read_command tr c t sess s = (Inr (Some p), sess, back c s)" by (simp add: read_command_def)
    show ?thesis
    proof (cases "store_reading c p cy")
      case (Inl e)
      with rc f False show ?thesis
        by (intro exI [of _ "sess\<lparr>is_discarded_frames := is_discarded_frames sess + 1\<rparr>"] exI [of _ "back c s"])
           (simp add: with_reading_def reading_def)
    next
      case (Inr cy')
      with rc f False show ?thesis
        by (intro exI [of _ sess] exI [of _ "back c s"]) (simp add: with_reading_def reading_def)
    qed
  next
    case no: False
    have "with_reading answer sess c cy = cy"
      using no by (auto simp: with_reading_def reading_def split: option.splits sum.splits answer.splits)
    moreover have "\<exists>sess2. read_command tr c t sess s = (Inr None, sess2, back c s) \<and>
        (\<forall>d. d \<noteq> c \<longrightarrow> (d \<in> is_unsupported sess2 \<longleftrightarrow> d \<in> is_unsupported sess))"
      using no False ex by (auto simp: read_command_def split: option.splits sum.splits answer.splits)
    then obtain sess2 where "read_command tr c t sess s = (Inr None, sess2, back c s)"
        "\<forall>d. d \<noteq> c \<longrightarrow> (d \<in> is_unsupported sess2 \<longleftrightarrow> d \<in> is_unsupported sess)" by blast
    ultimately show ?thesis by (intro exI [of _ sess2] exI [of _ "back c s"]) simp
  qed
qed

lemma with_reading_live:
  "with_reading answer sess Qmod cy = cy\<lparr>cy_mode := (case reading parse_qmod answer sess Qmod of None \<Rightarrow> cy_mode cy | x \<Rightarrow> x)\<rparr>"
  "with_reading answer sess Qpigs cy = cy\<lparr>cy_qpigs := (case reading parse_qpigs answer sess Qpigs of None \<Rightarrow> cy_qpigs cy | x \<Rightarrow> x)\<rparr>"
  "with_reading answer sess Qpigs2 cy = cy\<lparr>cy_qpigs2 := (case reading parse_qpigs2 answer sess Qpigs2 of None \<Rightarrow> cy_qpigs2 cy | x \<Rightarrow> x)\<rparr>"
  "with_reading answer sess Qpiws cy = cy\<lparr>cy_qpiws := (case reading parse_qpiws answer sess Qpiws of None \<Rightarrow> cy_qpiws cy | x \<Rightarrow> x)\<rparr>"
  by (auto simp: with_reading_def reading_def store_reading_def res_bind_def split: option.splits sum.splits answer.splits)

lemma reading_cong: "(c \<in> is_unsupported a \<longleftrightarrow> c \<in> is_unsupported b) \<Longrightarrow> reading parse answer a c = reading parse answer b c"
  by (simp add: reading_def)

section \<open>Connecting\<close>

lemma inv_connect_within_result:
  "inv_connect_within opts sweeps i deadline now = (res, now') \<Longrightarrow>
   \<exists>j t. i \<le> j \<and> inv_connect opts (sweeps j) t = (res, now') \<and> (isl res \<longrightarrow> deadline < now')"
proof (induction opts sweeps i deadline now rule: inv_connect_within.induct)
  case (1 opts sweeps i deadline now)
  obtain out t where c: "inv_connect opts (sweeps i) now = (out, t)" by fastforce
  note unfold = "1.prems" [unfolded inv_connect_within.simps [of opts sweeps i] c]
  show ?case
  proof (cases "\<exists>e. out = Inl e \<and> \<not> deadline < t")
    case True
    then obtain e where e: "out = Inl e" "\<not> deadline < t" by blast
    with unfold "1.IH" [OF c [symmetric] e] show ?thesis by simp (metis Suc_leD)
  next
    case False
    with unfold c show ?thesis by (intro exI [of _ i] exI [of _ now]) (auto split: sum.splits if_splits)
  qed
qed

section \<open>Properties\<close>

definition inv_demo_opts :: inv_options where
  "inv_demo_opts = \<lparr>io_dev_dir = ''/dev'', io_interval = 60, io_static_refresh = 1000, io_bms_listen = 5,
     io_response_timeout = 10, io_discovery_window = 100, io_resource_attributes = [], io_dry_run = True, io_once = False\<rparr>"

definition inv_demo_env :: bms_env where
  "inv_demo_env = \<lparr>env_hostname = None, env_boot_id = None, env_by_id = (\<lambda>_. None), env_publish_time = (\<lambda>_. 1),
     env_unix_nanos = (\<lambda>t. Some t),
     env_collector = (\<lambda>_. \<lparr>col_encode = (\<lambda>_. []), col_decode = (\<lambda>_. None), col_receiver = (\<lambda>_. Inl [])\<rparr>)\<rparr>"

definition inv_demo_state :: inv_state where
  "inv_demo_state = \<lparr>iv_session = \<lparr>is_device = ''p'', is_tty = ''t'', is_connected_at = 0, is_discarded_frames = 0,
       is_unsupported_commands = 1, is_unsupported = {Qpigs2}, is_identity = []\<rparr>,
     iv_port = port_at 0 [] [], iv_silent = 0, iv_last_static = 0, iv_started = 0, iv_tick = 0, iv_batches = []\<rparr>"

lemma inv_demo_tick: "\<exists>st'. inv_loop inv_demo_opts inv_demo_env 1 inv_demo_state = Inr st'"
  using inv_tick_mute [of inv_demo_state inv_demo_opts inv_demo_env]
  by (auto simp: inv_demo_state_def inv_demo_opts_def port_at_def mute_def MAX_SILENT_CYCLES_def)

text \<open>
  C23. A command the unit has refused is never asked again: from any state of the loop in which
  a command is among the refused ones, however many ticks follow, with however many poll cycles
  and identity refreshes, no request for it is written to the port, and it stays refused.
\<close>

theorem refused_command_never_asked_again:
  assumes "inv_loop opts env n st = Inr st'" "c \<in> is_unsupported (iv_session st)"
  shows "c \<in> is_unsupported (iv_session st') \<and>
    (\<exists>later. sp_sent (iv_port st') = sp_sent (iv_port st) @ later \<and> command_request c \<notin> set later)"
proof -
  have rel: "tick_rel st st'" using inv_loop_rel [OF assms(1)] by simp
  then obtain cs where "sp_sent (iv_port st') = sp_sent (iv_port st) @ map command_request cs"
      "set cs \<inter> is_unsupported (iv_session st) = {}" by (auto simp: tick_rel_def asks_def)
  moreover from this(2) assms(2) have "command_request c \<notin> set (map command_request cs)"
    using command_request_inject by auto
  ultimately show ?thesis using rel assms(2) by (auto simp: tick_rel_def session_step_def)
qed

theorem refused_command_never_asked_again_witness:
  "\<exists>st'. inv_loop inv_demo_opts inv_demo_env 1 inv_demo_state = Inr st' \<and> Qpigs2 \<in> is_unsupported (iv_session st') \<and>
     command_request Qpigs2 \<notin> set (sp_sent (iv_port st'))"
proof -
  obtain st' where st': "inv_loop inv_demo_opts inv_demo_env 1 inv_demo_state = Inr st'" using inv_demo_tick by blast
  have "Qpigs2 \<in> is_unsupported (iv_session inv_demo_state)" "sp_sent (iv_port inv_demo_state) = []"
    by (simp_all add: inv_demo_state_def port_at_def)
  with refused_command_never_asked_again [OF st' this(1)] st' show ?thesis by auto
qed

text \<open>
  A unit that stops answering is noticed: once the line is mute, the loop exits after exactly
  as many further cycles as are missing to three silent ones, with the error that names the
  device.
\<close>

theorem inv_gives_up_when_mute:
  assumes "inv_ok st" "mute (iv_port st)" "\<not> io_once opts"
  shows "inv_loop opts env (MAX_SILENT_CYCLES - iv_silent st) st =
    Inl (Inl (AnsweredNothing (is_device (iv_session st)) MAX_SILENT_CYCLES))"
  using assms by (intro inv_loop_mute) (simp_all add: inv_ok_def)

theorem inv_gives_up_when_mute_witness:
  "inv_loop inv_demo_opts inv_demo_env 3 inv_demo_state = Inl (Inl (AnsweredNothing ''p'' 3))"
  using inv_gives_up_when_mute [of inv_demo_state inv_demo_opts inv_demo_env]
  by (simp add: inv_ok_def session_ok_def inv_demo_state_def inv_demo_opts_def port_at_def mute_def MAX_SILENT_CYCLES_def)


text \<open>
  One command's failure costs only its own readings: on a line that answers each command by
  itself (or not at all), the poll cycle succeeds and every part of it is determined by the
  answer to its own command alone: a timeout, a damaged frame, a refusal or an unreadable
  payload nulls that part and leaves the three others as they are.
\<close>

theorem poll_cycle_parts_independent:
  assumes "\<And>c s. tr_write_request tr (command_request c) s = (Inr (), asked c s)"
    and "\<And>c s. tr_read_frame tr t (asked c s) = (Inr (answer c), back c s)"
  shows "\<exists>cy sess' s'. poll_cycle tr t sess s = (Inr cy, sess', s') \<and>
    cy_mode cy = reading parse_qmod answer sess Qmod \<and> cy_qpigs cy = reading parse_qpigs answer sess Qpigs \<and>
    cy_qpigs2 cy = reading parse_qpigs2 answer sess Qpigs2 \<and> cy_qpiws cy = reading parse_qpiws answer sess Qpiws"
proof -
  note one = poll_loop_answered [OF assms]
  let ?live = "\<lambda>a b. \<forall>d. d \<noteq> a \<longrightarrow> d \<noteq> b"
  obtain s1 p1 where a: "poll_loop tr t [Qmod, Qpigs, Qpigs2, Qpiws] cycle_default sess s =
      poll_loop tr t [Qpigs, Qpigs2, Qpiws] (with_reading answer sess Qmod cycle_default) s1 p1"
      "\<forall>d. d \<noteq> Qmod \<longrightarrow> (d \<in> is_unsupported s1 \<longleftrightarrow> d \<in> is_unsupported sess)" using one by metis
  obtain s2 p2 where b: "poll_loop tr t [Qpigs, Qpigs2, Qpiws] (with_reading answer sess Qmod cycle_default) s1 p1 =
      poll_loop tr t [Qpigs2, Qpiws] (with_reading answer s1 Qpigs (with_reading answer sess Qmod cycle_default)) s2 p2"
      "\<forall>d. d \<noteq> Qpigs \<longrightarrow> (d \<in> is_unsupported s2 \<longleftrightarrow> d \<in> is_unsupported s1)" using one by metis
  let ?cy = "with_reading answer s1 Qpigs (with_reading answer sess Qmod cycle_default)"
  obtain s3 p3 where c: "poll_loop tr t [Qpigs2, Qpiws] ?cy s2 p2 = poll_loop tr t [Qpiws] (with_reading answer s2 Qpigs2 ?cy) s3 p3"
      "\<forall>d. d \<noteq> Qpigs2 \<longrightarrow> (d \<in> is_unsupported s3 \<longleftrightarrow> d \<in> is_unsupported s2)" using one by metis
  obtain s4 p4 where d: "poll_loop tr t [Qpiws] (with_reading answer s2 Qpigs2 ?cy) s3 p3 =
      poll_loop tr t [] (with_reading answer s3 Qpiws (with_reading answer s2 Qpigs2 ?cy)) s4 p4" using one by metis
  have same: "reading parse_qpigs answer s1 Qpigs = reading parse_qpigs answer sess Qpigs"
    "reading parse_qpigs2 answer s2 Qpigs2 = reading parse_qpigs2 answer sess Qpigs2"
    "reading parse_qpiws answer s3 Qpiws = reading parse_qpiws answer sess Qpiws"
    using a(2) b(2) c(2) by (auto intro!: reading_cong)
  show ?thesis
    unfolding poll_cycle_def LIVE_COMMANDS_def a(1) b(1) c(1) d
    by (simp add: with_reading_live same cycle_default_def split: option.splits)
qed

theorem poll_cycle_parts_independent_witness:
  "\<exists>cy sess' s'. poll_cycle
     \<lparr>tr_write_request = (\<lambda>d s. (Inr (), d)),
      tr_read_frame = (\<lambda>t s. (Inr (if s = command_request Qmod then Some (response_frame [0x4C]) else None), s)),
      tr_listen = (\<lambda>w s. (Inr 0, s)), tr_now = (\<lambda>_. 0)\<rparr> 5 (iv_session inv_demo_state) [] = (Inr cy, sess', s') \<and>
   cy_mode cy = Some \<lparr>mr_code = CHR ''L'', mr_mode = Some LineMode\<rparr> \<and> cy_qpigs cy = None"
proof -
  let ?ans = "\<lambda>c. if c = Qmod then Some (response_frame [0x4C]) else None"
  let ?tr = "\<lparr>tr_write_request = (\<lambda>d s. (Inr (), d)),
      tr_read_frame = (\<lambda>t s. (Inr (if s = command_request Qmod then Some (response_frame [0x4C]) else None), s)),
      tr_listen = (\<lambda>w s. (Inr 0, s)), tr_now = (\<lambda>_. 0)\<rparr>"
  have "parse_qmod [0x4C] = Inr \<lparr>mr_code = CHR ''L'', mr_mode = Some LineMode\<rparr>" by code_simp
  then have "reading parse_qmod ?ans (iv_session inv_demo_state) Qmod = Some \<lparr>mr_code = CHR ''L'', mr_mode = Some LineMode\<rparr>"
    "reading parse_qpigs ?ans (iv_session inv_demo_state) Qpigs = None"
    by (simp_all add: reading_def parse_answer_response NAK_def inv_demo_state_def)
  with poll_cycle_parts_independent [of ?tr "\<lambda>c s. command_request c" 5 ?ans "\<lambda>c s. command_request c" "iv_session inv_demo_state" "[]"]
  have "\<exists>cy sess' s'. poll_cycle ?tr 5 (iv_session inv_demo_state) [] = (Inr cy, sess', s') \<and>
     cy_mode cy = Some \<lparr>mr_code = CHR ''L'', mr_mode = Some LineMode\<rparr> \<and> cy_qpigs cy = None"
    by (fastforce simp: command_request_inject)
  then show ?thesis .
qed

text \<open>
  C8. The loop's state is sound before every tick: the number of unsupported commands reported
  is the number of distinct commands refused, and fewer than three silent cycles are counted.
  The cadence does not drift, for \<open>n\<close> from 1 below 2 to the 32: the
  \<open>n\<close>-th tick ends when its own work is done or \<open>n\<close> intervals after
  the start, whichever is later. So when every tick has done its work within an interval, it
  ends exactly \<open>n\<close> intervals after the start, however long the work took.
\<close>

theorem inv_loop_invariant:
  assumes "inv_run opts env sweeps n now = Inr st"
  shows "is_unsupported_commands (iv_session st) = card (is_unsupported (iv_session st)) \<and>
    iv_silent st < MAX_SILENT_CYCLES \<and> iv_tick st = n \<and>
    (0 < n \<and> n < 2 ^ 32 \<longrightarrow>
      (\<exists>st1 st2. inv_run opts env sweeps (n - 1) now = Inr st1 \<and> inv_work opts env st1 = Inr st2 \<and>
         sp_now (iv_port st) = max (sp_now (iv_port st2)) (iv_started st + io_interval opts * n)) \<and>
      ((\<forall>k < n. \<forall>st1 st2. inv_run opts env sweeps k now = Inr st1 \<and> inv_work opts env st1 = Inr st2 \<longrightarrow>
          sp_now (iv_port st2) \<le> sp_now (iv_port st1) + io_interval opts) \<longrightarrow>
       sp_now (iv_port st) = iv_started st + io_interval opts * n))"
proof -
  from assms obtain st0 where b: "inv_begin opts sweeps now = Inr st0" and l: "inv_loop opts env n st0 = Inr st"
    by (auto simp: inv_run_def split: sum.splits)
  have run: "inv_run opts env sweeps k now = inv_loop opts env k st0" for k by (simp add: inv_run_def b)
  note start = inv_begin_ok [OF b]
  from start inv_loop_rel [OF l] have ok: "inv_ok st" "iv_tick st = n" by (auto intro: tick_rel_ok)
  have ends: "\<exists>st1 st2. inv_loop opts env (n - 1) st0 = Inr st1 \<and> inv_work opts env st1 = Inr st2 \<and>
      sp_now (iv_port st) = max (sp_now (iv_port st2)) (iv_started st + io_interval opts * n)" if n: "0 < n" "n < 2 ^ 32"
  proof -
    from l n(1) obtain st1 where st1: "inv_loop opts env (n - 1) st0 = Inr st1" and t: "inv_tick opts env st1 = Inr st"
      using inv_loop_last [of opts env "n - 1" st0 st] by auto
    have tick: "iv_tick st1 + 1 = n" "iv_started st = iv_started st1"
      using inv_loop_rel [OF st1] inv_tick_rel [OF t] start n(1) by (simp_all add: tick_rel_def)
    from inv_tick_ends [OF t] tick n(2) st1 show ?thesis by auto
  qed
  have punctual: "sp_now (iv_port st) = iv_started st + io_interval opts * n"
    if "n < 2 ^ 32" "\<forall>k < n. \<forall>st1 st2. inv_loop opts env k st0 = Inr st1 \<and> inv_work opts env st1 = Inr st2 \<longrightarrow>
      sp_now (iv_port st2) \<le> sp_now (iv_port st1) + io_interval opts"
    using that start by (intro inv_loop_punctual [OF _ _ _ l]) auto
  show ?thesis using ok ends punctual by (simp add: run inv_ok_def session_ok_def)
qed

definition inv_demo_sweep :: inv_sweep where
  "inv_demo_sweep = \<lparr>isw_entries = Some [Some ''ttyUSB0''], isw_by_path = None, isw_by_id = None, isw_remembered = None,
     isw_seed = 1, isw_open = (\<lambda>_. InvPort (sp_line (demo_port 0)) []), isw_overhead = 0\<rparr>"

lemma inv_demo_connect:
  "inv_connect_within inv_demo_opts (\<lambda>_. inv_demo_sweep) 0 100 0 =
     (Inr (\<lparr>sp_now = 12, sp_line = [], sp_writes = [], sp_sent = [command_request Qid]\<rparr>,
       \<lparr>ca_tty = ''/dev/ttyUSB0'', ca_path_id = ''/dev/ttyUSB0'', ca_by_id = None\<rparr>, ''92932210103714''), 12)"
proof -
  let ?c = "\<lparr>ca_tty = ''/dev/ttyUSB0'', ca_path_id = ''/dev/ttyUSB0'', ca_by_id = None\<rparr>"
  have "inv_order (enumerate_ports ''/dev'' (Some [Some ''ttyUSB0'']) None None) None 1 = [?c]"
    "enumerate_ports ''/dev'' (Some [Some ''ttyUSB0'']) None None \<noteq> []" by code_simp+
  moreover have "port_at 1 (sp_line (demo_port 0)) [] = demo_port 1" by (simp add: port_at_def demo_port_def)
  ultimately have "inv_connect inv_demo_opts inv_demo_sweep 0 =
      (Inr (\<lparr>sp_now = 12, sp_line = [], sp_writes = [], sp_sent = [command_request Qid]\<rparr>, ?c, ''92932210103714''), 12)"
    by (simp add: inv_connect_def inv_demo_opts_def inv_demo_sweep_def demo_probe)
  then show ?thesis by (simp add: inv_connect_within.simps)
qed

lemma inv_demo_run: "\<exists>st. inv_run inv_demo_opts inv_demo_env (\<lambda>_. inv_demo_sweep) 1 0 = Inr st"
proof -
  have w: "io_discovery_window inv_demo_opts = 100" by (simp add: inv_demo_opts_def)
  let ?p = "\<lparr>sp_now = 12, sp_line = [], sp_writes = [], sp_sent = [command_request Qid]\<rparr>"
  let ?s = "\<lparr>is_device = ''/dev/ttyUSB0'', is_tty = ''/dev/ttyUSB0'', is_connected_at = 12, is_discarded_frames = 0,
    is_unsupported_commands = 0, is_unsupported = {}, is_identity = [(''serial_number'', Some ''92932210103714'')]\<rparr>"
  have "mute ?p" by (simp add: mute_def)
  from identity_loop_mute [OF this, of "io_response_timeout inv_demo_opts" STATIC_COMMANDS "[]" ?s]
  obtain i sess p where "identity_loop serial_transport (io_response_timeout inv_demo_opts) STATIC_COMMANDS [] ?s ?p =
      (Inr i, sess, p)" "mute p" by blast
  then have "\<exists>st0. inv_begin inv_demo_opts (\<lambda>_. inv_demo_sweep) 0 = Inr st0 \<and> mute (iv_port st0) \<and> iv_silent st0 = 0"
    by (simp add: inv_begin_def w inv_demo_connect read_identity_def)
  then obtain st0 where st0: "inv_begin inv_demo_opts (\<lambda>_. inv_demo_sweep) 0 = Inr st0" "mute (iv_port st0)" "iv_silent st0 = 0"
    by blast
  have "\<not> io_once inv_demo_opts" by (simp add: inv_demo_opts_def)
  from inv_tick_mute [OF st0(2) this, of inv_demo_env] st0 show ?thesis
    by (auto simp: inv_run_def MAX_SILENT_CYCLES_def)
qed

theorem inv_loop_invariant_witness:
  "\<exists>st st1 st2. inv_run inv_demo_opts inv_demo_env (\<lambda>_. inv_demo_sweep) 1 0 = Inr st \<and> iv_silent st < MAX_SILENT_CYCLES \<and>
     inv_run inv_demo_opts inv_demo_env (\<lambda>_. inv_demo_sweep) 0 0 = Inr st1 \<and> inv_work inv_demo_opts inv_demo_env st1 = Inr st2 \<and>
     sp_now (iv_port st) = max (sp_now (iv_port st2)) (iv_started st + 60)"
proof -
  obtain st where st: "inv_run inv_demo_opts inv_demo_env (\<lambda>_. inv_demo_sweep) 1 0 = Inr st" using inv_demo_run by blast
  have "io_interval inv_demo_opts = 60" by (simp add: inv_demo_opts_def)
  moreover note all = inv_loop_invariant [OF st]
  then have "iv_silent st < MAX_SILENT_CYCLES" and "(0 :: nat) < 1 \<and> (1 :: nat) < 2 ^ 32 \<longrightarrow>
    (\<exists>st1 st2. inv_run inv_demo_opts inv_demo_env (\<lambda>_. inv_demo_sweep) (1 - 1) 0 = Inr st1 \<and>
       inv_work inv_demo_opts inv_demo_env st1 = Inr st2 \<and>
       sp_now (iv_port st) = max (sp_now (iv_port st2)) (iv_started st + io_interval inv_demo_opts * 1))" by blast+
  ultimately show ?thesis using st by auto
qed

text \<open>
  Connecting ends: it fails only after the discovery window has passed, and when it succeeds
  the session's port is one of the adapters enumerated in that sweep, opened by this process.
\<close>

theorem inv_connect_within_outcome:
  assumes "inv_connect_within opts sweeps 0 (now + window) now = (res, now')"
  shows "(\<exists>e. res = Inl e \<and> now + window < now') \<or>
    (\<exists>j port c serial line writes. res = Inr (port, c, serial) \<and> isw_open (sweeps j) (ca_tty c) = InvPort line writes \<and>
       c \<in> set (inv_order (enumerate_ports (io_dev_dir opts) (isw_entries (sweeps j)) (isw_by_path (sweeps j))
         (isw_by_id (sweeps j))) (isw_remembered (sweeps j)) (isw_seed (sweeps j))))"
proof -
  have loop: "inv_connect_loop opts op cs t = (Some (port, c, serial), t') \<Longrightarrow> \<exists>line writes. op (ca_tty c) = InvPort line writes \<and> c \<in> set cs"
    for op cs t t' port c serial
    by (induction cs arbitrary: t) (auto split: inv_opened.splits prod.splits sum.splits inv_probe.splits)
  from inv_connect_within_result [OF assms] obtain j t where c: "inv_connect opts (sweeps j) t = (res, now')"
    and late: "isl res \<longrightarrow> now + window < now'" by blast
  show ?thesis
  proof (cases res)
    case (Inl e)
    with late show ?thesis by simp
  next
    case (Inr found)
    obtain port ca serial where "found = (port, ca, serial)" using prod_cases3 by blast
    with c Inr show ?thesis
      by (auto simp: inv_connect_def Let_def dest!: loop split: if_splits prod.splits option.splits)
  qed
qed

theorem inv_connect_within_outcome_witness:
  "\<exists>port c serial. inv_connect_within inv_demo_opts (\<lambda>_. inv_demo_sweep) 0 (0 + 100) 0 = (Inr (port, c, serial), 12) \<and>
     (\<exists>line writes. isw_open inv_demo_sweep (ca_tty c) = InvPort line writes)"
  using inv_connect_within_outcome [of inv_demo_opts "\<lambda>_. inv_demo_sweep" 0 100] inv_demo_connect by fastforce

end
