(* ===== verification/Rust_Parse.thy ===== *)
theory Rust_Parse
  imports F64 Rust_Text
begin

text \<open>
  Searching and splitting of strings, and the number parsers of Rust's standard library that the
  host collectors use: \<open>strip_prefix\<close> and its relatives, \<open>from_str_radix\<close>, and \<open>str::parse\<close> for \<open>f64\<close>.
\<close>

section \<open>Searching and splitting\<close>

definition starts_with :: "string \<Rightarrow> string \<Rightarrow> bool" where
  "starts_with s p \<longleftrightarrow> take (length p) s = p"

definition ends_with :: "string \<Rightarrow> string \<Rightarrow> bool" where
  "ends_with s p \<longleftrightarrow> length p \<le> length s \<and> drop (length s - length p) s = p"

definition strip_prefix :: "string \<Rightarrow> string \<Rightarrow> string option" where
  "strip_prefix s p = (if starts_with s p then Some (drop (length p) s) else None)"

definition strip_suffix :: "string \<Rightarrow> string \<Rightarrow> string option" where
  "strip_suffix s p = (if ends_with s p then Some (take (length s - length p) s) else None)"

text \<open>\<open>Path::join\<close>: an absolute path replaces, a trailing separator is not doubled.\<close>

definition path_join :: "string \<Rightarrow> string \<Rightarrow> string" where
  "path_join p q =
     (if starts_with q ''/'' then q
      else if p = [] \<or> ends_with p ''/'' then p @ q
      else p @ ''/'' @ q)"

text \<open>\<open>str::split_once\<close> with a string pattern: at its first occurrence.\<close>

fun split_once_str :: "string \<Rightarrow> string \<Rightarrow> (string \<times> string) option" where
  "split_once_str p [] = (if p = [] then Some ([], []) else None)"
| "split_once_str p (c # cs) =
     (if starts_with (c # cs) p then Some ([], drop (length p) (c # cs))
      else map_option (\<lambda>(a, b). (c # a, b)) (split_once_str p cs))"

definition contains_str :: "string \<Rightarrow> string \<Rightarrow> bool" where
  "contains_str s p \<longleftrightarrow> split_once_str p s \<noteq> None"

text \<open>\<open>str::rsplit_once\<close> with a character: at its last occurrence.\<close>

definition rsplit_once :: "char \<Rightarrow> string \<Rightarrow> (string \<times> string) option" where
  "rsplit_once c s = map_option (\<lambda>(a, b). (rev b, rev a)) (split_once c (rev s))"

definition rsplit_once_str :: "string \<Rightarrow> string \<Rightarrow> (string \<times> string) option" where
  "rsplit_once_str p s = map_option (\<lambda>(a, b). (rev b, rev a)) (split_once_str (rev p) (rev s))"

lemma split_once_str_parts: "split_once_str p s = Some (a, b) \<Longrightarrow> s = a @ p @ b"
  by (induction p s arbitrary: a rule: split_once_str.induct)
    (auto simp: starts_with_def split: if_splits, metis append_take_drop_id)

text \<open>\<open>str::split\<close> with a non-empty string pattern.\<close>

function split_str :: "string \<Rightarrow> string \<Rightarrow> string list" where
  "split_str p s =
     (if p = [] then [s]
      else case split_once_str p s of None \<Rightarrow> [s] | Some (a, b) \<Rightarrow> a # split_str p b)"
  by pat_completeness auto
termination
  by (relation "measure (\<lambda>(p, s). length s)") (auto dest: split_once_str_parts)

declare split_str.simps [simp del]

text \<open>\<open>trim_end_matches\<close> and \<open>trim_start_matches\<close> with a non-empty string pattern.\<close>

function trim_end_matches :: "string \<Rightarrow> string \<Rightarrow> string" where
  "trim_end_matches p s =
     (if p = [] then s
      else case strip_suffix s p of None \<Rightarrow> s | Some t \<Rightarrow> trim_end_matches p t)"
  by pat_completeness auto
termination
  by (relation "measure (\<lambda>(p, s). length s)") (auto simp: strip_suffix_def ends_with_def split: if_splits, metis diff_less length_0_conv length_greater_0_conv less_le_trans)

declare trim_end_matches.simps [simp del]

definition trim_start_matches :: "string \<Rightarrow> string \<Rightarrow> string" where
  "trim_start_matches p s = rev (trim_end_matches (rev p) (rev s))"

definition trim_start :: "string \<Rightarrow> string" where
  "trim_start s = str_of_bytes (concat (dropWhile is_whitespace (utf8_chars (bytes_of_str s))))"

text \<open>\<open>Iterator::find_map\<close> and \<open>Iterator::position\<close>.\<close>

fun find_map :: "('a \<Rightarrow> 'b option) \<Rightarrow> 'a list \<Rightarrow> 'b option" where
  "find_map f [] = None"
| "find_map f (x # xs) = (case f x of Some y \<Rightarrow> Some y | None \<Rightarrow> find_map f xs)"

fun position :: "('a \<Rightarrow> bool) \<Rightarrow> 'a list \<Rightarrow> nat option" where
  "position P [] = None"
| "position P (x # xs) = (if P x then Some 0 else map_option Suc (position P xs))"

section \<open>Numbers in a radix\<close>

definition char_digit :: "nat \<Rightarrow> char \<Rightarrow> nat option" where
  "char_digit radix c =
     (let n = of_char c;
          d = (if 48 \<le> n \<and> n \<le> 57 then n - 48 else if 65 \<le> n \<and> n \<le> 90 then n - 55
               else if 97 \<le> n \<and> n \<le> 122 then n - 87 else 36)
      in if d < radix then Some d else None)"

fun radix_val :: "nat \<Rightarrow> nat \<Rightarrow> string \<Rightarrow> nat option" where
  "radix_val radix acc [] = Some acc"
| "radix_val radix acc (c # cs) =
     (case char_digit radix c of None \<Rightarrow> None | Some d \<Rightarrow> radix_val radix (radix * acc + d) cs)"

text \<open>\<open>from_str_radix\<close> of an unsigned type with \<open>hi\<close> values: an optional plus sign, then digits.\<close>

definition from_str_radix :: "nat \<Rightarrow> nat \<Rightarrow> string \<Rightarrow> nat option" where
  "from_str_radix hi radix s =
     (let ds = (case s of [] \<Rightarrow> [] | c # cs \<Rightarrow> if c = CHR ''+'' then cs else s)
      in if ds = [] then None
         else case radix_val radix 0 ds of None \<Rightarrow> None | Some v \<Rightarrow> if v < hi then Some v else None)"

text \<open>One lower-case hexadecimal digit, as \<open>{:x}\<close> prints it.\<close>

definition hex_char :: "nat \<Rightarrow> char" where
  "hex_char d = char_of (if d < 10 then 48 + d else 87 + d)"

text \<open>\<open>format!("{b:02x}")\<close> of a byte.\<close>

definition hex_byte :: "byte \<Rightarrow> string" where
  "hex_byte b = [hex_char (unat b div 16), hex_char (unat b mod 16)]"

definition parse_i32 :: "string \<Rightarrow> int option" where
  "parse_i32 s =
     (case parse_i64 s of None \<Rightarrow> None | Some n \<Rightarrow> if - (2 ^ 31) \<le> n \<and> n < 2 ^ 31 then Some n else None)"

section \<open>Floating point\<close>

definition f64_of_rat :: "rat \<Rightarrow> f64_value" where
  "f64_of_rat q =
     (let r = f64_round q in if 2 ^ 1024 \<le> \<bar>r\<bar> then Infinite (q < 0) else Finite r)"

definition is_digit :: "char \<Rightarrow> bool" where
  "is_digit c \<longleftrightarrow> digit_val c \<noteq> None"

definition parse_exponent :: "string \<Rightarrow> int option" where
  "parse_exponent s =
     (case s of
        [] \<Rightarrow> Some 0
      | c # cs \<Rightarrow>
          if c = CHR ''e'' \<or> c = CHR ''E'' then
            (let neg = (cs \<noteq> [] \<and> hd cs = CHR ''-'');
                 ds = (if cs \<noteq> [] \<and> (hd cs = CHR ''-'' \<or> hd cs = CHR ''+'') then tl cs else cs)
             in if ds = [] then None
                else map_option (\<lambda>n. if neg then - int n else int n) (digits_val 0 ds))
          else None)"

definition parse_number :: "string \<Rightarrow> rat option" where
  "parse_number s =
     (let whole = takeWhile is_digit s;
          rest = dropWhile is_digit s;
          dot = (rest \<noteq> [] \<and> hd rest = CHR ''.'');
          frac = (if dot then takeWhile is_digit (tl rest) else []);
          tail = (if dot then dropWhile is_digit (tl rest) else rest)
      in if whole @ frac = [] then None
         else Option.bind (digits_val 0 (whole @ frac)) (\<lambda>n.
              map_option (\<lambda>e. of_nat n * 10 powi (e - int (length frac))) (parse_exponent tail)))"

definition ascii_lower :: "char \<Rightarrow> char" where
  "ascii_lower c = (let n = of_char c :: nat in if 65 \<le> n \<and> n \<le> 90 then char_of (n + 32) else c)"

text \<open>\<open>f64::from_str\<close>: a sign, then a decimal number rounded to nearest, or a spelling of infinity or NaN.\<close>

definition parse_f64 :: "string \<Rightarrow> f64_value option" where
  "parse_f64 s =
     (if s = [] then None
      else
        let neg = (hd s = CHR ''-'');
            t = (if hd s = CHR ''-'' \<or> hd s = CHR ''+'' then tl s else s)
        in if t = [] then None
           else case parse_number t of
             Some q \<Rightarrow> Some (f64_of_rat (if neg then - q else q))
           | None \<Rightarrow>
               (let word = map ascii_lower t
                in if word = ''nan'' then Some NotANumber
                   else if word = ''inf'' \<or> word = ''infinity'' then Some (Infinite neg) else None))"

text \<open>\<open>2f64.powi(n)\<close>: a negative power is the reciprocal of the positive one.\<close>

definition f64_pow2 :: "int \<Rightarrow> f64_value" where
  "f64_pow2 n = (if 1024 \<le> n then Infinite False else if n < - 1023 then Finite 0 else Finite (2 powi n))"

section \<open>Facts\<close>

lemma strip_prefix_Some: "strip_prefix s p = Some t \<longleftrightarrow> s = p @ t"
  by (auto simp: strip_prefix_def starts_with_def) (metis append_take_drop_id)

lemma strip_suffix_Some: "strip_suffix s p = Some t \<longleftrightarrow> s = t @ p"
  by (auto simp: strip_suffix_def ends_with_def) (metis append_take_drop_id)

lemma starts_with_iff: "starts_with s p \<longleftrightarrow> (\<exists>t. s = p @ t)"
  by (auto simp: starts_with_def) (metis append_take_drop_id)

lemma ends_with_iff: "ends_with s p \<longleftrightarrow> (\<exists>t. s = t @ p)"
  by (auto simp: ends_with_def) (metis append_take_drop_id)

lemma split_once_str_Some: "split_once_str p s = Some (a, b) \<Longrightarrow> s = a @ p @ b"
  by (induction s arbitrary: a)
     (auto simp: starts_with_iff split: if_splits)

lemma contains_str_iff: "contains_str s p \<longleftrightarrow> (\<exists>a b. s = a @ p @ b)"
proof -
  have here: "split_once_str p (p @ b) \<noteq> None" for b
    by (cases "p @ b") (auto simp: starts_with_def dest: arg_cong [of _ _ "take (length p)"])
  have "split_once_str p (a @ p @ b) \<noteq> None" for a b
    by (induction a) (use here in auto)
  then show ?thesis
    unfolding contains_str_def using split_once_str_Some [of p s] by (metis not_None_eq surj_pair)
qed

lemma rsplit_once_Some: "rsplit_once c s = Some (a, b) \<longleftrightarrow> s = a @ c # b \<and> c \<notin> set b"
proof -
  have "rsplit_once c s = Some (a, b) \<longleftrightarrow> split_once c (rev s) = Some (rev b, rev a)"
    by (auto simp: rsplit_once_def)
  also have "\<dots> \<longleftrightarrow> rev s = rev b @ c # rev a \<and> c \<notin> set b" by (simp add: split_once_Some)
  also have "rev s = rev b @ c # rev a \<longleftrightarrow> s = a @ c # b"
    by (metis (no_types, opaque_lifting) append.assoc append_Cons append_Nil rev.simps(2) rev_append rev_rev_ident)
  finally show ?thesis .
qed

lemma rsplit_once_None: "rsplit_once c s = None \<longleftrightarrow> c \<notin> set s"
  by (simp add: rsplit_once_def split_once_None)

lemma position_Some: "position P xs = Some i \<longleftrightarrow> i < length xs \<and> P (xs ! i) \<and> (\<forall>j < i. \<not> P (xs ! j))"
  by (induction xs arbitrary: i) (auto simp: nth_Cons less_Suc_eq_0_disj split: nat.splits)

lemma position_None: "position P xs = None \<longleftrightarrow> (\<forall>x \<in> set xs. \<not> P x)"
  by (induction xs) auto

lemma find_map_Some:
  "find_map f xs = Some y \<longleftrightarrow> (\<exists>pre x post. xs = pre @ x # post \<and> f x = Some y \<and> (\<forall>z \<in> set pre. f z = None))"
proof (induction xs)
  case (Cons x xs)
  show ?case
  proof (cases "f x")
    case None
    then show ?thesis using Cons.IH
      by (auto simp: Cons_eq_append_conv) (metis append_Cons list.set_intros(1) option.distinct(1) set_ConsD)+
  next
    case (Some z)
    then show ?thesis by (auto simp: Cons_eq_append_conv) (metis empty_iff list.set(1))
  qed
qed simp

lemma find_map_None: "find_map f xs = None \<longleftrightarrow> (\<forall>x \<in> set xs. f x = None)"
  by (induction xs) (auto split: option.splits)

lemma char_digit_hex: "d < 16 \<Longrightarrow> char_digit 16 (hex_char d) = Some d"
  by (auto simp: char_digit_def hex_char_def Let_def)

lemma hex_char_ascii: "d < 16 \<Longrightarrow> (of_char (hex_char d) :: byte) < 0x80 \<and> hex_char d \<noteq> CHR ''+''"
  by (auto simp: hex_char_def intro!: of_char_less_ascii dest!: arg_cong [of _ _ "of_char :: char \<Rightarrow> nat"])

section \<open>Words in a line\<close>

text \<open>Words set apart by spaces, as the kernel pads its columns, and a line feed.\<close>

definition spaced :: "(nat \<times> string) list \<Rightarrow> string" where
  "spaced ws = concat (map (\<lambda>(k, w). replicate (Suc k) (CHR '' '') @ w) ws)"

lemma words_of_spaces:
  "words_of (map (\<lambda>b. [b]) (bytes_of_str (replicate k (CHR '' ''))) @ cs) [] = words_of cs []"
  by (induction k) (auto simp: is_ascii_ws_def bytes_of_str_def)

lemma words_of_spaced:
  "\<forall>(k, w) \<in> set ws. plain w \<Longrightarrow>
   words_of (map (\<lambda>b. [b]) (bytes_of_str (spaced ws @ rest))) w0 =
     (if ws = [] then words_of (map (\<lambda>b. [b]) (bytes_of_str rest)) w0
      else (if w0 = [] then [] else [w0]) @ map (bytes_of_str \<circ> snd) (butlast ws) @
        words_of (map (\<lambda>b. [b]) (bytes_of_str rest)) (bytes_of_str (snd (last ws))))"
proof (induction ws arbitrary: w0)
  case (Cons p ws)
  obtain k w where p: "p = (k, w)" by fastforce
  have w: "plain w" "bytes_of_str w \<noteq> []" using Cons.prems p by (auto simp: plain_def bytes_of_str_def)
  let ?b = "map (\<lambda>b. [b :: byte])"
  have sp: "is_ascii_ws (of_char (CHR '' ''))" by (simp add: is_ascii_ws_def)
  have split: "bytes_of_str (spaced (p # ws) @ rest) =
      of_char (CHR '' '') # bytes_of_str (replicate k (CHR '' '')) @ bytes_of_str w @ bytes_of_str (spaced ws @ rest)"
    by (simp add: p spaced_def)
  have "words_of (?b (bytes_of_str (spaced (p # ws) @ rest))) w0 =
      (if w0 = [] then [] else [w0]) @ words_of (?b (bytes_of_str (spaced ws @ rest))) (bytes_of_str w)"
    unfolding split list.map map_append words_of.simps
    using sp words_of_spaces [of k] words_of_word [of "bytes_of_str w" _ "[]"] plain_ascii [OF w(1)] by simp
  also have "words_of (?b (bytes_of_str (spaced ws @ rest))) (bytes_of_str w) =
     (if ws = [] then words_of (?b (bytes_of_str rest)) (bytes_of_str w)
      else [bytes_of_str w] @ map (bytes_of_str \<circ> snd) (butlast ws) @
        words_of (?b (bytes_of_str rest)) (bytes_of_str (snd (last ws))))"
    using Cons.IH [of "bytes_of_str w"] Cons.prems w(2) by simp
  finally show ?case using p by simp
qed (simp add: spaced_def)

lemma split_whitespace_spaced:
  assumes "\<forall>(k, w) \<in> set ws. plain w"
  shows "split_whitespace (spaced ws @ [CHR 0x0A]) = map snd ws"
proof -
  have "\<forall>b \<in> set (bytes_of_str (spaced ws @ [CHR 0x0A])). b < 0x80"
    using assms plain_ascii by (fastforce simp: spaced_def bytes_of_str_def)
  then have "utf8_chars (bytes_of_str (spaced ws @ [CHR 0x0A])) = map (\<lambda>b. [b]) (bytes_of_str (spaced ws @ [CHR 0x0A]))"
    by (rule utf8_chars_all_ascii)
  moreover have "bytes_of_str (snd (last ws)) \<noteq> []" if "ws \<noteq> []"
  proof -
    have "last ws \<in> set ws" using that by simp
    with assms have "plain (snd (last ws))" by (cases "last ws") auto
    then show ?thesis by (simp add: plain_def bytes_of_str_def)
  qed
  moreover have "is_ascii_ws (0x0A :: byte)" by (simp add: is_ascii_ws_def)
  moreover have "map snd ws = map snd (butlast ws) @ [snd (last ws)]" if "ws \<noteq> []"
    using append_butlast_last_id [OF that] by (metis list.simps(8,9) map_append)
  ultimately show ?thesis
    using words_of_spaced [OF assms, of "[CHR 0x0A]" "[]"]
    by (cases "ws = []") (simp_all add: split_whitespace_def spaced_def comp_def)
qed

section \<open>Lines, rows and trimming\<close>

lemma split_on_concat: "split_on c (a @ c # b) = split_on c a @ split_on c b"
proof (induction a)
  case (Cons x a)
  obtain p ps where "split_on c a = p # ps" using split_on_nonempty by (metis list.exhaust)
  with Cons.IH show ?case by (auto simp: Let_def)
qed simp

lemma last_split_on_line: "last (split_on c (a @ [c])) = []"
  by (simp add: split_on_concat [of c a "[]"])

lemma lines_of_append: "lines_of ((a @ [CHR 0x0A]) @ b) = lines_of (a @ [CHR 0x0A]) @ lines_of b"
proof -
  let ?n = "CHR 0x0A"
  have "split_on ?n ((a @ [?n]) @ b) = split_on ?n a @ split_on ?n b" by (simp add: split_on_concat)
  moreover have "split_on ?n (a @ [?n]) = split_on ?n a @ [[]]" by (simp add: split_on_concat [of ?n a "[]"])
  moreover have "split_on ?n b \<noteq> []" by simp
  ultimately show ?thesis by (simp add: lines_of_def Let_def butlast_append)
qed

lemma lines_of_line: "CHR 0x0A \<notin> set l \<Longrightarrow> lines_of (l @ [CHR 0x0A]) = [strip_cr l]"
proof -
  let ?n = "CHR 0x0A"
  assume "?n \<notin> set l"
  then have "split_on ?n l = [l]" by (induction l) auto
  then show ?thesis by (simp add: lines_of_def split_on_concat [of ?n l "[]"])
qed

lemma rsplit_once_str_parts: "rsplit_once_str p s = Some (a, b) \<Longrightarrow> s = a @ p @ b"
  by (auto simp: rsplit_once_str_def rev_swap dest!: split_once_str_parts)

lemma strip_prefix_append [simp]: "strip_prefix (p @ s) p = Some s"
  by (simp add: strip_prefix_def starts_with_def)

text \<open>A report: rows, each ended by a line feed.\<close>

definition rows :: "string list \<Rightarrow> string" where
  "rows ls = concat (map (\<lambda>l. l @ [CHR 0x0A]) ls)"

definition row_ok :: "string \<Rightarrow> bool" where
  "row_ok l \<longleftrightarrow> CHR 0x0A \<notin> set l \<and> strip_cr l = l"

lemma lines_of_rows: "\<forall>l \<in> set ls. row_ok l \<Longrightarrow> lines_of (rows ls) = ls"
proof (induction ls)
  case Nil
  show ?case by (simp add: rows_def lines_of_def)
next
  case (Cons l ls)
  then have "lines_of ((l @ [CHR 0x0A]) @ rows ls) = [l] @ ls"
    by (simp add: lines_of_append lines_of_line row_ok_def del: append_assoc)
  then show ?case by (simp add: rows_def)
qed

lemma find_map_filter_append:
  "List.map_filter f (xs @ y # ys) = List.map_filter f xs @ (case f y of None \<Rightarrow> [] | Some z \<Rightarrow> [z]) @ List.map_filter f ys"
  by (simp add: List.map_filter_def split: option.splits)

lemma find_drop_middle: "(\<forall>z \<in> set zs. \<not> P z) \<Longrightarrow> find P (xs @ zs @ ys) = find P (xs @ ys)"
proof -
  have "(\<forall>z \<in> set zs. \<not> P z) \<Longrightarrow> find P (zs @ ys) = find P ys" by (induction zs) auto
  moreover assume "\<forall>z \<in> set zs. \<not> P z"
  ultimately show ?thesis by (induction xs) auto
qed

lemma find_extra:
  assumes "\<And>z. f y = Some z \<Longrightarrow> \<not> P z"
  shows "find P (List.map_filter f (xs @ y # ys)) = find P (List.map_filter f (xs @ ys))"
  unfolding find_map_filter_append
  using find_drop_middle [of "case f y of None \<Rightarrow> [] | Some z \<Rightarrow> [z]" P "List.map_filter f xs" "List.map_filter f ys"] assms
  by (auto simp: List.map_filter_def split: option.splits)

lemma parse_i64_nat_str: "n < 2 ^ 63 \<Longrightarrow> parse_i64 (nat_str n) = Some (int n)"
proof -
  assume "n < 2 ^ 63"
  obtain c cs where o: "nat_str n = c # cs" using nat_str_nonempty by (meson list.exhaust)
  then have "c \<noteq> CHR ''-''" using nat_str_digits [of c n] by auto
  with parse_nat_nat_str [OF \<open>n < 2 ^ 63\<close>] o show ?thesis by (simp add: parse_i64_def)
qed

lemma trim_start_ascii:
  "(of_char c :: nat) < 128 \<Longrightarrow> trim_start (c # cs) = (if is_ascii_ws (of_char c) then trim_start cs else c # cs)"
proof -
  assume "(of_char c :: nat) < 128"
  then have "utf8_chars (bytes_of_str (c # cs)) = [of_char c] # utf8_chars (bytes_of_str cs)"
    by (simp add: utf8_chars_ascii of_char_less_ascii)
  moreover have "str_of_bytes (of_char c # bytes_of_str cs) = c # cs" using str_of_bytes_of_str [of "c # cs"] by simp
  ultimately show ?thesis by (simp add: trim_start_def del: str_of_bytes_simps)
qed

lemma trim_space: "plain w \<Longrightarrow> trim (CHR '' '' # w) = w"
proof -
  assume "plain w"
  have "utf8_chars (bytes_of_str (CHR '' '' # w)) = [32] # utf8_chars (bytes_of_str w)" by (simp add: utf8_chars_ascii)
  then have "trim (CHR '' '' # w) = trim w" by (simp add: trim_def is_ascii_ws_def)
  with trim_plain [OF \<open>plain w\<close>] show ?thesis by simp
qed

end
