(* ===== verification/Producer.thy ===== *)
theory Producer
  imports Telemetry Rust_Parse
begin

text \<open>
  The command lines of the four producers (\<open>bms-monitoring\<close>, \<open>inverter-monitoring\<close>,
  \<open>system-metrics\<close>, \<open>detected-devices\<close>).  Their \<open>parse_args\<close> is one loop over the arguments whose
  \<open>match\<close> is a table: a switch changes the options, a flag takes the next argument as its value and
  sets an option or refuses it.  Here are the loop, the readers of values they share
  (\<open>--resource-attr\<close>, durations in seconds, whole numbers), what \<open>main\<close> exits with, how a oneshot
  producer delivers its batch, and the locale \<open>option_table\<close>: what every entry of a table keeps, the
  options of an accepted command line have.
\<close>

section \<open>Reading values\<close>

datatype 'e arg_error =
    MissingValue string
  | UnknownArg string
  | NotKeyValue string
  | NotNumber string string
  | NotPositive string string
  | BadSpec 'e
  | Panicked string string

definition resource_attr :: "string \<Rightarrow> ('e arg_error, string \<times> attr_value) result" where
  "resource_attr raw =
     res_bind (ok_or (NotKeyValue raw) (split_once (CHR ''='') raw)) (\<lambda>(key, val). Inr (key, VStr val))"

text \<open>
  \<open>Duration::from_secs_f64\<close> in nanoseconds: rounded to nearest, ties to even; it panics for a
  negative number and for \<open>2 ^ 64\<close> seconds and more.
\<close>

definition duration_from_secs_f64 :: "f64 \<Rightarrow> nat option" where
  "duration_from_secs_f64 x =
     (if x < 0 \<or> 2 ^ 64 \<le> x then None else Some (nat (round_even (x * 10 ^ 9))))"

definition seconds :: "string \<Rightarrow> string \<Rightarrow> ('e arg_error, nat) result" where
  "seconds raw name =
     (case parse_f64 raw of
        None \<Rightarrow> Inl (NotNumber name raw)
      | Some (Finite x) \<Rightarrow>
          if x > 0 then ok_or (Panicked name raw) (duration_from_secs_f64 x) else Inl (NotPositive name raw)
      | Some _ \<Rightarrow> Inl (NotPositive name raw))"

definition whole_number :: "string \<Rightarrow> string \<Rightarrow> ('e arg_error, nat) result" where
  "whole_number raw name = ok_or (NotNumber name raw) (parse_u64 raw)"

definition whole_positive :: "string \<Rightarrow> string \<Rightarrow> ('e arg_error, nat) result" where
  "whole_positive raw name =
     res_bind (whole_number raw name) (\<lambda>n. if n = 0 then Inl (NotPositive name raw) else Inr n)"

section \<open>The argument loop\<close>

type_synonym 'o switches = "(string \<times> ('o \<Rightarrow> 'o)) list"
type_synonym ('e, 'o) flags = "(string \<times> (string \<Rightarrow> 'o \<Rightarrow> ('e arg_error, 'o) result)) list"

text \<open>\<open>Inr None\<close> is the early return for \<open>--help\<close>.\<close>

fun scan_args :: "'o switches \<Rightarrow> ('e, 'o) flags \<Rightarrow> string list \<Rightarrow> 'o \<Rightarrow> ('e arg_error, 'o option) result" where
  "scan_args sw fl [] opts = Inr (Some opts)"
| "scan_args sw fl (arg # args) opts =
     (if arg = ''--help'' \<or> arg = ''-h'' then Inr None
      else case map_of sw arg of
        Some f \<Rightarrow> scan_args sw fl args (f opts)
      | None \<Rightarrow>
          (case map_of fl arg of
             Some set_value \<Rightarrow>
               (case args of
                  [] \<Rightarrow> Inl (MissingValue arg)
                | v # rest \<Rightarrow> res_bind (set_value v opts) (scan_args sw fl rest))
           | None \<Rightarrow> Inl (UnknownArg arg)))"

datatype exit_code = Success | Failure | UsageError | Panic

text \<open>What \<open>main\<close> exits with: a panic ends the process with its own code.\<close>

definition exit_of :: "('o \<Rightarrow> bool) \<Rightarrow> ('e arg_error, 'o option) result \<Rightarrow> exit_code" where
  "exit_of run_ok parsed =
     (case parsed of
        Inr None \<Rightarrow> Success
      | Inr (Some opts) \<Rightarrow> if run_ok opts then Success else Failure
      | Inl (Panicked _ _) \<Rightarrow> Panic
      | Inl _ \<Rightarrow> UsageError)"

section \<open>Delivering one batch\<close>

datatype run_error =
    BeforeEpoch
  | PostError post_error
  | BadAnswer nat nat string
  | UndecodableAnswer
  | SomeRejected int nat string

datatype run_report =
    PrintedBatch "(string \<times> attr_value) list" "log_record list"
  | Reported nat string

text \<open>The end of \<open>run\<close> of \<open>system-metrics\<close> and of \<open>detected-devices\<close>, which are the same.\<close>

definition deliver ::
  "collector \<Rightarrow> string \<Rightarrow> bool \<Rightarrow> string \<Rightarrow> nat \<Rightarrow> (string \<times> attr_value) list \<Rightarrow> log_record list
   \<Rightarrow> (run_error, run_report) result" where
  "deliver col scope dry_run socket time_unix_nano resource_attributes records =
     (if dry_run then Inr (PrintedBatch resource_attributes records)
      else
        let payload = col_encode col (build_request scope resource_attributes records (of_nat time_unix_nano))
        in res_bind (map_err PostError (post (col_receiver col) INGEST_PATH PROTOBUF payload)) (\<lambda>response.
           if rsp_status response \<noteq> 200
           then Inl (BadAnswer (rsp_status response) (length records) (trim (from_utf8_lossy (rsp_body response))))
           else res_bind (ok_or UndecodableAnswer (decode_rejections (col_decode col) (rsp_body response))) (\<lambda>rejections.
             if rej_count rejections > 0
             then Inl (SomeRejected (rej_count rejections) (length records) (rej_message rejections))
             else Inr (Reported (length records) socket))))"

text \<open>A batch arrived: the receiver answered 200 with a body that decodes and rejects nothing.\<close>

definition arrived :: "collector \<Rightarrow> string \<Rightarrow> nat \<Rightarrow> (string \<times> attr_value) list \<Rightarrow> log_record list \<Rightarrow> bool" where
  "arrived col scope t resource_attributes records \<longleftrightarrow>
     (\<exists>rsp rej. post (col_receiver col) INGEST_PATH PROTOBUF
          (col_encode col (build_request scope resource_attributes records (of_nat t))) = Inr rsp \<and>
        rsp_status rsp = 200 \<and> decode_rejections (col_decode col) (rsp_body rsp) = Some rej \<and> rej_count rej \<le> 0)"

lemma deliver_ok:
  "(\<exists>rep. deliver col scope dry socket t ra rs = Inr rep) \<longleftrightarrow> dry \<or> arrived col scope t ra rs"
  by (auto simp: deliver_def arrived_def Let_def result_simps not_less)

definition succeeds :: "('e, 'a) result \<Rightarrow> bool" where
  "succeeds r \<longleftrightarrow> (case r of Inr _ \<Rightarrow> True | Inl _ \<Rightarrow> False)"

lemma succeeds_iff: "succeeds r \<longleftrightarrow> (\<exists>x. r = Inr x)"
  by (auto simp: succeeds_def split: sum.split)

lemma succeeds_deliver:
  "succeeds (res_bind (ok_or BeforeEpoch clock) (\<lambda>t. deliver col scope dry socket t ra rs)) \<longleftrightarrow>
     (\<exists>t. clock = Some t \<and> (dry \<or> arrived col scope t ra rs))"
  by (cases clock) (auto simp: succeeds_iff deliver_ok)

lemma exit_of_Success:
  "exit_of run_ok parsed = Success \<longleftrightarrow> parsed = Inr None \<or> (\<exists>opts. parsed = Inr (Some opts) \<and> run_ok opts)"
  by (auto simp: exit_of_def split: sum.splits option.splits arg_error.splits)

section \<open>Tables of options\<close>

text \<open>Three ways an entry uses its value.\<close>

definition set_text :: "(string \<Rightarrow> 'o \<Rightarrow> 'o) \<Rightarrow> string \<Rightarrow> 'o \<Rightarrow> ('e arg_error, 'o) result" where
  "set_text upd v opts = Inr (upd v opts)"

definition set_read :: "(string \<Rightarrow> ('e arg_error, 'a) result) \<Rightarrow> ('a \<Rightarrow> 'o \<Rightarrow> 'o) \<Rightarrow> string \<Rightarrow> 'o \<Rightarrow> ('e arg_error, 'o) result" where
  "set_read reader upd v opts = res_bind (reader v) (\<lambda>x. Inr (upd x opts))"

text \<open>What an entry keeps of the options when it accepts its value.\<close>

definition keeps :: "('o \<Rightarrow> bool) \<Rightarrow> (string \<Rightarrow> 'o \<Rightarrow> ('e arg_error, 'o) result) \<Rightarrow> bool" where
  "keeps valid g \<longleftrightarrow> (\<forall>v opts opts'. valid opts \<longrightarrow> g v opts = Inr opts' \<longrightarrow> valid opts')"

lemma keeps_set_text [simp]: "keeps valid (set_text upd) \<longleftrightarrow> (\<forall>v opts. valid opts \<longrightarrow> valid (upd v opts))"
  by (simp add: keeps_def set_text_def)

lemma keeps_set_read [simp]:
  "keeps valid (set_read reader upd) \<longleftrightarrow> (\<forall>v x opts. reader v = Inr x \<longrightarrow> valid opts \<longrightarrow> valid (upd x opts))"
  by (auto simp: keeps_def set_read_def result_simps)

locale option_table =
  fixes switches :: "'o switches" and flags :: "('e, 'o) flags" and valid :: "'o \<Rightarrow> bool"
  assumes switches_keep: "\<forall>(k, f) \<in> set switches. \<forall>opts. valid opts \<longrightarrow> valid (f opts)"
    and flags_keep: "\<forall>(k, g) \<in> set flags. keeps valid g"
begin

lemma switch_keeps: "map_of switches k = Some f \<Longrightarrow> valid opts \<Longrightarrow> valid (f opts)"
  using switches_keep by (fastforce dest: map_of_SomeD)

lemma flag_keeps: "map_of flags k = Some g \<Longrightarrow> valid opts \<Longrightarrow> g v opts = Inr opts' \<Longrightarrow> valid opts'"
  using flags_keep by (fastforce dest: map_of_SomeD simp: keeps_def)

lemma accepted_options:
  "scan_args switches flags args opts = Inr (Some opts') \<Longrightarrow> valid opts \<Longrightarrow> valid opts'"
proof (induction "length args" arbitrary: args opts rule: less_induct)
  case less
  show ?case
  proof (cases args)
    case Nil
    with less.prems show ?thesis by simp
  next
    case (Cons arg rest)
    show ?thesis
    proof (cases "map_of switches arg")
      case (Some f)
      with less.prems Cons have "scan_args switches flags rest (f opts) = Inr (Some opts')" by (simp split: if_splits)
      moreover have "valid (f opts)" using Some less.prems(2) by (rule switch_keeps)
      ultimately show ?thesis using less.hyps [of rest "f opts"] Cons by simp
    next
      case None
      with less.prems Cons obtain g v rest' o' where
        g: "map_of flags arg = Some g" "rest = v # rest'" "g v opts = Inr o'" "scan_args switches flags rest' o' = Inr (Some opts')"
        by (auto split: if_splits option.splits list.splits simp: result_simps)
      then have "valid o'" using less.prems(2) by (blast intro: flag_keeps)
      with g Cons show ?thesis using less.hyps [of rest' o'] by simp
    qed
  qed
qed

end

section \<open>Facts\<close>

lemma round_even_nonneg: "0 \<le> q \<Longrightarrow> 0 \<le> round_even q"
  unfolding round_even_def Let_def by (auto simp: add_nonneg_nonneg)

lemma parse_u64_bound: "parse_u64 raw = Some n \<Longrightarrow> n < 2 ^ 64"
  by (auto simp: parse_u64_def parse_nat_def split: if_splits option.splits list.splits)

lemma whole_positive_bound: "whole_positive raw name = Inr n \<Longrightarrow> 0 < n \<and> n < 2 ^ 64"
  using parse_u64_bound by (auto simp: whole_positive_def whole_number_def result_simps split: if_splits)

section \<open>Properties\<close>

text \<open>
  C38. What a duration on the command line does: it is accepted exactly when it reads as a
  finite number \<open>x\<close> with \<open>0 < x < 2 ^ 64\<close>, the duration is then
  within half a nanosecond of \<open>x\<close> seconds (so the smallest positive numbers become
  a zero duration), and a finite number from \<open>2 ^ 64\<close> on passes the check and
  panics instead of being refused.
\<close>

theorem seconds_outcomes:
  "(seconds raw name = Inr d \<longrightarrow>
      (\<exists>x. parse_f64 raw = Some (Finite x) \<and> 0 < x \<and> x < 2 ^ 64 \<and> \<bar>of_nat d - x * 10 ^ 9\<bar> \<le> 1 / 2)) \<and>
   ((\<exists>d. seconds raw name = Inr d) \<longleftrightarrow> (\<exists>x. parse_f64 raw = Some (Finite x) \<and> 0 < x \<and> x < 2 ^ 64)) \<and>
   (seconds raw name = Inl (Panicked name raw) \<longleftrightarrow> (\<exists>x. parse_f64 raw = Some (Finite x) \<and> 2 ^ 64 \<le> x))"
proof -
  have pos: "0 < x" if "(2::rat) ^ 64 \<le> x" for x
    using that by (rule less_le_trans [rotated]) simp
  have near: "\<bar>of_nat (nat (round_even (x * 10 ^ 9))) - x * 10 ^ 9\<bar> \<le> 1 / 2" if "0 < x" for x :: rat
    using round_even_error [of "x * 10 ^ 9"] round_even_nonneg [of "x * 10 ^ 9"] that by (simp add: of_nat_nat)
  show ?thesis
  proof (cases "parse_f64 raw")
    case None
    then show ?thesis by (simp add: seconds_def)
  next
    case (Some v)
    show ?thesis
    proof (cases v)
      case (Finite x)
      with Some near [of x] pos [of x] show ?thesis
        by (auto simp: seconds_def duration_from_secs_f64_def not_le)
    qed (simp_all add: Some seconds_def)
  qed
qed

lemma parse_f64_1e20: "\<exists>x. parse_f64 ''1e20'' = Some (Finite x) \<and> 2 ^ 64 \<le> x"
proof -
  let ?q = "10 powi 20 :: rat"
  have n: "parse_number ''1e20'' = Some ?q"
    by (simp add: parse_number_def parse_exponent_def is_digit_def digit_val_def)
  have "(1 / 2 :: rat) ^ 1022 \<le> 1" by (rule power_le_one) simp_all
  then have "2 powi (- 1022) \<le> \<bar>?q\<bar>" by (simp add: power_int_def)
  then have "\<bar>f64_round ?q - ?q\<bar> \<le> \<bar>?q\<bar> / 2 ^ 53" by (intro f64_round_error) simp
  moreover have "?q = 10 ^ 20" by (simp add: power_int_def)
  ultimately have "\<bar>f64_round ?q - 10 ^ 20\<bar> \<le> 10 ^ 20 / 2 ^ 53" by simp
  moreover have "2 ^ 64 \<le> r \<and> r < 2 ^ 70" if "\<bar>r - 10 ^ 20\<bar> \<le> 10 ^ 20 / 2 ^ 53" for r :: rat
    using that by (auto simp: abs_if split: if_splits)
  ultimately have b: "2 ^ 64 \<le> f64_round ?q" "f64_round ?q < 2 ^ 70" by blast+
  have "(2::rat) ^ 70 \<le> 2 ^ 1024" by (rule power_increasing) simp_all
  with b have "f64_of_rat ?q = Finite (f64_round ?q)" by (simp add: f64_of_rat_def Let_def)
  with n b show ?thesis by (simp add: parse_f64_def)
qed

theorem seconds_outcomes_witness:
  "seconds ''1e20'' ''--interval-seconds'' = (Inl (Panicked ''--interval-seconds'' ''1e20'') :: (unit arg_error, nat) result)"
  using seconds_outcomes [of "''1e20''" "''--interval-seconds''"] parse_f64_1e20 by blast

end
