(* ===== verification/Inv_State.thy ===== *)
theory Inv_State
  imports Inv_Main Producer
begin

text \<open>
  The one file \<open>inverter-monitoring\<close> keeps between runs (\<open>read_remembered\<close> and \<open>write_remembered\<close> of
  \<open>main.rs\<close>): the path of the adapter the inverter was last found behind.  A sweep of \<open>Inv_Main\<close>
  carries what was read from it as \<open>isw_remembered\<close>.
\<close>

type_synonym file_bytes = "string \<Rightarrow> byte list option"

definition REMEMBERED_FILE :: string where
  "REMEMBERED_FILE = ''last-device''"

definition remembered_path :: "string \<Rightarrow> string" where
  "remembered_path state_dir = path_join state_dir REMEMBERED_FILE"

definition read_remembered :: "file_bytes \<Rightarrow> string \<Rightarrow> string option" where
  "read_remembered files state_dir =
     (case Option.bind (files (remembered_path state_dir)) from_utf8 of
        None \<Rightarrow> None
      | Some text \<Rightarrow> let t = trim text in if t \<noteq> [] then Some t else None)"

text \<open>\<open>std::fs::write\<close> may fail before it opens the file, or after it has truncated it and written a part.\<close>

datatype write_outcome = Written | NotOpened | WrittenPartly nat

definition write_remembered :: "write_outcome \<Rightarrow> file_bytes \<Rightarrow> string \<Rightarrow> string \<Rightarrow> file_bytes" where
  "write_remembered outcome files state_dir device =
     (let content = bytes_of_str (device @ newline); path = remembered_path state_dir
      in case outcome of
           Written \<Rightarrow> files(path \<mapsto> content)
         | NotOpened \<Rightarrow> files
         | WrittenPartly n \<Rightarrow> files(path \<mapsto> take n content))"

lemma read_after_write:
  "plain device \<Longrightarrow> read_remembered (write_remembered Written files state_dir device) state_dir = Some device"
proof -
  assume d: "plain device"
  then have "visible device" "device \<noteq> []" by (auto simp: plain_def visible_def)
  then show ?thesis
    using from_utf8_line [of device] trim_newline [of device]
    by (simp add: read_remembered_def write_remembered_def Let_def del: bytes_of_str_simps)
qed

lemma read_remembered_trimmed: "read_remembered files state_dir = Some d \<Longrightarrow> d \<noteq> []"
  by (auto simp: read_remembered_def Let_def split: option.splits if_splits)

text \<open>
  The adapter an inverter was found behind is the first one probed at the next start: its name
  is read back from the file as it was written, and it comes first among the candidates when it
  is still there. Whatever became of the write, every candidate is still probed: losing the
  hint costs order and nothing else.
\<close>

theorem remembered_adapter_is_probed_first:
  assumes "plain (ca_path_id c)" "c \<in> set candidates" "length candidates < 2 ^ 64 - 1"
  shows "ca_path_id (hd (inv_order candidates
      (read_remembered (write_remembered Written files state_dir (ca_path_id c)) state_dir) seed)) = ca_path_id c \<and>
    (\<forall>outcome device. mset (inv_order candidates
      (read_remembered (write_remembered outcome files state_dir device) state_dir) seed) = mset candidates)"
  using inv_order_remembered_first [OF assms(3)] read_after_write [OF assms(1)] assms(2) by auto

theorem remembered_adapter_is_probed_first_witness:
  "let cs = [\<lparr>ca_tty = ''/dev/ttyUSB0'', ca_path_id = ''p0'', ca_by_id = None\<rparr>,
             \<lparr>ca_tty = ''/dev/ttyUSB1'', ca_path_id = ''p1'', ca_by_id = None\<rparr>]
   in ca_path_id (hd (inv_order cs (read_remembered (write_remembered Written (\<lambda>_. None) ''/s'' ''p1'') ''/s'') 7)) = ''p1''"
proof -
  let ?c = "\<lparr>ca_tty = ''/dev/ttyUSB1'', ca_path_id = ''p1'', ca_by_id = None\<rparr>"
  let ?cs = "[\<lparr>ca_tty = ''/dev/ttyUSB0'', ca_path_id = ''p0'', ca_by_id = None\<rparr>, ?c]"
  have "plain (ca_path_id ?c)" by (simp add: plain_def)
  then show ?thesis
    using remembered_adapter_is_probed_first [of ?c ?cs "\<lambda>_. None" "''/s''" 7] by simp
qed

end
