(* ===== verification/Serial_Open.thy ===== *)
theory Serial_Open
  imports Prelude
begin

text \<open>
  \<open>SerialPort::open\<close> of \<open>packages/bms-monitoring/src/port.rs\<close>; that of \<open>inverter-monitoring\<close> is the same
  code with another rate.  Both producers probe the same adapters and start at the same time, so
  the order of the system calls is what keeps them apart.  The code is a function from the call
  that was made and its answer to the next call or the value returned; the kernel is a relation on
  the state of one tty; and any number of processes run against it, interleaved call by call.
\<close>

section \<open>Line settings\<close>

text \<open>The bits that the code names, and any other bit by its number. \<open>CSIZE\<close> has two bits, and both set are \<open>CS8\<close>.\<close>

datatype control_bit = CsizeLow | CsizeHigh | PARENB | CSTOPB | CRTSCTS | CLOCAL | CREAD | OtherControl nat

datatype input_bit = IXON | IXOFF | IXANY | OtherInput nat

record termios =
  control_modes :: "control_bit set"
  input_modes :: "input_bit set"
  output_modes :: "nat set"
  local_modes :: "nat set"
  speed :: nat
  vmin :: byte
  vtime :: byte

definition CSIZE :: "control_bit set" where
  "CSIZE = {CsizeLow, CsizeHigh}"

definition CS8 :: "control_bit set" where
  "CS8 = {CsizeLow, CsizeHigh}"

text \<open>\<open>make_raw\<close> and \<open>set_speed\<close> belong to the library and are arguments.\<close>

record termios_lib =
  make_raw :: "termios \<Rightarrow> termios"
  set_speed :: "nat \<Rightarrow> termios \<Rightarrow> (nat, termios) result"

definition eight_n_one :: "termios \<Rightarrow> termios" where
  "eight_n_one t =
     t\<lparr>control_modes := ((((control_modes t - CSIZE) \<union> CS8) - {PARENB} - {CSTOPB}) - {CRTSCTS}) \<union> {CLOCAL, CREAD},
       input_modes := input_modes t - {IXON, IXOFF, IXANY},
       output_modes := {},
       local_modes := {},
       vmin := 0,
       vtime := 1\<rparr>"

definition configure :: "termios_lib \<Rightarrow> nat \<Rightarrow> termios \<Rightarrow> (nat, termios) result" where
  "configure lib baud t = res_bind (set_speed lib baud (make_raw lib t)) (\<lambda>t'. Inr (eight_n_one t'))"

section \<open>The code\<close>

datatype sys_call = OpenTty | FlockNonblocking | Tiocexcl | Tcgetattr | Tcsetattr termios | FcntlSetfl

datatype answer = Done | Settings termios | Errno nat

datatype open_result = PortOpen | PortBusy | OpenError nat

datatype open_state = Calling sys_call | Returned open_result

definition EBUSY :: nat where
  "EBUSY = 16"

definition EWOULDBLOCK :: nat where
  "EWOULDBLOCK = 11"

text \<open>\<open>Ok(false)\<close> is somebody else's lock.\<close>

definition try_lock_exclusive :: "answer \<Rightarrow> (nat, bool) result" where
  "try_lock_exclusive a =
     (case a of
        Errno e \<Rightarrow> if e = EWOULDBLOCK then Inr False else Inl e
      | _ \<Rightarrow> Inr True)"

fun open_next :: "termios_lib \<Rightarrow> nat \<Rightarrow> sys_call \<Rightarrow> answer \<Rightarrow> open_state" where
  "open_next lib baud OpenTty (Errno e) = Returned (if e = EBUSY then PortBusy else OpenError e)"
| "open_next lib baud OpenTty _ = Calling FlockNonblocking"
| "open_next lib baud FlockNonblocking a =
     (case try_lock_exclusive a of
        Inl e \<Rightarrow> Returned (OpenError e)
      | Inr False \<Rightarrow> Returned PortBusy
      | Inr True \<Rightarrow> Calling Tiocexcl)"
| "open_next lib baud Tiocexcl (Errno e) = Returned (OpenError e)"
| "open_next lib baud Tiocexcl _ = Calling Tcgetattr"
| "open_next lib baud Tcgetattr (Settings t) =
     (case configure lib baud t of
        Inl e \<Rightarrow> Returned (OpenError e)
      | Inr t' \<Rightarrow> Calling (Tcsetattr t'))"
| "open_next lib baud Tcgetattr (Errno e) = Returned (OpenError e)"
| "open_next lib baud Tcgetattr Done = Returned (OpenError 0)"
| "open_next lib baud (Tcsetattr t) (Errno e) = Returned (OpenError e)"
| "open_next lib baud (Tcsetattr t) _ = Calling FcntlSetfl"
| "open_next lib baud FcntlSetfl (Errno e) = Returned (OpenError e)"
| "open_next lib baud FcntlSetfl _ = Returned PortOpen"

section \<open>The kernel\<close>

text \<open>
  Who has the tty open, who holds the advisory lock, whether \<open>TIOCEXCL\<close> is set, and the settings.  A
  call may always fail and then changes nothing; the lock goes with the descriptor, the exclusive
  mode with the last one.  The processes have no capability that would bypass it.
\<close>

record tty =
  ty_open :: "nat set"
  ty_lock :: "nat option"
  ty_exclusive :: bool
  ty_settings :: termios

definition close_tty :: "nat \<Rightarrow> tty \<Rightarrow> tty" where
  "close_tty p t =
     t\<lparr>ty_open := ty_open t - {p},
       ty_lock := (if ty_lock t = Some p then None else ty_lock t),
       ty_exclusive := (ty_exclusive t \<and> ty_open t - {p} \<noteq> {})\<rparr>"

inductive kernel :: "nat \<Rightarrow> sys_call \<Rightarrow> tty \<Rightarrow> answer \<Rightarrow> tty \<Rightarrow> bool" where
  fails: "e \<noteq> EWOULDBLOCK \<Longrightarrow> kernel p c t (Errno e) t"
| opens: "\<not> ty_exclusive t \<Longrightarrow> kernel p OpenTty t Done (t\<lparr>ty_open := insert p (ty_open t)\<rparr>)"
| locks: "ty_lock t = None \<Longrightarrow> kernel p FlockNonblocking t Done (t\<lparr>ty_lock := Some p\<rparr>)"
| lock_held: "ty_lock t = Some q \<Longrightarrow> q \<noteq> p \<Longrightarrow> kernel p FlockNonblocking t (Errno EWOULDBLOCK) t"
| excludes: "kernel p Tiocexcl t Done (t\<lparr>ty_exclusive := True\<rparr>)"
| gets: "kernel p Tcgetattr t (Settings (ty_settings t)) t"
| sets: "kernel p (Tcsetattr u) t Done (t\<lparr>ty_settings := u\<rparr>)"
| unblocks: "kernel p FcntlSetfl t Done t"

section \<open>Processes against one tty\<close>

text \<open>Each process has its own rate. A process that returned without the port, or drops it, may come back.\<close>

record race =
  rc_tty :: tty
  rc_at :: "nat \<Rightarrow> open_state"

definition without_port :: "open_state \<Rightarrow> bool" where
  "without_port st = (case st of Returned PortOpen \<Rightarrow> False | Returned _ \<Rightarrow> True | Calling _ \<Rightarrow> False)"

inductive race_step :: "termios_lib \<Rightarrow> (nat \<Rightarrow> nat) \<Rightarrow> race \<Rightarrow> race \<Rightarrow> bool" for lib baud where
  calls: "rc_at s p = Calling c \<Longrightarrow> kernel p c (rc_tty s) a t \<Longrightarrow> st = open_next lib (baud p) c a \<Longrightarrow>
    race_step lib baud s
      (s\<lparr>rc_tty := (if without_port st then close_tty p t else t), rc_at := (rc_at s)(p := st)\<rparr>)"
| retries: "without_port (rc_at s p) \<Longrightarrow> race_step lib baud s (s\<lparr>rc_at := (rc_at s)(p := Calling OpenTty)\<rparr>)"
| drops: "rc_at s p = Returned PortOpen \<Longrightarrow>
    race_step lib baud s (s\<lparr>rc_tty := close_tty p (rc_tty s), rc_at := (rc_at s)(p := Calling OpenTty)\<rparr>)"

definition untouched :: "termios \<Rightarrow> race" where
  "untouched t = \<lparr>rc_tty = \<lparr>ty_open = {}, ty_lock = None, ty_exclusive = False, ty_settings = t\<rparr>, rc_at = (\<lambda>_. Calling OpenTty)\<rparr>"

section \<open>At most one has the port\<close>

text \<open>The states in which a process has taken the lock and not given it back, and those after its settings.\<close>

fun past_lock :: "open_state \<Rightarrow> bool" where
  "past_lock (Calling OpenTty) = False"
| "past_lock (Calling FlockNonblocking) = False"
| "past_lock (Calling _) = True"
| "past_lock (Returned r) = (r = PortOpen)"

definition past_settings :: "open_state \<Rightarrow> bool" where
  "past_settings st \<longleftrightarrow> st = Calling FcntlSetfl \<or> st = Returned PortOpen"

text \<open>What the comment of \<open>open\<close> promises: the rate, 8N1, no flow control, nothing cooked, reads that return.\<close>

definition raw_line :: "termios \<Rightarrow> bool" where
  "raw_line t \<longleftrightarrow>
     CS8 \<subseteq> control_modes t \<and> PARENB \<notin> control_modes t \<and> CSTOPB \<notin> control_modes t \<and> CRTSCTS \<notin> control_modes t \<and>
     CLOCAL \<in> control_modes t \<and> CREAD \<in> control_modes t \<and>
     IXON \<notin> input_modes t \<and> IXOFF \<notin> input_modes t \<and> IXANY \<notin> input_modes t \<and>
     output_modes t = {} \<and> local_modes t = {} \<and> vmin t = 0 \<and> vtime t = 1"

definition race_inv :: "termios_lib \<Rightarrow> (nat \<Rightarrow> nat) \<Rightarrow> race \<Rightarrow> bool" where
  "race_inv lib baud s \<longleftrightarrow>
     (\<forall>p. past_lock (rc_at s p) \<longleftrightarrow> ty_lock (rc_tty s) = Some p) \<and>
     (\<forall>p u. rc_at s p = Calling (Tcsetattr u) \<longrightarrow> (\<exists>t. configure lib (baud p) t = Inr u)) \<and>
     (\<forall>p. past_settings (rc_at s p) \<longrightarrow> (\<exists>t. configure lib (baud p) t = Inr (ty_settings (rc_tty s))))"

lemma configure_raw: "configure lib b t = Inr u \<Longrightarrow> raw_line u"
  by (auto simp: configure_def result_simps eight_n_one_def raw_line_def CS8_def)

lemma open_next_error: "without_port (open_next lib b c (Errno e))"
  by (cases c) (auto simp: without_port_def try_lock_exclusive_def)

lemma without_port_inactive:
  "without_port st \<Longrightarrow> \<not> past_lock st \<and> \<not> past_settings st \<and> st \<noteq> Calling c"
  by (cases st) (auto simp: without_port_def past_settings_def split: open_result.splits)

lemma past_settings_past_lock: "past_settings st \<Longrightarrow> past_lock st"
  by (auto simp: past_settings_def)

lemma leave_inv:
  assumes "race_inv lib baud s" "without_port st \<or> st = Calling OpenTty"
  shows "race_inv lib baud (s\<lparr>rc_tty := close_tty p (rc_tty s), rc_at := (rc_at s)(p := st)\<rparr>)"
proof -
  have "\<not> past_lock st \<and> \<not> past_settings st \<and> st \<noteq> Calling (Tcsetattr u)" for u
    using assms(2) without_port_inactive [of st] by (auto simp: past_settings_def)
  with assms(1) show ?thesis by (auto simp: race_inv_def close_tty_def)
qed

lemma call_inv:
  assumes inv: "race_inv lib baud s" and "rc_at s p = Calling c" "kernel p c (rc_tty s) a t"
  defines "st \<equiv> open_next lib (baud p) c a"
  shows "race_inv lib baud (s\<lparr>rc_tty := (if without_port st then close_tty p t else t), rc_at := (rc_at s)(p := st)\<rparr>)"
proof -
  have only: "q = p" if "past_lock (rc_at s p)" "past_settings (rc_at s q)" for q
    using inv that past_settings_past_lock [of "rc_at s q"] by (auto simp: race_inv_def)
  have mine: "past_lock (Calling c) \<longleftrightarrow> ty_lock (rc_tty s) = Some p" using inv assms(2) by (metis race_inv_def)
  from assms(3) show ?thesis
  proof cases
    case (fails e)
    with leave_inv [OF inv] open_next_error show ?thesis by (simp add: st_def)
  next
    case opens
    with inv assms(2) mine show ?thesis by (auto simp: race_inv_def st_def without_port_def past_settings_def)
  next
    case locks
    then have "\<not> past_lock (rc_at s q)" for q using inv by (simp add: race_inv_def)
    with locks inv assms(2) show ?thesis
      by (auto simp: race_inv_def st_def without_port_def past_settings_def try_lock_exclusive_def)
  next
    case (lock_held q)
    with leave_inv [OF inv, of "Returned PortBusy" p] show ?thesis
      by (simp add: st_def try_lock_exclusive_def without_port_def)
  next
    case excludes
    with inv assms(2) show ?thesis by (auto simp: race_inv_def st_def without_port_def past_settings_def)
  next
    case gets
    show ?thesis
    proof (cases "configure lib (baud p) (ty_settings (rc_tty s))")
      case (Inl e)
      with gets leave_inv [OF inv, of "Returned (OpenError e)" p] show ?thesis by (simp add: st_def without_port_def)
    next
      case (Inr u)
      with gets inv assms(2) show ?thesis by (auto simp: race_inv_def st_def without_port_def past_settings_def)
    qed
  next
    case (sets u)
    then have "past_lock (rc_at s p)" using assms(2) by simp
    with only have "\<not> past_settings (rc_at s q)" if "q \<noteq> p" for q using that by blast
    with sets inv assms(2) show ?thesis
      by (auto simp: race_inv_def st_def without_port_def past_settings_def)
  next
    case unblocks
    with inv assms(2) show ?thesis by (auto simp: race_inv_def st_def without_port_def past_settings_def)
  qed
qed

lemma race_step_inv: "race_step lib baud s s' \<Longrightarrow> race_inv lib baud s \<Longrightarrow> race_inv lib baud s'"
proof (induction rule: race_step.induct)
  case (calls s p c a t st)
  then show ?case using call_inv [of lib baud s p c a t] by simp
next
  case (retries s p)
  with without_port_inactive [of "rc_at s p"] show ?case by (auto simp: race_inv_def past_settings_def)
next
  case (drops s p)
  then show ?case using leave_inv [of lib baud s "Calling OpenTty" p] by simp
qed

lemma race_reachable_inv: "(race_step lib baud)\<^sup>*\<^sup>* (untouched t) s \<Longrightarrow> race_inv lib baud s"
proof (induction rule: rtranclp_induct)
  case base
  then show ?case by (simp add: race_inv_def untouched_def past_settings_def)
next
  case (step y z)
  then show ?case by (blast intro: race_step_inv)
qed

text \<open>A refusal leaves the line as it was.\<close>

lemma busy_leaves_settings:
  "kernel p c t a t' \<Longrightarrow> without_port (open_next lib b c a) \<Longrightarrow> ty_settings t' = ty_settings t"
  by (induction rule: kernel.induct) (auto simp: without_port_def)

text \<open>
  C12. However the calls of any number of producers interleave, and however often they come
  back: every process about to change the settings, and every process that has the port and may
  read, holds the lock, which is one process at a time; so at most one has the port. While one
  has it, nobody is about to change the settings, and the line has those that its own
  \<open>open\<close> made, raw and 8N1 at its rate. A process that is told busy or fails has
  changed no setting with that call.
\<close>

theorem at_most_one_producer_has_the_port:
  assumes "(race_step lib baud)\<^sup>*\<^sup>* (untouched t) s"
  shows "(\<forall>q u. rc_at s q = Calling (Tcsetattr u) \<longrightarrow> ty_lock (rc_tty s) = Some q) \<and>
    (\<forall>q. rc_at s q = Returned PortOpen \<longrightarrow> ty_lock (rc_tty s) = Some q) \<and>
    (\<forall>p. rc_at s p = Returned PortOpen \<longrightarrow>
       (\<forall>q. rc_at s q = Returned PortOpen \<longrightarrow> q = p) \<and> (\<forall>q u. rc_at s q \<noteq> Calling (Tcsetattr u)) \<and>
       raw_line (ty_settings (rc_tty s)) \<and> (\<exists>u. configure lib (baud p) u = Inr (ty_settings (rc_tty s)))) \<and>
    (\<forall>p c a t'. kernel p c (rc_tty s) a t' \<and> without_port (open_next lib (baud p) c a) \<longrightarrow>
       ty_settings t' = ty_settings (rc_tty s))"
proof -
  from race_reachable_inv [OF assms]
  have lock: "past_lock (rc_at s q) \<longleftrightarrow> ty_lock (rc_tty s) = Some q"
    and set: "past_settings (rc_at s q) \<Longrightarrow> \<exists>u. configure lib (baud q) u = Inr (ty_settings (rc_tty s))" for q
    by (simp_all add: race_inv_def)
  have writer: "ty_lock (rc_tty s) = Some q" if "rc_at s q = Calling (Tcsetattr u)" for q u
    using lock [of q] that by simp
  have owner: "ty_lock (rc_tty s) = Some q" if "rc_at s q = Returned PortOpen" for q
    using lock [of q] that by simp
  have line: "\<exists>u. configure lib (baud p) u = Inr (ty_settings (rc_tty s))" if "rc_at s p = Returned PortOpen" for p
    using set [of p] that by (simp add: past_settings_def)
  have apart: "rc_at s q \<noteq> Calling (Tcsetattr u)" if "rc_at s p = Returned PortOpen" for p q u
    using writer [of q u] owner [OF that] that by auto
  have one: "q = p" if "rc_at s p = Returned PortOpen" "rc_at s q = Returned PortOpen" for p q
    using owner [OF that(1)] owner [OF that(2)] by simp
  have raw: "raw_line (ty_settings (rc_tty s))" if "rc_at s p = Returned PortOpen" for p
    using line [OF that] configure_raw by blast
  show ?thesis
    by (intro conjI allI impI; (elim conjE)?)
      (assumption | erule writer owner line apart raw one busy_leaves_settings)+
qed

section \<open>An undisturbed open\<close>

lemma call_goes_on:
  assumes "rc_at s p = Calling c" "kernel p c (rc_tty s) a t" "open_next lib (baud p) c a = st" "\<not> without_port st"
  shows "race_step lib baud s (s\<lparr>rc_tty := t, rc_at := (rc_at s)(p := st)\<rparr>)"
  using calls [OF assms(1,2) refl, of lib baud] assms(3,4) by simp

lemma open_alone:
  assumes "configure lib (baud p) t = Inr u"
  shows "(race_step lib baud)\<^sup>*\<^sup>* (untouched t)
    \<lparr>rc_tty = \<lparr>ty_open = {p}, ty_lock = Some p, ty_exclusive = True, ty_settings = u\<rparr>, rc_at = (\<lambda>_. Calling OpenTty)(p := Returned PortOpen)\<rparr>"
proof -
  let ?at = "\<lambda>st. (\<lambda>_. Calling OpenTty)(p := st)"
  let ?s = "\<lambda>l x v st. \<lparr>rc_tty = \<lparr>ty_open = {p}, ty_lock = l, ty_exclusive = x, ty_settings = v\<rparr>, rc_at = ?at st\<rparr>"
  note go = call_goes_on [of _ p _ _ _ lib baud]
  have 1: "race_step lib baud (untouched t) (?s None False t (Calling FlockNonblocking))"
    using go [of "untouched t", OF _ opens] by (simp add: untouched_def without_port_def)
  have 2: "race_step lib baud (?s None False t (Calling FlockNonblocking)) (?s (Some p) False t (Calling Tiocexcl))"
    using go [of "?s None False t (Calling FlockNonblocking)", OF _ locks] by (simp add: try_lock_exclusive_def without_port_def)
  have 3: "race_step lib baud (?s (Some p) False t (Calling Tiocexcl)) (?s (Some p) True t (Calling Tcgetattr))"
    using go [of "?s (Some p) False t (Calling Tiocexcl)", OF _ excludes] by (simp add: without_port_def)
  have 4: "race_step lib baud (?s (Some p) True t (Calling Tcgetattr)) (?s (Some p) True t (Calling (Tcsetattr u)))"
    using go [of "?s (Some p) True t (Calling Tcgetattr)", OF _ gets] assms by (simp add: without_port_def)
  have 5: "race_step lib baud (?s (Some p) True t (Calling (Tcsetattr u))) (?s (Some p) True u (Calling FcntlSetfl))"
    using go [of "?s (Some p) True t (Calling (Tcsetattr u))", OF _ sets] by (simp add: without_port_def)
  have 6: "race_step lib baud (?s (Some p) True u (Calling FcntlSetfl)) (?s (Some p) True u (Returned PortOpen))"
    using go [of "?s (Some p) True u (Calling FcntlSetfl)", OF _ unblocks] by (simp add: without_port_def)
  from 1 2 3 4 5 6 show ?thesis by (meson converse_rtranclp_into_rtranclp rtranclp.rtrancl_refl)
qed

definition plain_lib :: termios_lib where
  "plain_lib = \<lparr>make_raw = (\<lambda>t. t), set_speed = (\<lambda>b t. Inr (t\<lparr>speed := b\<rparr>))\<rparr>"

definition cooked :: termios where
  "cooked = \<lparr>control_modes = {PARENB, CSTOPB}, input_modes = {IXON}, output_modes = {0}, local_modes = {1}, speed = 9600, vmin = 1, vtime = 0\<rparr>"

theorem at_most_one_producer_has_the_port_witness:
  "\<exists>s. (race_step plain_lib (\<lambda>p. if p = 0 then 115200 else 2400))\<^sup>*\<^sup>* (untouched cooked) s \<and> rc_at s 0 = Returned PortOpen \<and>
     speed (ty_settings (rc_tty s)) = 115200 \<and> raw_line (ty_settings (rc_tty s)) \<and> rc_at s 1 \<noteq> Returned PortOpen"
proof -
  let ?b = "\<lambda>p :: nat. if p = 0 then 115200 else 2400 :: nat"
  obtain u where u: "configure plain_lib (?b 0) cooked = Inr u" "speed u = 115200"
    by (simp add: configure_def plain_lib_def eight_n_one_def)
  let ?s = "\<lparr>rc_tty = \<lparr>ty_open = {0}, ty_lock = Some 0, ty_exclusive = True, ty_settings = u\<rparr>,
    rc_at = (\<lambda>_. Calling OpenTty)(0 := Returned PortOpen)\<rparr>"
  have r: "(race_step plain_lib ?b)\<^sup>*\<^sup>* (untouched cooked) ?s" using open_alone [of plain_lib ?b 0] u(1) by simp
  have p: "rc_at ?s 0 = Returned PortOpen" by simp
  from at_most_one_producer_has_the_port [OF r]
  have all: "\<And>p. rc_at ?s p = Returned PortOpen \<Longrightarrow> (\<forall>q. rc_at ?s q = Returned PortOpen \<longrightarrow> q = p) \<and> raw_line (ty_settings (rc_tty ?s))"
    by blast
  from all [OF p] have raw: "raw_line (ty_settings (rc_tty ?s))" and "rc_at ?s 1 \<noteq> Returned PortOpen"
    by (blast, metis zero_neq_one)
  with r p u(2) show ?thesis by (intro exI [of _ ?s]) simp
qed

end
