(* ===== verification/Sys_Sensors.thy ===== *)
theory Sys_Sensors
  imports Rust_Parse
begin

text \<open>
  \<open>packages/system-metrics/src/sensors.rs\<close>: which hwmon attribute files are reported, and as what.
\<close>

section \<open>Model\<close>

datatype sensor_reading = Input string | Alarm "string option"

record sensor_file =
  sf_sensor :: string
  sf_kind :: string
  sf_reading :: sensor_reading

definition body_key :: "string \<Rightarrow> string option" where
  "body_key prefix =
     (if prefix = ''temp'' then Some ''milli_celsius''
      else if prefix = ''fan'' then Some ''rpm''
      else if prefix = ''in'' then Some ''milli_volts''
      else if prefix = ''curr'' then Some ''milli_amps''
      else if prefix = ''power'' then Some ''micro_watts''
      else if prefix = ''energy'' then Some ''micro_joules''
      else if prefix = ''humidity'' then Some ''milli_percent''
      else None)"

definition split_prefix :: "string \<Rightarrow> string option" where
  "split_prefix base =
     Option.bind (position is_digit base) (\<lambda>i.
     let prefix = take i base; num = drop i base
     in if num = [] \<or> \<not> list_all is_digit num then None
        else Option.bind (body_key prefix) (\<lambda>_. Some prefix))"

definition parse_sensor_filename :: "string \<Rightarrow> sensor_file option" where
  "parse_sensor_filename name =
     (case strip_suffix name ''_input'' of
        Some base \<Rightarrow>
          Option.bind (split_prefix base) (\<lambda>prefix.
          Option.bind (body_key prefix) (\<lambda>key.
            Some \<lparr>sf_sensor = base, sf_kind = prefix, sf_reading = Input key\<rparr>))
      | None \<Rightarrow>
          Option.bind (strip_suffix name ''_alarm'') (\<lambda>rest.
          let (base, threshold) =
                (case rsplit_once (CHR ''_'') rest of
                   Some (base, threshold) \<Rightarrow> (base, Some threshold)
                 | None \<Rightarrow> (rest, None))
          in Option.bind (split_prefix base) (\<lambda>_.
               Some \<lparr>sf_sensor = base, sf_kind = ''alarm'', sf_reading = Alarm threshold\<rparr>)))"

section \<open>Lemmas\<close>

text \<open>An attribute's own name: a prefix with a known unit and a number.\<close>

definition attribute_name :: "string \<Rightarrow> string \<Rightarrow> bool" where
  "attribute_name prefix base \<longleftrightarrow>
     body_key prefix \<noteq> None \<and> (\<exists>num. base = prefix @ num \<and> num \<noteq> [] \<and> list_all is_digit num)"

lemma body_key_letters: "body_key prefix \<noteq> None \<Longrightarrow> \<not> list_ex is_digit prefix \<and> CHR ''_'' \<notin> set prefix"
  by (auto simp: body_key_def is_digit_def digit_val_def split: if_splits)

lemma digits_no_underscore: "list_all is_digit num \<Longrightarrow> CHR ''_'' \<notin> set num"
  by (induction num) (auto simp: is_digit_def digit_val_def)

lemma position_digit:
  assumes "\<not> list_ex is_digit p" "num \<noteq> []" "list_all is_digit num"
  shows "position is_digit (p @ num) = Some (length p)"
  using assms nth_mem by (cases num) (fastforce simp: position_Some nth_append list_ex_iff list_all_iff)+

lemma split_prefix_Some: "split_prefix base = Some prefix \<longleftrightarrow> attribute_name prefix base"
proof
  assume "split_prefix base = Some prefix"
  then obtain i where "prefix = take i base" "drop i base \<noteq> []" "list_all is_digit (drop i base)" "body_key prefix \<noteq> None"
    by (auto simp: split_prefix_def bind_eq_Some_conv Let_def split: if_splits)
  then show "attribute_name prefix base"
    unfolding attribute_name_def by (metis append_take_drop_id)
next
  assume "attribute_name prefix base"
  then obtain num where num: "body_key prefix \<noteq> None" "base = prefix @ num" "num \<noteq> []" "list_all is_digit num"
    by (auto simp: attribute_name_def)
  with position_digit [of prefix num] body_key_letters [OF num(1)] show "split_prefix base = Some prefix"
    by (auto simp: split_prefix_def)
qed

lemma attribute_name_no_underscore: "attribute_name prefix base \<Longrightarrow> CHR ''_'' \<notin> set base"
  using body_key_letters digits_no_underscore by (auto simp: attribute_name_def)

lemma attribute_name_unique: "attribute_name p base \<Longrightarrow> attribute_name q base \<Longrightarrow> p = q"
  by (metis option.inject split_prefix_Some)

lemma alarm_rest:
  assumes "strip_suffix name ''_input'' = None" "strip_suffix name ''_alarm'' = Some rest"
  shows "parse_sensor_filename name = Some f \<longleftrightarrow>
    (\<exists>prefix base. attribute_name prefix base \<and>
       (rest = base \<and> f = \<lparr>sf_sensor = base, sf_kind = ''alarm'', sf_reading = Alarm None\<rparr> \<or>
        (\<exists>t. rest = base @ CHR ''_'' # t \<and> CHR ''_'' \<notin> set t \<and>
           f = \<lparr>sf_sensor = base, sf_kind = ''alarm'', sf_reading = Alarm (Some t)\<rparr>)))"
proof (cases "rsplit_once (CHR ''_'') rest")
  case None
  then have "CHR ''_'' \<notin> set rest" by (simp add: rsplit_once_None)
  with None assms show ?thesis
    by (auto simp: parse_sensor_filename_def bind_eq_Some_conv split_prefix_Some)
next
  case (Some bt)
  obtain b t where bt: "bt = (b, t)" by fastforce
  with Some have unique: "rest = b' @ CHR ''_'' # t' \<and> CHR ''_'' \<notin> set t' \<longleftrightarrow> b' = b \<and> t' = t" for b' t'
    using rsplit_once_Some [of "CHR ''_''" rest b' t'] by auto
  moreover have "\<not> attribute_name p rest" for p
    using attribute_name_no_underscore [of p rest] unique [of b t] by auto
  moreover have "parse_sensor_filename name = Some f \<longleftrightarrow>
      (\<exists>p. attribute_name p b) \<and> f = \<lparr>sf_sensor = b, sf_kind = ''alarm'', sf_reading = Alarm (Some t)\<rparr>"
    using assms Some bt by (auto simp: parse_sensor_filename_def bind_eq_Some_conv split_prefix_Some)
  ultimately show ?thesis by blast
qed

section \<open>Properties\<close>

text \<open>
  A file of an hwmon directory is reported exactly when its name has one of the three shapes:
  an attribute name and \<open>_input\<close>, an attribute name and \<open>_alarm\<close>, or
  an attribute name, a threshold and \<open>_alarm\<close>. The record carries the attribute's
  name, the unit of its prefix for a reading, and the threshold for an alarm.
\<close>

theorem sensor_file_shapes:
  "parse_sensor_filename name = Some f \<longleftrightarrow>
     (\<exists>prefix base. attribute_name prefix base \<and>
        (name = base @ ''_input'' \<and> f = \<lparr>sf_sensor = base, sf_kind = prefix, sf_reading = Input (the (body_key prefix))\<rparr> \<or>
         name = base @ ''_alarm'' \<and> f = \<lparr>sf_sensor = base, sf_kind = ''alarm'', sf_reading = Alarm None\<rparr> \<or>
         (\<exists>t. name = base @ ''_'' @ t @ ''_alarm'' \<and> CHR ''_'' \<notin> set t \<and>
            f = \<lparr>sf_sensor = base, sf_kind = ''alarm'', sf_reading = Alarm (Some t)\<rparr>)))"
proof (cases "\<exists>base. name = base @ ''_input''")
  case True
  then obtain base where name: "name = base @ ''_input''" by blast
  then have "strip_suffix name ''_input'' = Some base" by (simp add: strip_suffix_Some)
  moreover have "name \<noteq> b @ ''_alarm''" "name \<noteq> b @ ''_'' @ t @ ''_alarm''" for b t
    using name by (auto dest: arg_cong [of _ _ last])
  ultimately show ?thesis
    using name by (fastforce simp: parse_sensor_filename_def bind_eq_Some_conv split_prefix_Some attribute_name_def)
next
  case False
  then have none: "strip_suffix name ''_input'' = None" by (metis not_None_eq strip_suffix_Some)
  have assoc: "base @ ''_'' @ t @ ''_alarm'' = (base @ CHR ''_'' # t) @ ''_alarm''" for base t :: string by simp
  show ?thesis
  proof (cases "strip_suffix name ''_alarm''")
    case None
    then have no: "\<forall>rest. name \<noteq> rest @ ''_alarm''" by (metis option.distinct(1) strip_suffix_Some)
    then have "\<forall>base t. name \<noteq> base @ ''_'' @ t @ ''_alarm''" unfolding assoc by blast
    with no None none False show ?thesis by (simp add: parse_sensor_filename_def)
  next
    case (Some rest)
    then have "name = rest @ ''_alarm''" by (simp add: strip_suffix_Some)
    then have "name = base @ ''_alarm'' \<longleftrightarrow> rest = base" "name = base @ ''_'' @ t @ ''_alarm'' \<longleftrightarrow> rest = base @ CHR ''_'' # t"
      for base t unfolding assoc by (simp_all only: append_same_eq)
    with alarm_rest [OF none Some] False show ?thesis by simp
  qed
qed

end
