(* ===== verification/Sys_Block.thy ===== *)
theory Sys_Block
  imports Rust_Parse
begin

text \<open>
  \<open>packages/system-metrics/src/block.rs\<close>: the kernel's counters of a block device, what kind of drive
  it is, the identity udev knows it by, and which SMART report describes it.
\<close>

section \<open>Model\<close>

datatype drive_kind = Nvme | Sata | Usb | Sd | Emmc

fun drive_kind_str :: "drive_kind \<Rightarrow> string" where
  "drive_kind_str Nvme = ''nvme''"
| "drive_kind_str Sata = ''sata''"
| "drive_kind_str Usb = ''usb''"
| "drive_kind_str Sd = ''sd''"
| "drive_kind_str Emmc = ''emmc''"

record block_stat =
  bs_reads :: nat
  bs_read_sectors :: nat
  bs_read_ms :: nat
  bs_writes :: nat
  bs_write_sectors :: nat
  bs_write_ms :: nat
  bs_io_ms :: nat
  bs_discard_sectors :: "nat option"
  bs_flushes :: "nat option"

definition SECTOR_BYTES :: nat where "SECTOR_BYTES = 512"

definition parse_stat :: "string \<Rightarrow> block_stat option" where
  "parse_stat text =
     Option.bind (those (map parse_u64 (split_whitespace text))) (\<lambda>fs.
     if length fs < 11 then None
     else Some \<lparr>bs_reads = fs ! 0, bs_read_sectors = fs ! 2, bs_read_ms = fs ! 3,
                bs_writes = fs ! 4, bs_write_sectors = fs ! 6, bs_write_ms = fs ! 7,
                bs_io_ms = fs ! 9, bs_discard_sectors = nth_get fs 13, bs_flushes = nth_get fs 15\<rparr>)"

definition drive_kind_of :: "string \<Rightarrow> string \<Rightarrow> string option \<Rightarrow> drive_kind option" where
  "drive_kind_of name sysfs_path mmc_type =
     (if starts_with name ''nvme'' then Some Nvme
      else if starts_with name ''mmcblk'' then
        (if mmc_type = Some ''SD'' then Some Sd else if mmc_type = Some ''MMC'' then Some Emmc else None)
      else if starts_with name ''sd'' then
        (if contains_str sysfs_path ''/usb'' then Some Usb
         else if contains_str sysfs_path ''/ata'' then Some Sata else None)
      else None)"

definition udev_property :: "string \<Rightarrow> string \<Rightarrow> string option" where
  "udev_property text key =
     find_map (\<lambda>line.
       Option.bind (strip_prefix line ''E:'') (\<lambda>kv.
       Option.bind (split_once (CHR ''='') kv) (\<lambda>(k, v). if k = key then Some v else None)))
     (lines_of text)"

text \<open>One step of the loop over the bytes: an escape gives one byte for four, anything else itself.\<close>

function decode_enc :: "byte list \<Rightarrow> byte list" where
  "decode_enc [] = []"
| "decode_enc (b # bs) =
     (case (if b = 0x5C \<and> nth_get bs 0 = Some 0x78
            then Option.bind (slice_get bs 1 3) (\<lambda>hex. Option.bind (from_utf8 hex) (from_str_radix 256 16))
            else None) of
        Some v \<Rightarrow> of_nat v # decode_enc (drop 3 bs)
      | None \<Rightarrow> b # decode_enc bs)"
  by pat_completeness auto
termination
  by (relation "measure length") auto

definition decode_udev_enc :: "string \<Rightarrow> string" where
  "decode_udev_enc encoded = from_utf8_lossy (decode_enc (bytes_of_str encoded))"

definition smart_name_matches :: "string \<Rightarrow> string \<Rightarrow> bool" where
  "smart_name_matches scan_name disk =
     (case strip_prefix scan_name ''/dev/'' of
        None \<Rightarrow> False
      | Some node \<Rightarrow>
          node = disk \<or>
          starts_with node ''nvme'' \<and>
          (case Option.bind (strip_prefix disk node) (\<lambda>rest. strip_prefix rest ''n'') of
             None \<Rightarrow> False
           | Some ns \<Rightarrow> ns \<noteq> [] \<and> list_all is_digit ns))"

definition match_by_serial :: "(string \<times> string option) list \<Rightarrow> (string \<times> string option) list \<Rightarrow> nat option list" where
  "match_by_serial disks smart =
     map (\<lambda>(_, serial). Option.bind serial (\<lambda>s. position (\<lambda>(_, sn). sn = Some s) smart)) disks"

definition match_smart :: "(string \<times> string option) list \<Rightarrow> (string \<times> string option) list \<Rightarrow> nat option list" where
  "match_smart disks smart =
     (let by_serial = match_by_serial disks smart
      in map2 (\<lambda>(disk, _) matched.
           case matched of
             Some i \<Rightarrow> Some i
           | None \<Rightarrow>
               find (\<lambda>i. Some i \<notin> set by_serial \<and> smart_name_matches (fst (smart ! i)) disk) [0..<length smart])
         disks by_serial)"

definition identity :: "string option \<Rightarrow> string option" where
  "identity raw = Option.bind (map_option trim raw) (\<lambda>s. if s = [] then None else Some s)"

section \<open>Lemmas\<close>

text \<open>An encoder that escapes the bytes it has to, as udev writes them.\<close>

definition udev_enc :: "(byte \<Rightarrow> bool) \<Rightarrow> byte list \<Rightarrow> byte list" where
  "udev_enc escaped bs =
     concat (map (\<lambda>b. if escaped b
       then [0x5C, 0x78, of_char (hex_char (unat b div 16)), of_char (hex_char (unat b mod 16))] else [b]) bs)"

lemma hex_pair:
  assumes "u < 16" "v < 16"
  shows "Option.bind (from_utf8 [of_char (hex_char u), of_char (hex_char v)]) (from_str_radix 256 16) = Some (16 * u + v)"
proof -
  have "utf8_valid [of_char (hex_char u), of_char (hex_char v)]"
    using assms hex_char_ascii by (simp add: utf8_valid_ascii)
  moreover have "str_of_bytes [of_char (hex_char u), of_char (hex_char v)] = [hex_char u, hex_char v]"
    using str_of_bytes_of_str [of "[hex_char u, hex_char v]"] by simp
  ultimately show ?thesis
    using assms hex_char_ascii [OF assms(1)] by (simp add: from_utf8_def from_str_radix_def char_digit_hex)
qed

lemma decode_enc_escape:
  "decode_enc (0x5C # 0x78 # of_char (hex_char (unat b div 16)) # of_char (hex_char (unat b mod 16)) # bs) = b # decode_enc bs"
proof -
  have "unat b < 256" using unsigned_less [of b] by simp
  then have "unat b div 16 < 16" "16 * (unat b div 16) + unat b mod 16 = unat b" by auto
  with hex_pair [of "unat b div 16" "unat b mod 16"] show ?thesis
    by (simp add: slice_get_def nth_get_def word_unat_eq_iff)
qed

lemma decode_enc_plain: "b \<noteq> 0x5C \<Longrightarrow> decode_enc (b # bs) = b # decode_enc bs"
  by simp

lemma decode_enc_udev_enc: "escaped 0x5C \<Longrightarrow> decode_enc (udev_enc escaped bs) = bs"
proof (induction bs)
  case (Cons b bs)
  then show ?case
    using decode_enc_escape [of b "udev_enc escaped bs"] decode_enc_plain [of b "udev_enc escaped bs"]
    by (cases "escaped b") (auto simp: udev_enc_def simp del: decode_enc.simps(2))
qed (simp add: udev_enc_def)

lemma utf8_lossy_valid: "utf8_valid bs \<Longrightarrow> utf8_lossy bs = bs"
proof (induction bs rule: utf8_valid.induct)
  case (2 a)
  then show ?case by (simp add: utf8_lossy_ascii1)
next
  case (3 a b)
  then show ?case by (subst utf8_lossy.simps) (auto simp: not_less word_less_nat_alt word_le_nat_alt split: if_splits)
next
  case (4 a b c)
  then show ?case by (subst utf8_lossy.simps) (auto simp: not_less word_less_nat_alt word_le_nat_alt second_ok_def split: if_splits)
next
  case (5 a b c d bs)
  then show ?case by (subst utf8_lossy.simps) (auto simp: not_less word_less_nat_alt word_le_nat_alt second_ok_def split: if_splits)
qed simp

lemma length_match_by_serial [simp]: "length (match_by_serial disks smart) = length disks"
  by (simp add: match_by_serial_def)

lemma match_by_serial_nth:
  "j < length disks \<Longrightarrow> match_by_serial disks smart ! j = Some i \<longleftrightarrow>
     (\<exists>s. snd (disks ! j) = Some s \<and> position (\<lambda>(_, sn). sn = Some s) smart = Some i)"
  by (cases "disks ! j") (auto simp: match_by_serial_def bind_eq_Some_conv)

lemma match_smart_nth:
  "j < length disks \<Longrightarrow> match_smart disks smart ! j =
     (case match_by_serial disks smart ! j of
        Some i \<Rightarrow> Some i
      | None \<Rightarrow> find (\<lambda>i. Some i \<notin> set (match_by_serial disks smart) \<and>
                       smart_name_matches (fst (smart ! i)) (fst (disks ! j))) [0..<length smart])"
  by (cases "disks ! j") (auto simp: match_smart_def Let_def split: option.splits)

section \<open>Properties\<close>

text \<open>
  What udev escapes is read back exactly: whichever bytes of a string are escaped, as long as
  the backslash is, decoding the encoded form gives the string.
\<close>

theorem udev_escape_round_trip:
  assumes "escaped 0x5C" "utf8_valid (bytes_of_str s)"
  shows "decode_udev_enc (str_of_bytes (udev_enc escaped (bytes_of_str s))) = s"
  using assms by (simp add: decode_udev_enc_def from_utf8_lossy_def decode_enc_udev_enc utf8_lossy_valid)

theorem udev_escape_round_trip_witness:
  "decode_udev_enc (''Samsung'' @ CHR 0x5C # ''x20SSD'') = ''Samsung SSD''"
proof -
  have "str_of_bytes (udev_enc (\<lambda>b. b = 0x20 \<or> b = 0x5C) (bytes_of_str ''Samsung SSD'')) = ''Samsung'' @ CHR 0x5C # ''x20SSD''"
    "utf8_valid (bytes_of_str ''Samsung SSD'')" by code_simp+
  then show ?thesis using udev_escape_round_trip [of "\<lambda>b. b = 0x20 \<or> b = 0x5C" "''Samsung SSD''"] by simp
qed

text \<open>
  A SMART report describes a disk only when there is a reason: every disk gets one entry, a
  report given to it exists and either has the disk's serial number (and is the first that has)
  or addresses the disk by name, and a report that some serial number claimed goes to no disk
  with a different one.
\<close>

theorem match_smart_justified:
  assumes "j < length disks" "match_smart disks smart ! j = Some i"
  shows "i < length smart \<and>
    ((\<exists>s. snd (disks ! j) = Some s \<and> snd (smart ! i) = Some s \<and> (\<forall>k < i. snd (smart ! k) \<noteq> Some s)) \<or>
     smart_name_matches (fst (smart ! i)) (fst (disks ! j)) \<and>
     (\<forall>k < length disks. \<forall>s. snd (disks ! k) = Some s \<longrightarrow> position (\<lambda>(_, sn). sn = Some s) smart \<noteq> Some i))"
proof (cases "match_by_serial disks smart ! j")
  case None
  with assms have "i < length smart" "smart_name_matches (fst (smart ! i)) (fst (disks ! j))"
      "Some i \<notin> set (match_by_serial disks smart)"
    by (auto simp: match_smart_nth dest: find_eq_Some_mem)
  moreover from this(3) have "match_by_serial disks smart ! k \<noteq> Some i" if "k < length disks" for k
    using that by (metis length_match_by_serial nth_mem)
  ultimately show ?thesis using match_by_serial_nth by blast
next
  case (Some i')
  with assms have "match_by_serial disks smart ! j = Some i" by (simp add: match_smart_nth)
  then obtain s where "snd (disks ! j) = Some s" "position (\<lambda>(_, sn). sn = Some s) smart = Some i"
    using match_by_serial_nth [OF assms(1)] by blast
  then show ?thesis by (auto simp: position_Some split: prod.splits) (metis order.strict_trans prod.collapse)
qed

theorem match_smart_justified_witness:
  "match_smart [(''nvme0n1'', Some ''S1''), (''sda'', None)] [(''/dev/sda'', Some ''X''), (''/dev/nvme0'', Some ''S1'')] =
     [Some 1, Some 0] \<and> smart_name_matches ''/dev/sda'' ''sda''"
proof -
  let ?disks = "[(''nvme0n1'', Some ''S1''), (''sda'', None)]"
  let ?smart = "[(''/dev/sda'', Some ''X''), (''/dev/nvme0'', Some ''S1'')]"
  have m: "match_smart ?disks ?smart = [Some 1, Some 0]" by code_simp
  then have "match_smart ?disks ?smart ! 1 = Some 0" by simp
  from match_smart_justified [OF _ this] m show ?thesis by simp
qed

text \<open>
  The columns land in the right fields: for at least eleven counters, padded with any number of
  spaces, every field is the counter of its column, and the discard and flush counts are
  present exactly when the kernel has their columns.
\<close>

theorem parse_stat_columns:
  assumes "11 \<le> length cs" "\<forall>(pad, n) \<in> set cs. n < 2 ^ 64"
  shows "parse_stat (spaced (map (\<lambda>(pad, n). (pad, nat_str n)) cs) @ [CHR 0x0A]) =
    Some \<lparr>bs_reads = snd (cs ! 0), bs_read_sectors = snd (cs ! 2), bs_read_ms = snd (cs ! 3),
      bs_writes = snd (cs ! 4), bs_write_sectors = snd (cs ! 6), bs_write_ms = snd (cs ! 7), bs_io_ms = snd (cs ! 9),
      bs_discard_sectors = (if 13 < length cs then Some (snd (cs ! 13)) else None),
      bs_flushes = (if 15 < length cs then Some (snd (cs ! 15)) else None)\<rparr>"
proof -
  have "split_whitespace (spaced (map (\<lambda>(pad, n). (pad, nat_str n)) cs) @ [CHR 0x0A]) = map (nat_str \<circ> snd) cs"
    by (subst split_whitespace_spaced) (auto simp: comp_def split: prod.splits)
  moreover have "those (map parse_u64 (map (nat_str \<circ> snd) cs)) = Some (map snd cs)"
    using assms(2) by (induction cs) (auto simp: parse_u64_def parse_nat_nat_str)
  moreover have "cs \<noteq> []" using assms(1) by auto
  ultimately show ?thesis using assms(1) by (auto simp: parse_stat_def nth_get_def)
qed

theorem parse_stat_columns_witness:
  "parse_stat (spaced (map (\<lambda>n. (3, nat_str n)) [1..<12]) @ [CHR 0x0A]) =
     Some \<lparr>bs_reads = 1, bs_read_sectors = 3, bs_read_ms = 4, bs_writes = 5, bs_write_sectors = 7, bs_write_ms = 8,
       bs_io_ms = 10, bs_discard_sectors = None, bs_flushes = None\<rparr>"
  using parse_stat_columns [of "map (\<lambda>n. (3, n)) [1..<12]"] by (simp add: comp_def upt_rec)

end
