(* ===== verification/Sys_Collect.thy ===== *)
theory Sys_Collect
  imports Telemetry Rust_Parse
begin

text \<open>
  \<open>packages/system-metrics/src/collect.rs\<close>: the parsers of \<open>/proc\<close> and of the few other texts the
  host collector reads.  Its record type is the one of \<open>Telemetry\<close>.  Integers are \<open>u64\<close>; sums and
  products wrap, as in a release build.

  The JSON library (\<open>serde_json\<close>) is a parameter: its parser and the accessors the code calls.
\<close>

section \<open>JSON\<close>

record 'j json =
  js_from_str :: "string \<Rightarrow> 'j option"
  js_get :: "'j \<Rightarrow> string \<Rightarrow> 'j option"
  js_as_str :: "'j \<Rightarrow> string option"
  js_as_i64 :: "'j \<Rightarrow> int option"
  js_as_u64 :: "'j \<Rightarrow> nat option"
  js_as_bool :: "'j \<Rightarrow> bool option"
  js_as_array :: "'j \<Rightarrow> 'j list option"

section \<open>CPU\<close>

definition wrap_u64 :: "nat \<Rightarrow> nat" where
  "wrap_u64 n = n mod 2 ^ 64"

record load_avg =
  la_one :: f64_value
  la_five :: f64_value
  la_fifteen :: f64_value

definition parse_loadavg :: "string \<Rightarrow> load_avg option" where
  "parse_loadavg text =
     (let ws = split_whitespace text
      in Option.bind (Option.bind (nth_get ws 0) parse_f64) (\<lambda>one.
         Option.bind (Option.bind (nth_get ws 1) parse_f64) (\<lambda>five.
         Option.bind (Option.bind (nth_get ws 2) parse_f64) (\<lambda>fifteen.
           Some \<lparr>la_one = one, la_five = five, la_fifteen = fifteen\<rparr>))))"

record cpu_times =
  ct_total :: nat
  ct_idle :: nat

definition parse_cpu_times :: "string \<Rightarrow> cpu_times option" where
  "parse_cpu_times proc_stat =
     Option.bind (find (\<lambda>l. starts_with l ''cpu '') (lines_of proc_stat)) (\<lambda>line.
     let vs = List.map_filter parse_u64 (take 8 (drop 1 (split_whitespace line)))
     in if length vs < 4 then None
        else Some \<lparr>ct_total = wrap_u64 (sum_list vs),
                   ct_idle = wrap_u64 (vs ! 3 + (case nth_get vs 4 of Some v \<Rightarrow> v | None \<Rightarrow> 0))\<rparr>)"

definition checked_sub :: "nat \<Rightarrow> nat \<Rightarrow> nat option" where
  "checked_sub a b = (if b \<le> a then Some (a - b) else None)"

definition utilization_percent :: "cpu_times \<Rightarrow> cpu_times \<Rightarrow> f64 option" where
  "utilization_percent first second =
     Option.bind (checked_sub (ct_total second) (ct_total first)) (\<lambda>total.
     Option.bind (checked_sub (ct_idle second) (ct_idle first)) (\<lambda>idle.
       if total = 0 then None
       else let busy = f64_of_int (int (total - idle))
            in Some (f64_mul (f64_div busy (f64_of_int (int total))) 100)))"

definition parse_cpu_count :: "string \<Rightarrow> nat" where
  "parse_cpu_count proc_stat =
     length (filter (\<lambda>l. starts_with l ''cpu'' \<and> (case nth_get l 3 of Some c \<Rightarrow> is_digit c | None \<Rightarrow> False))
       (lines_of proc_stat))"

section \<open>Memory\<close>

record memory =
  me_total :: nat
  me_free :: nat
  me_available :: nat
  me_swap_total :: nat
  me_swap_free :: nat

definition meminfo_field :: "string \<Rightarrow> string \<Rightarrow> nat option" where
  "meminfo_field text name =
     Option.bind (find (\<lambda>l. starts_with l (name @ '':'')) (lines_of text)) (\<lambda>line.
     Option.bind (nth_get (split_whitespace line) 1) (\<lambda>kb.
       map_option (\<lambda>n. wrap_u64 (n * 1024)) (parse_u64 kb)))"

definition parse_meminfo :: "string \<Rightarrow> memory option" where
  "parse_meminfo text =
     Option.bind (meminfo_field text ''MemTotal'') (\<lambda>total.
     Option.bind (meminfo_field text ''MemFree'') (\<lambda>free.
     Option.bind (meminfo_field text ''MemAvailable'') (\<lambda>available.
       Some \<lparr>me_total = total, me_free = free, me_available = available,
             me_swap_total = (case meminfo_field text ''SwapTotal'' of Some n \<Rightarrow> n | None \<Rightarrow> 0),
             me_swap_free = (case meminfo_field text ''SwapFree'' of Some n \<Rightarrow> n | None \<Rightarrow> 0)\<rparr>)))"

definition parse_zram_mem_used_total :: "string \<Rightarrow> nat option" where
  "parse_zram_mem_used_total mm_stat = Option.bind (nth_get (split_whitespace mm_stat) 2) parse_u64"

definition parse_vmstat_counter :: "string \<Rightarrow> string \<Rightarrow> nat option" where
  "parse_vmstat_counter text name =
     find_map (\<lambda>line. Option.bind (strip_prefix line name) (\<lambda>rest.
       Option.bind (strip_prefix rest '' '') (\<lambda>v. parse_u64 (trim v)))) (lines_of text)"

section \<open>File systems\<close>

record mount =
  mo_device :: string
  mo_mountpoint :: string
  mo_fstype :: string

text \<open>\<open>String::push(byte as char)\<close>: the character with that code, in UTF-8.\<close>

definition push_char :: "byte \<Rightarrow> byte list" where
  "push_char b = (if b < 0x80 then [b] else [0xC0 OR drop_bit 6 b, 0x80 OR (b AND 0x3F)])"

function unescape_loop :: "byte list \<Rightarrow> byte list" where
  "unescape_loop [] = []"
| "unescape_loop (b # bs) =
     (case (if b = 0x5C then Option.bind (slice_get bs 0 3) (\<lambda>octal. Option.bind (from_utf8 octal) (from_str_radix 256 8))
            else None) of
        Some v \<Rightarrow> push_char (of_nat v) @ unescape_loop (drop 3 bs)
      | None \<Rightarrow> push_char b @ unescape_loop bs)"
  by pat_completeness auto
termination
  by (relation "measure length") auto

definition unescape_mount_field :: "string \<Rightarrow> string" where
  "unescape_mount_field field = str_of_bytes (unescape_loop (bytes_of_str field))"

definition mount_of_line :: "string list \<Rightarrow> string \<Rightarrow> mount option" where
  "mount_of_line exclude line =
     (case split_whitespace line of
        device # mountpoint # fstype # _ \<Rightarrow>
          if fstype \<in> set exclude then None
          else Some \<lparr>mo_device = unescape_mount_field device, mo_mountpoint = unescape_mount_field mountpoint,
                     mo_fstype = fstype\<rparr>
      | _ \<Rightarrow> None)"

definition add_mount :: "string list \<Rightarrow> string \<Rightarrow> mount list \<Rightarrow> mount list" where
  "add_mount exclude line mounts =
     (case mount_of_line exclude line of
        None \<Rightarrow> mounts
      | Some m \<Rightarrow> filter (\<lambda>x. mo_mountpoint x \<noteq> mo_mountpoint m) mounts @ [m])"

definition parse_mounts :: "string \<Rightarrow> string list \<Rightarrow> mount list" where
  "parse_mounts text exclude = fold (add_mount exclude) (lines_of text) []"

record statvfs =
  f_fsid :: nat
  f_frsize :: nat
  f_bsize :: nat
  f_blocks :: nat
  f_bfree :: nat
  f_bavail :: nat

record fs_usage =
  us_fsid :: nat
  us_total :: nat
  us_free :: nat
  us_available :: nat

definition usage :: "statvfs \<Rightarrow> fs_usage" where
  "usage stat =
     (let u = (if 0 < f_frsize stat then f_frsize stat else f_bsize stat)
      in \<lparr>us_fsid = f_fsid stat, us_total = wrap_u64 (f_blocks stat * u), us_free = wrap_u64 (f_bfree stat * u),
          us_available = wrap_u64 (f_bavail stat * u)\<rparr>)"

section \<open>Generation and host\<close>

definition parse_generation :: "string \<Rightarrow> nat option" where
  "parse_generation link_target =
     Option.bind (file_name link_target) (\<lambda>name.
     Option.bind (strip_prefix name ''system-'') (\<lambda>rest.
     Option.bind (strip_suffix rest ''-link'') parse_u64))"

definition parse_uptime_seconds :: "string \<Rightarrow> f64_value option" where
  "parse_uptime_seconds text = Option.bind (nth_get (split_whitespace text) 0) parse_f64"

record locked_input =
  li_rev :: "string option"
  li_last_modified :: "int option"
  li_reference :: "string option"

definition parse_flake_lock :: "'j json \<Rightarrow> string \<Rightarrow> string \<Rightarrow> locked_input option" where
  "parse_flake_lock js text input =
     Option.bind (js_from_str js text) (\<lambda>root.
     Option.bind (Option.bind (js_get js root ''nodes'') (\<lambda>n. js_get js n input)) (\<lambda>node.
     let locked = js_get js node ''locked''
     in Some
       \<lparr>li_rev = Option.bind (Option.bind locked (\<lambda>l. js_get js l ''rev'')) (js_as_str js),
        li_last_modified = Option.bind (Option.bind locked (\<lambda>l. js_get js l ''lastModified'')) (js_as_i64 js),
        li_reference = Option.bind (Option.bind (js_get js node ''original'') (\<lambda>x. js_get js x ''ref'')) (js_as_str js)\<rparr>))"

section \<open>Lemmas\<close>

lemma f64_of_int_mono: "0 \<le> a \<Longrightarrow> a \<le> b \<Longrightarrow> f64_of_int a \<le> f64_of_int b"
proof (cases "a = 0")
  case True
  assume "a \<le> b"
  with True have "0 \<le> f64_of_int b" by (simp add: f64_of_int_def f64_round_nonneg)
  with True show ?thesis by (simp add: f64_of_int_def f64_round_def)
qed (simp add: f64_of_int_def f64_round_mono)

lemma f64_round_le_int:
  assumes "0 \<le> x" "x \<le> of_int n" "n < 2 ^ 53"
  shows "f64_round x \<le> of_int n"
proof (cases "x = 0")
  case True
  with assms show ?thesis by (simp add: f64_round_def)
next
  case False
  with assms(1,2) have "f64_round x \<le> f64_round (of_int n)" by (intro f64_round_mono) auto
  moreover have "\<bar>n\<bar> < 2 ^ 53"
  proof -
    have "(0 :: rat) \<le> of_int n" using assms(1,2) by (rule order_trans)
    with assms(3) show ?thesis by simp
  qed
  ultimately show ?thesis by (simp add: f64_round_int)
qed

lemma push_char_ascii [simp]: "b < 0x80 \<Longrightarrow> push_char b = [b]"
  by (simp add: push_char_def)

lemma length_push_char: "length (push_char b) = (if b < 0x80 then 1 else 2)"
  by (simp add: push_char_def)

lemma unescape_plain: "b \<noteq> 0x5C \<Longrightarrow> unescape_loop (b # bs) = push_char b @ unescape_loop bs"
  by simp

lemma unescape_no_backslash: "0x5C \<notin> set bs \<Longrightarrow> unescape_loop bs = concat (map push_char bs)"
  by (induction bs) (auto simp: unescape_plain simp del: unescape_loop.simps(2))

text \<open>The escape the kernel writes for a byte, and an encoder that escapes the bytes it has to.\<close>

definition octal_char :: "nat \<Rightarrow> byte" where
  "octal_char d = of_char (char_of (48 + d))"

definition mount_enc :: "(byte \<Rightarrow> bool) \<Rightarrow> byte list \<Rightarrow> byte list" where
  "mount_enc escaped bs =
     concat (map (\<lambda>b. if escaped b
       then [0x5C, octal_char (unat b div 64), octal_char (unat b div 8 mod 8), octal_char (unat b mod 8)] else [b]) bs)"

lemma octal_digit:
  assumes "d < 8"
  shows "char_digit 8 (char_of (48 + d)) = Some d" "octal_char d < 0x80" "char_of (48 + d) \<noteq> CHR ''+''"
  using assms
  by (auto simp: char_digit_def octal_char_def Let_def intro!: of_char_less_ascii dest!: arg_cong [of _ _ "of_char :: char \<Rightarrow> nat"])

lemma octal_triple:
  assumes "u < 4" "v < 8" "w < 8"
  shows "Option.bind (from_utf8 [octal_char u, octal_char v, octal_char w]) (from_str_radix 256 8) = Some (64 * u + 8 * v + w)"
proof -
  have "utf8_valid [octal_char u, octal_char v, octal_char w]"
    using assms octal_digit(2) by (intro utf8_valid_ascii) auto
  moreover have "str_of_bytes [octal_char u, octal_char v, octal_char w] = [char_of (48 + u), char_of (48 + v), char_of (48 + w)]"
    using str_of_bytes_of_str [of "[char_of (48 + u), char_of (48 + v), char_of (48 + w)]"] by (simp add: octal_char_def)
  ultimately show ?thesis
    using assms octal_digit(3) [of u] by (simp add: from_utf8_def from_str_radix_def octal_digit(1) del: str_of_bytes_simps utf8_valid.simps)
qed

lemma unescape_escape:
  "unescape_loop (0x5C # octal_char (unat b div 64) # octal_char (unat b div 8 mod 8) # octal_char (unat b mod 8) # bs) =
     push_char b @ unescape_loop bs"
proof -
  have "unat b < 256" using unsigned_less [of b] by simp
  moreover have "unat b div 64 = unat b div 8 div 8" by (simp flip: div_mult2_eq)
  then have "64 * (unat b div 64) + 8 * (unat b div 8 mod 8) + unat b mod 8 = unat b"
    using mult_div_mod_eq [of 8 "unat b div 8"] mult_div_mod_eq [of 8 "unat b"] by linarith
  ultimately have "unat b div 64 < 4" "64 * (unat b div 64) + 8 * (unat b div 8 mod 8) + unat b mod 8 = unat b" by auto
  with octal_triple [of "unat b div 64" "unat b div 8 mod 8" "unat b mod 8"] show ?thesis
    by (simp add: slice_get_def)
qed

lemma unescape_mount_enc:
  "escaped 0x5C \<Longrightarrow> unescape_loop (mount_enc escaped bs) = concat (map push_char bs)"
proof (induction bs)
  case (Cons b bs)
  then show ?case
    using unescape_escape [of b "mount_enc escaped bs"] unescape_plain [of b "mount_enc escaped bs"]
    by (cases "escaped b") (auto simp: mount_enc_def simp del: unescape_loop.simps(2))
qed (simp add: mount_enc_def)

lemma concat_push_char_ascii: "(\<forall>b \<in> set bs. b < 0x80) \<Longrightarrow> concat (map push_char bs) = bs"
  by (induction bs) auto

lemma length_concat_push_char: "length (concat (map push_char bs)) = length bs + length (filter (\<lambda>b. 0x80 \<le> b) bs)"
  by (induction bs) (auto simp: length_push_char simp flip: linorder_not_less)

lemma concat_push_char_eq: "concat (map push_char bs) = bs \<longleftrightarrow> (\<forall>b \<in> set bs. b < 0x80)"
proof
  assume "concat (map push_char bs) = bs"
  with length_concat_push_char [of bs] show "\<forall>b \<in> set bs. b < 0x80" by (auto simp: filter_empty_conv not_le)
qed (rule concat_push_char_ascii)

text \<open>The mounts listed, shadowed ones included.\<close>

definition listed_mounts :: "string \<Rightarrow> string list \<Rightarrow> mount list" where
  "listed_mounts text exclude = List.map_filter (mount_of_line exclude) (lines_of text)"

lemma remdups_snoc: "remdups (xs @ [x]) = filter (\<lambda>y. y \<noteq> x) (remdups xs) @ [x]"
  by (induction xs) auto

lemma parse_mounts_fold:
  "parse_mounts text exclude =
     fold (\<lambda>m ms. filter (\<lambda>x. mo_mountpoint x \<noteq> mo_mountpoint m) ms @ [m]) (listed_mounts text exclude) []"
proof -
  have "fold (add_mount exclude) ls acc =
      fold (\<lambda>m ms. filter (\<lambda>x. mo_mountpoint x \<noteq> mo_mountpoint m) ms @ [m]) (List.map_filter (mount_of_line exclude) ls) acc"
    for ls acc
    by (induction ls arbitrary: acc) (auto simp: add_mount_def map_filter_simps split: option.splits)
  then show ?thesis by (simp add: parse_mounts_def listed_mounts_def)
qed

lemma fold_last_wins:
  fixes es :: "mount list"
  defines "r \<equiv> fold (\<lambda>m ms. filter (\<lambda>x. mo_mountpoint x \<noteq> mo_mountpoint m) ms @ [m]) es []"
  shows "map mo_mountpoint r = remdups (map mo_mountpoint es) \<and>
    (\<forall>m \<in> set r. \<exists>pre post. es = pre @ m # post \<and> mo_mountpoint m \<notin> mo_mountpoint ` set post)"
  unfolding r_def
proof (induction es rule: rev_induct)
  case (snoc e es)
  let ?r = "fold (\<lambda>m ms. filter (\<lambda>x. mo_mountpoint x \<noteq> mo_mountpoint m) ms @ [m]) es []"
  have "map mo_mountpoint (filter (\<lambda>x. mo_mountpoint x \<noteq> mo_mountpoint e) ?r) =
      filter (\<lambda>y. y \<noteq> mo_mountpoint e) (map mo_mountpoint ?r)"
    by (simp add: filter_map comp_def)
  moreover have "\<exists>pre post. es @ [e] = pre @ m # post \<and> mo_mountpoint m \<notin> mo_mountpoint ` set post"
    if "m \<in> set ?r" "mo_mountpoint m \<noteq> mo_mountpoint e" for m
  proof -
    from snoc.IH that(1) obtain pre post where "es = pre @ m # post" "mo_mountpoint m \<notin> mo_mountpoint ` set post" by blast
    with that(2) show ?thesis by (intro exI [of _ pre] exI [of _ "post @ [e]"]) auto
  qed
  moreover have "\<exists>pre post. es @ [e] = pre @ e # post \<and> mo_mountpoint e \<notin> mo_mountpoint ` set post"
    by (intro exI [of _ es] exI [of _ "[]"]) simp
  ultimately show ?case using snoc.IH by (auto simp: remdups_snoc)
qed simp

section \<open>Properties\<close>

text \<open>
  The busy share is a percentage: it is between 0 and 100 whatever the two samples say,
  rounding included, and it is unknown exactly when a counter ran backwards or the total did
  not advance.
\<close>

theorem utilization_is_a_percentage:
  "(utilization_percent a b = None \<longleftrightarrow> ct_total b \<le> ct_total a \<or> ct_idle b < ct_idle a) \<and>
   (\<forall>u. utilization_percent a b = Some u \<longrightarrow> 0 \<le> u \<and> u \<le> 100)"
proof -
  have "0 \<le> u \<and> u \<le> 100" if u: "utilization_percent a b = Some u" for u
  proof -
    obtain total idle where t: "total \<noteq> (0 :: nat)"
      "u = f64_mul (f64_div (f64_of_int (int (total - idle))) (f64_of_int (int total))) 100"
      using u by (auto simp: utilization_percent_def bind_eq_Some_conv Let_def split: if_splits)
    let ?q = "f64_of_int (int (total - idle)) / f64_of_int (int total)"
    have "f64_of_int 1 \<le> f64_of_int (int total)" using t(1) by (intro f64_of_int_mono) auto
    moreover have one: "f64_of_int 1 = 1" using f64_round_int [of 1] by (simp add: f64_of_int_def)
    moreover have "f64_of_int (int (total - idle)) \<le> f64_of_int (int total)" by (intro f64_of_int_mono) auto
    moreover have "0 \<le> f64_of_int (int (total - idle))" by (simp add: f64_of_int_def f64_round_nonneg)
    ultimately have q: "0 \<le> ?q" "?q \<le> 1" by (simp_all add: divide_le_eq_1)
    with f64_round_le_int [of ?q 1] f64_round_nonneg have r: "0 \<le> f64_round ?q" "f64_round ?q \<le> 1" by auto
    with f64_round_le_int [of "f64_round ?q * 100" 100] f64_round_nonneg show ?thesis
      by (simp add: t(2) f64_mul_def f64_div_def)
  qed
  then show ?thesis
    by (auto simp: utilization_percent_def checked_sub_def Let_def bind_eq_None_conv split: if_splits)
qed

theorem utilization_is_a_percentage_witness:
  "\<exists>u. utilization_percent \<lparr>ct_total = 0, ct_idle = 0\<rparr> \<lparr>ct_total = 3, ct_idle = 1\<rparr> = Some u \<and> 0 \<le> u \<and> u \<le> 100"
proof -
  obtain u where "utilization_percent \<lparr>ct_total = 0, ct_idle = 0\<rparr> \<lparr>ct_total = 3, ct_idle = 1\<rparr> = Some u"
    by (auto simp: utilization_percent_def checked_sub_def Let_def)
  then show ?thesis using utilization_is_a_percentage by blast
qed

text \<open>
  A mountpoint is measured once, as the mount visible at it: the mountpoints are those of the
  lines whose type is not excluded, in the order of their last lines, and each mount is the
  last one listed for its mountpoint.
\<close>

theorem parse_mounts_keeps_visible:
  "map mo_mountpoint (parse_mounts text exclude) = remdups (map mo_mountpoint (listed_mounts text exclude)) \<and>
   (\<forall>m \<in> set (parse_mounts text exclude). \<exists>pre post.
      listed_mounts text exclude = pre @ m # post \<and> mo_mountpoint m \<notin> mo_mountpoint ` set post)"
  unfolding parse_mounts_fold by (rule fold_last_wins)

theorem parse_mounts_keeps_visible_witness:
  "map mo_device (parse_mounts ''a /x ext4
b /x ext4'' [''tmpfs'']) = [''b''] \<and>
   map mo_mountpoint (parse_mounts ''a /x ext4
b /x ext4'' [''tmpfs'']) = remdups [''/x'', ''/x'']"
proof -
  have "map mo_device (parse_mounts ''a /x ext4
b /x ext4'' [''tmpfs'']) = [''b'']" "map mo_mountpoint (listed_mounts ''a /x ext4
b /x ext4'' [''tmpfs'']) = [''/x'', ''/x'']" by code_simp+
  then show ?thesis using parse_mounts_keeps_visible [of "''a /x ext4
b /x ext4''" "[''tmpfs'']"] by simp
qed

text \<open>
  C37. What becomes of a mount field that the kernel wrote, whichever bytes it escaped (the
  backslash among them): every byte below 128 comes back as it was and every byte from 128 up
  as the two bytes of the character with its number. So the field is read back exactly when it
  is ASCII, and comes back longer by the number of its other bytes.
\<close>

theorem mount_field_read_back_iff_ascii:
  assumes "escaped 0x5C"
  shows "unescape_mount_field (str_of_bytes (mount_enc escaped bs)) =
      str_of_bytes (concat (map (\<lambda>b. if b < 0x80 then [b] else [0xC0 OR drop_bit 6 b, 0x80 OR (b AND 0x3F)]) bs)) \<and>
    length (unescape_mount_field (str_of_bytes (mount_enc escaped bs))) = length bs + length (filter (\<lambda>b. 0x80 \<le> b) bs) \<and>
    (unescape_mount_field (str_of_bytes (mount_enc escaped bs)) = str_of_bytes bs \<longleftrightarrow> (\<forall>b \<in> set bs. b < 0x80))"
proof -
  have inj: "str_of_bytes xs = str_of_bytes ys \<longleftrightarrow> xs = ys" for xs ys
    by (metis bytes_of_str_of_bytes)
  have eq: "unescape_mount_field (str_of_bytes (mount_enc escaped bs)) = str_of_bytes (concat (map push_char bs))"
    by (simp add: unescape_mount_field_def unescape_mount_enc [of escaped, OF assms])
  have "push_char = (\<lambda>b. if b < 0x80 then [b] else [0xC0 OR drop_bit 6 b, 0x80 OR (b AND 0x3F)])"
    by (simp add: push_char_def fun_eq_iff)
  with eq show ?thesis by (simp add: length_concat_push_char inj concat_push_char_eq)
qed

theorem mount_field_read_back_iff_ascii_witness:
  "unescape_mount_field (''/My'' @ CHR 0x5C # ''040Disk'') = ''/My Disk'' \<and>
   unescape_mount_field [CHR 0xC3, CHR 0xA9] \<noteq> [CHR 0xC3, CHR 0xA9]"
proof -
  let ?esc = "\<lambda>b. b = 0x20 \<or> b = 0x5C"
  have "str_of_bytes (mount_enc ?esc (bytes_of_str ''/My Disk'')) = ''/My'' @ CHR 0x5C # ''040Disk''"
    "\<forall>b \<in> set (bytes_of_str ''/My Disk''). b < 0x80"
    "str_of_bytes (mount_enc ?esc [0xC3, 0xA9]) = [CHR 0xC3, CHR 0xA9]" "str_of_bytes [0xC3, 0xA9] = [CHR 0xC3, CHR 0xA9]"
    by code_simp+
  moreover have "unescape_mount_field (str_of_bytes (mount_enc ?esc bs)) = str_of_bytes bs \<longleftrightarrow> (\<forall>b \<in> set bs. b < 0x80)" for bs
    using mount_field_read_back_iff_ascii [of ?esc bs] by blast
  from this [of "bytes_of_str ''/My Disk''"] this [of "[0xC3, 0xA9]"] calculation show ?thesis
    by (simp add: word_less_nat_alt del: bytes_of_str_simps str_of_bytes_simps)
qed

end
