(* ===== verification/Rust_Map.thy ===== *)
theory Rust_Map
  imports Main "HOL-Library.Char_ord" "HOL-Library.List_Lexorder"
begin

text \<open>
  \<open>BTreeMap\<close>: an association list in the order of its keys, which is the order it iterates in.
  \<open>bt_update\<close> is \<open>entry(k)\<close> followed by a change of the value found or the default.
\<close>

fun bt_update :: "'k::linorder \<Rightarrow> ('v option \<Rightarrow> 'v) \<Rightarrow> ('k \<times> 'v) list \<Rightarrow> ('k \<times> 'v) list" where
  "bt_update k f [] = [(k, f None)]"
| "bt_update k f ((k', v) # m) =
     (if k < k' then (k, f None) # (k', v) # m
      else if k = k' then (k', f (Some v)) # m
      else (k', v) # bt_update k f m)"

definition bt_insert :: "'k::linorder \<Rightarrow> 'v \<Rightarrow> ('k \<times> 'v) list \<Rightarrow> ('k \<times> 'v) list" where
  "bt_insert k v m = bt_update k (\<lambda>_. v) m"

definition bt_wf :: "('k::linorder \<times> 'v) list \<Rightarrow> bool" where
  "bt_wf m \<longleftrightarrow> sorted_wrt (<) (map fst m)"

text \<open>What a map keyed by an ordered type promises its clients.\<close>

locale ordered_map =
  fixes update :: "'k::linorder \<Rightarrow> ('v option \<Rightarrow> 'v) \<Rightarrow> 'm \<Rightarrow> 'm"
    and find :: "'m \<Rightarrow> 'k \<Rightarrow> 'v option"
    and entries :: "'m \<Rightarrow> ('k \<times> 'v) list"
    and ok :: "'m \<Rightarrow> bool"
  assumes ok_update: "ok m \<Longrightarrow> ok (update k f m)"
    and find_update: "ok m \<Longrightarrow> find (update k f m) k' = (if k' = k then Some (f (find m k)) else find m k')"
    and entries_find: "ok m \<Longrightarrow> find m k = map_of (entries m) k"
    and entries_sorted: "ok m \<Longrightarrow> sorted_wrt (<) (map fst (entries m))"
begin

text \<open>Folding updates over a list of observations, each with its key.\<close>

lemma ok_fold: "ok m \<Longrightarrow> ok (fold (\<lambda>x. update (key x) (g x)) xs m)"
  by (induction xs arbitrary: m) (simp_all add: ok_update)

lemma find_fold:
  "ok m \<Longrightarrow> find (fold (\<lambda>x. update (key x) (g x)) xs m) k =
     fold (\<lambda>x v. Some (g x v)) (filter (\<lambda>x. key x = k) xs) (find m k)"
  by (induction xs arbitrary: m) (auto simp: ok_update find_update)

lemma keys_fold:
  assumes "ok m" "entries m = []"
  shows "set (map fst (entries (fold (\<lambda>x. update (key x) (g x)) xs m))) = key ` set xs"
proof -
  let ?m = "fold (\<lambda>x. update (key x) (g x)) xs m"
  have some: "fold (\<lambda>x v. Some (g x v)) ys (Some w) \<noteq> None" for ys w
    by (induction ys arbitrary: w) auto
  have "k \<in> set (map fst (entries ?m)) \<longleftrightarrow> find ?m k \<noteq> None" for k
    unfolding entries_find [OF ok_fold [OF assms(1)]] by (metis map_of_eq_None_iff set_map)
  moreover have "find ?m k \<noteq> None \<longleftrightarrow> k \<in> key ` set xs" for k
    using find_fold [OF assms(1), of key g xs k] entries_find [OF assms(1), of k] assms(2) some
    by (cases "filter (\<lambda>x. key x = k) xs") (auto simp: filter_empty_conv filter_eq_Cons_iff)
  ultimately show ?thesis by blast
qed

end

lemma bt_update_keys: "set (map fst (bt_update k f m)) = insert k (set (map fst m))"
  by (induction k f m rule: bt_update.induct) auto

lemma bt_wf_update: "bt_wf m \<Longrightarrow> bt_wf (bt_update k f m)"
proof (induction k f m rule: bt_update.induct)
  case (2 k f k' v m)
  from "2.prems" have "\<forall>x \<in> set (map fst m). k' < x" "bt_wf m" by (auto simp: bt_wf_def)
  with 2 show ?case
    using bt_update_keys [of k f m] by (auto simp: bt_wf_def)
qed (simp add: bt_wf_def)

lemma map_of_bt_update:
  "bt_wf m \<Longrightarrow> map_of (bt_update k f m) k' = (if k' = k then Some (f (map_of m k)) else map_of m k')"
proof (induction k f m rule: bt_update.induct)
  case (2 k f k1 v m)
  from "2.prems" have "\<forall>x \<in> set (map fst m). k1 < x" "bt_wf m" by (auto simp: bt_wf_def)
  moreover have "map_of m k = None" if "k < k1"
    using calculation(1) that by (auto simp: map_of_eq_None_iff)
  ultimately show ?case using 2 by auto
qed simp

interpretation btree: ordered_map bt_update map_of "\<lambda>m. m" bt_wf
  by unfold_locales (auto simp: bt_wf_update map_of_bt_update, simp add: bt_wf_def)

lemma bt_wf_Nil [simp]: "bt_wf []"
  by (simp add: bt_wf_def)

end
