(* ===== verification/Sys_Smart.thy ===== *)
theory Sys_Smart
  imports Sys_Block Sys_Collect Rust_Map
begin

text \<open>
  \<open>packages/system-metrics/src/smart.rs\<close>: what \<open>smartctl --json\<close> reports of a drive.
\<close>

section \<open>Model\<close>

record scan_device =
  sd_name :: string
  sd_dev_type :: "string option"

definition scan_device_of :: "'j json \<Rightarrow> 'j \<Rightarrow> scan_device option" where
  "scan_device_of js device =
     Option.bind (Option.bind (js_get js device ''name'') (js_as_str js)) (\<lambda>name.
       Some \<lparr>sd_name = name,
             sd_dev_type = Option.bind (Option.bind (js_get js device ''type'') (js_as_str js))
               (\<lambda>t. if t = [] then None else Some t)\<rparr>)"

definition parse_scan :: "'j json \<Rightarrow> string \<Rightarrow> scan_device list" where
  "parse_scan js text =
     (case js_from_str js text of
        None \<Rightarrow> []
      | Some doc \<Rightarrow>
          (case Option.bind (js_get js doc ''devices'') (js_as_array js) of
             None \<Rightarrow> []
           | Some devices \<Rightarrow> List.map_filter (scan_device_of js) devices))"

record nvme_health =
  nh_percentage_used :: "int option"
  nh_available_spare :: "int option"
  nh_media_errors :: "int option"
  nh_unsafe_shutdowns :: "int option"
  nh_critical_warning :: "int option"

record sata_health =
  sh_attributes :: "(string \<times> int) list"
  sh_failing_now :: nat
  sh_failed_past :: nat

definition SATA_ATTRIBUTES :: "(nat \<times> string) list" where
  "SATA_ATTRIBUTES =
     [(5, ''reallocated_sector_ct''), (187, ''reported_uncorrect''), (188, ''command_timeout''),
      (197, ''current_pending_sector''), (198, ''offline_uncorrectable''), (12, ''power_cycle_count''),
      (199, ''udma_crc_error_count''), (177, ''wear_leveling_count''), (241, ''total_lbas_written'')]"

record drive =
  dr_serial :: "string option"
  dr_model :: "string option"
  dr_kind :: "drive_kind option"
  dr_passed :: "bool option"
  dr_power_on_hours :: "int option"
  dr_nvme :: "nvme_health option"
  dr_sata :: "sata_health option"

definition smart_kind :: "'j json \<Rightarrow> 'j \<Rightarrow> drive_kind option" where
  "smart_kind js doc =
     (let protocol = Option.bind (Option.bind (js_get js doc ''device'') (\<lambda>d. js_get js d ''protocol'')) (js_as_str js)
      in if protocol = Some ''NVMe'' then Some Nvme
         else if protocol = Some ''ATA'' \<or> protocol = Some ''SATA'' then Some Sata
         else if js_get js doc ''nvme_smart_health_information_log'' \<noteq> None then Some Nvme
         else if js_get js doc ''ata_smart_attributes'' \<noteq> None then Some Sata
         else None)"

definition nvme_health_of :: "'j json \<Rightarrow> 'j \<Rightarrow> nvme_health option" where
  "nvme_health_of js doc =
     map_option (\<lambda>health.
       let num = (\<lambda>name. Option.bind (js_get js health name) (js_as_i64 js))
       in \<lparr>nh_percentage_used = num ''percentage_used'', nh_available_spare = num ''available_spare'',
           nh_media_errors = num ''media_errors'', nh_unsafe_shutdowns = num ''unsafe_shutdowns'',
           nh_critical_warning = num ''critical_warning''\<rparr>)
     (js_get js doc ''nvme_smart_health_information_log'')"

definition when_failed :: "'j json \<Rightarrow> 'j \<Rightarrow> string option" where
  "when_failed js entry = Option.bind (js_get js entry ''when_failed'') (js_as_str js)"

definition attribute_id :: "'j json \<Rightarrow> 'j \<Rightarrow> nat option" where
  "attribute_id js entry = Option.bind (js_get js entry ''id'') (js_as_u64 js)"

definition raw_value :: "'j json \<Rightarrow> 'j \<Rightarrow> int option" where
  "raw_value js entry = Option.bind (Option.bind (js_get js entry ''raw'') (\<lambda>r. js_get js r ''value'')) (js_as_i64 js)"

definition sata_entry :: "'j json \<Rightarrow> 'j \<Rightarrow> sata_health \<Rightarrow> sata_health" where
  "sata_entry js entry health =
     (let health = (if when_failed js entry = Some ''now'' then health\<lparr>sh_failing_now := sh_failing_now health + 1\<rparr>
                    else if when_failed js entry = Some ''past'' then health\<lparr>sh_failed_past := sh_failed_past health + 1\<rparr>
                    else health)
      in case Option.bind (attribute_id js entry) (\<lambda>i. find (\<lambda>(known, _). known = i) SATA_ATTRIBUTES) of
           None \<Rightarrow> health
         | Some (_, name) \<Rightarrow>
             (case raw_value js entry of
                None \<Rightarrow> health
              | Some raw \<Rightarrow> health\<lparr>sh_attributes := bt_insert name raw (sh_attributes health)\<rparr>))"

definition sata_health_of :: "'j json \<Rightarrow> 'j \<Rightarrow> sata_health option" where
  "sata_health_of js doc =
     map_option (\<lambda>table. fold (sata_entry js) table \<lparr>sh_attributes = [], sh_failing_now = 0, sh_failed_past = 0\<rparr>)
       (Option.bind (Option.bind (js_get js doc ''ata_smart_attributes'') (\<lambda>a. js_get js a ''table'')) (js_as_array js))"

definition parse_smart :: "'j json \<Rightarrow> string \<Rightarrow> drive option" where
  "parse_smart js text =
     map_option (\<lambda>doc.
       let kind = smart_kind js doc
       in \<lparr>dr_serial = Option.bind (js_get js doc ''serial_number'') (js_as_str js),
           dr_model = Option.bind (js_get js doc ''model_name'') (js_as_str js),
           dr_kind = kind,
           dr_passed = Option.bind (Option.bind (js_get js doc ''smart_status'') (\<lambda>s. js_get js s ''passed'')) (js_as_bool js),
           dr_power_on_hours = Option.bind (Option.bind (js_get js doc ''power_on_time'') (\<lambda>t. js_get js t ''hours'')) (js_as_i64 js),
           dr_nvme = (if kind = Some Nvme then nvme_health_of js doc else None),
           dr_sata = (if kind = Some Sata then sata_health_of js doc else None)\<rparr>)
     (js_from_str js text)"

section \<open>Lemmas\<close>

text \<open>The last raw value the table has for an id.\<close>

definition last_raw :: "'j json \<Rightarrow> nat \<Rightarrow> 'j list \<Rightarrow> int option" where
  "last_raw js i table =
     (let raws = List.map_filter (\<lambda>e. if attribute_id js e = Some i then raw_value js e else None) table
      in if raws = [] then None else Some (last raws))"

lemma sata_find: "find (\<lambda>(known, _). known = i) SATA_ATTRIBUTES = Some (j, name) \<longleftrightarrow> i = j \<and> (i, name) \<in> set SATA_ATTRIBUTES"
  by (auto simp: SATA_ATTRIBUTES_def split: if_splits)

lemma sata_find_None: "find (\<lambda>(known, _). known = i) SATA_ATTRIBUTES = None \<longleftrightarrow> i \<notin> fst ` set SATA_ATTRIBUTES"
  by (auto simp: SATA_ATTRIBUTES_def split: if_splits)

lemma sata_names: "(i, name) \<in> set SATA_ATTRIBUTES \<Longrightarrow> (j, name) \<in> set SATA_ATTRIBUTES \<Longrightarrow> i = j"
  by (auto simp: SATA_ATTRIBUTES_def)

lemma last_raw_snoc:
  "last_raw js i (table @ [e]) =
     (if attribute_id js e = Some i \<and> raw_value js e \<noteq> None then raw_value js e else last_raw js i table)"
  by (auto simp: last_raw_def Let_def List.map_filter_def)

lemma sata_entry_attributes:
  assumes "bt_wf (sh_attributes h)" "(i, name) \<in> set SATA_ATTRIBUTES"
  shows "bt_wf (sh_attributes (sata_entry js e h)) \<and>
    map_of (sh_attributes (sata_entry js e h)) name =
      (if attribute_id js e = Some i \<and> raw_value js e \<noteq> None then raw_value js e else map_of (sh_attributes h) name)"
proof (cases "Option.bind (attribute_id js e) (\<lambda>i. find (\<lambda>(known, _). known = i) SATA_ATTRIBUTES)")
  case None
  with assms have "attribute_id js e \<noteq> Some i" by (auto simp: sata_find_None bind_eq_None_conv) (metis fst_conv image_eqI)
  with None assms show ?thesis by (auto simp: sata_entry_def Let_def)
next
  case (Some jn)
  obtain j n where jn: "jn = (j, n)" by fastforce
  with Some have id: "attribute_id js e = Some j" "(j, n) \<in> set SATA_ATTRIBUTES"
    by (auto simp: bind_eq_Some_conv sata_find)
  have "n = name \<longleftrightarrow> j = i"
    using id(2) assms(2) sata_names sata_find by (metis Some bind.bind_lunit id(1) jn option.inject prod.inject)
  with id assms Some jn show ?thesis
    by (auto simp: sata_entry_def Let_def bt_insert_def bt_wf_update map_of_bt_update split: option.splits)
qed

lemma sata_entry_counts:
  "sh_failing_now (sata_entry js e h) = sh_failing_now h + (if when_failed js e = Some ''now'' then 1 else 0)"
  "sh_failed_past (sata_entry js e h) = sh_failed_past h + (if when_failed js e = Some ''past'' then 1 else 0)"
  by (auto simp: sata_entry_def Let_def split: option.splits)

section \<open>Properties\<close>

text \<open>
  The SATA table is reduced faithfully: every reported attribute is the last raw value the
  table has for its id, absent when there is none, and the two counts are the numbers of
  attributes the drive says are failing and have failed, known to this program or not.
\<close>

theorem sata_table_faithful:
  assumes "(i, name) \<in> set SATA_ATTRIBUTES"
  shows "let h = fold (sata_entry js) table \<lparr>sh_attributes = [], sh_failing_now = 0, sh_failed_past = 0\<rparr> in
    map_of (sh_attributes h) name = last_raw js i table \<and>
    sh_failing_now h = length (filter (\<lambda>e. when_failed js e = Some ''now'') table) \<and>
    sh_failed_past h = length (filter (\<lambda>e. when_failed js e = Some ''past'') table)"
proof -
  let ?h = "\<lambda>t. fold (sata_entry js) t \<lparr>sh_attributes = [], sh_failing_now = 0, sh_failed_past = 0\<rparr>"
  have "bt_wf (sh_attributes (?h table)) \<and> map_of (sh_attributes (?h table)) name = last_raw js i table \<and>
    sh_failing_now (?h table) = length (filter (\<lambda>e. when_failed js e = Some ''now'') table) \<and>
    sh_failed_past (?h table) = length (filter (\<lambda>e. when_failed js e = Some ''past'') table)"
  proof (induction table rule: rev_induct)
    case (snoc e table)
    with sata_entry_attributes [of "?h table" i name js e] assms show ?case
      by (auto simp: last_raw_snoc sata_entry_counts)
  qed (simp add: last_raw_def map_filter_simps)
  then show ?thesis by (simp add: Let_def)
qed

text \<open>A JSON value as the accessors see it, for concrete inputs.\<close>

datatype demo_json = DNum int | DStr string | DObj "(string \<times> demo_json) list" | DArr "demo_json list" | DBool bool

definition demo_js :: "demo_json json" where
  "demo_js = \<lparr>js_from_str = (\<lambda>s. Some (DStr s)),
     js_get = (\<lambda>v k. case v of DObj kvs \<Rightarrow> map_of kvs k | _ \<Rightarrow> None),
     js_as_str = (\<lambda>v. case v of DStr s \<Rightarrow> Some s | _ \<Rightarrow> None),
     js_as_i64 = (\<lambda>v. case v of DNum n \<Rightarrow> Some n | _ \<Rightarrow> None),
     js_as_u64 = (\<lambda>v. case v of DNum n \<Rightarrow> if 0 \<le> n then Some (nat n) else None | _ \<Rightarrow> None),
     js_as_bool = (\<lambda>v. case v of DBool b \<Rightarrow> Some b | _ \<Rightarrow> None),
     js_as_array = (\<lambda>v. case v of DArr vs \<Rightarrow> Some vs | _ \<Rightarrow> None)\<rparr>"

theorem sata_table_faithful_witness:
  "map_of (sh_attributes (fold (sata_entry demo_js)
      [DObj [(''id'', DNum 5), (''raw'', DObj [(''value'', DNum 7)]), (''when_failed'', DStr ''now'')]]
      \<lparr>sh_attributes = [], sh_failing_now = 0, sh_failed_past = 0\<rparr>)) ''reallocated_sector_ct'' = Some 7"
proof -
  let ?t = "[DObj [(''id'', DNum 5), (''raw'', DObj [(''value'', DNum 7)]), (''when_failed'', DStr ''now'')]]"
  have "(5, ''reallocated_sector_ct'') \<in> set SATA_ATTRIBUTES" "last_raw demo_js 5 ?t = Some 7" by code_simp+
  with sata_table_faithful [of 5 "''reallocated_sector_ct''" demo_js ?t] show ?thesis by (simp add: Let_def)
qed

end
