(* ===== verification/Sys_Chrony.thy ===== *)
theory Sys_Chrony
  imports Sys_Collect
begin

text \<open>
  \<open>packages/system-metrics/src/chrony.rs\<close>: the CSV that \<open>chronyc -c\<close> prints of its sources and their
  authentication, joined to the configured providers by host name.
\<close>

section \<open>Model\<close>

definition NEVER_SECONDS :: nat where "NEVER_SECONDS = 2 ^ 32 - 1"

definition interval_seconds :: "string \<Rightarrow> nat option" where
  "interval_seconds raw =
     Option.bind (parse_u64 (trim raw)) (\<lambda>n. if n = NEVER_SECONDS then None else Some n)"

definition parse_reach :: "string \<Rightarrow> nat option" where
  "parse_reach raw = from_str_radix 256 8 (trim raw)"

definition state_name :: "string \<Rightarrow> string option" where
  "state_name raw =
     (let s = trim raw
      in if s = ''*'' then Some ''selected''
         else if s = ''+'' then Some ''combined''
         else if s = ''-'' then Some ''selectable''
         else if s = ''x'' then Some ''falseticker''
         else if s = ''~'' then Some ''jittery''
         else if s = ''?'' then Some ''unselectable''
         else None)"

definition auth_mode_name :: "string \<Rightarrow> string option" where
  "auth_mode_name raw =
     (let s = trim raw
      in if s = ''NTS'' then Some ''nts''
         else if s = ''SK'' then Some ''symmetric''
         else if s = ''-'' then Some ''none''
         else None)"

definition poll_seconds :: "string \<Rightarrow> f64_value option" where
  "poll_seconds raw = map_option f64_pow2 (parse_i32 (trim raw))"

definition csv_fields :: "string \<Rightarrow> string list" where
  "csv_fields line = split_on (CHR '','') line"

record source =
  so_name :: string
  so_state :: "string option"
  so_stratum :: "int option"
  so_poll_seconds :: "f64_value option"
  so_reach :: "nat option"
  so_last_rx_seconds :: "nat option"
  so_offset_seconds :: "f64_value option"

definition source_of_line :: "string \<Rightarrow> source option" where
  "source_of_line line =
     (let f = csv_fields line
      in if length f < 8 then None
         else Some \<lparr>so_name = trim (f ! 2), so_state = state_name (f ! 1), so_stratum = parse_i64 (trim (f ! 3)),
                    so_poll_seconds = poll_seconds (f ! 4), so_reach = parse_reach (f ! 5),
                    so_last_rx_seconds = interval_seconds (f ! 6), so_offset_seconds = parse_f64 (trim (f ! 7))\<rparr>)"

definition parse_sources :: "string \<Rightarrow> source list" where
  "parse_sources text = List.map_filter source_of_line (lines_of text)"

record auth_data =
  au_name :: string
  au_mode :: "string option"
  au_key_id :: "int option"
  au_last_ke_seconds :: "nat option"
  au_ke_attempts :: "int option"
  au_naks :: "int option"
  au_cookies :: "int option"

definition auth_of_line :: "string \<Rightarrow> auth_data option" where
  "auth_of_line line =
     (let f = csv_fields line
      in if length f < 9 then None
         else Some \<lparr>au_name = trim (f ! 0), au_mode = auth_mode_name (f ! 1), au_key_id = parse_i64 (trim (f ! 2)),
                    au_last_ke_seconds = interval_seconds (f ! 5), au_ke_attempts = parse_i64 (trim (f ! 6)),
                    au_naks = parse_i64 (trim (f ! 7)), au_cookies = parse_i64 (trim (f ! 8))\<rparr>)"

definition parse_authdata :: "string \<Rightarrow> auth_data list" where
  "parse_authdata text = List.map_filter auth_of_line (lines_of text)"

record nts_provider =
  np_name :: string
  np_hostname :: string
  np_operator :: string

datatype provider_error = NotNameValue string | NothingAfterAt string | EmptyComponent string

definition parse_provider :: "string \<Rightarrow> (provider_error, nts_provider) result" where
  "parse_provider spec =
     res_bind (ok_or (NotNameValue spec) (split_once (CHR ''='') spec)) (\<lambda>(name, rest).
     res_bind (ok_or (NothingAfterAt spec) (split_once (CHR ''@'') rest)) (\<lambda>(hostname, operator).
       if name = [] \<or> hostname = [] \<or> operator = [] then Inl (EmptyComponent spec)
       else Inr \<lparr>np_name = name, np_hostname = hostname, np_operator = operator\<rparr>))"

record nts_status =
  nst_reachable :: "bool option"
  nst_reach :: "nat option"
  nst_state :: "string option"
  nst_stratum :: "int option"
  nst_poll_seconds :: "f64_value option"
  nst_last_rx_seconds :: "nat option"
  nst_offset_seconds :: "f64_value option"
  nst_auth_mode :: "string option"
  nst_ke_count :: "int option"
  nst_ke_attempts :: "int option"
  nst_last_ke_seconds :: "nat option"
  nst_cookies :: "int option"
  nst_naks :: "int option"

definition nts_status_of :: "source option \<Rightarrow> auth_data option \<Rightarrow> nts_status" where
  "nts_status_of src auth =
     \<lparr>nst_reachable = map_option (\<lambda>r. r \<noteq> 0) (Option.bind src so_reach),
      nst_reach = Option.bind src so_reach,
      nst_state = Option.bind src so_state,
      nst_stratum = Option.bind src so_stratum,
      nst_poll_seconds = Option.bind src so_poll_seconds,
      nst_last_rx_seconds = Option.bind src so_last_rx_seconds,
      nst_offset_seconds = Option.bind src so_offset_seconds,
      nst_auth_mode = Option.bind auth au_mode,
      nst_ke_count = Option.bind auth au_key_id,
      nst_ke_attempts = Option.bind auth au_ke_attempts,
      nst_last_ke_seconds = Option.bind auth au_last_ke_seconds,
      nst_cookies = Option.bind auth au_cookies,
      nst_naks = Option.bind auth au_naks\<rparr>"

definition nts_statuses :: "nts_provider list \<Rightarrow> string \<Rightarrow> string \<Rightarrow> nts_status list" where
  "nts_statuses providers sources authdata =
     (let ss = parse_sources sources; as = parse_authdata authdata
      in map (\<lambda>p. nts_status_of (find (\<lambda>s. so_name s = np_hostname p) ss) (find (\<lambda>a. au_name a = np_hostname p) as))
           providers)"

section \<open>Lemmas\<close>

text \<open>How \<open>%o\<close> prints a number.\<close>

fun octal_str :: "nat \<Rightarrow> string" where
  "octal_str n = (if n < 8 then [char_of (48 + n)] else octal_str (n div 8) @ [char_of (48 + n mod 8)])"

declare octal_str.simps [simp del]

lemma radix_val_append: "radix_val r acc (xs @ ys) = Option.bind (radix_val r acc xs) (\<lambda>a. radix_val r a ys)"
  by (induction xs arbitrary: acc) (auto split: option.splits)

lemma radix_val_octal: "radix_val 8 0 (octal_str n) = Some n"
proof (induction n rule: octal_str.induct)
  case (1 n)
  then show ?case
    by (subst octal_str.simps) (auto simp: radix_val_append octal_digit(1) intro!: mult_div_mod_eq)
qed

lemma octal_str_chars: "c \<in> set (octal_str n) \<Longrightarrow> 48 \<le> (of_char c :: nat) \<and> (of_char c :: nat) \<le> 55"
proof (induction n rule: octal_str.induct)
  case (1 n)
  have "n mod 8 < 8" by simp
  with 1 show ?case by (subst (asm) octal_str.simps) (auto split: if_splits)
qed

lemma octal_str_nonempty [simp]: "octal_str n \<noteq> []"
  by (subst octal_str.simps) simp

lemma plain_octal_str [simp]: "plain (octal_str n)"
  by (auto simp: plain_def dest: octal_str_chars)

lemma parse_reach_octal: "n < 256 \<Longrightarrow> parse_reach (octal_str n) = Some n"
proof -
  assume "n < 256"
  obtain c cs where o: "octal_str n = c # cs" using octal_str_nonempty by (meson list.exhaust)
  then have "c \<noteq> CHR ''+''" using octal_str_chars [of c n] by auto
  with o have "(case octal_str n of [] \<Rightarrow> [] | c # cs \<Rightarrow> if c = CHR ''+'' then cs else octal_str n) = octal_str n" by simp
  with radix_val_octal [of n] \<open>n < 256\<close> show ?thesis
    by (simp add: parse_reach_def trim_plain from_str_radix_def)
qed

lemma interval_seconds_nat_str:
  "n < 2 ^ 64 \<Longrightarrow> interval_seconds (nat_str n) = (if n = NEVER_SECONDS then None else Some n)"
  by (simp add: interval_seconds_def trim_plain parse_u64_def parse_nat_nat_str)

text \<open>A row of comma-separated values.\<close>

fun csv_row :: "string list \<Rightarrow> string" where
  "csv_row [] = []"
| "csv_row [f] = f"
| "csv_row (f # fs) = f @ CHR '','' # csv_row fs"

lemma csv_fields_row: "fs \<noteq> [] \<Longrightarrow> \<forall>f \<in> set fs. CHR '','' \<notin> set f \<Longrightarrow> csv_fields (csv_row fs) = fs"
proof (induction fs rule: csv_row.induct)
  case (2 f)
  then have "CHR '','' \<notin> set f" by simp
  then show ?case unfolding csv_fields_def csv_row.simps by (induction f) auto
next
  case (3 f g fs)
  have "split_on (CHR '','') f = [f]" using "3.prems"(2) by (induction f) auto
  with 3 show ?case by (simp add: csv_fields_def split_on_concat)
qed simp

section \<open>Properties\<close>

text \<open>
  A row chrony prints is read back: the name, the stratum, the reachability register from its
  octal form, and the time since the last packet with the sentinel for never read as absent.
\<close>

theorem source_row_read_back:
  assumes "plain name" "stratum < 2 ^ 63" "reach < 256" "rx < 2 ^ 64"
    and "\<forall>f \<in> set ([m, st, name, poll, off] @ more_fields). CHR '','' \<notin> set f"
  shows "\<exists>s. source_of_line (csv_row ([m, st, name, nat_str stratum, poll, octal_str reach, nat_str rx, off] @ more_fields)) = Some s \<and>
    so_name s = name \<and> so_state s = state_name st \<and> so_stratum s = Some (int stratum) \<and> so_reach s = Some reach \<and>
    so_last_rx_seconds s = (if rx = 2 ^ 32 - 1 then None else Some rx) \<and> so_poll_seconds s = poll_seconds poll \<and>
    so_offset_seconds s = parse_f64 (trim off)"
proof -
  let ?fs = "[m, st, name, nat_str stratum, poll, octal_str reach, nat_str rx, off] @ more_fields"
  have "CHR '','' \<notin> set (nat_str n)" "CHR '','' \<notin> set (octal_str n)" for n
    by (auto dest: nat_str_digits octal_str_chars)
  with assms(5) have "csv_fields (csv_row ?fs) = ?fs" by (intro csv_fields_row) auto
  then show ?thesis
    using assms by (simp add: source_of_line_def trim_plain parse_i64_nat_str parse_reach_octal interval_seconds_nat_str NEVER_SECONDS_def)
qed

theorem source_row_read_back_witness:
  "\<exists>s. source_of_line ''^,?,ptbtime1.ptb.de,1,6,377,4294967295,0.5'' = Some s \<and> so_reach s = Some 255 \<and> so_last_rx_seconds s = None"
proof -
  have "nat_str 1 = ''1''" "octal_str 255 = ''377''" "nat_str 4294967295 = ''4294967295''" "plain ''ptbtime1.ptb.de''"
    by (simp_all add: nat_str.simps octal_str.simps plain_def char_of_def bit_0)
  with source_row_read_back [of "''ptbtime1.ptb.de''" 1 255 4294967295 "''^''" "''?''" "''6''" "''0.5''" "[]"] show ?thesis
    by auto
qed

text \<open>
  The join is by name: a row of either report whose name is not a configured host, such as a
  reference clock, changes no status wherever it stands, and a provider without a row has a
  status with every field absent.
\<close>

theorem nts_statuses_by_name:
  assumes "\<forall>l \<in> set (before @ r # after). row_ok l"
    and "\<And>s. source_of_line r = Some s \<Longrightarrow> so_name s \<notin> np_hostname ` set providers"
    and "\<And>a. auth_of_line r = Some a \<Longrightarrow> au_name a \<notin> np_hostname ` set providers"
  shows "nts_statuses providers (rows (before @ r # after)) other = nts_statuses providers (rows (before @ after)) other \<and>
    nts_statuses providers other (rows (before @ r # after)) = nts_statuses providers other (rows (before @ after)) \<and>
    length (nts_statuses providers other other') = length providers \<and>
    nts_statuses providers [] [] = map (\<lambda>_. nts_status_of None None) providers"
proof -
  have ls: "lines_of (rows (before @ r # after)) = before @ r # after" "lines_of (rows (before @ after)) = before @ after"
    using assms(1) by (simp_all add: lines_of_rows)
  have "find (\<lambda>s. so_name s = np_hostname p) (parse_sources (rows (before @ r # after))) =
      find (\<lambda>s. so_name s = np_hostname p) (parse_sources (rows (before @ after)))" if "p \<in> set providers" for p
    unfolding parse_sources_def ls using assms(2) that by (intro find_extra) auto
  moreover have "find (\<lambda>a. au_name a = np_hostname p) (parse_authdata (rows (before @ r # after))) =
      find (\<lambda>a. au_name a = np_hostname p) (parse_authdata (rows (before @ after)))" if "p \<in> set providers" for p
    unfolding parse_authdata_def ls using assms(3) that by (intro find_extra) auto
  ultimately show ?thesis
    by (simp add: nts_statuses_def Let_def parse_sources_def parse_authdata_def lines_of_def List.map_filter_def)
qed

theorem nts_statuses_by_name_witness:
  "nts_statuses [\<lparr>np_name = ''p'', np_hostname = ''h'', np_operator = ''x''\<rparr>] (rows [''#,*,PPS0,0,4,377,9,0'', ''^,*,h,1,6,377,9,0'']) [] =
   nts_statuses [\<lparr>np_name = ''p'', np_hostname = ''h'', np_operator = ''x''\<rparr>] (rows [''^,*,h,1,6,377,9,0'']) []"
proof -
  let ?p = "[\<lparr>np_name = ''p'', np_hostname = ''h'', np_operator = ''x''\<rparr>]"
  have "source_of_line ''#,*,PPS0,0,4,377,9,0'' = Some s \<Longrightarrow> so_name s = ''PPS0''" "auth_of_line ''#,*,PPS0,0,4,377,9,0'' = None" for s
    by (auto simp: source_of_line_def auth_of_line_def csv_fields_def trim_plain plain_def)
  moreover have "row_ok ''#,*,PPS0,0,4,377,9,0''" "row_ok ''^,*,h,1,6,377,9,0''" by (simp_all add: row_ok_def strip_cr_def)
  ultimately show ?thesis
    using nts_statuses_by_name [of "[]" "''#,*,PPS0,0,4,377,9,0''" "[''^,*,h,1,6,377,9,0'']" ?p "[]"] by fastforce
qed

end
