(* ===== verification/Sys_Systemd.thy ===== *)
theory Sys_Systemd
  imports Sys_Collect Rust_Map
begin

text \<open>
  \<open>packages/system-metrics/src/systemd.rs\<close>: what \<open>systemctl\<close>, \<open>busctl\<close> and \<open>journalctl\<close> print.
\<close>

section \<open>Model\<close>

text \<open>The map is only looked up, so a later line for a key replaces an earlier one.\<close>

definition parse_show_properties :: "string \<Rightarrow> string \<rightharpoonup> string" where
  "parse_show_properties text = map_of (rev (List.map_filter (split_once (CHR ''='')) (lines_of text)))"

definition parse_micros :: "string \<Rightarrow> nat option" where
  "parse_micros raw =
     (let raw = trim raw
      in if raw = [] \<or> raw = ''infinity'' then None
         else Option.bind (parse_u64 raw) (\<lambda>n. if n = 0 \<or> n = 2 ^ 64 - 1 then None else Some n))"

definition is_ascii_alphanumeric :: "char \<Rightarrow> bool" where
  "is_ascii_alphanumeric c \<longleftrightarrow>
     (let n = of_char c :: nat in 48 \<le> n \<and> n \<le> 57 \<or> 65 \<le> n \<and> n \<le> 90 \<or> 97 \<le> n \<and> n \<le> 122)"

definition bus_escape :: "char \<Rightarrow> string" where
  "bus_escape c =
     (if is_ascii_alphanumeric c then [c]
      else [CHR ''_'', hex_char (of_char c div 16), hex_char (of_char c mod 16)])"

definition bus_unit_path :: "string \<Rightarrow> string" where
  "bus_unit_path unit_name = ''/org/freedesktop/systemd1/unit/'' @ concat (map bus_escape unit_name)"

definition parse_busctl_micros :: "string \<Rightarrow> nat option list" where
  "parse_busctl_micros text =
     map (\<lambda>line. Option.bind (strip_prefix (trim line) ''t '') parse_micros)
       (filter (\<lambda>line. trim line \<noteq> []) (lines_of text))"

definition micros_to_seconds :: "nat \<Rightarrow> f64" where
  "micros_to_seconds n = f64_div (f64_of_int (int n)) 1000000"

definition seconds_since :: "nat \<Rightarrow> nat \<Rightarrow> f64 option" where
  "seconds_since now_micros then_micros = map_option micros_to_seconds (checked_sub now_micros then_micros)"

definition seconds_until :: "nat \<Rightarrow> nat \<Rightarrow> f64 option" where
  "seconds_until now_micros then_micros = map_option micros_to_seconds (checked_sub then_micros now_micros)"

definition parse_unit_names :: "string \<Rightarrow> string list" where
  "parse_unit_names text =
     filter (\<lambda>name. CHR ''.'' \<in> set name) (List.map_filter (\<lambda>line. nth_get (split_whitespace line) 0) (lines_of text))"

record journal_counts =
  jc_warning :: nat
  jc_err :: nat
  jc_crit :: nat

definition journal_counts_default :: journal_counts where
  "journal_counts_default = \<lparr>jc_warning = 0, jc_err = 0, jc_crit = 0\<rparr>"

definition KERNEL_UNIT :: string where "KERNEL_UNIT = ''kernel''"

text \<open>The unit and the priority of one line; a numeric priority is cast to eight bits.\<close>

definition journal_entry :: "'j json \<Rightarrow> string \<Rightarrow> (string \<times> nat) option" where
  "journal_entry js line =
     Option.bind (js_from_str js line) (\<lambda>entry.
     Option.bind (Option.bind (js_get js entry ''PRIORITY'') (\<lambda>p.
       case js_as_str js p of
         Some s \<Rightarrow> parse_nat 256 s
       | None \<Rightarrow> map_option (\<lambda>n. n mod 256) (js_as_u64 js p))) (\<lambda>priority.
     Some (case Option.bind (js_get js entry ''_SYSTEMD_UNIT'') (js_as_str js) of Some u \<Rightarrow> u | None \<Rightarrow> KERNEL_UNIT,
           priority)))"

definition count_entry :: "nat \<Rightarrow> journal_counts option \<Rightarrow> journal_counts" where
  "count_entry priority found =
     (let c = (case found of Some c \<Rightarrow> c | None \<Rightarrow> journal_counts_default)
      in if priority \<le> 2 then c\<lparr>jc_crit := jc_crit c + 1\<rparr>
         else if priority = 3 then c\<lparr>jc_err := jc_err c + 1\<rparr>
         else if priority = 4 then c\<lparr>jc_warning := jc_warning c + 1\<rparr>
         else c)"

definition parse_journal_counts :: "'j json \<Rightarrow> string \<Rightarrow> (string \<times> journal_counts) list" where
  "parse_journal_counts js text =
     fold (\<lambda>(unit_name, priority). bt_update unit_name (count_entry priority))
       (List.map_filter (journal_entry js) (lines_of text)) []"

section \<open>Lemmas\<close>

lemma hex_char_inject: "d < 16 \<Longrightarrow> e < 16 \<Longrightarrow> hex_char d = hex_char e \<longleftrightarrow> d = e"
  using char_digit_hex by (metis option.inject)

lemma bus_escape_prefix_free: "bus_escape c @ u = bus_escape d @ v \<Longrightarrow> c = d \<and> u = v"
proof -
  assume eq: "bus_escape c @ u = bus_escape d @ v"
  have hex: "hex_char (of_char c div 16) = hex_char (of_char d div 16) \<Longrightarrow>
      hex_char (of_char c mod 16) = hex_char (of_char d mod 16) \<Longrightarrow> c = d"
  proof -
    assume h: "hex_char (of_char c div 16) = hex_char (of_char d div 16)" "hex_char (of_char c mod 16) = hex_char (of_char d mod 16)"
    have "(of_char x :: nat) div 16 < 16" for x by (rule less_mult_imp_div_less) simp
    with h have "(of_char c :: nat) div 16 = of_char d div 16" "(of_char c :: nat) mod 16 = of_char d mod 16"
      by (simp_all add: hex_char_inject)
    then have "(of_char c :: nat) = of_char d" by (metis div_mult_mod_eq)
    then show ?thesis by simp
  qed
  have "\<not> is_ascii_alphanumeric (CHR ''_'')" by (simp add: is_ascii_alphanumeric_def)
  with eq hex show ?thesis by (auto simp: bus_escape_def split: if_splits)
qed

lemma concat_bus_escape_inject: "concat (map bus_escape u) = concat (map bus_escape v) \<Longrightarrow> u = v"
proof (induction u arbitrary: v)
  case Nil
  then show ?case by (cases v) (auto simp: bus_escape_def split: if_splits)
next
  case (Cons c u)
  then obtain d w where v: "v = d # w" by (cases v) (auto simp: bus_escape_def split: if_splits)
  with Cons.prems bus_escape_prefix_free [of c "concat (map bus_escape u)" d "concat (map bus_escape w)"] Cons.IH
  show ?case by simp
qed

text \<open>The messages of one unit in a class of priorities.\<close>

definition messages :: "'j json \<Rightarrow> string \<Rightarrow> string \<Rightarrow> (nat \<Rightarrow> bool) \<Rightarrow> nat" where
  "messages js text u P =
     length (filter (\<lambda>e. fst e = u \<and> P (snd e)) (List.map_filter (journal_entry js) (lines_of text)))"

lemma count_entries:
  "fold (\<lambda>e v. Some (count_entry (snd e) v)) es (Some c) = Some
     \<lparr>jc_warning = jc_warning c + length (filter (\<lambda>e. snd e = 4) es),
      jc_err = jc_err c + length (filter (\<lambda>e. snd e = 3) es),
      jc_crit = jc_crit c + length (filter (\<lambda>e. snd e \<le> 2) es)\<rparr>"
  by (induction es arbitrary: c) (auto simp: count_entry_def Let_def)

lemma count_entry_default: "count_entry p None = count_entry p (Some journal_counts_default)"
  by (simp add: count_entry_def)

section \<open>Properties\<close>

text \<open>
  Two units never share a bus object path: escaping is injective, so the timer asked about is
  the timer meant.
\<close>

theorem bus_unit_path_injective: "bus_unit_path u = bus_unit_path v \<longleftrightarrow> u = v"
  using concat_bus_escape_inject by (auto simp: bus_unit_path_def)

text \<open>
  The journal counts are the counts: a unit has an entry exactly when some readable message
  names it (the kernel when it names none), each message is counted once, in the class of its
  priority, and the units come in order, each once.
\<close>

theorem journal_counts_exact:
  "map_of (parse_journal_counts js text) u =
     (if messages js text u (\<lambda>_. True) = 0 then None
      else Some \<lparr>jc_warning = messages js text u (\<lambda>p. p = 4), jc_err = messages js text u (\<lambda>p. p = 3),
                 jc_crit = messages js text u (\<lambda>p. p \<le> 2)\<rparr>) \<and>
   sorted_wrt (<) (map fst (parse_journal_counts js text))"
proof -
  let ?es = "List.map_filter (journal_entry js) (lines_of text)"
  have fold: "parse_journal_counts js text = fold (\<lambda>e. bt_update (fst e) (count_entry (snd e))) ?es []"
    by (simp add: parse_journal_counts_def case_prod_unfold)
  let ?mine = "filter (\<lambda>e. fst e = u) ?es"
  have msgs: "messages js text u P = length (filter (\<lambda>e. P (snd e)) ?mine)" for P by (simp add: messages_def)
  have "map_of (parse_journal_counts js text) u = fold (\<lambda>e v. Some (count_entry (snd e) v)) ?mine None"
    unfolding fold using btree.find_fold [of "[]" fst "\<lambda>e. count_entry (snd e)" ?es u] by simp
  also have "\<dots> = (if ?mine = [] then None
      else fold (\<lambda>e v. Some (count_entry (snd e) v)) ?mine (Some journal_counts_default))"
    by (cases ?mine) (simp_all add: count_entry_default)
  finally have "map_of (parse_journal_counts js text) u = (if ?mine = [] then None
      else Some \<lparr>jc_warning = messages js text u (\<lambda>p. p = 4), jc_err = messages js text u (\<lambda>p. p = 3),
                 jc_crit = messages js text u (\<lambda>p. p \<le> 2)\<rparr>)"
    unfolding count_entries msgs by (simp add: journal_counts_default_def)
  moreover have "sorted_wrt (<) (map fst (parse_journal_counts js text))"
    unfolding fold using btree.ok_fold [of "[]" fst "\<lambda>e. count_entry (snd e)" ?es] by (simp add: bt_wf_def)
  ultimately show ?thesis by (simp add: msgs [of "\<lambda>_. True"])
qed

end
