(* ===== verification/Sys_Dnscrypt.thy ===== *)
theory Sys_Dnscrypt
  imports Sys_Systemd
begin

text \<open>
  \<open>packages/system-metrics/src/dnscrypt.rs\<close>: per-provider health out of the journal of dnscrypt-proxy.
  Successes are grouped into refresh passes by their spacing in time, and a provider has failed
  when the most recent pass happened without it.
\<close>

section \<open>Model\<close>

definition PASS_GAP_MICROS :: nat where "PASS_GAP_MICROS = 300 * 1000000"

definition SEVERITIES :: "string list" where
  "SEVERITIES = [''DEBUG'', ''INFO'', ''NOTICE'', ''WARNING'', ''ERROR'', ''CRITICAL'', ''FATAL'']"

record journal_line =
  jl_at_micros :: nat
  jl_message :: string

definition journal_line_of :: "'j json \<Rightarrow> string \<Rightarrow> journal_line option" where
  "journal_line_of js line =
     Option.bind (js_from_str js line) (\<lambda>entry.
     Option.bind (Option.bind (js_get js entry ''__REALTIME_TIMESTAMP'') (\<lambda>t.
       case js_as_str js t of Some s \<Rightarrow> parse_u64 s | None \<Rightarrow> js_as_u64 js t)) (\<lambda>at_micros.
     Option.bind (Option.bind (js_get js entry ''MESSAGE'') (js_as_str js)) (\<lambda>message.
       Some \<lparr>jl_at_micros = at_micros, jl_message = message\<rparr>)))"

definition parse_entries :: "'j json \<Rightarrow> string \<Rightarrow> journal_line list" where
  "parse_entries js text = List.map_filter (journal_line_of js) (lines_of text)"

definition bracketed :: "string \<Rightarrow> (string \<times> string) option" where
  "bracketed text = Option.bind (strip_prefix text ''['') (split_once (CHR '']''))"

definition is_dlog_prefix :: "string \<Rightarrow> bool" where
  "is_dlog_prefix inner \<longleftrightarrow>
     inner \<in> set SEVERITIES \<or> (inner \<noteq> [] \<and> is_digit (hd inner)) \<and> CHR '':'' \<in> set inner"

fun strip_dlog :: "nat \<Rightarrow> string \<Rightarrow> string" where
  "strip_dlog 0 rest = rest"
| "strip_dlog (Suc n) rest =
     (case bracketed rest of
        None \<Rightarrow> rest
      | Some (inner, tail) \<Rightarrow> if is_dlog_prefix inner then strip_dlog n (trim_start tail) else rest)"

definition strip_dlog_prefix :: "string \<Rightarrow> string" where
  "strip_dlog_prefix message = strip_dlog 2 (trim_start message)"

definition parse_ok :: "string \<Rightarrow> (string \<times> int) option" where
  "parse_ok message =
     Option.bind (bracketed (strip_dlog_prefix message)) (\<lambda>(name, tail).
     Option.bind (strip_prefix (trim_start tail) ''OK (DoH) - rtt:'') (\<lambda>rest.
     Option.bind (strip_suffix (trim rest) ''ms'') (\<lambda>ms.
     Option.bind (parse_i64 (trim ms)) (\<lambda>rtt. Some (name, rtt)))))"

definition parse_failure :: "string \<Rightarrow> (string \<times> string) option" where
  "parse_failure message =
     Option.bind (bracketed (strip_dlog_prefix message)) (\<lambda>(name, tail).
     case strip_prefix tail '':'' of
       Some err \<Rightarrow> Some (name, trim err)
     | None \<Rightarrow>
         Option.bind (strip_prefix (trim_start tail) ''['') (\<lambda>rest.
         Option.bind (split_once_str '']: '' rest) (\<lambda>(_, err). Some (name, trim err))))"

record dns_status =
  ds_ok :: "bool option"
  ds_rtt_ms :: "int option"
  ds_error :: "string option"
  ds_probe_age_seconds :: "f64 option"
  ds_last_ok_seconds :: "f64 option"
  ds_last_fail_seconds :: "f64 option"

definition dns_status_default :: dns_status where
  "dns_status_default = \<lparr>ds_ok = None, ds_rtt_ms = None, ds_error = None, ds_probe_age_seconds = None,
     ds_last_ok_seconds = None, ds_last_fail_seconds = None\<rparr>"

type_synonym observation = "nat \<times> string \<times> int"

record pass =
  pa_start :: nat
  pa_end :: nat
  pa_successes :: "(string \<times> int) list"

definition add_observation :: "observation \<Rightarrow> pass list \<Rightarrow> pass list" where
  "add_observation ob passes =
     (case ob of (t, provider, rtt) \<Rightarrow>
        if passes \<noteq> [] \<and> t - pa_end (last passes) \<le> PASS_GAP_MICROS
        then butlast passes @ [(last passes)\<lparr>pa_end := t, pa_successes := bt_insert provider rtt (pa_successes (last passes))\<rparr>]
        else passes @ [\<lparr>pa_start = t, pa_end = t, pa_successes = [(provider, rtt)]\<rparr>])"

definition group_passes :: "observation list \<Rightarrow> pass list" where
  "group_passes observations = fold add_observation (sort_key fst observations) []"

definition observations_of :: "string list \<Rightarrow> journal_line list \<Rightarrow> observation list" where
  "observations_of providers entries =
     List.map_filter (\<lambda>e. Option.bind (parse_ok (jl_message e)) (\<lambda>(name, rtt).
       if name \<in> set providers then Some (jl_at_micros e, name, rtt) else None)) entries"

definition succeeded :: "string \<Rightarrow> pass \<Rightarrow> bool" where
  "succeeded provider p \<longleftrightarrow> map_of (pa_successes p) provider \<noteq> None"

text \<open>\<open>max_by_key\<close>: of several maximal elements the last.\<close>

fun max_by_time :: "(nat \<times> 'a) list \<Rightarrow> (nat \<times> 'a) option" where
  "max_by_time [] = None"
| "max_by_time (x # xs) =
     (case max_by_time xs of None \<Rightarrow> Some x | Some y \<Rightarrow> if fst x \<le> fst y then Some y else Some x)"

definition pass_error :: "string \<Rightarrow> pass \<Rightarrow> journal_line list \<Rightarrow> string option" where
  "pass_error provider p entries =
     map_option snd (max_by_time (List.map_filter (\<lambda>e.
       Option.bind (parse_failure (jl_message e)) (\<lambda>(name, err).
         if name = provider then Some (jl_at_micros e, err) else None))
       (filter (\<lambda>e. pa_start p \<le> wrap_u64 (jl_at_micros e + PASS_GAP_MICROS) \<and>
                    jl_at_micros e \<le> wrap_u64 (pa_end p + PASS_GAP_MICROS)) entries)))"

definition age :: "nat option \<Rightarrow> nat \<Rightarrow> f64 option" where
  "age now_micros t = Option.bind now_micros (\<lambda>now. seconds_since now t)"

definition dns_status_of :: "pass list \<Rightarrow> journal_line list \<Rightarrow> nat option \<Rightarrow> string \<Rightarrow> dns_status" where
  "dns_status_of passes entries now_micros provider =
     (let p = last passes
      in \<lparr>ds_ok = Some (succeeded provider p),
          ds_rtt_ms = map_of (pa_successes p) provider,
          ds_error = pass_error provider p entries,
          ds_probe_age_seconds = age now_micros (pa_end p),
          ds_last_ok_seconds = Option.bind (find (succeeded provider) (rev passes)) (\<lambda>p. age now_micros (pa_end p)),
          ds_last_fail_seconds =
            Option.bind (find (\<lambda>p. \<not> succeeded provider p) (rev passes)) (\<lambda>p. age now_micros (pa_end p))\<rparr>)"

definition dns_statuses :: "string list \<Rightarrow> journal_line list \<Rightarrow> nat option \<Rightarrow> dns_status list" where
  "dns_statuses providers entries now_micros =
     (let passes = group_passes (observations_of providers entries)
      in if passes = [] then map (\<lambda>_. dns_status_default) providers
         else map (dns_status_of passes entries now_micros) providers)"

section \<open>Lemmas\<close>

text \<open>
  A moment is linked to the latest of a set of moments when no silence longer than the gap lies
  between them.
\<close>

definition linked :: "nat set \<Rightarrow> nat \<Rightarrow> bool" where
  "linked T t \<longleftrightarrow> t \<in> T \<and> (\<forall>s \<in> T. t \<le> s \<and> s \<noteq> Max T \<longrightarrow> (\<exists>u \<in> T. s < u \<and> u \<le> s + PASS_GAP_MICROS))"

lemma Max_insert_top: "finite T \<Longrightarrow> T \<noteq> {} \<Longrightarrow> Max T \<le> t \<Longrightarrow> Max (insert t T) = t"
  by (rule Max_eqI) auto

lemma linked_Max: "finite T \<Longrightarrow> T \<noteq> {} \<Longrightarrow> linked T (Max T)"
  unfolding linked_def by (metis Max_ge Max_in order_antisym)

lemma linked_extend:
  assumes "finite T" "T \<noteq> {}" "Max T \<le> t" "t \<le> Max T + PASS_GAP_MICROS"
  shows "linked (insert t T) s \<longleftrightarrow> s = t \<or> linked T s"
proof -
  have m: "Max (insert t T) = t" using assms by (intro Max_insert_top) linarith+
  have top: "Max T \<in> T" "\<And>u. u \<in> T \<Longrightarrow> u \<le> Max T" using assms(1,2) by (auto intro: Max_in)
  show ?thesis
  proof (cases "t = Max T")
    case True
    then have "insert t T = T" using top by auto
    with True linked_Max [OF assms(1,2)] show ?thesis by auto
  next
    case False
    with assms(3) have lt: "Max T < t" by simp
    have "linked (insert t T) s \<longleftrightarrow> linked T s" if "s \<noteq> t"
    proof
      assume l: "linked (insert t T) s"
      show "linked T s"
        unfolding linked_def
      proof (intro conjI ballI impI)
        show "s \<in> T" using l that by (simp add: linked_def)
        fix v assume v: "v \<in> T" "s \<le> v \<and> v \<noteq> Max T"
        then have "v < Max T" using top(2) by (simp add: order_le_neq_trans)
        then have "v \<noteq> t" "v \<in> insert t T" using lt v by auto
        with l v m obtain u where u: "u \<in> insert t T" "v < u" "u \<le> v + PASS_GAP_MICROS" unfolding linked_def by metis
        show "\<exists>u \<in> T. v < u \<and> u \<le> v + PASS_GAP_MICROS"
        proof (cases "u = t")
          case True
          with u lt \<open>v < Max T\<close> top(1) show ?thesis by (intro bexI [of _ "Max T"]) auto
        qed (use u in auto)
      qed
    next
      assume l: "linked T s"
      then have "s \<in> T" by (simp add: linked_def)
      show "linked (insert t T) s"
        unfolding linked_def m
      proof (intro conjI ballI impI)
        show "s \<in> insert t T" using \<open>s \<in> T\<close> by simp
        fix v assume v: "v \<in> insert t T" "s \<le> v \<and> v \<noteq> t"
        show "\<exists>u \<in> insert t T. v < u \<and> u \<le> v + PASS_GAP_MICROS"
        proof (cases "v = Max T")
          case True
          with lt assms(4) show ?thesis by auto
        next
          case False
          with l v show ?thesis by (auto simp: linked_def)
        qed
      qed
    qed
    moreover have "linked (insert t T) t" using linked_Max [of "insert t T"] assms(1) m by simp
    ultimately show ?thesis by blast
  qed
qed

lemma linked_after_gap:
  assumes "finite T" "T \<noteq> {}" "Max T + PASS_GAP_MICROS < t"
  shows "linked (insert t T) s \<longleftrightarrow> s = t"
proof -
  have m: "Max (insert t T) = t" using assms by (intro Max_insert_top) linarith+
  have top: "Max T \<in> T" "\<And>u. u \<in> T \<Longrightarrow> u \<le> Max T" using assms(1,2) by (auto intro: Max_in)
  have "\<not> linked (insert t T) s" if "s \<noteq> t"
  proof
    assume l: "linked (insert t T) s"
    with that have "s \<in> T" by (simp add: linked_def)
    with top have "s \<le> Max T" "Max T \<noteq> t" using assms(3) by auto
    with l top(1) m obtain u where "u \<in> insert t T" "Max T < u" "u \<le> Max T + PASS_GAP_MICROS" by (auto simp: linked_def)
    with top(2) assms(3) show False by fastforce
  qed
  moreover have "linked (insert t T) t" using linked_Max [of "insert t T"] assms(1) m by simp
  ultimately show ?thesis by blast
qed

text \<open>What the last pass holds after the observations so far, given in order.\<close>

definition last_pass_ok :: "observation list \<Rightarrow> pass list \<Rightarrow> bool" where
  "last_pass_ok obs passes \<longleftrightarrow>
     (let T = fst ` set obs; p = last passes
      in passes \<noteq> [] \<and> pa_end p = Max T \<and> bt_wf (pa_successes p) \<and>
         (\<forall>provider. succeeded provider p \<longleftrightarrow> (\<exists>(t, name, rtt) \<in> set obs. name = provider \<and> linked T t)))"

lemma add_observation_ok:
  assumes "last_pass_ok obs passes" "obs \<noteq> []" "Max (fst ` set obs) \<le> fst ob"
  shows "last_pass_ok (obs @ [ob]) (add_observation ob passes)"
proof -
  let ?T = "fst ` set obs" and ?p = "last passes"
  obtain t provider rtt where ob: "ob = (t, provider, rtt)" by (cases ob) auto
  have T: "finite ?T" "?T \<noteq> {}" using assms(2) by auto
  have T': "fst ` set (obs @ [ob]) = insert t ?T" using ob by auto
  have m: "Max (insert t ?T) = t" using assms(3) ob T by (intro Max_insert_top) simp_all
  from assms(1) have p: "passes \<noteq> []" "pa_end ?p = Max ?T" "bt_wf (pa_successes ?p)"
      "\<And>q. succeeded q ?p \<longleftrightarrow> (\<exists>(s, name, rtt) \<in> set obs. name = q \<and> linked ?T s)"
    by (simp_all add: last_pass_ok_def Let_def)
  show ?thesis
  proof (cases "t - Max ?T \<le> PASS_GAP_MICROS")
    case True
    with assms(3) ob have link: "linked (insert t ?T) s \<longleftrightarrow> s = t \<or> linked ?T s" for s
      by (intro linked_extend [OF T]) auto
    let ?p' = "?p\<lparr>pa_end := t, pa_successes := bt_insert provider rtt (pa_successes ?p)\<rparr>"
    have "succeeded q ?p' \<longleftrightarrow> q = provider \<or> succeeded q ?p" for q
      using p(3) by (simp add: succeeded_def bt_insert_def map_of_bt_update)
    moreover have "(\<exists>(s, name, r) \<in> set (obs @ [ob]). name = q \<and> (s = t \<or> linked ?T s)) \<longleftrightarrow>
        q = provider \<or> (\<exists>(s, name, r) \<in> set obs. name = q \<and> linked ?T s)" for q
    proof -
      have "linked ?T s" if "(s, name, r) \<in> set obs" "s = t" for s name r
      proof -
        have "s \<in> ?T" using that(1) by force
        then have "s = Max ?T" using that(2) assms(3) ob T by (simp add: eq_Max_iff)
        with linked_Max [OF T] show ?thesis by simp
      qed
      then have "\<forall>(s, name, r) \<in> set obs. s = t \<longrightarrow> linked ?T s" by auto
      then show ?thesis unfolding ob by fastforce
    qed
    moreover have "add_observation ob passes = butlast passes @ [?p']" using True p ob by (simp add: add_observation_def)
    ultimately show ?thesis
      unfolding last_pass_ok_def Let_def T' link using p(3,4) m by (simp add: bt_insert_def bt_wf_update)
  next
    case False
    with assms(3) ob have link: "linked (insert t ?T) s \<longleftrightarrow> s = t" for s
      by (intro linked_after_gap [OF T]) auto
    have "s \<noteq> t" if "(s, name, r) \<in> set obs" for s name r
    proof -
      have "s \<le> Max ?T" using that T by (intro Max_ge) force+
      with False show ?thesis by auto
    qed
    moreover have "add_observation ob passes = passes @ [\<lparr>pa_start = t, pa_end = t, pa_successes = [(provider, rtt)]\<rparr>]"
      using False p ob by (simp add: add_observation_def)
    ultimately show ?thesis
      using m by (auto simp: last_pass_ok_def Let_def T' link succeeded_def bt_wf_def ob)
  qed
qed

lemma fold_passes_ok:
  "obs \<noteq> [] \<Longrightarrow> sorted (map fst obs) \<Longrightarrow> last_pass_ok obs (fold add_observation obs [])"
proof (induction obs rule: rev_induct)
  case (snoc ob obs)
  show ?case
  proof (cases "obs = []")
    case True
    obtain t provider rtt where "ob = (t, provider, rtt)" by (cases ob) auto
    with True linked_Max [of "{t}"] show ?thesis
      by (auto simp: last_pass_ok_def add_observation_def Let_def succeeded_def bt_wf_def)
  next
    case False
    with snoc.prems have "sorted (map fst obs)" "\<forall>x \<in> set obs. fst x \<le> fst ob" by (auto simp: sorted_append)
    moreover from this(2) False have "Max (fst ` set obs) \<le> fst ob" by simp
    ultimately show ?thesis using snoc.IH False add_observation_ok by simp
  qed
qed simp

lemma group_passes_ok: "obs \<noteq> [] \<Longrightarrow> last_pass_ok obs (group_passes obs)"
proof -
  assume "obs \<noteq> []"
  then have "last_pass_ok (sort_key fst obs) (group_passes obs)"
    unfolding group_passes_def by (intro fold_passes_ok) (auto simp flip: set_empty)
  then show ?thesis by (simp add: last_pass_ok_def)
qed

lemma group_passes_Nil: "group_passes obs = [] \<longleftrightarrow> obs = []"
  using group_passes_ok [of obs] by (auto simp: last_pass_ok_def Let_def group_passes_def)

text \<open>The line logged for a success, with any of the prefixes dlog writes.\<close>

lemma bracketed_Some: "CHR '']'' \<notin> set inner \<Longrightarrow> bracketed (CHR ''['' # inner @ CHR '']'' # tail) = Some (inner, tail)"
  by (simp add: bracketed_def strip_prefix_def starts_with_def split_once_Some)

lemma trim_start_bracket: "trim_start (CHR ''['' # s) = CHR ''['' # s" "trim_start (CHR '' '' # s) = trim_start s"
  by (simp_all add: trim_start_ascii is_ascii_ws_def)

definition ok_line :: "string \<Rightarrow> nat \<Rightarrow> string" where
  "ok_line name n = ''['' @ name @ ''] OK (DoH) - rtt: '' @ nat_str n @ ''ms''"

definition dlog_bracket :: "string \<Rightarrow> string" where
  "dlog_bracket inner = ''['' @ inner @ ''] ''"

lemma strip_dlog_ok_line:
  assumes "CHR '']'' \<notin> set name" "\<not> is_dlog_prefix name"
  shows "strip_dlog k (ok_line name n) = ok_line name n"
  using assms by (cases k) (auto simp: ok_line_def bracketed_Some)

lemma strip_dlog_bracket:
  assumes "CHR '']'' \<notin> set inner" "is_dlog_prefix inner"
  shows "strip_dlog (Suc k) (dlog_bracket inner @ CHR ''['' # s) = strip_dlog k (CHR ''['' # s)"
  using assms by (simp add: dlog_bracket_def bracketed_Some trim_start_bracket)

lemma parse_ok_line:
  assumes "CHR '']'' \<notin> set name" "\<not> is_dlog_prefix name" "n < 2 ^ 63"
    and "\<forall>p \<in> set pre. CHR '']'' \<notin> set p \<and> is_dlog_prefix p" "length pre \<le> 2"
  shows "parse_ok (concat (map dlog_bracket pre) @ ok_line name n) = Some (name, int n)"
proof -
  have ol: "ok_line name n = CHR ''['' # name @ ''] OK (DoH) - rtt: '' @ nat_str n @ ''ms''" by (simp add: ok_line_def)
  have "strip_dlog k (concat (map dlog_bracket pre) @ ok_line name n) = ok_line name n" if "length pre \<le> k" for k
    using that assms(4)
  proof (induction pre arbitrary: k)
    case Nil
    then show ?case using strip_dlog_ok_line [OF assms(1,2)] by simp
  next
    case (Cons p pre)
    then obtain k' where k: "k = Suc k'" by (cases k) auto
    have "\<exists>s. concat (map dlog_bracket pre) @ ok_line name n = CHR ''['' # s"
      by (cases pre) (simp_all add: ol dlog_bracket_def)
    then obtain s where "concat (map dlog_bracket pre) @ ok_line name n = CHR ''['' # s" by blast
    with Cons k strip_dlog_bracket [of p k' s] show ?case by auto
  qed
  moreover have "\<exists>s. concat (map dlog_bracket pre) @ ok_line name n = CHR ''['' # s"
    by (cases pre) (simp_all add: ol dlog_bracket_def)
  ultimately have "strip_dlog_prefix (concat (map dlog_bracket pre) @ ok_line name n) = ok_line name n"
    using assms(5) by (auto simp: strip_dlog_prefix_def trim_start_bracket)
  moreover have "bracketed (ok_line name n) = Some (name, '' OK (DoH) - rtt: '' @ nat_str n @ ''ms'')"
    using bracketed_Some [OF assms(1)] by (simp add: ok_line_def)
  moreover have "trim_start ('' OK (DoH) - rtt: '' @ nat_str n @ ''ms'') = ''OK (DoH) - rtt:'' @ CHR '' '' # nat_str n @ ''ms''"
    by (simp add: trim_start_ascii is_ascii_ws_def)
  moreover have "plain (nat_str n @ ''ms'')" using plain_nat_str [of n] by (auto simp: plain_def)
  then have "trim (CHR '' '' # nat_str n @ ''ms'') = nat_str n @ ''ms''" by (rule trim_space)
  moreover have "strip_suffix (nat_str n @ ''ms'') ''ms'' = Some (nat_str n)" by (simp add: strip_suffix_Some)
  moreover have "strip_prefix (''OK (DoH) - rtt:'' @ CHR '' '' # nat_str n @ ''ms'') ''OK (DoH) - rtt:'' = Some (CHR '' '' # nat_str n @ ''ms'')"
    by (simp only: strip_prefix_Some)
  ultimately show ?thesis
    using assms(3) by (simp add: parse_ok_def trim_plain parse_i64_nat_str del: append.simps)
qed

section \<open>Properties\<close>

text \<open>
  C22. The verdict is the absence rule: with no success of any provider in the window every
  verdict is absent; otherwise a provider is healthy exactly when one of its successes is
  linked to the latest success of any provider by silences no longer than the gap, and the
  verdict is as old as that latest success. There is one status per configured provider, in
  order.
\<close>

theorem dns_verdict_is_absence_rule:
  assumes "i < length providers"
  shows "let obs = observations_of providers entries; T = fst ` set obs; st = dns_statuses providers entries now ! i in
    length (dns_statuses providers entries now) = length providers \<and>
    ds_ok st = (if obs = [] then None
                else Some (\<exists>(t, name, rtt) \<in> set obs. name = providers ! i \<and> linked T t)) \<and>
    (obs \<noteq> [] \<longrightarrow> ds_probe_age_seconds st = age now (Max T))"
proof -
  let ?obs = "observations_of providers entries"
  show ?thesis
  proof (cases "?obs = []")
    case True
    then show ?thesis using assms by (simp add: dns_statuses_def group_passes_Nil dns_status_default_def)
  next
    case False
    with group_passes_ok [OF False] assms show ?thesis
      by (simp add: dns_statuses_def dns_status_of_def group_passes_Nil last_pass_ok_def Let_def)
  qed
qed

theorem dns_verdict_is_absence_rule_witness:
  "let st = dns_statuses [''a'', ''b'']
     [\<lparr>jl_at_micros = 5, jl_message = ok_line ''b'' 7\<rparr>,
      \<lparr>jl_at_micros = 400000000, jl_message = dlog_bracket ''INFO'' @ ok_line ''a'' 23\<rparr>] None
   in ds_ok (st ! 0) = Some True \<and> ds_ok (st ! 1) = Some False"
proof -
  let ?es = "[\<lparr>jl_at_micros = 5, jl_message = ok_line ''b'' 7\<rparr>,
      \<lparr>jl_at_micros = 400000000, jl_message = dlog_bracket ''INFO'' @ ok_line ''a'' 23\<rparr>]"
  have "\<not> is_dlog_prefix ''a''" "\<not> is_dlog_prefix ''b''" "is_dlog_prefix ''INFO''"
    by (simp_all add: is_dlog_prefix_def SEVERITIES_def)
  then have "parse_ok (ok_line ''b'' 7) = Some (''b'', 7)" "parse_ok (dlog_bracket ''INFO'' @ ok_line ''a'' 23) = Some (''a'', 23)"
    using parse_ok_line [of "''b''" 7 "[]"] parse_ok_line [of "''a''" 23 "[''INFO'']"] by auto
  then have obs: "observations_of [''a'', ''b''] ?es = [(5, ''b'', 7), (400000000, ''a'', 23)]"
    by (simp add: observations_of_def List.map_filter_def)
  have "linked {5, 400000000} 400000000" "\<not> linked {5, 400000000} 5" by (auto simp: linked_def PASS_GAP_MICROS_def)
  with dns_verdict_is_absence_rule [of 0 "[''a'', ''b'']" ?es None] dns_verdict_is_absence_rule [of 1 "[''a'', ''b'']" ?es None]
  show ?thesis by (simp add: Let_def obs)
qed

text \<open>
  A success is read whatever wraps it: the line gives the provider and its round-trip time with
  no prefix at all, with a severity, or with a time stamp and a severity in front, whichever
  severity that is.
\<close>

theorem ok_line_read_at_any_severity:
  assumes "CHR '']'' \<notin> set name" "\<not> is_dlog_prefix name" "n < 2 ^ 63" "sev \<in> set SEVERITIES"
    and "CHR '']'' \<notin> set stamp" "is_digit (hd stamp)" "CHR '':'' \<in> set stamp"
  shows "parse_ok (ok_line name n) = Some (name, int n) \<and>
    parse_ok (dlog_bracket sev @ ok_line name n) = Some (name, int n) \<and>
    parse_ok (dlog_bracket stamp @ dlog_bracket sev @ ok_line name n) = Some (name, int n)"
proof -
  have "is_dlog_prefix sev" "CHR '']'' \<notin> set sev" using assms(4) by (auto simp: is_dlog_prefix_def SEVERITIES_def)
  moreover have "is_dlog_prefix stamp" using assms(6,7) by (auto simp: is_dlog_prefix_def)
  ultimately show ?thesis
    using parse_ok_line [OF assms(1-3), of "[]"] parse_ok_line [OF assms(1-3), of "[sev]"]
      parse_ok_line [OF assms(1-3), of "[stamp, sev]"] assms(5) by auto
qed

theorem ok_line_read_at_any_severity_witness:
  "parse_ok ''[12:00] [INFO] [a] OK (DoH) - rtt: 23ms'' = Some (''a'', 23)"
proof -
  have "nat_str 23 = ''23''" by (simp add: nat_str.simps char_of_def bit_0)
  with ok_line_read_at_any_severity [of "''a''" 23 "''INFO''" "''12:00''"] show ?thesis
    by (simp add: is_dlog_prefix_def SEVERITIES_def is_digit_def digit_val_def ok_line_def dlog_bracket_def)
qed

end
