(* ===== verification/Sys_Records.thy ===== *)
theory Sys_Records
  imports Sys_Sensors Sys_Smart Sys_Chrony Sys_Dnscrypt
begin

text \<open>
  The records of \<open>packages/system-metrics/src/main.rs\<close>: what each group of measurements reads of the
  host and what it reports.  The host is an environment: the texts of its files, its directories and
  links, what its tools print and its clocks.  A file name is the byte string the kernel has;
  \<open>to_string_lossy\<close> is written out where the source applies it.
\<close>

section \<open>The host\<close>

record 'j sys_env =
  se_json :: "'j json"
  se_read :: "string \<Rightarrow> string option"
  se_stat_later :: "string option"
  se_read_dir :: "string \<Rightarrow> string list option"
  se_read_link :: "string \<Rightarrow> string option"
  se_canonicalize :: "string \<Rightarrow> string option"
  se_exists :: "string \<Rightarrow> bool"
  se_statvfs :: "string \<Rightarrow> statvfs option"
  se_device :: "string \<Rightarrow> (nat \<times> nat) option"
  se_output :: "string \<Rightarrow> string list \<Rightarrow> (bool \<times> byte list) option"
  se_unix_nanos :: "nat option"
  se_unix_micros :: "nat option"
  se_monotonic_micros :: nat
  se_collector :: collector

definition lossy :: "string \<Rightarrow> string" where
  "lossy name = from_utf8_lossy (bytes_of_str name)"

definition read_trimmed :: "'j sys_env \<Rightarrow> string \<Rightarrow> string option" where
  "read_trimmed env path = map_option trim (se_read env path)"

definition read_link :: "'j sys_env \<Rightarrow> string \<Rightarrow> string option" where
  "read_link env path = map_option lossy (se_read_link env path)"

definition tool_output :: "'j sys_env \<Rightarrow> string \<Rightarrow> string list \<Rightarrow> string option" where
  "tool_output env program args =
     (case se_output env program args of
        Some (True, stdout) \<Rightarrow> from_utf8 stdout
      | _ \<Rightarrow> None)"

text \<open>\<open>as i64\<close> of an unsigned number, \<open>saturating_mul\<close> and \<open>checked_mul\<close> of \<open>u64\<close>.\<close>

definition int_of_u64 :: "nat \<Rightarrow> attr_value" where
  "int_of_u64 n = VInt (wrap_i64 (int n))"

definition saturating_mul :: "nat \<Rightarrow> nat \<Rightarrow> nat" where
  "saturating_mul a b = min (a * b) (2 ^ 64 - 1)"

definition checked_mul :: "nat \<Rightarrow> nat \<Rightarrow> nat option" where
  "checked_mul a b = (if a * b < 2 ^ 64 then Some (a * b) else None)"

definition field_opt :: "string \<Rightarrow> attr_value option \<Rightarrow> log_record \<Rightarrow> log_record" where
  "field_opt key v r = with_field key (opt_of v) r"

definition attr_opt :: "string \<Rightarrow> attr_value option \<Rightarrow> log_record \<Rightarrow> log_record" where
  "attr_opt key v r = with_attr key (opt_of v) r"

definition fields_opt :: "(string \<times> attr_value option) list \<Rightarrow> log_record \<Rightarrow> log_record" where
  "fields_opt kvs r = fold (\<lambda>(key, v). field_opt key v) kvs r"

section \<open>CPU and memory\<close>

definition cpu_record :: "'j sys_env \<Rightarrow> log_record" where
  "cpu_record env =
     (let loadavg = Option.bind (se_read env ''/proc/loadavg'') parse_loadavg;
          stat = se_read env ''/proc/stat'';
          first = Option.bind stat parse_cpu_times;
          second = Option.bind (se_stat_later env) parse_cpu_times;
          utilization = Option.bind first (\<lambda>a. Option.bind second (\<lambda>b. utilization_percent a b))
      in fields_opt
        [(''load1'', map_option (\<lambda>l. VF64 (la_one l)) loadavg),
         (''load5'', map_option (\<lambda>l. VF64 (la_five l)) loadavg),
         (''load15'', map_option (\<lambda>l. VF64 (la_fifteen l)) loadavg),
         (''cores'', map_option (\<lambda>s. int_of_u64 (parse_cpu_count s)) stat),
         (''utilization_percent'', map_option VDouble utilization)]
        (record_new ''system.cpu''))"

definition zram_sum :: "'j sys_env \<Rightarrow> string \<Rightarrow> string \<Rightarrow> (string \<Rightarrow> nat option) \<Rightarrow> nat" where
  "zram_sum env sysfs attribute parse =
     (case se_read_dir env (path_join sysfs ''block'') of
        None \<Rightarrow> 0
      | Some entries \<Rightarrow>
          wrap_u64 (sum_list (List.map_filter (\<lambda>text. parse (trim text))
            (List.map_filter (\<lambda>entry. se_read env (path_join (path_join (path_join sysfs ''block'') entry) attribute))
              (filter (\<lambda>entry. starts_with (lossy entry) ''zram'') entries)))))"

definition memory_record :: "'j sys_env \<Rightarrow> string \<Rightarrow> log_record" where
  "memory_record env sysfs =
     (let memory = Option.bind (se_read env ''/proc/meminfo'') parse_meminfo;
          vmstat = se_read env ''/proc/vmstat''
      in fields_opt
        [(''total_bytes'', map_option (\<lambda>m. int_of_u64 (me_total m)) memory),
         (''free_bytes'', map_option (\<lambda>m. int_of_u64 (me_free m)) memory),
         (''available_bytes'', map_option (\<lambda>m. int_of_u64 (me_available m)) memory),
         (''swap_total_bytes'', map_option (\<lambda>m. int_of_u64 (me_swap_total m)) memory),
         (''swap_free_bytes'', map_option (\<lambda>m. int_of_u64 (me_swap_free m)) memory),
         (''zramswap_memory_bytes'', Some (int_of_u64 (zram_sum env sysfs ''mm_stat'' parse_zram_mem_used_total))),
         (''zramswap_total_bytes'', Some (int_of_u64 (zram_sum env sysfs ''disksize'' parse_u64))),
         (''oom_kill'', map_option int_of_u64 (Option.bind vmstat (\<lambda>text. parse_vmstat_counter text ''oom_kill'')))]
        (record_new ''system.memory''))"

section \<open>File systems\<close>

definition lifetime_written_bytes :: "'j sys_env \<Rightarrow> string \<Rightarrow> mount \<Rightarrow> attr_value option" where
  "lifetime_written_bytes env sysfs m =
     (if mo_fstype m \<noteq> ''ext4'' \<and> mo_fstype m \<noteq> ''f2fs'' then None
      else
        Option.bind (se_device env (mo_mountpoint m)) (\<lambda>(major, minor).
        Option.bind (se_read_link env (path_join sysfs (''dev/block/'' @ nat_str major @ '':'' @ nat_str minor))) (\<lambda>device.
        Option.bind (file_name device) (\<lambda>name.
        Option.bind (read_trimmed env
            (path_join (path_join (path_join (path_join sysfs ''fs'') (mo_fstype m)) name) ''lifetime_write_kbytes'')) (\<lambda>text.
        Option.bind (parse_u64 text) (\<lambda>kib. Some (int_of_u64 (saturating_mul kib 1024))))))))"

definition filesystem_record :: "'j sys_env \<Rightarrow> string \<Rightarrow> mount \<Rightarrow> fs_usage \<Rightarrow> log_record" where
  "filesystem_record env sysfs m u =
     fields_opt
       [(''total_bytes'', Some (int_of_u64 (us_total u))),
        (''free_bytes'', Some (int_of_u64 (us_free u))),
        (''available_bytes'', Some (int_of_u64 (us_available u))),
        (''lifetime_written_bytes'', lifetime_written_bytes env sysfs m)]
       (with_attr ''fstype'' (VStr (mo_fstype m)) (with_attr ''device'' (VStr (mo_device m))
         (with_attr ''mountpoint'' (VStr (mo_mountpoint m)) (record_new ''system.filesystem''))))"

fun filesystem_loop :: "'j sys_env \<Rightarrow> string \<Rightarrow> mount list \<Rightarrow> nat list \<Rightarrow> log_record list" where
  "filesystem_loop env sysfs [] seen = []"
| "filesystem_loop env sysfs (m # ms) seen =
     (case se_statvfs env (mo_mountpoint m) of
        None \<Rightarrow> filesystem_loop env sysfs ms seen
      | Some st \<Rightarrow>
          (let u = usage st
           in if us_fsid u \<noteq> 0 \<and> us_fsid u \<in> set seen then filesystem_loop env sysfs ms seen
              else filesystem_record env sysfs m u # filesystem_loop env sysfs ms (seen @ [us_fsid u])))"

definition filesystem_records :: "'j sys_env \<Rightarrow> string list \<Rightarrow> string \<Rightarrow> log_record list" where
  "filesystem_records env exclude sysfs =
     (case se_read env ''/proc/mounts'' of
        None \<Rightarrow> []
      | Some mounts \<Rightarrow> filesystem_loop env sysfs (parse_mounts mounts exclude) [])"

section \<open>Sensors\<close>

definition sensor_record ::
  "'j sys_env \<Rightarrow> string \<Rightarrow> string option \<Rightarrow> string option \<Rightarrow> string \<Rightarrow> log_record option" where
  "sensor_record env path chip_name device name =
     Option.bind (parse_sensor_filename name) (\<lambda>parsed.
     Option.bind (read_trimmed env (path_join path name)) (\<lambda>raw.
     let (key, v, threshold) =
           (case sf_reading parsed of
              Input key \<Rightarrow> (key, map_option VInt (parse_i64 raw), None)
            | Alarm threshold \<Rightarrow>
                (''triggered'',
                 if raw = ''0'' then Some (VBool False) else if raw = ''1'' then Some (VBool True) else None,
                 threshold))
     in Some (field_opt key v
          (attr_opt ''device'' (map_option VStr device)
          (attr_opt ''threshold'' (map_option VStr threshold)
          (attr_opt ''label'' (map_option VStr (read_trimmed env (path_join path (sf_sensor parsed @ ''_label''))))
          (with_attr ''kind'' (VStr (sf_kind parsed))
          (with_attr ''sensor'' (VStr (sf_sensor parsed))
          (attr_opt ''chip'' (map_option VStr chip_name) (record_new ''system.sensor''))))))))))"

definition chip_records :: "'j sys_env \<Rightarrow> string \<Rightarrow> log_record list" where
  "chip_records env path =
     (let chip_name = read_trimmed env (path_join path ''name'');
          device = map_option lossy (Option.bind (se_canonicalize env (path_join path ''device'')) file_name)
      in case se_read_dir env path of
           None \<Rightarrow> []
         | Some files \<Rightarrow> List.map_filter (sensor_record env path chip_name device) (sort (map lossy files)))"

definition sensor_records :: "'j sys_env \<Rightarrow> string \<Rightarrow> log_record list" where
  "sensor_records env hwmon_dir =
     (case se_read_dir env hwmon_dir of
        None \<Rightarrow> []
      | Some chips \<Rightarrow> concat (map (\<lambda>chip. chip_records env (path_join hwmon_dir chip)) chips))"

section \<open>Drives\<close>

definition UDEV_DATA :: string where "UDEV_DATA = ''/run/udev/data''"

record disk =
  dk_name :: string
  dk_kind :: "drive_kind option"
  dk_serial :: "string option"
  dk_model :: "string option"
  dk_stat :: "block_stat option"

definition first_of :: "'a option \<Rightarrow> 'a option \<Rightarrow> 'a option" where
  "first_of a b = (case a of Some x \<Rightarrow> Some x | None \<Rightarrow> b)"

definition disk_identity :: "'j sys_env \<Rightarrow> string \<Rightarrow> string \<Rightarrow> string option \<times> string option" where
  "disk_identity env name dir =
     (if starts_with name ''sd'' then
        let entry = Option.bind (read_trimmed env (path_join dir ''dev''))
                      (\<lambda>dev. se_read env (path_join UDEV_DATA (CHR ''b'' # dev)));
            serial = Option.bind entry (\<lambda>e. udev_property e ''ID_SERIAL_SHORT'');
            model = map_option decode_udev_enc (Option.bind entry (\<lambda>e. udev_property e ''ID_MODEL_ENC''))
        in (identity serial, identity model)
      else
        let serial = first_of (se_read env (path_join dir ''device/serial'')) (se_read env (path_join dir ''serial''));
            model = first_of (se_read env (path_join dir ''device/model'')) (se_read env (path_join dir ''device/name''))
        in (identity serial, identity model))"

definition block_disk :: "'j sys_env \<Rightarrow> string \<Rightarrow> string \<Rightarrow> disk option" where
  "block_disk env block_dir name =
     (let dir = path_join block_dir name;
          device = path_join dir ''device''
      in if \<not> se_exists env device then None
         else
           let sysfs_path = (case se_canonicalize env dir of Some p \<Rightarrow> lossy p | None \<Rightarrow> []);
               kind = drive_kind_of name sysfs_path (read_trimmed env (path_join device ''type''));
               (serial, model) = disk_identity env name dir;
               stat = Option.bind (se_read env (path_join dir ''stat'')) parse_stat
           in Some \<lparr>dk_name = name, dk_kind = kind, dk_serial = serial, dk_model = model, dk_stat = stat\<rparr>)"

definition block_disks :: "'j sys_env \<Rightarrow> string \<Rightarrow> disk list" where
  "block_disks env sysfs =
     (case se_read_dir env (path_join sysfs ''block'') of
        None \<Rightarrow> []
      | Some entries \<Rightarrow> List.map_filter (block_disk env (path_join sysfs ''block'')) (sort (map lossy entries)))"

definition smart_drive :: "'j sys_env \<Rightarrow> string \<Rightarrow> scan_device \<Rightarrow> (string \<times> drive) option" where
  "smart_drive env smartctl device =
     (let args = [''--json'', ''--health'', ''--all''] @
            (case sd_dev_type device of Some t \<Rightarrow> [''-d'', t] | None \<Rightarrow> []) @ [sd_name device]
      in Option.bind (Option.bind (se_output env smartctl args) (\<lambda>(_, stdout). from_utf8 stdout)) (\<lambda>text.
         Option.bind (parse_smart (se_json env) text) (\<lambda>d. Some (sd_name device, d))))"

definition smart_drives :: "'j sys_env \<Rightarrow> string \<Rightarrow> (string \<times> drive) list" where
  "smart_drives env smartctl =
     (case tool_output env smartctl [''--scan-open'', ''--json''] of
        None \<Rightarrow> []
      | Some scan \<Rightarrow> List.map_filter (smart_drive env smartctl) (parse_scan (se_json env) scan))"

definition identify :: "disk \<Rightarrow> drive option \<Rightarrow> log_record \<Rightarrow> log_record" where
  "identify d smart r =
     attr_opt ''model'' (map_option VStr (first_of (Option.bind smart dr_model) (dk_model d)))
       (attr_opt ''sn'' (map_option VStr (first_of (Option.bind smart dr_serial) (dk_serial d))) r)"

definition sector_bytes :: "nat \<Rightarrow> attr_value" where
  "sector_bytes sectors = int_of_u64 (saturating_mul sectors SECTOR_BYTES)"

definition drive_record :: "disk \<Rightarrow> drive option \<Rightarrow> log_record" where
  "drive_record d smart =
     (let stat = dk_stat d
      in fields_opt
        [(''device'', Some (VStr (dk_name d))),
         (''read_bytes'', map_option (\<lambda>s. sector_bytes (bs_read_sectors s)) stat),
         (''written_bytes'', map_option (\<lambda>s. sector_bytes (bs_write_sectors s)) stat),
         (''discarded_bytes'', map_option sector_bytes (Option.bind stat bs_discard_sectors)),
         (''reads'', map_option (\<lambda>s. int_of_u64 (bs_reads s)) stat),
         (''writes'', map_option (\<lambda>s. int_of_u64 (bs_writes s)) stat),
         (''flushes'', map_option int_of_u64 (Option.bind stat bs_flushes)),
         (''read_time_ms'', map_option (\<lambda>s. int_of_u64 (bs_read_ms s)) stat),
         (''write_time_ms'', map_option (\<lambda>s. int_of_u64 (bs_write_ms s)) stat),
         (''io_time_ms'', map_option (\<lambda>s. int_of_u64 (bs_io_ms s)) stat),
         (''passed'', map_option VBool (Option.bind smart dr_passed)),
         (''power_on_hours'', map_option VInt (Option.bind smart dr_power_on_hours))]
        (attr_opt ''kind'' (map_option (\<lambda>k. VStr (drive_kind_str k)) (first_of (dk_kind d) (Option.bind smart dr_kind)))
          (identify d smart (record_new ''system.drive''))))"

definition nvme_record :: "disk \<Rightarrow> drive \<Rightarrow> nvme_health \<Rightarrow> log_record" where
  "nvme_record d smart nvme =
     fields_opt
       [(''percentage_used'', map_option VInt (nh_percentage_used nvme)),
        (''available_spare'', map_option VInt (nh_available_spare nvme)),
        (''media_errors'', map_option VInt (nh_media_errors nvme)),
        (''unsafe_shutdowns'', map_option VInt (nh_unsafe_shutdowns nvme)),
        (''critical_warning'', map_option VInt (nh_critical_warning nvme))]
       (identify d (Some smart) (record_new ''system.drive.nvme''))"

definition sata_record :: "disk \<Rightarrow> drive \<Rightarrow> sata_health \<Rightarrow> log_record" where
  "sata_record d smart sata =
     (let attribute = (\<lambda>name. (name, map_option VInt (map_of (sh_attributes sata) name)))
      in fields_opt
        [attribute ''reallocated_sector_ct'', attribute ''reported_uncorrect'', attribute ''command_timeout'',
         attribute ''current_pending_sector'', attribute ''offline_uncorrectable'', attribute ''power_cycle_count'',
         attribute ''udma_crc_error_count'', attribute ''wear_leveling_count'', attribute ''total_lbas_written'',
         (''failing_now'', Some (int_of_u64 (sh_failing_now sata))),
         (''failed_past'', Some (int_of_u64 (sh_failed_past sata)))]
        (identify d (Some smart) (record_new ''system.drive.sata'')))"

definition disk_records :: "(string \<times> drive) list \<Rightarrow> disk \<Rightarrow> nat option \<Rightarrow> log_record list" where
  "disk_records smart d matched =
     (let dr = map_option (\<lambda>i. snd (smart ! i)) matched
      in drive_record d dr #
         (case dr of
            None \<Rightarrow> []
          | Some s \<Rightarrow>
              (case dr_nvme s of Some nvme \<Rightarrow> [nvme_record d s nvme] | None \<Rightarrow> []) @
              (case dr_sata s of Some sata \<Rightarrow> [sata_record d s sata] | None \<Rightarrow> [])))"

definition drive_records :: "'j sys_env \<Rightarrow> string \<Rightarrow> string option \<Rightarrow> log_record list" where
  "drive_records env sysfs smartctl =
     (let smart = (case smartctl of Some p \<Rightarrow> smart_drives env p | None \<Rightarrow> []);
          disks = block_disks env sysfs;
          matched = match_smart (map (\<lambda>d. (dk_name d, dk_serial d)) disks) (map (\<lambda>(name, d). (name, dr_serial d)) smart)
      in concat (map2 (disk_records smart) disks matched))"

section \<open>Generation, host and failsafe\<close>

definition SYSTEM_PROFILE :: string where "SYSTEM_PROFILE = ''/nix/var/nix/profiles/system''"

definition generation_record :: "'j sys_env \<Rightarrow> string \<Rightarrow> log_record" where
  "generation_record env profiles_dir =
     (let profile = read_link env SYSTEM_PROFILE;
          entry_count = map_option (\<lambda>entries.
            length (filter (\<lambda>e. starts_with (lossy e) ''system-'' \<and> ends_with (lossy e) ''-link'') entries))
            (se_read_dir env profiles_dir)
      in fields_opt
        [(''current'', map_option int_of_u64 (Option.bind profile parse_generation)),
         (''current_system'', map_option VStr (read_link env ''/run/current-system'')),
         (''booted_system'', map_option VStr (read_link env ''/run/booted-system'')),
         (''count'', map_option int_of_u64 entry_count)]
        (record_new ''system.generation''))"

definition host_record :: "'j sys_env \<Rightarrow> string option \<Rightarrow> string \<Rightarrow> log_record" where
  "host_record env flake_lock input =
     (let locked = Option.bind (Option.bind flake_lock (se_read env)) (\<lambda>text. parse_flake_lock (se_json env) text input)
      in fields_opt
        [(''uptime_seconds'', map_option VF64 (Option.bind (se_read env ''/proc/uptime'') parse_uptime_seconds)),
         (''kernel_release'', map_option VStr (read_trimmed env ''/proc/sys/kernel/osrelease'')),
         (''nixos_version'', map_option VStr (read_trimmed env ''/run/current-system/nixos-version'')),
         (''common_commit_id'', map_option VStr (Option.bind locked li_rev)),
         (''common_last_modified'', map_option VInt (Option.bind locked li_last_modified)),
         (''common_ref'', map_option VStr (Option.bind locked li_reference))]
        (record_new ''system.host''))"

text \<open>Seconds since a moment written down as Unix seconds.\<close>

definition marker_age :: "'j sys_env \<Rightarrow> string \<Rightarrow> f64 option" where
  "marker_age env path =
     Option.bind (Option.bind (read_trimmed env path) parse_u64) (\<lambda>unix_seconds.
     Option.bind (se_unix_micros env) (\<lambda>now.
     Option.bind (checked_mul unix_seconds 1000000) (seconds_since now)))"

definition iroh_failsafe_record :: "'j sys_env \<Rightarrow> string \<Rightarrow> string \<Rightarrow> string option \<Rightarrow> log_record" where
  "iroh_failsafe_record env marker rule_tag nft =
     (let port_22_open = map_option (\<lambda>chain. contains_str chain rule_tag)
            (Option.bind nft (\<lambda>p. tool_output env p [''list'', ''chain'', ''inet'', ''nixos-fw'', ''input-allow'']))
      in fields_opt
        [(''port_22_open'', map_option VBool port_22_open),
         (''last_engaged_seconds_ago'', map_option VDouble (marker_age env marker))]
        (record_new ''system.iroh_failsafe''))"

section \<open>Units and timers\<close>

definition units_to_report :: "'j sys_env \<Rightarrow> string \<Rightarrow> string list \<Rightarrow> string list" where
  "units_to_report env systemctl watch =
     (case tool_output env systemctl
             [''list-units'', ''--state=failed,auto-restart'', ''--plain'', ''--no-legend'', ''--no-pager''] of
        None \<Rightarrow> watch
      | Some text \<Rightarrow> fold (\<lambda>u us. if u \<in> set us then us else us @ [u]) (parse_unit_names text) watch)"

definition show_unit :: "'j sys_env \<Rightarrow> string \<Rightarrow> string \<Rightarrow> string list \<Rightarrow> string \<rightharpoonup> string" where
  "show_unit env systemctl unit_name properties =
     (case tool_output env systemctl ([''show'', unit_name, ''--no-pager''] @ map (\<lambda>p. ''--property='' @ p) properties) of
        None \<Rightarrow> Map.empty
      | Some text \<Rightarrow> parse_show_properties text)"

definition unit_record :: "'j sys_env \<Rightarrow> string \<Rightarrow> string \<Rightarrow> string \<Rightarrow> log_record" where
  "unit_record env systemctl success_dir unit_name =
     (let properties = show_unit env systemctl unit_name
            [''ActiveState'', ''SubState'', ''Result'', ''NRestarts'', ''ActiveEnterTimestampMonotonic''];
          property = (\<lambda>name. Option.bind (properties name) (\<lambda>v. if v = [] then None else Some v));
          active_enter = Option.bind (Option.bind (property ''ActiveEnterTimestampMonotonic'') parse_micros)
            (seconds_since (se_monotonic_micros env));
          last_success = marker_age env (path_join success_dir (unit_name @ ''.last-success''))
      in fields_opt
        [(''active_state'', map_option VStr (property ''ActiveState'')),
         (''sub_state'', map_option VStr (property ''SubState'')),
         (''result'', map_option VStr (property ''Result'')),
         (''n_restarts'', map_option VInt (Option.bind (property ''NRestarts'') parse_i64)),
         (''active_enter_seconds_ago'', map_option VDouble active_enter),
         (''last_success_seconds_ago'', map_option VDouble last_success)]
        (with_attr ''unit'' (VStr unit_name) (record_new ''system.unit'')))"

definition unit_records :: "'j sys_env \<Rightarrow> string \<Rightarrow> string list \<Rightarrow> string \<Rightarrow> log_record list" where
  "unit_records env systemctl watch success_dir =
     map (unit_record env systemctl success_dir) (units_to_report env systemctl watch)"

definition timer_record :: "'j sys_env \<Rightarrow> string \<Rightarrow> string \<Rightarrow> log_record" where
  "timer_record env busctl timer =
     (let elapse = (case tool_output env busctl
              [''get-property'', ''org.freedesktop.systemd1'', bus_unit_path timer, ''org.freedesktop.systemd1.Timer'',
               ''NextElapseUSecMonotonic'', ''NextElapseUSecRealtime''] of
            Some text \<Rightarrow> parse_busctl_micros text | None \<Rightarrow> []);
          property = (\<lambda>i. Option.bind (nth_get elapse i) (\<lambda>v. v));
          monotonic = Option.bind (property 0) (seconds_until (se_monotonic_micros env));
          realtime = Option.bind (property 1) (\<lambda>t. Option.bind (se_unix_micros env) (\<lambda>now. seconds_until now t))
      in field_opt ''next_elapse_seconds_until'' (map_option VDouble (first_of monotonic realtime))
           (with_attr ''unit'' (VStr timer) (record_new ''system.timer'')))"

definition timer_records :: "'j sys_env \<Rightarrow> string \<Rightarrow> string list \<Rightarrow> log_record list" where
  "timer_records env busctl watch = map (timer_record env busctl) watch"

section \<open>Providers and journal\<close>

definition time_provider_record :: "nts_status \<Rightarrow> nts_provider \<Rightarrow> log_record" where
  "time_provider_record st p =
     fields_opt
       [(''reachable'', map_option VBool (nst_reachable st)),
        (''reach'', map_option (\<lambda>n. VInt (int n)) (nst_reach st)),
        (''state'', map_option VStr (nst_state st)),
        (''stratum'', map_option VInt (nst_stratum st)),
        (''poll_seconds'', map_option VF64 (nst_poll_seconds st)),
        (''last_rx_seconds'', map_option int_of_u64 (nst_last_rx_seconds st)),
        (''offset_seconds'', map_option VF64 (nst_offset_seconds st)),
        (''auth_mode'', map_option VStr (nst_auth_mode st)),
        (''nts_ke_count'', map_option VInt (nst_ke_count st)),
        (''nts_ke_attempts'', map_option VInt (nst_ke_attempts st)),
        (''nts_last_ke_seconds'', map_option int_of_u64 (nst_last_ke_seconds st)),
        (''nts_cookies'', map_option VInt (nst_cookies st)),
        (''nts_naks'', map_option VInt (nst_naks st))]
       (with_attr ''operator'' (VStr (np_operator p)) (with_attr ''provider'' (VStr (np_name p)) (record_new ''system.time_provider'')))"

definition or_empty :: "string option \<Rightarrow> string" where
  "or_empty t = (case t of Some s \<Rightarrow> s | None \<Rightarrow> [])"

definition time_provider_records :: "'j sys_env \<Rightarrow> string \<Rightarrow> nts_provider list \<Rightarrow> log_record list" where
  "time_provider_records env chronyc providers =
     (let sources = or_empty (tool_output env chronyc [''-c'', ''-N'', ''sources'', ''-a'']);
          authdata = or_empty (tool_output env chronyc [''-c'', ''-N'', ''authdata'', ''-a''])
      in map2 time_provider_record (nts_statuses providers sources authdata) providers)"

record doh_provider =
  dp_name :: string
  dp_hostname :: string

definition dns_provider_record :: "nat \<Rightarrow> dns_status \<Rightarrow> doh_provider \<Rightarrow> log_record" where
  "dns_provider_record window_seconds st p =
     fields_opt
       [(''ok'', map_option VBool (ds_ok st)),
        (''rtt_ms'', map_option VInt (ds_rtt_ms st)),
        (''error'', map_option VStr (ds_error st)),
        (''probe_age_seconds'', map_option VDouble (ds_probe_age_seconds st)),
        (''last_ok_seconds'', map_option VDouble (ds_last_ok_seconds st)),
        (''last_fail_seconds'', map_option VDouble (ds_last_fail_seconds st)),
        (''window_seconds'', Some (int_of_u64 window_seconds))]
       (with_attr ''hostname'' (VStr (dp_hostname p)) (with_attr ''provider'' (VStr (dp_name p)) (record_new ''system.dns_provider'')))"

definition since_arg :: "nat \<Rightarrow> string" where
  "since_arg seconds = CHR ''-'' # nat_str seconds @ ''s''"

definition dns_provider_records :: "'j sys_env \<Rightarrow> string \<Rightarrow> string \<Rightarrow> doh_provider list \<Rightarrow> nat \<Rightarrow> log_record list" where
  "dns_provider_records env journalctl unit_name providers window_seconds =
     (let text = or_empty (tool_output env journalctl
            [''--unit'', unit_name, ''--since'', since_arg window_seconds, ''--output=json'',
             ''--output-fields=MESSAGE,__REALTIME_TIMESTAMP'', ''--no-pager'']);
          entries = parse_entries (se_json env) text
      in map2 (dns_provider_record window_seconds)
           (dns_statuses (map dp_name providers) entries (se_unix_micros env)) providers)"

definition journal_record :: "nat \<Rightarrow> string \<times> journal_counts \<Rightarrow> log_record" where
  "journal_record window_seconds e =
     fields_opt
       [(''warning'', Some (int_of_u64 (jc_warning (snd e)))),
        (''err'', Some (int_of_u64 (jc_err (snd e)))),
        (''crit'', Some (int_of_u64 (jc_crit (snd e)))),
        (''window_seconds'', Some (int_of_u64 window_seconds))]
       (with_attr ''unit'' (VStr (fst e)) (record_new ''system.journal''))"

definition journal_records :: "'j sys_env \<Rightarrow> string \<Rightarrow> nat \<Rightarrow> log_record list" where
  "journal_records env journalctl window_seconds =
     (case tool_output env journalctl
             [''--since'', since_arg window_seconds, ''--priority=warning'', ''--output=json'',
              ''--output-fields=PRIORITY,_SYSTEMD_UNIT,_TRANSPORT'', ''--no-pager''] of
        None \<Rightarrow> []
      | Some text \<Rightarrow> map (journal_record window_seconds) (parse_journal_counts (se_json env) text))"

section \<open>Facts\<close>

lemma fields_opt_simps:
  "rec_event_name (fields_opt kvs r) = rec_event_name r"
  "rec_attributes (fields_opt kvs r) = rec_attributes r"
  "rec_body (fields_opt kvs r) = rec_body r @ map (\<lambda>(key, v). (key, opt_of v)) kvs"
  by (induction kvs arbitrary: r) (auto simp: fields_opt_def field_opt_def with_field_def)

text \<open>A host of which nothing can be read, whose receiver accepts what it is sent.\<close>

definition accepting :: collector where
  "accepting =
     \<lparr>col_encode = (\<lambda>_. []), col_decode = (\<lambda>_. Some None),
      col_receiver = (\<lambda>_. Inr (bytes_of_str (head_of [''HTTP/1.1 '' @ nat_str 200 @ '' OK'']) @ TERMINATOR @ []))\<rparr>"

definition bare_host :: "'j json \<Rightarrow> 'j sys_env" where
  "bare_host js =
     \<lparr>se_json = js, se_read = (\<lambda>_. None), se_stat_later = None, se_read_dir = (\<lambda>_. None), se_read_link = (\<lambda>_. None),
      se_canonicalize = (\<lambda>_. None), se_exists = (\<lambda>_. False), se_statvfs = (\<lambda>_. None), se_device = (\<lambda>_. None),
      se_output = (\<lambda>_ _. None), se_unix_nanos = Some 0, se_unix_micros = None, se_monotonic_micros = 0,
      se_collector = accepting\<rparr>"

end
