(* ===== verification/Sys_Main.thy ===== *)
theory Sys_Main
  imports Sys_Records Producer
begin

text \<open>
  The program \<open>packages/system-metrics/src/main.rs\<close>: its options and command line, the batch it
  collects, and one run of it from the clock to the receiver's answer.  A run prints or posts; the
  printed text of a dry run is left as the resource attributes and records it shows.
\<close>

section \<open>Options\<close>

record sys_options =
  so_socket :: string
  so_resource_attributes :: "(string \<times> attr_value) list"
  so_exclude_fstypes :: "string list"
  so_cpu_sample :: nat
  so_dry_run :: bool
  so_sysfs_root :: string
  so_hwmon_root :: "string option"
  so_profiles_dir :: string
  so_flake_lock :: "string option"
  so_flake_input :: string
  so_success_dir :: string
  so_units :: "string list"
  so_timers :: "string list"
  so_journal_window :: nat
  so_iroh_failsafe_marker :: "string option"
  so_failsafe_rule_tag :: string
  so_nts_providers :: "nts_provider list"
  so_doh_providers :: "doh_provider list"
  so_dnscrypt_unit :: string
  so_dns_window :: nat
  so_only :: "string list"
  so_systemctl :: "string option"
  so_busctl :: "string option"
  so_journalctl :: "string option"
  so_smartctl :: "string option"
  so_nft :: "string option"
  so_chronyc :: "string option"

definition DEFAULT_SOCKET :: string where
  "DEFAULT_SOCKET = ''/run/monitoring-platform/monitoring-platform.sock''"

datatype spec_error = BadNts provider_error | NotDohSpec string | EmptyDohSpec string

definition parse_doh_provider :: "string \<Rightarrow> (spec_error, doh_provider) result" where
  "parse_doh_provider spec =
     res_bind (ok_or (NotDohSpec spec) (split_once (CHR ''='') spec)) (\<lambda>(name, hostname).
       if name = [] \<or> hostname = [] then Inl (EmptyDohSpec spec)
       else Inr \<lparr>dp_name = name, dp_hostname = hostname\<rparr>)"

definition wants :: "sys_options \<Rightarrow> string \<Rightarrow> bool" where
  "wants opts kind \<longleftrightarrow> so_only opts = [] \<or> kind \<in> set (so_only opts)"

text \<open>Durations in nanoseconds, the two windows in seconds.\<close>

definition sys_default_options :: sys_options where
  "sys_default_options =
     \<lparr>so_socket = DEFAULT_SOCKET, so_resource_attributes = [], so_exclude_fstypes = [],
      so_cpu_sample = 10 ^ 9, so_dry_run = False, so_sysfs_root = ''/sys'', so_hwmon_root = None,
      so_profiles_dir = ''/nix/var/nix/profiles'', so_flake_lock = None, so_flake_input = ''common'',
      so_success_dir = ''/var/lib/common-monitoring'', so_units = [], so_timers = [],
      so_journal_window = 900, so_iroh_failsafe_marker = None, so_failsafe_rule_tag = ''iroh-ssh-failsafe'',
      so_nts_providers = [], so_doh_providers = [], so_dnscrypt_unit = ''dnscrypt-proxy.service'',
      so_dns_window = 21600, so_only = [], so_systemctl = None, so_busctl = None, so_journalctl = None,
      so_smartctl = None, so_nft = None, so_chronyc = None\<rparr>"

definition sys_switches :: "sys_options switches" where
  "sys_switches = [(''--dry-run'', so_dry_run_update (\<lambda>_. True))]"

definition sys_flags :: "(spec_error, sys_options) flags" where
  "sys_flags =
     [(''--socket'', set_text (\<lambda>v. so_socket_update (\<lambda>_. v))),
      (''--resource-attr'', set_read resource_attr (\<lambda>a. so_resource_attributes_update (\<lambda>as. as @ [a]))),
      (''--exclude-fstype'', set_text (\<lambda>v. so_exclude_fstypes_update (\<lambda>ts. ts @ [v]))),
      (''--cpu-sample-seconds'',
         set_read (\<lambda>raw. seconds raw ''--cpu-sample-seconds'') (\<lambda>d. so_cpu_sample_update (\<lambda>_. d))),
      (''--sysfs-root'', set_text (\<lambda>v. so_sysfs_root_update (\<lambda>_. v))),
      (''--hwmon-root'', set_text (\<lambda>v. so_hwmon_root_update (\<lambda>_. Some v))),
      (''--profiles-dir'', set_text (\<lambda>v. so_profiles_dir_update (\<lambda>_. v))),
      (''--flake-lock'', set_text (\<lambda>v. so_flake_lock_update (\<lambda>_. Some v))),
      (''--flake-input'', set_text (\<lambda>v. so_flake_input_update (\<lambda>_. v))),
      (''--success-dir'', set_text (\<lambda>v. so_success_dir_update (\<lambda>_. v))),
      (''--unit'', set_text (\<lambda>v. so_units_update (\<lambda>us. us @ [v]))),
      (''--timer'', set_text (\<lambda>v. so_timers_update (\<lambda>ts. ts @ [v]))),
      (''--journal-window-seconds'',
         set_read (\<lambda>raw. whole_positive raw ''--journal-window-seconds'') (\<lambda>n. so_journal_window_update (\<lambda>_. n))),
      (''--iroh-failsafe-marker'', set_text (\<lambda>v. so_iroh_failsafe_marker_update (\<lambda>_. Some v))),
      (''--failsafe-rule-tag'', set_text (\<lambda>v. so_failsafe_rule_tag_update (\<lambda>_. v))),
      (''--nts-provider'',
         set_read (\<lambda>raw. map_err (BadSpec \<circ> BadNts) (parse_provider raw)) (\<lambda>p. so_nts_providers_update (\<lambda>ps. ps @ [p]))),
      (''--doh-provider'',
         set_read (\<lambda>raw. map_err BadSpec (parse_doh_provider raw)) (\<lambda>p. so_doh_providers_update (\<lambda>ps. ps @ [p]))),
      (''--dnscrypt-unit'', set_text (\<lambda>v. so_dnscrypt_unit_update (\<lambda>_. v))),
      (''--dns-window-seconds'',
         set_read (\<lambda>raw. whole_positive raw ''--dns-window-seconds'') (\<lambda>n. so_dns_window_update (\<lambda>_. n))),
      (''--only'', set_text (\<lambda>v. so_only_update (\<lambda>ks. ks @ [v]))),
      (''--systemctl'', set_text (\<lambda>v. so_systemctl_update (\<lambda>_. Some v))),
      (''--busctl'', set_text (\<lambda>v. so_busctl_update (\<lambda>_. Some v))),
      (''--journalctl'', set_text (\<lambda>v. so_journalctl_update (\<lambda>_. Some v))),
      (''--smartctl'', set_text (\<lambda>v. so_smartctl_update (\<lambda>_. Some v))),
      (''--nft'', set_text (\<lambda>v. so_nft_update (\<lambda>_. Some v))),
      (''--chronyc'', set_text (\<lambda>v. so_chronyc_update (\<lambda>_. Some v)))]"

definition sys_parse_args :: "string list \<Rightarrow> (spec_error arg_error, sys_options option) result" where
  "sys_parse_args args = scan_args sys_switches sys_flags args sys_default_options"

section \<open>One run\<close>

definition sys_resource_attributes :: "'j sys_env \<Rightarrow> sys_options \<Rightarrow> (string \<times> attr_value) list" where
  "sys_resource_attributes env opts =
     [(''service.name'', VStr ''system-metrics'')]
     @ (case read_trimmed env ''/proc/sys/kernel/hostname'' of Some h \<Rightarrow> [(''host.name'', VStr h)] | None \<Rightarrow> [])
     @ (case read_trimmed env ''/proc/sys/kernel/random/boot_id'' of Some b \<Rightarrow> [(''boot_id'', VStr b)] | None \<Rightarrow> [])
     @ so_resource_attributes opts"

definition group :: "sys_options \<Rightarrow> string \<Rightarrow> log_record list \<Rightarrow> log_record list" where
  "group opts kind records = (if wants opts kind then records else [])"

definition with_tool :: "string option \<Rightarrow> (string \<Rightarrow> log_record list) \<Rightarrow> log_record list" where
  "with_tool path records = (case path of Some p \<Rightarrow> records p | None \<Rightarrow> [])"

definition sys_records :: "'j sys_env \<Rightarrow> sys_options \<Rightarrow> log_record list" where
  "sys_records env opts =
     group opts ''system.cpu'' [cpu_record env]
     @ group opts ''system.memory'' [memory_record env (so_sysfs_root opts)]
     @ group opts ''system.filesystem'' (filesystem_records env (so_exclude_fstypes opts) (so_sysfs_root opts))
     @ group opts ''system.drive'' (drive_records env (so_sysfs_root opts) (so_smartctl opts))
     @ group opts ''system.generation'' [generation_record env (so_profiles_dir opts)]
     @ group opts ''system.host'' [host_record env (so_flake_lock opts) (so_flake_input opts)]
     @ with_tool (so_iroh_failsafe_marker opts) (\<lambda>marker.
         group opts ''system.iroh_failsafe'' [iroh_failsafe_record env marker (so_failsafe_rule_tag opts) (so_nft opts)])
     @ group opts ''system.sensor'' (sensor_records env
         (case so_hwmon_root opts of Some p \<Rightarrow> p | None \<Rightarrow> path_join (so_sysfs_root opts) ''class/hwmon''))
     @ with_tool (so_systemctl opts) (\<lambda>systemctl.
         group opts ''system.unit'' (unit_records env systemctl (so_units opts) (so_success_dir opts)))
     @ with_tool (so_busctl opts) (\<lambda>busctl. group opts ''system.timer'' (timer_records env busctl (so_timers opts)))
     @ with_tool (so_journalctl opts) (\<lambda>journalctl.
         group opts ''system.journal'' (journal_records env journalctl (so_journal_window opts)))
     @ with_tool (so_chronyc opts) (\<lambda>chronyc.
         group opts ''system.time_provider''
           (if so_nts_providers opts \<noteq> [] then time_provider_records env chronyc (so_nts_providers opts) else []))
     @ with_tool (so_journalctl opts) (\<lambda>journalctl.
         group opts ''system.dns_provider''
           (if so_doh_providers opts \<noteq> []
            then dns_provider_records env journalctl (so_dnscrypt_unit opts) (so_doh_providers opts) (so_dns_window opts)
            else []))"

definition SYS_SCOPE_NAME :: string where "SYS_SCOPE_NAME = ''system-metrics''"

definition sys_run :: "'j sys_env \<Rightarrow> sys_options \<Rightarrow> (run_error, run_report) result" where
  "sys_run env opts =
     res_bind (ok_or BeforeEpoch (se_unix_nanos env)) (\<lambda>time_unix_nano.
       deliver (se_collector env) SYS_SCOPE_NAME (so_dry_run opts) (so_socket opts) time_unix_nano
         (sys_resource_attributes env opts) (sys_records env opts))"

definition sys_main :: "'j sys_env \<Rightarrow> string list \<Rightarrow> exit_code" where
  "sys_main env args = exit_of (\<lambda>opts. succeeds (sys_run env opts)) (sys_parse_args args)"

section \<open>Shapes of the records\<close>

text \<open>The keys of the attributes and of the body that each measurement type has; a sensor has one reading.\<close>

definition schema :: "(string \<times> string list \<times> string list) list" where
  "schema =
     [(''system.cpu'', [], [''load1'', ''load5'', ''load15'', ''cores'', ''utilization_percent'']),
      (''system.memory'', [],
         [''total_bytes'', ''free_bytes'', ''available_bytes'', ''swap_total_bytes'', ''swap_free_bytes'',
          ''zramswap_memory_bytes'', ''zramswap_total_bytes'', ''oom_kill'']),
      (''system.filesystem'', [''mountpoint'', ''device'', ''fstype''],
         [''total_bytes'', ''free_bytes'', ''available_bytes'', ''lifetime_written_bytes'']),
      (''system.drive'', [''sn'', ''model'', ''kind''],
         [''device'', ''read_bytes'', ''written_bytes'', ''discarded_bytes'', ''reads'', ''writes'', ''flushes'',
          ''read_time_ms'', ''write_time_ms'', ''io_time_ms'', ''passed'', ''power_on_hours'']),
      (''system.drive.nvme'', [''sn'', ''model''],
         [''percentage_used'', ''available_spare'', ''media_errors'', ''unsafe_shutdowns'', ''critical_warning'']),
      (''system.drive.sata'', [''sn'', ''model''],
         [''reallocated_sector_ct'', ''reported_uncorrect'', ''command_timeout'', ''current_pending_sector'',
          ''offline_uncorrectable'', ''power_cycle_count'', ''udma_crc_error_count'', ''wear_leveling_count'',
          ''total_lbas_written'', ''failing_now'', ''failed_past'']),
      (''system.generation'', [], [''current'', ''current_system'', ''booted_system'', ''count'']),
      (''system.host'', [],
         [''uptime_seconds'', ''kernel_release'', ''nixos_version'', ''common_commit_id'', ''common_last_modified'', ''common_ref'']),
      (''system.iroh_failsafe'', [], [''port_22_open'', ''last_engaged_seconds_ago'']),
      (''system.unit'', [''unit''],
         [''active_state'', ''sub_state'', ''result'', ''n_restarts'', ''active_enter_seconds_ago'', ''last_success_seconds_ago'']),
      (''system.timer'', [''unit''], [''next_elapse_seconds_until'']),
      (''system.journal'', [''unit''], [''warning'', ''err'', ''crit'', ''window_seconds'']),
      (''system.time_provider'', [''provider'', ''operator''],
         [''reachable'', ''reach'', ''state'', ''stratum'', ''poll_seconds'', ''last_rx_seconds'', ''offset_seconds'',
          ''auth_mode'', ''nts_ke_count'', ''nts_ke_attempts'', ''nts_last_ke_seconds'', ''nts_cookies'', ''nts_naks'']),
      (''system.dns_provider'', [''provider'', ''hostname''],
         [''ok'', ''rtt_ms'', ''error'', ''probe_age_seconds'', ''last_ok_seconds'', ''last_fail_seconds'', ''window_seconds''])]"

definition conforms :: "log_record \<Rightarrow> bool" where
  "conforms r \<longleftrightarrow>
     (if rec_event_name r = ''system.sensor''
      then map fst (rec_attributes r) = [''chip'', ''sensor'', ''kind'', ''label'', ''threshold'', ''device''] \<and>
           length (rec_body r) = 1
      else map_of schema (rec_event_name r) = Some (map fst (rec_attributes r), map fst (rec_body r)))"

definition measurement_type :: "string \<Rightarrow> string" where
  "measurement_type event =
     (if event = ''system.drive.nvme'' \<or> event = ''system.drive.sata'' then ''system.drive'' else event)"

definition all_of :: "string \<Rightarrow> log_record list \<Rightarrow> bool" where
  "all_of kind rs \<longleftrightarrow> (\<forall>r \<in> set rs. conforms r \<and> measurement_type (rec_event_name r) = kind)"

lemma all_of_simps [simp]:
  "all_of kind []"
  "all_of kind (r # rs) \<longleftrightarrow> conforms r \<and> measurement_type (rec_event_name r) = kind \<and> all_of kind rs"
  "all_of kind (rs @ rs') \<longleftrightarrow> all_of kind rs \<and> all_of kind rs'"
  by (auto simp: all_of_def)

lemma all_of_concat: "(\<And>rs. rs \<in> set rss \<Longrightarrow> all_of kind rs) \<Longrightarrow> all_of kind (concat rss)"
  by (auto simp: all_of_def)

lemma all_of_map: "(\<And>x. x \<in> set xs \<Longrightarrow> all_of kind [f x]) \<Longrightarrow> all_of kind (map f xs)"
  by (auto simp: all_of_def)

lemmas shape_simps = conforms_def schema_def measurement_type_def record_new_def with_attr_def with_field_def
  field_opt_def attr_opt_def fields_opt_simps

lemma all_of_cpu: "all_of ''system.cpu'' [cpu_record env]"
  by (simp add: cpu_record_def Let_def shape_simps)

lemma all_of_memory: "all_of ''system.memory'' [memory_record env sysfs]"
  by (simp add: memory_record_def Let_def shape_simps)

lemma all_of_generation: "all_of ''system.generation'' [generation_record env dir]"
  by (simp add: generation_record_def Let_def shape_simps)

lemma all_of_host: "all_of ''system.host'' [host_record env lock input]"
  by (simp add: host_record_def Let_def shape_simps)

lemma all_of_failsafe: "all_of ''system.iroh_failsafe'' [iroh_failsafe_record env marker tag nft]"
  by (simp add: iroh_failsafe_record_def Let_def shape_simps)

lemma all_of_filesystem: "all_of ''system.filesystem'' (filesystem_records env exclude sysfs)"
proof -
  have "all_of ''system.filesystem'' [filesystem_record env sysfs m u]" for m u
    by (simp add: filesystem_record_def shape_simps)
  then have "all_of ''system.filesystem'' (filesystem_loop env sysfs ms seen)" for ms seen
    by (induction env sysfs ms seen rule: filesystem_loop.induct) (auto simp: Let_def split: option.split)
  then show ?thesis by (simp add: filesystem_records_def split: option.split)
qed

lemma all_of_sensor: "all_of ''system.sensor'' (sensor_records env dir)"
proof -
  have "all_of ''system.sensor'' [r]" if "sensor_record env path chip dev name = Some r" for path chip dev name r
    using that by (auto simp: sensor_record_def shape_simps Let_def split: Option.bind_splits sensor_reading.splits)
  then have "all_of ''system.sensor'' (List.map_filter (sensor_record env path chip dev) names)" for path chip dev names
    by (fastforce simp: all_of_def List.map_filter_def)
  then show ?thesis
    by (auto simp: sensor_records_def chip_records_def Let_def split: option.split intro!: all_of_concat)
qed

lemma all_of_drive: "all_of ''system.drive'' (drive_records env sysfs smartctl)"
proof -
  have d: "all_of ''system.drive'' [drive_record d s]" for d s
    by (simp add: drive_record_def identify_def Let_def shape_simps)
  have n: "all_of ''system.drive'' [nvme_record d s h]" for d s h by (simp add: nvme_record_def identify_def shape_simps)
  have a: "all_of ''system.drive'' [sata_record d s h]" for d s h
    by (simp add: sata_record_def identify_def Let_def shape_simps)
  have "all_of ''system.drive'' (disk_records smart d matched)" for smart d matched
    using d n a by (simp add: disk_records_def Let_def split: option.split)
  then show ?thesis by (auto simp: drive_records_def Let_def intro!: all_of_concat)
qed

lemma all_of_unit: "all_of ''system.unit'' (unit_records env systemctl watch dir)"
  by (auto simp: unit_records_def unit_record_def Let_def shape_simps intro!: all_of_map)

lemma all_of_timer: "all_of ''system.timer'' (timer_records env busctl watch)"
  by (auto simp: timer_records_def timer_record_def Let_def shape_simps intro!: all_of_map)

lemma all_of_journal: "all_of ''system.journal'' (journal_records env journalctl window)"
  by (auto simp: journal_records_def journal_record_def Let_def shape_simps split: option.split intro!: all_of_map)

lemma all_of_time_provider: "all_of ''system.time_provider'' (time_provider_records env chronyc ps)"
  by (auto simp: time_provider_records_def time_provider_record_def Let_def shape_simps intro!: all_of_map)

lemma all_of_dns_provider: "all_of ''system.dns_provider'' (dns_provider_records env journalctl u ps window)"
  by (auto simp: dns_provider_records_def dns_provider_record_def Let_def shape_simps intro!: all_of_map)

lemmas all_of_groups = all_of_cpu all_of_memory all_of_filesystem all_of_drive all_of_generation all_of_host all_of_failsafe
  all_of_sensor all_of_unit all_of_timer all_of_journal all_of_time_provider all_of_dns_provider

section \<open>Properties\<close>

lemma all_of_group: "all_of kind rs \<Longrightarrow> r \<in> set (group opts kind rs) \<Longrightarrow> conforms r \<and> wants opts (measurement_type (rec_event_name r))"
  by (auto simp: group_def all_of_def split: if_splits)

lemma conforms_distinct: "conforms r \<Longrightarrow> distinct (map fst (rec_attributes r)) \<and> distinct (map fst (rec_body r))"
proof -
  assume c: "conforms r"
  have "\<forall>(k, a, b) \<in> set schema. distinct a \<and> distinct b" by (simp add: schema_def)
  moreover have "(rec_event_name r, map fst (rec_attributes r), map fst (rec_body r)) \<in> set schema"
    if "rec_event_name r \<noteq> ''system.sensor''"
    using c that by (intro map_of_SomeD) (simp add: conforms_def)
  moreover have "distinct (map fst (rec_attributes r)) \<and> distinct (map fst (rec_body r))"
    if "rec_event_name r = ''system.sensor''"
    using c that by (auto simp: conforms_def length_Suc_conv)
  ultimately show ?thesis by fastforce
qed

text \<open>
  C18. Every record of a batch has the keys its event name stands for, each key once, whatever
  could be read of the host, and belongs to a measurement type this run was asked for.
\<close>

theorem batch_follows_schema:
  assumes "r \<in> set (sys_records env opts)"
  shows "conforms r \<and> distinct (map fst (rec_attributes r)) \<and> distinct (map fst (rec_body r)) \<and>
    wants opts (measurement_type (rec_event_name r))"
proof -
  have "conforms r \<and> wants opts (measurement_type (rec_event_name r))"
    using assms unfolding sys_records_def with_tool_def
    by (auto split: option.splits if_splits simp: group_def [of _ _ "[]"] dest: all_of_groups [THEN all_of_group])
  with conforms_distinct show ?thesis by blast
qed

theorem batch_follows_schema_witness:
  "let r = cpu_record (bare_host demo_js)
   in r \<in> set (sys_records (bare_host demo_js) sys_default_options) \<and> conforms r"
proof -
  have "cpu_record (bare_host demo_js) \<in> set (sys_records (bare_host demo_js) sys_default_options)"
    by (simp add: sys_records_def group_def wants_def sys_default_options_def)
  with batch_follows_schema [OF this] show ?thesis by (simp add: Let_def)
qed

subsection \<open>What a run comes to\<close>

text \<open>
  C16. The exit code: a run ends in success exactly when help was asked for, or the command
  line was accepted, the clock is past the epoch and the batch was either printed or arrived
  whole, that is the receiver answered 200 with a body that decodes and rejects no record.
  Nothing that can or cannot be read of the host fails a run.
\<close>

theorem sys_main_success_iff:
  "sys_main env args = Success \<longleftrightarrow>
    sys_parse_args args = Inr None \<or>
    (\<exists>opts t. sys_parse_args args = Inr (Some opts) \<and> se_unix_nanos env = Some t \<and>
      (so_dry_run opts \<or>
       arrived (se_collector env) SYS_SCOPE_NAME t (sys_resource_attributes env opts) (sys_records env opts)))"
  by (auto simp: sys_main_def exit_of_Success sys_run_def succeeds_deliver)

lemma filter_other: "all_of kind rs \<Longrightarrow> measurement_type e \<noteq> kind \<Longrightarrow> [r \<leftarrow> rs. rec_event_name r = e] = []"
  by (auto simp: all_of_def filter_empty_conv)

lemma event_names:
  "rec_event_name (cpu_record env) = ''system.cpu''"
  "rec_event_name (memory_record env sysfs) = ''system.memory''"
  "rec_event_name (generation_record env dir) = ''system.generation''"
  "rec_event_name (host_record env lock input) = ''system.host''"
  "rec_event_name (iroh_failsafe_record env marker tag nft) = ''system.iroh_failsafe''"
  by (simp_all add: cpu_record_def memory_record_def generation_record_def host_record_def iroh_failsafe_record_def
        Let_def fields_opt_simps record_new_def)

lemmas other_groups = all_of_filesystem [THEN filter_other] all_of_drive [THEN filter_other] all_of_sensor [THEN filter_other]
  all_of_unit [THEN filter_other] all_of_timer [THEN filter_other] all_of_journal [THEN filter_other]
  all_of_time_provider [THEN filter_other] all_of_dns_provider [THEN filter_other]

text \<open>
  A full run reports the four facts every host has exactly once each, however little of the host
  can be read.
\<close>

theorem always_reported:
  assumes "so_only opts = []"
  shows "[r \<leftarrow> sys_records env opts. rec_event_name r = ''system.cpu''] = [cpu_record env] \<and>
    [r \<leftarrow> sys_records env opts. rec_event_name r = ''system.memory''] = [memory_record env (so_sysfs_root opts)] \<and>
    [r \<leftarrow> sys_records env opts. rec_event_name r = ''system.generation''] = [generation_record env (so_profiles_dir opts)] \<and>
    [r \<leftarrow> sys_records env opts. rec_event_name r = ''system.host''] =
      [host_record env (so_flake_lock opts) (so_flake_input opts)]"
proof -
  have g: "group opts kind rs = rs" for kind rs using assms by (simp add: group_def wants_def)
  show ?thesis
    by (intro conjI;
        simp add: sys_records_def g with_tool_def event_names other_groups measurement_type_def if_distrib [of "filter _"]
          split: option.split)
qed

theorem always_reported_witness:
  "[r \<leftarrow> sys_records (bare_host demo_js) sys_default_options. rec_event_name r = ''system.host''] =
     [host_record (bare_host demo_js) None ''common'']"
proof -
  have "so_only sys_default_options = []" by (simp add: sys_default_options_def)
  from always_reported [OF this, of "bare_host demo_js"] show ?thesis by (simp add: sys_default_options_def)
qed

subsection \<open>File systems\<close>

definition fs_of :: "'j sys_env \<Rightarrow> mount \<Rightarrow> fs_usage option" where
  "fs_of env m = map_option usage (se_statvfs env (mo_mountpoint m))"

text \<open>The mounts that are a first sight of their file system; a file system without an id is always new.\<close>

definition first_sight :: "'j sys_env \<Rightarrow> mount list \<Rightarrow> nat \<Rightarrow> bool" where
  "first_sight env ms i \<longleftrightarrow>
     (case fs_of env (ms ! i) of
        None \<Rightarrow> False
      | Some u \<Rightarrow> us_fsid u = 0 \<or> (\<forall>j < i. \<forall>v. fs_of env (ms ! j) = Some v \<longrightarrow> us_fsid v \<noteq> us_fsid u))"

lemma filesystem_loop_first_sight:
  "set seen = {us_fsid v | v m. m \<in> set pre \<and> fs_of env m = Some v} \<Longrightarrow>
   filesystem_loop env sysfs ms seen =
     map (\<lambda>i. filesystem_record env sysfs ((pre @ ms) ! i) (the (fs_of env ((pre @ ms) ! i))))
       (filter (first_sight env (pre @ ms)) [length pre ..< length pre + length ms])"
proof (induction ms arbitrary: pre seen)
  case (Cons m ms)
  let ?l = "pre @ m # ms"
  have upt: "[length pre ..< length pre + length (m # ms)] = length pre # [Suc (length pre) ..< length pre + length (m # ms)]"
    by (subst upt_conv_Cons) simp_all
  have step: "filesystem_loop env sysfs ms seen' =
      map (\<lambda>i. filesystem_record env sysfs (?l ! i) (the (fs_of env (?l ! i))))
        (filter (first_sight env ?l) [Suc (length pre) ..< length pre + length (m # ms)])"
    if "set seen' = {us_fsid v | v m'. m' \<in> set (pre @ [m]) \<and> fs_of env m' = Some v}" for seen'
    using Cons.IH [OF that] by (simp del: upt_Suc)
  show ?case
  proof (cases "fs_of env m")
    case None
    then have s: "se_statvfs env (mo_mountpoint m) = None" by (simp add: fs_of_def)
    have "\<not> first_sight env ?l (length pre)" using None by (simp add: first_sight_def)
    moreover have "set seen = {us_fsid v | v m'. m' \<in> set (pre @ [m]) \<and> fs_of env m' = Some v}"
      using Cons.prems None by auto
    ultimately show ?thesis unfolding upt using s step [of seen] by (simp del: upt_Suc)
  next
    case (Some u)
    then obtain st where s: "se_statvfs env (mo_mountpoint m) = Some st" "usage st = u" by (auto simp: fs_of_def)
    have "us_fsid u \<in> set seen \<longleftrightarrow> (\<exists>j < length pre. \<exists>v. fs_of env (pre ! j) = Some v \<and> us_fsid v = us_fsid u)"
      unfolding Cons.prems in_set_conv_nth mem_Collect_eq by metis
    then have f: "first_sight env ?l (length pre) \<longleftrightarrow> us_fsid u = 0 \<or> us_fsid u \<notin> set seen"
      using Some by (auto simp: first_sight_def nth_append)
    show ?thesis
    proof (cases "us_fsid u \<noteq> 0 \<and> us_fsid u \<in> set seen")
      case True
      then have "set seen = {us_fsid v | v m'. m' \<in> set (pre @ [m]) \<and> fs_of env m' = Some v}"
        using Cons.prems Some by auto
      with True f s show ?thesis unfolding upt using step [of seen] by (simp add: Let_def del: upt_Suc)
    next
      case False
      have "set (seen @ [us_fsid u]) = {us_fsid v | v m'. m' \<in> set (pre @ [m]) \<and> fs_of env m' = Some v}"
        using Cons.prems Some by auto
      with False f s Some show ?thesis unfolding upt using step [of "seen @ [us_fsid u]"] by (auto simp: Let_def simp del: upt_Suc)
    qed
  qed
qed simp

text \<open>
  C24. One record per file system: of the visible mounts, in the order of the mount table,
  exactly those are reported that can be queried and whose file system has no id or was not
  seen at an earlier mount that could be queried. A bind mount is not counted twice, an
  unreadable one hides nothing.
\<close>

theorem filesystem_reported_once:
  assumes "se_read env ''/proc/mounts'' = Some text"
  shows "filesystem_records env exclude sysfs =
    (let ms = parse_mounts text exclude
     in map (\<lambda>i. filesystem_record env sysfs (ms ! i) (the (fs_of env (ms ! i))))
          (filter (first_sight env ms) [0 ..< length ms]))"
  using assms filesystem_loop_first_sight [of "[]" "[]" env sysfs "parse_mounts text exclude"]
  by (simp add: filesystem_records_def Let_def)

definition two_mounts :: "demo_json sys_env" where
  "two_mounts = (bare_host demo_js)
     \<lparr>se_read := (\<lambda>p. if p = ''/proc/mounts'' then Some (rows [''a /x ext4 rw'', ''a /y ext4 rw'']) else None),
      se_statvfs := (\<lambda>_. Some \<lparr>f_fsid = 7, f_frsize = 1, f_bsize = 1, f_blocks = 9, f_bfree = 5, f_bavail = 4\<rparr>)\<rparr>"

theorem filesystem_reported_once_witness:
  "map (\<lambda>r. map_of (rec_attributes r) ''mountpoint'') (filesystem_records two_mounts [] ''/sys'') = [Some (VStr ''/x'')]"
proof -
  let ?ms = "[\<lparr>mo_device = ''a'', mo_mountpoint = ''/x'', mo_fstype = ''ext4''\<rparr>,
              \<lparr>mo_device = ''a'', mo_mountpoint = ''/y'', mo_fstype = ''ext4''\<rparr>]"
  have m: "parse_mounts (rows [''a /x ext4 rw'', ''a /y ext4 rw'']) [] = ?ms" by code_simp
  have "[0 ..< length ?ms] = [0, 1]" by simp
  moreover have "first_sight two_mounts ?ms 0" "\<not> first_sight two_mounts ?ms 1"
    by (simp_all add: first_sight_def fs_of_def two_mounts_def usage_def Let_def)
  ultimately have f: "filter (first_sight two_mounts ?ms) [0 ..< length ?ms] = [0]" by (simp only: filter.simps) simp
  have r: "se_read two_mounts ''/proc/mounts'' = Some (rows [''a /x ext4 rw'', ''a /y ext4 rw''])"
    by (simp add: two_mounts_def)
  show ?thesis unfolding filesystem_reported_once [OF r] m Let_def f
    by (simp add: filesystem_record_def fields_opt_simps with_attr_def record_new_def)
qed

subsection \<open>Drives\<close>

lemma drive_record_counters: "take 10 (rec_body (drive_record d s)) = take 10 (rec_body (drive_record d None))"
  by (simp add: drive_record_def Let_def fields_opt_simps identify_def attr_opt_def with_attr_def record_new_def)

lemma disk_records_drive:
  "map (\<lambda>r. take 10 (rec_body r)) [r \<leftarrow> disk_records smart d matched. rec_event_name r = ''system.drive''] =
     [take 10 (rec_body (drive_record d None))]"
proof -
  have "rec_event_name (drive_record d s) = ''system.drive''" "rec_event_name (nvme_record d s' h) = ''system.drive.nvme''"
    "rec_event_name (sata_record d s' h') = ''system.drive.sata''" for d s s' h h'
    by (simp_all add: drive_record_def nvme_record_def sata_record_def Let_def fields_opt_simps identify_def attr_opt_def
          with_attr_def record_new_def)
  then show ?thesis using drive_record_counters [of d "map_option (\<lambda>i. snd (smart ! i)) matched"]
    by (simp add: disk_records_def Let_def split: option.split)
qed

lemma filter_concat_map2:
  assumes "length xs = length ys" "\<And>x y. map g (filter P (f x y)) = [h x]"
  shows "map g (filter P (concat (map2 f xs ys))) = map h xs"
  using assms(1) by (induction xs ys rule: list_induct2) (simp_all add: assms(2))

text \<open>
  SMART only adds: every disk of the kernel has exactly one \<open>system.drive\<close> record,
  in order, and its name and its nine I/O counters are the same with and without
  \<open>smartctl\<close>, whatever that tool prints.
\<close>

theorem drives_reported_without_smart:
  "map (\<lambda>r. take 10 (rec_body r)) [r \<leftarrow> drive_records env sysfs smartctl. rec_event_name r = ''system.drive''] =
   map (\<lambda>d. take 10 (rec_body (drive_record d None))) (block_disks env sysfs)"
  unfolding drive_records_def Let_def
  by (rule filter_concat_map2) (simp_all add: match_smart_def Let_def disk_records_drive)

subsection \<open>Options\<close>

definition sys_options_ok :: "sys_options \<Rightarrow> bool" where
  "sys_options_ok opts \<longleftrightarrow>
     0 < so_journal_window opts \<and> so_journal_window opts < 2 ^ 64 \<and> 0 < so_dns_window opts \<and> so_dns_window opts < 2 ^ 64 \<and>
     (\<forall>p \<in> set (so_nts_providers opts). np_name p \<noteq> [] \<and> np_hostname p \<noteq> [] \<and> np_operator p \<noteq> []) \<and>
     (\<forall>p \<in> set (so_doh_providers opts). dp_name p \<noteq> [] \<and> dp_hostname p \<noteq> [])"

lemma parse_provider_components:
  "parse_provider spec = Inr p \<Longrightarrow> np_name p \<noteq> [] \<and> np_hostname p \<noteq> [] \<and> np_operator p \<noteq> []"
  by (auto simp: parse_provider_def result_simps split: if_splits)

lemma parse_doh_provider_components: "parse_doh_provider spec = Inr p \<Longrightarrow> dp_name p \<noteq> [] \<and> dp_hostname p \<noteq> []"
  by (auto simp: parse_doh_provider_def result_simps split: if_splits)

interpretation sys_table: option_table sys_switches sys_flags sys_options_ok
proof unfold_locales
  show "\<forall>(k, f) \<in> set sys_switches. \<forall>opts. sys_options_ok opts \<longrightarrow> sys_options_ok (f opts)"
    by (simp add: sys_switches_def sys_options_ok_def)
  show "\<forall>(k, g) \<in> set sys_flags. keeps sys_options_ok g"
    by (auto simp: sys_flags_def sys_options_ok_def result_simps
          dest: whole_positive_bound parse_provider_components parse_doh_provider_components)
qed

text \<open>
  An accepted command line has windows of at least one second that fit 64 bits, and providers
  without an empty component.
\<close>

theorem accepted_options_valid: "sys_parse_args args = Inr (Some opts) \<Longrightarrow> sys_options_ok opts"
  unfolding sys_parse_args_def
  by (erule sys_table.accepted_options) (simp add: sys_options_ok_def sys_default_options_def)

theorem accepted_options_valid_witness:
  "\<exists>opts. sys_parse_args [''--only'', ''system.cpu'', ''--dry-run'', ''--doh-provider'', ''a=b''] = Inr (Some opts) \<and>
     so_doh_providers opts = [\<lparr>dp_name = ''a'', dp_hostname = ''b''\<rparr>] \<and> sys_options_ok opts"
proof -
  let ?args = "[''--only'', ''system.cpu'', ''--dry-run'', ''--doh-provider'', ''a=b'']"
  obtain opts where o: "sys_parse_args ?args = Inr (Some opts)" "so_doh_providers opts = [\<lparr>dp_name = ''a'', dp_hostname = ''b''\<rparr>]"
    by (simp add: sys_parse_args_def sys_flags_def sys_switches_def set_text_def set_read_def parse_doh_provider_def
          sys_default_options_def)
  with accepted_options_valid show ?thesis by blast
qed

subsection \<open>Providers\<close>

lemma map2_attributes:
  "length xs = length ys \<Longrightarrow> (\<And>x y. rec_attributes (f x y) = g y) \<Longrightarrow> map rec_attributes (map2 f xs ys) = map g ys"
  by (induction xs ys rule: list_induct2) simp_all

text \<open>
  Every configured provider is reported, in the order of the command line and under its configured
  name, whatever the tools print or fail to print.
\<close>

theorem providers_reported:
  "map rec_attributes (time_provider_records env chronyc ps) =
     map (\<lambda>p. [(''provider'', VStr (np_name p)), (''operator'', VStr (np_operator p))]) ps \<and>
   map rec_attributes (dns_provider_records env journalctl u ds w) =
     map (\<lambda>d. [(''provider'', VStr (dp_name d)), (''hostname'', VStr (dp_hostname d))]) ds"
proof
  show "map rec_attributes (time_provider_records env chronyc ps) =
      map (\<lambda>p. [(''provider'', VStr (np_name p)), (''operator'', VStr (np_operator p))]) ps"
    unfolding time_provider_records_def Let_def
    by (rule map2_attributes) (simp_all add: nts_statuses_def Let_def time_provider_record_def shape_simps)
  show "map rec_attributes (dns_provider_records env journalctl u ds w) =
      map (\<lambda>d. [(''provider'', VStr (dp_name d)), (''hostname'', VStr (dp_hostname d))]) ds"
    unfolding dns_provider_records_def Let_def
    by (rule map2_attributes) (simp_all add: dns_statuses_def Let_def dns_provider_record_def shape_simps split: option.split)
qed

end
