(* ===== verification/Monitor_Cli.thy ===== *)
theory Monitor_Cli
  imports Producer Inv_Main
begin

text \<open>
  The command lines and \<open>main\<close> of the two serial monitors (\<open>packages/bms-monitoring/src/main.rs\<close> and
  \<open>packages/inverter-monitoring/src/main.rs\<close>).  Their options extend the options the loops of
  \<open>Bms_Main\<close> and \<open>Inv_Main\<close> run on by the paths that only say where sockets and device links are.
  What both processes owe their supervisor is proved once, in the locale \<open>supervised\<close>: the loop
  ends in success only when one cycle was asked for.
\<close>

section \<open>bms-monitoring\<close>

record bms_cli = bms_options +
  bc_socket :: string
  bc_by_path_dir :: string
  bc_by_id_dir :: string

definition bms_default_options :: bms_cli where
  "bms_default_options =
     \<lparr>bo_dev_dir = ''/dev'', bo_interval = 60 * NANOS, bo_settings_interval = 86400 * NANOS, bo_listen = 10 * NANOS,
      bo_frame_timeout = 30 * NANOS, bo_discovery_window = 60 * NANOS, bo_resource_attributes = [],
      bo_dry_run = False, bo_once = False,
      bc_socket = ''/run/monitoring-platform/monitoring-platform.sock'', bc_by_path_dir = ''/dev/serial/by-path'',
      bc_by_id_dir = ''/dev/serial/by-id''\<rparr>"

definition bms_switches :: "bms_cli switches" where
  "bms_switches = [(''--once'', bo_once_update (\<lambda>_. True)), (''--dry-run'', bo_dry_run_update (\<lambda>_. True))]"

definition bms_flags :: "(unit, bms_cli) flags" where
  "bms_flags =
     [(''--socket'', set_text (\<lambda>v. bc_socket_update (\<lambda>_. v))),
      (''--resource-attr'', set_read resource_attr (\<lambda>a. bo_resource_attributes_update (\<lambda>as. as @ [a]))),
      (''--dev-dir'', set_text (\<lambda>v. bo_dev_dir_update (\<lambda>_. v))),
      (''--serial-by-path-dir'', set_text (\<lambda>v. bc_by_path_dir_update (\<lambda>_. v))),
      (''--serial-by-id-dir'', set_text (\<lambda>v. bc_by_id_dir_update (\<lambda>_. v))),
      (''--interval-seconds'',
         set_read (\<lambda>raw. seconds raw ''--interval-seconds'') (\<lambda>d. bo_interval_update (\<lambda>_. d))),
      (''--settings-interval-seconds'',
         set_read (\<lambda>raw. seconds raw ''--settings-interval-seconds'') (\<lambda>d. bo_settings_interval_update (\<lambda>_. d))),
      (''--listen-seconds'', set_read (\<lambda>raw. seconds raw ''--listen-seconds'') (\<lambda>d. bo_listen_update (\<lambda>_. d))),
      (''--frame-timeout-seconds'',
         set_read (\<lambda>raw. seconds raw ''--frame-timeout-seconds'') (\<lambda>d. bo_frame_timeout_update (\<lambda>_. d))),
      (''--discovery-window-seconds'',
         set_read (\<lambda>raw. seconds raw ''--discovery-window-seconds'') (\<lambda>d. bo_discovery_window_update (\<lambda>_. d)))]"

definition bms_parse_args :: "string list \<Rightarrow> (unit arg_error, bms_cli option) result" where
  "bms_parse_args args = scan_args bms_switches bms_flags args bms_default_options"

text \<open>What \<open>main\<close> has come to after \<open>n\<close> ticks; \<open>None\<close> while it still runs.\<close>

definition exit_after :: "(('e, 'b) result, 's) result \<Rightarrow> exit_code option" where
  "exit_after r = (case r of Inl (Inl _) \<Rightarrow> Some Failure | Inl (Inr _) \<Rightarrow> Some Success | Inr _ \<Rightarrow> None)"

definition bms_main :: "bms_env \<Rightarrow> (nat \<Rightarrow> sweep) \<Rightarrow> nat \<Rightarrow> nat \<Rightarrow> string list \<Rightarrow> exit_code option" where
  "bms_main env sweeps n now args =
     (case bms_parse_args args of
        Inr (Some opts) \<Rightarrow> exit_after (bms_run (bms_options.truncate opts) env sweeps n now)
      | parsed \<Rightarrow> Some (exit_of (\<lambda>_. False) parsed))"

section \<open>inverter-monitoring\<close>

record inv_cli = inv_options +
  ic_socket :: string
  ic_by_path_dir :: string
  ic_by_id_dir :: string
  ic_state_dir :: string

definition inv_default_options :: inv_cli where
  "inv_default_options =
     \<lparr>io_dev_dir = ''/dev'', io_interval = 60 * NANOS, io_static_refresh = 3600 * NANOS, io_bms_listen = 10 * NANOS,
      io_response_timeout = 2 * NANOS, io_discovery_window = 60 * NANOS, io_resource_attributes = [],
      io_dry_run = False, io_once = False,
      ic_socket = ''/run/monitoring-platform/monitoring-platform.sock'', ic_by_path_dir = ''/dev/serial/by-path'',
      ic_by_id_dir = ''/dev/serial/by-id'', ic_state_dir = ''/var/lib/inverter-monitoring''\<rparr>"

definition inv_switches :: "inv_cli switches" where
  "inv_switches = [(''--once'', io_once_update (\<lambda>_. True)), (''--dry-run'', io_dry_run_update (\<lambda>_. True))]"

definition inv_flags :: "(unit, inv_cli) flags" where
  "inv_flags =
     [(''--socket'', set_text (\<lambda>v. ic_socket_update (\<lambda>_. v))),
      (''--resource-attr'', set_read resource_attr (\<lambda>a. io_resource_attributes_update (\<lambda>as. as @ [a]))),
      (''--dev-dir'', set_text (\<lambda>v. io_dev_dir_update (\<lambda>_. v))),
      (''--serial-by-path-dir'', set_text (\<lambda>v. ic_by_path_dir_update (\<lambda>_. v))),
      (''--serial-by-id-dir'', set_text (\<lambda>v. ic_by_id_dir_update (\<lambda>_. v))),
      (''--state-dir'', set_text (\<lambda>v. ic_state_dir_update (\<lambda>_. v))),
      (''--interval-seconds'',
         set_read (\<lambda>raw. seconds raw ''--interval-seconds'') (\<lambda>d. io_interval_update (\<lambda>_. d))),
      (''--static-refresh-seconds'',
         set_read (\<lambda>raw. seconds raw ''--static-refresh-seconds'') (\<lambda>d. io_static_refresh_update (\<lambda>_. d))),
      (''--bms-listen-seconds'',
         set_read (\<lambda>raw. seconds raw ''--bms-listen-seconds'') (\<lambda>d. io_bms_listen_update (\<lambda>_. d))),
      (''--response-timeout-seconds'',
         set_read (\<lambda>raw. seconds raw ''--response-timeout-seconds'') (\<lambda>d. io_response_timeout_update (\<lambda>_. d))),
      (''--discovery-window-seconds'',
         set_read (\<lambda>raw. seconds raw ''--discovery-window-seconds'') (\<lambda>d. io_discovery_window_update (\<lambda>_. d)))]"

definition inv_parse_args :: "string list \<Rightarrow> (unit arg_error, inv_cli option) result" where
  "inv_parse_args args = scan_args inv_switches inv_flags args inv_default_options"

definition inv_main :: "bms_env \<Rightarrow> (nat \<Rightarrow> inv_sweep) \<Rightarrow> nat \<Rightarrow> nat \<Rightarrow> string list \<Rightarrow> exit_code option" where
  "inv_main env sweeps n now args =
     (case inv_parse_args args of
        Inr (Some opts) \<Rightarrow> exit_after (inv_run (inv_options.truncate opts) env sweeps n now)
      | parsed \<Rightarrow> Some (exit_of (\<lambda>_. False) parsed))"

section \<open>What a supervisor relies on\<close>

locale supervised =
  fixes tick :: "'s \<Rightarrow> (('e, 'b) result, 's) result"
    and loop :: "nat \<Rightarrow> 's \<Rightarrow> (('e, 'b) result, 's) result"
    and once :: bool
  assumes loop_0: "loop 0 st = Inr st"
    and loop_Suc: "loop (Suc n) st = (case tick st of Inl ending \<Rightarrow> Inl ending | Inr st' \<Rightarrow> loop n st')"
    and tick_success: "tick st = Inl (Inr b) \<Longrightarrow> once"
    and tick_goes_on: "tick st = Inr st' \<Longrightarrow> \<not> once"
begin

lemma loop_success: "loop n st = Inl (Inr b) \<Longrightarrow> once"
  by (induction n arbitrary: st) (auto simp: loop_0 loop_Suc tick_success split: sum.splits)

lemma loop_once: "once \<Longrightarrow> loop (Suc n) st \<noteq> Inr st'"
  using tick_goes_on by (auto simp: loop_Suc split: sum.splits)

end

interpretation bms_loop_sv: supervised "bms_tick opts env" "bms_loop opts env" "bo_once opts"
  by unfold_locales (auto simp: bms_tick_def split: sum.splits if_splits)

interpretation inv_loop_sv: supervised "inv_tick opts env" "inv_loop opts env" "io_once opts"
  by unfold_locales (auto simp: inv_tick_def split: sum.splits if_splits)

lemma exit_after_Success: "exit_after r = Some Success \<longleftrightarrow> (\<exists>b. r = Inl (Inr b))"
  by (auto simp: exit_after_def split: sum.splits)

lemma truncate_once [simp]:
  "bo_once (bms_options.truncate b) = bo_once b" "io_once (inv_options.truncate i) = io_once i"
  by (simp_all add: bms_options.truncate_def inv_options.truncate_def)

text \<open>
  C28. A monitor that was not asked for one cycle never ends in success: whatever the devices
  and the receiver do and however long it runs, it is still running or has ended with a
  failure, so a supervisor that restarts on failure always restarts it. With
  \<open>--once\<close> it has ended after the first tick.
\<close>

theorem monitors_end_in_success_only_once:
  "(bms_main env sweeps n now args = Some Success \<longrightarrow>
      bms_parse_args args = Inr None \<or> (\<exists>opts. bms_parse_args args = Inr (Some opts) \<and> bo_once opts)) \<and>
   (inv_main env isweeps n now args = Some Success \<longrightarrow>
      inv_parse_args args = Inr None \<or> (\<exists>opts. inv_parse_args args = Inr (Some opts) \<and> io_once opts)) \<and>
   (bms_parse_args args = Inr (Some b) \<and> bo_once b \<longrightarrow> bms_main env sweeps (Suc n) now args \<noteq> None) \<and>
   (inv_parse_args args = Inr (Some i) \<and> io_once i \<longrightarrow> inv_main env isweeps (Suc n) now args \<noteq> None)"
proof (intro conjI impI)
  assume ok: "bms_main env sweeps n now args = Some Success"
  show "bms_parse_args args = Inr None \<or> (\<exists>opts. bms_parse_args args = Inr (Some opts) \<and> bo_once opts)"
  proof (cases "\<exists>opts. bms_parse_args args = Inr (Some opts)")
    case True
    with ok obtain opts b where "bms_parse_args args = Inr (Some opts)" "bms_run (bms_options.truncate opts) env sweeps n now = Inl (Inr b)"
      by (auto simp: bms_main_def exit_after_Success)
    with bms_loop_sv.loop_success [of "bms_options.truncate opts" env n] show ?thesis
      by (auto simp: bms_run_def split: sum.splits)
  next
    case False
    with ok show ?thesis by (auto simp: bms_main_def exit_of_Success split: sum.splits option.splits)
  qed
next
  assume ok: "inv_main env isweeps n now args = Some Success"
  show "inv_parse_args args = Inr None \<or> (\<exists>opts. inv_parse_args args = Inr (Some opts) \<and> io_once opts)"
  proof (cases "\<exists>opts. inv_parse_args args = Inr (Some opts)")
    case True
    with ok obtain opts b where "inv_parse_args args = Inr (Some opts)" "inv_run (inv_options.truncate opts) env isweeps n now = Inl (Inr b)"
      by (auto simp: inv_main_def exit_after_Success)
    with inv_loop_sv.loop_success [of "inv_options.truncate opts" env n] show ?thesis
      by (auto simp: inv_run_def split: sum.splits)
  next
    case False
    with ok show ?thesis by (auto simp: inv_main_def exit_of_Success split: sum.splits option.splits)
  qed
next
  assume "bms_parse_args args = Inr (Some b) \<and> bo_once b"
  with bms_loop_sv.loop_once [of "bms_options.truncate b" env n] show "bms_main env sweeps (Suc n) now args \<noteq> None"
    by (auto simp: bms_main_def bms_run_def exit_after_def split: sum.splits simp del: bms_loop.simps)
next
  assume "inv_parse_args args = Inr (Some i) \<and> io_once i"
  with inv_loop_sv.loop_once [of "inv_options.truncate i" env n] show "inv_main env isweeps (Suc n) now args \<noteq> None"
    by (auto simp: inv_main_def inv_run_def exit_after_def split: sum.splits simp del: inv_loop.simps)
qed

theorem monitors_end_in_success_only_once_witness:
  "\<forall>env sweeps isweeps n. bms_main env sweeps 1 0 [''--once'', ''--dry-run''] \<noteq> None \<and>
     bms_main env sweeps n 0 [] \<noteq> Some Success \<and> inv_main env isweeps n 0 [''--dry-run''] \<noteq> Some Success"
proof (intro allI)
  fix env :: bms_env and sweeps :: "nat \<Rightarrow> sweep" and isweeps :: "nat \<Rightarrow> inv_sweep" and n :: nat
  have p: "\<exists>b. bms_parse_args [''--once'', ''--dry-run''] = Inr (Some b) \<and> bo_once b"
    "bms_parse_args [] = Inr (Some bms_default_options)" "\<not> bo_once bms_default_options"
    "\<exists>i. inv_parse_args [''--dry-run''] = Inr (Some i) \<and> \<not> io_once i"
    by (simp_all add: bms_parse_args_def inv_parse_args_def bms_switches_def inv_switches_def
          bms_default_options_def inv_default_options_def)
  note t = monitors_end_in_success_only_once
  from p t [of env sweeps n 0 "[]"] t [where args = "[''--dry-run'']" and env = env and isweeps = isweeps and n = n and now = 0]
    t [where args = "[''--once'', ''--dry-run'']" and env = env and sweeps = sweeps and n = 0 and now = 0]
  show "bms_main env sweeps 1 0 [''--once'', ''--dry-run''] \<noteq> None \<and>
     bms_main env sweeps n 0 [] \<noteq> Some Success \<and> inv_main env isweeps n 0 [''--dry-run''] \<noteq> Some Success"
    by auto
qed

end
