(* ===== verification/Dd_Usb.thy ===== *)
theory Dd_Usb
  imports Rust_Parse
begin

text \<open>
  \<open>packages/detected-devices/src/usb.rs\<close>: what an entry of \<open>/sys/bus/usb/devices\<close> is by its name, the
  device path a port hosts, and the readers of the attribute files.
\<close>

section \<open>Names\<close>

datatype usb_entry = Device | Interface string

definition classify :: "string \<Rightarrow> usb_entry option" where
  "classify name =
     (if name = [] then None
      else case split_once (CHR '':'') name of
        Some (device, _) \<Rightarrow> if device \<noteq> [] then Some (Interface device) else None
      | None \<Rightarrow> Some Device)"

definition all_digits :: "string \<Rightarrow> bool" where
  "all_digits s \<longleftrightarrow> s \<noteq> [] \<and> list_all is_digit s"

definition canonical_device_path :: "string \<Rightarrow> string" where
  "canonical_device_path raw =
     (case split_once (CHR ''-'') raw of
        Some (bus, rest) \<Rightarrow> if rest = ''0'' \<and> all_digits bus then ''usb'' @ bus else raw
      | None \<Rightarrow> raw)"

definition port_device_path :: "string \<Rightarrow> string option" where
  "port_device_path port_name =
     Option.bind (rsplit_once_str ''-port'' port_name) (\<lambda>(prefix, index).
       if \<not> all_digits index then None
       else case strip_prefix prefix ''usb'' of
         Some bus \<Rightarrow>
           if all_digits bus then Some (bus @ ''-'' @ index)
           else if prefix \<noteq> [] then Some (prefix @ ''.'' @ index) else None
       | None \<Rightarrow> if prefix \<noteq> [] then Some (prefix @ ''.'' @ index) else None)"

section \<open>Values\<close>

definition parse_max_power_ma :: "string \<Rightarrow> int option" where
  "parse_max_power_ma raw = Option.bind (strip_suffix (trim raw) ''mA'') (\<lambda>s. parse_i64 (trim s))"

definition parse_usb_version :: "string \<Rightarrow> string option" where
  "parse_usb_version raw = (let trimmed = trim raw in if trimmed \<noteq> [] then Some trimmed else None)"

definition parse_speed_mbps :: "string \<Rightarrow> f64_value option" where
  "parse_speed_mbps raw = parse_f64 (trim raw)"

definition parse_yes_no :: "string \<Rightarrow> bool option" where
  "parse_yes_no raw =
     (let t = trim raw in if t = ''yes'' then Some True else if t = ''no'' then Some False else None)"

definition parse_zero_one :: "string \<Rightarrow> bool option" where
  "parse_zero_one raw =
     (let t = trim raw in if t = ''1'' then Some True else if t = ''0'' then Some False else None)"

definition is_hexdigit :: "char \<Rightarrow> bool" where
  "is_hexdigit c \<longleftrightarrow> char_digit 16 c \<noteq> None"

definition parse_hex_byte :: "string \<Rightarrow> string option" where
  "parse_hex_byte raw =
     (let trimmed = trim raw in if trimmed \<noteq> [] \<and> list_all is_hexdigit trimmed then Some trimmed else None)"

section \<open>Lines\<close>

text \<open>\<open>if let Some(rest) = line.strip_prefix(p) { ... continue }\<close>, and what comes after it.\<close>

definition on_prefix :: "string \<Rightarrow> string \<Rightarrow> (string \<Rightarrow> 'a) \<Rightarrow> 'a \<Rightarrow> 'a" where
  "on_prefix line p found otherwise = (case strip_prefix line p of Some rest \<Rightarrow> found rest | None \<Rightarrow> otherwise)"

lemma on_prefixI: "(\<And>rest. P (found rest)) \<Longrightarrow> P otherwise \<Longrightarrow> P (on_prefix line p found otherwise)"
  by (simp add: on_prefix_def split: option.split)

section \<open>Lemmas\<close>

lemma all_digits_plain: "all_digits s \<Longrightarrow> CHR ''.'' \<notin> set s \<and> CHR ''-'' \<notin> set s"
  by (auto simp: all_digits_def list_all_iff is_digit_def digit_val_def)

text \<open>The shapes of what a port hosts: a bus and a number, or a hub and a number.\<close>

lemma port_device_path_cases:
  assumes "port_device_path n = Some p"
  obtains (Rooted) bus i where "all_digits bus" "all_digits i" "p = bus @ ''-'' @ i" "n = ''usb'' @ bus @ ''-port'' @ i"
    | (Hub) h i where "h \<noteq> []" "all_digits i" "p = h @ ''.'' @ i" "n = h @ ''-port'' @ i" "\<nexists>b. h = ''usb'' @ b \<and> all_digits b"
proof -
  obtain h i where hi: "rsplit_once_str ''-port'' n = Some (h, i)" "all_digits i"
    using assms by (auto simp: port_device_path_def split: Option.bind_splits if_splits)
  from hi(1) have n: "n = h @ ''-port'' @ i" by (rule rsplit_once_str_parts)
  show thesis
  proof (cases "\<exists>b. h = ''usb'' @ b \<and> all_digits b")
    case True
    then obtain b where b: "strip_prefix h ''usb'' = Some b" "all_digits b" by (auto simp: strip_prefix_Some)
    with hi assms have "p = b @ ''-'' @ i" by (simp add: port_device_path_def)
    moreover have "n = ''usb'' @ b @ ''-port'' @ i" using n b(1) by (simp add: strip_prefix_Some)
    ultimately show thesis using b(2) hi(2) by (rule Rooted [rotated 2])
  next
    case False
    with hi have "h \<noteq> [] \<and> p = h @ ''.'' @ i"
      using assms strip_prefix_Some [of h "''usb''"]
      by (auto simp: port_device_path_def split: option.splits if_splits)
    with hi n False show thesis by (intro Hub [of h i]) auto
  qed
qed

lemma append_sep_inject:
  assumes "a @ c # b = a' @ c # b'" "c \<notin> set b" "c \<notin> set b'"
  shows "a = a' \<and> b = b'"
  using assms by (auto simp: append_eq_append_conv2 append_eq_Cons_conv Cons_eq_append_conv)

section \<open>Properties\<close>

text \<open>
  Two ports never host the same device: a device path determines the name of the port directory
  it was computed from, so a record of a port joins to at most one device and a device to at most
  one port.
\<close>

theorem port_device_path_injective:
  assumes "port_device_path n = Some p" "port_device_path n' = Some p"
  shows "n = n'"
  using assms(1)
proof (cases rule: port_device_path_cases)
  case r: (Rooted bus i)
  from assms(2) show ?thesis
  proof (cases rule: port_device_path_cases)
    case (Rooted bus' i')
    with r append_sep_inject [of bus "CHR ''-''" i bus' i'] show ?thesis by (auto dest!: all_digits_plain)
  next
    case (Hub h i')
    then have "CHR ''.'' \<in> set p" by simp
    with r show ?thesis by (auto dest!: all_digits_plain)
  qed
next
  case h: (Hub hub i)
  from assms(2) show ?thesis
  proof (cases rule: port_device_path_cases)
    case (Rooted bus' i')
    from h have "CHR ''.'' \<in> set p" by simp
    with Rooted show ?thesis by (auto dest!: all_digits_plain)
  next
    case (Hub h' i')
    with h append_sep_inject [of hub "CHR ''.''" i h' i'] show ?thesis by (auto dest!: all_digits_plain)
  qed
qed

theorem port_device_path_injective_witness:
  "port_device_path ''usb3-port1'' = Some ''3-1'' \<and> port_device_path ''3-1-port2'' = Some ''3-1.2'' \<and>
   (\<forall>n. port_device_path n = Some ''3-1'' \<longrightarrow> n = ''usb3-port1'')"
proof -
  have "port_device_path ''usb3-port1'' = Some ''3-1''" "port_device_path ''3-1-port2'' = Some ''3-1.2''" by code_simp+
  with port_device_path_injective [where n' = "''usb3-port1''"] show ?thesis by blast
qed

end
