(* ===== verification/Dd_Ble.thy ===== *)
theory Dd_Ble
  imports Rust_Parse Rust_Map Dd_Usb
begin

text \<open>
  \<open>packages/detected-devices/src/ble.rs\<close>: a \<open>btmon\<close> capture read line by line into one entry per
  address.  The locals of the loop of \<open>parse_btmon\<close> are the record \<open>ble_state\<close>, its body is
  \<open>ble_line\<close>; the counters are far below \<open>2 ^ 63\<close> and are kept as integers.
\<close>

section \<open>Advertisers\<close>

datatype address_kind = Public | Random

record advertiser =
  ad_address :: string
  ad_kind :: address_kind
  ad_pdu_type :: "string option"
  ad_rssi_last :: "int option"
  ad_rssi_min :: "int option"
  ad_rssi_max :: "int option"
  ad_report_count :: int
  ad_name :: "string option"
  ad_tx_power_dbm :: "int option"
  ad_company_id :: "int option"
  ad_service_uuids :: "string option"
  ad_flags :: "string option"

definition connectable :: "advertiser \<Rightarrow> bool option" where
  "connectable a = map_option (\<lambda>pdu. pdu = ''ADV_IND'' \<or> pdu = ''ADV_DIRECT_IND'') (ad_pdu_type a)"

record ble_scan =
  sc_advertisers :: "advertiser list"
  sc_reports_total :: int

definition strongest_dbm :: "ble_scan \<Rightarrow> int option" where
  "strongest_dbm scan =
     (case List.map_filter ad_rssi_max (sc_advertisers scan) of [] \<Rightarrow> None | r # rs \<Rightarrow> Some (fold max rs r))"

definition count_kind :: "ble_scan \<Rightarrow> address_kind \<Rightarrow> int" where
  "count_kind scan kind = int (length (filter (\<lambda>a. ad_kind a = kind) (sc_advertisers scan)))"

definition connectable_count :: "ble_scan \<Rightarrow> int" where
  "connectable_count scan = int (length (filter (\<lambda>a. connectable a = Some True) (sc_advertisers scan)))"

definition bucket :: "advertiser \<Rightarrow> int \<times> int \<times> int \<Rightarrow> int \<times> int \<times> int" where
  "bucket a b =
     (case b of (near, mid, far) \<Rightarrow>
        (case ad_rssi_max a of
           None \<Rightarrow> (near, mid, far)
         | Some r \<Rightarrow>
             if r > - 60 then (near + 1, mid, far) else if r \<ge> - 80 then (near, mid + 1, far) else (near, mid, far + 1)))"

definition distance_buckets :: "ble_scan \<Rightarrow> int \<times> int \<times> int" where
  "distance_buckets scan = fold bucket (sc_advertisers scan) (0, 0, 0)"

section \<open>Reading a capture\<close>

record ble_state =
  bl_found :: "(string \<times> advertiser) list"
  bl_reports_total :: int
  bl_pending_pdu :: "string option"
  bl_pending_kind :: "address_kind option"
  bl_current :: "string option"
  bl_in_mgmt :: bool
  bl_in_report :: bool

definition ble_start :: ble_state where
  "ble_start =
     \<lparr>bl_found = [], bl_reports_total = 0, bl_pending_pdu = None, bl_pending_kind = None, bl_current = None,
      bl_in_mgmt = False, bl_in_report = False\<rparr>"

definition boundary :: "bool \<Rightarrow> ble_state \<Rightarrow> ble_state" where
  "boundary mgmt st =
     st\<lparr>bl_in_mgmt := mgmt, bl_in_report := False, bl_current := None, bl_pending_kind := None, bl_pending_pdu := None\<rparr>"

definition new_advertiser :: "string \<Rightarrow> advertiser" where
  "new_advertiser address =
     \<lparr>ad_address = address, ad_kind = Public, ad_pdu_type = None, ad_rssi_last = None, ad_rssi_min = None,
      ad_rssi_max = None, ad_report_count = 0, ad_name = None, ad_tx_power_dbm = None, ad_company_id = None,
      ad_service_uuids = None, ad_flags = None\<rparr>"

definition pdu_of :: "string \<Rightarrow> string option" where
  "pdu_of rest = Option.bind (nth_get (split_str '' - '' rest) 1) (\<lambda>s. Some (trim (hd (split_str '' ('' s))))"

definition heard :: "ble_state \<Rightarrow> string \<Rightarrow> advertiser option \<Rightarrow> advertiser" where
  "heard st address old =
     (let a = (case old of Some a \<Rightarrow> a | None \<Rightarrow> new_advertiser address)
      in a\<lparr>ad_report_count := ad_report_count a + 1,
           ad_pdu_type := (case ad_pdu_type a of None \<Rightarrow> bl_pending_pdu st | Some p \<Rightarrow> Some p),
           ad_kind := (case bl_pending_kind st of Some k \<Rightarrow> k | None \<Rightarrow> ad_kind a)\<rparr>)"

definition pdu_left :: "ble_state \<Rightarrow> string \<Rightarrow> string option" where
  "pdu_left st address =
     (case Option.bind (map_of (bl_found st) address) ad_pdu_type of None \<Rightarrow> None | Some _ \<Rightarrow> bl_pending_pdu st)"

definition address_line :: "string \<Rightarrow> ble_state \<Rightarrow> ble_state" where
  "address_line rest st =
     (let address = (case split_whitespace rest of w # _ \<Rightarrow> w | [] \<Rightarrow> [])
      in if address = [] then st
         else st\<lparr>bl_reports_total := bl_reports_total st + 1,
                 bl_found := bt_update address (heard st address) (bl_found st),
                 bl_pending_pdu := pdu_left st address,
                 bl_pending_kind := None,
                 bl_current := Some address\<rparr>)"

definition add_rssi :: "int \<Rightarrow> advertiser \<Rightarrow> advertiser" where
  "add_rssi dbm a =
     a\<lparr>ad_rssi_last := Some dbm,
       ad_rssi_min := Some (case ad_rssi_min a of None \<Rightarrow> dbm | Some m \<Rightarrow> min m dbm),
       ad_rssi_max := Some (case ad_rssi_max a of None \<Rightarrow> dbm | Some m \<Rightarrow> max m dbm)\<rparr>"

definition add_uuid :: "string \<Rightarrow> advertiser \<Rightarrow> advertiser" where
  "add_uuid hex a =
     a\<lparr>ad_service_uuids := Some (case ad_service_uuids a of
         Some existing \<Rightarrow> if hex \<in> set (split_on (CHR '','') existing) then existing else existing @ '','' @ hex
       | None \<Rightarrow> hex)\<rparr>"

text \<open>A line under an address, in the order in which the loop looks at its prefix.\<close>

definition detail :: "string \<Rightarrow> advertiser \<Rightarrow> advertiser" where
  "detail trimmed a =
     on_prefix trimmed ''RSSI: '' (\<lambda>rest.
       case parse_i64 (trim (hd (split_str '' dBm'' rest))) of Some dbm \<Rightarrow> add_rssi dbm a | None \<Rightarrow> a)
     (on_prefix trimmed ''Flags: '' (\<lambda>rest. a\<lparr>ad_flags := Some (trim rest)\<rparr>)
     (on_prefix trimmed ''Name (complete): '' (\<lambda>rest. a\<lparr>ad_name := Some (trim rest)\<rparr>)
     (on_prefix trimmed ''Name (short): '' (\<lambda>rest. if ad_name a = None then a\<lparr>ad_name := Some (trim rest)\<rparr> else a)
     (on_prefix trimmed ''TX power: '' (\<lambda>rest. a\<lparr>ad_tx_power_dbm := parse_i64 (trim (hd (split_str '' dB'' rest)))\<rparr>)
     (on_prefix trimmed ''Company: '' (\<lambda>rest.
       a\<lparr>ad_company_id := Option.bind (rsplit_once (CHR ''('') rest) (\<lambda>(_, n). parse_i64 (trim (trim_end_matches '')'' n)))\<rparr>)
     (case Option.bind (rsplit_once_str ''(0x'' trimmed) (\<lambda>(_, uuid). strip_suffix uuid '')'') of
        Some hex \<Rightarrow> if length hex = 4 \<and> list_all is_hexdigit hex then add_uuid hex a else a
      | None \<Rightarrow> a))))))"

definition detail_line :: "string \<Rightarrow> ble_state \<Rightarrow> ble_state" where
  "detail_line trimmed st =
     (case Option.bind (bl_current st) (\<lambda>key. map_option (Pair key) (map_of (bl_found st) key)) of
        None \<Rightarrow> st
      | Some (key, a) \<Rightarrow> st\<lparr>bl_found := bt_insert key (detail trimmed a) (bl_found st)\<rparr>)"

definition ble_line :: "string \<Rightarrow> ble_state \<Rightarrow> ble_state" where
  "ble_line line st =
     (let trimmed = trim line
      in if starts_with trimmed ''@'' then boundary True st
         else if starts_with trimmed ''<'' \<or> starts_with trimmed ''>'' then boundary False st
         else if bl_in_mgmt st then st
         else if starts_with trimmed ''LE Advertising Report'' \<or> starts_with trimmed ''LE Extended Advertising Report''
         then st\<lparr>bl_in_report := True\<rparr>
         else if \<not> bl_in_report st then st
         else
           on_prefix trimmed ''Address type: '' (\<lambda>rest.
             st\<lparr>bl_pending_kind := Some (if starts_with rest ''Random'' then Random else Public)\<rparr>)
           (on_prefix trimmed ''Event type: '' (\<lambda>rest. st\<lparr>bl_pending_pdu := pdu_of rest\<rparr>)
           (on_prefix trimmed ''Address: '' (\<lambda>rest. address_line rest st)
           (detail_line trimmed st))))"

definition parse_btmon :: "string \<Rightarrow> ble_scan" where
  "parse_btmon text =
     (let st = fold ble_line (lines_of text) ble_start
      in \<lparr>sc_advertisers = map snd (bl_found st), sc_reports_total = bl_reports_total st\<rparr>)"

section \<open>Invariant\<close>

definition rssi_ok :: "advertiser \<Rightarrow> bool" where
  "rssi_ok a \<longleftrightarrow>
     (case (ad_rssi_min a, ad_rssi_last a, ad_rssi_max a) of
        (None, None, None) \<Rightarrow> True
      | (Some lo, Some r, Some hi) \<Rightarrow> lo \<le> r \<and> r \<le> hi
      | _ \<Rightarrow> False)"

definition advertiser_ok :: "string \<Rightarrow> advertiser \<Rightarrow> bool" where
  "advertiser_ok address a \<longleftrightarrow> ad_address a = address \<and> 1 \<le> ad_report_count a \<and> rssi_ok a"

definition ble_ok :: "ble_state \<Rightarrow> bool" where
  "ble_ok st \<longleftrightarrow>
     bt_wf (bl_found st) \<and> (\<forall>(address, a) \<in> set (bl_found st). advertiser_ok address a) \<and>
     bl_reports_total st = (\<Sum>(address, a) \<leftarrow> bl_found st. ad_report_count a)"

lemma bt_update_set:
  "bt_wf m \<Longrightarrow> (k', v) \<in> set (bt_update k f m) \<Longrightarrow> k' = k \<and> v = f (map_of m k) \<or> (k', v) \<in> set m"
  using map_of_bt_update [of m k f k'] bt_wf_update [of m k f]
  by (metis bt_wf_def distinct_map map_of_SomeD map_of_eq_Some_iff option.inject strict_sorted_iff)

lemma bt_update_sum:
  fixes h :: "'v \<Rightarrow> int"
  shows "bt_wf m \<Longrightarrow> (\<Sum>(k', v) \<leftarrow> bt_update k f m. h v) =
     (\<Sum>(k', v) \<leftarrow> m. h v) + h (f (map_of m k)) - (case map_of m k of None \<Rightarrow> 0 | Some v \<Rightarrow> h v)"
proof (induction k f m rule: bt_update.induct)
  case (2 k f k1 v m)
  from "2.prems" have "\<forall>x \<in> set (map fst m). k1 < x" "bt_wf m" by (auto simp: bt_wf_def)
  moreover have "map_of m k = None" if "k < k1"
    using calculation(1) that by (auto simp: map_of_eq_None_iff)
  ultimately show ?case using 2 by auto
qed simp

lemma found_advertiser_ok: "ble_ok st \<Longrightarrow> map_of (bl_found st) k = Some a \<Longrightarrow> advertiser_ok k a"
  by (auto simp: ble_ok_def dest: map_of_SomeD)

lemma ble_ok_update:
  assumes "ble_ok st" "advertiser_ok k (f (map_of (bl_found st) k))"
    and "bl_found st' = bt_update k f (bl_found st)"
    and "bl_reports_total st' = bl_reports_total st + ad_report_count (f (map_of (bl_found st) k)) -
      (case map_of (bl_found st) k of None \<Rightarrow> 0 | Some a \<Rightarrow> ad_report_count a)"
  shows "ble_ok st'"
proof -
  have "advertiser_ok k' a" if "(k', a) \<in> set (bl_found st')" for k' a
    using bt_update_set [of "bl_found st" k' a k f] that assms by (auto simp: ble_ok_def)
  with assms bt_update_sum [of "bl_found st" ad_report_count k f] show ?thesis by (auto simp: ble_ok_def bt_wf_update)
qed

lemma ble_ok_other:
  "ble_ok st \<Longrightarrow> bl_found st' = bl_found st \<Longrightarrow> bl_reports_total st' = bl_reports_total st \<Longrightarrow> ble_ok st'"
  by (simp add: ble_ok_def)

lemma detail_keeps: "advertiser_ok k a \<Longrightarrow> advertiser_ok k (detail trimmed a) \<and> ad_report_count (detail trimmed a) = ad_report_count a"
  unfolding detail_def
  by (intro on_prefixI [where P = "\<lambda>a'. advertiser_ok k a' \<and> ad_report_count a' = ad_report_count a"])
    (auto simp: advertiser_ok_def rssi_ok_def add_rssi_def add_uuid_def split: option.splits)

lemma address_line_ok:
  assumes "ble_ok st"
  shows "ble_ok (address_line rest st)"
proof -
  define address where "address = (case split_whitespace rest of w # _ \<Rightarrow> w | [] \<Rightarrow> [])"
  show ?thesis
  proof (cases "address = []")
    case True
    with assms show ?thesis by (simp add: address_line_def address_def)
  next
    case False
    have "advertiser_ok address (heard st address (map_of (bl_found st) address))"
      using found_advertiser_ok [OF assms, of address]
      by (cases "map_of (bl_found st) address") (simp_all add: heard_def new_advertiser_def advertiser_ok_def rssi_ok_def Let_def)
    moreover have "ad_report_count (heard st address old) = 1 + (case old of None \<Rightarrow> 0 | Some a \<Rightarrow> ad_report_count a)" for old
      by (simp add: heard_def new_advertiser_def Let_def split: option.split)
    ultimately show ?thesis using False
      by (intro ble_ok_update [OF assms, of address "heard st address"])
         (simp_all add: address_line_def address_def [symmetric] Let_def split: option.split)
  qed
qed

lemma detail_line_ok:
  assumes "ble_ok st"
  shows "ble_ok (detail_line trimmed st)"
proof (cases "Option.bind (bl_current st) (\<lambda>key. map_option (Pair key) (map_of (bl_found st) key))")
  case None
  with assms show ?thesis by (simp add: detail_line_def)
next
  case (Some ka)
  then obtain k a where ka: "ka = (k, a)" "map_of (bl_found st) k = Some a" by (auto split: Option.bind_splits)
  with found_advertiser_ok [OF assms this(2), THEN detail_keeps, of trimmed] Some show ?thesis
    by (intro ble_ok_update [OF assms, of k "\<lambda>_. detail trimmed a"]) (simp_all add: detail_line_def bt_insert_def)
qed

lemma ble_line_ok: "ble_ok st \<Longrightarrow> ble_ok (ble_line line st)"
  unfolding ble_line_def Let_def
  by (auto intro!: on_prefixI [where P = ble_ok] intro: address_line_ok detail_line_ok ble_ok_other simp: boundary_def)

lemma capture_ok: "ble_ok (fold ble_line ls ble_start)"
proof -
  have "ble_ok st \<Longrightarrow> ble_ok (fold ble_line ls st)" for st
    by (induction ls arbitrary: st) (simp_all add: ble_line_ok)
  moreover have "ble_ok ble_start" by (simp add: ble_ok_def ble_start_def)
  ultimately show ?thesis by blast
qed

section \<open>Properties\<close>

text \<open>
  C20. Whatever text is read as a capture, the scan adds up: one entry per address, in
  ascending order of the addresses, each with at least one report; the reports of the entries
  sum to the total; and of an entry either no signal strength is known or the last one lies
  between the smallest and the largest.
\<close>

theorem scan_adds_up:
  "let scan = parse_btmon text; found = sc_advertisers scan
   in sorted_wrt (<) (map ad_address found) \<and> sc_reports_total scan = (\<Sum>a \<leftarrow> found. ad_report_count a) \<and>
      list_all (\<lambda>a. 1 \<le> ad_report_count a \<and> rssi_ok a) found"
proof -
  define st where "st = fold ble_line (lines_of text) ble_start"
  have ok: "ble_ok st" by (simp add: st_def capture_ok)
  then have "map (ad_address \<circ> snd) (bl_found st) = map fst (bl_found st)"
    by (auto simp: ble_ok_def advertiser_ok_def)
  with ok have "sorted_wrt (<) (map (\<lambda>x. ad_address (snd x)) (bl_found st))"
    unfolding ble_ok_def bt_wf_def comp_def by metis
  with ok show ?thesis
    by (auto simp: parse_btmon_def st_def [symmetric] Let_def ble_ok_def bt_wf_def list_all_iff advertiser_ok_def comp_def
          case_prod_unfold)
qed

lemma fold_bucket:
  "fold bucket as (n, m, f) = (n', m', f') \<Longrightarrow>
     n' + m' + f' = n + m + f + int (length (filter (\<lambda>a. ad_rssi_max a \<noteq> None) as))"
  by (induction as arbitrary: n m f) (auto simp: bucket_def split: option.splits if_splits)

lemma length_kinds:
  "length (filter (\<lambda>a. ad_kind a = Public) as) + length (filter (\<lambda>a. ad_kind a = Random) as) = length as"
proof (induction as)
  case (Cons a as)
  then show ?case by (cases "ad_kind a") simp_all
qed simp

text \<open>
  The summary of a scan is a partition: every advertiser is public or random, and the three
  distance counts are together the advertisers of which a signal strength is known.
\<close>

theorem summary_partitions_advertisers:
  "count_kind scan Public + count_kind scan Random = int (length (sc_advertisers scan)) \<and>
   (case distance_buckets scan of (near, mid, far) \<Rightarrow>
      near + mid + far = int (length (filter (\<lambda>a. ad_rssi_max a \<noteq> None) (sc_advertisers scan))))"
  using length_kinds [of "sc_advertisers scan"] fold_bucket [of "sc_advertisers scan" 0 0 0]
  by (auto simp: count_kind_def distance_buckets_def simp flip: of_nat_add split: prod.split)

lemma mgmt_skipped:
  "bl_in_mgmt st \<Longrightarrow> \<forall>l \<in> set ls. \<not> starts_with (trim l) ''@'' \<and> \<not> starts_with (trim l) ''<'' \<and> \<not> starts_with (trim l) ''>'' \<Longrightarrow>
   fold ble_line ls st = st"
  by (induction ls) (simp_all add: ble_line_def Let_def)

text \<open>
  The copy of an advertisement that the management interface prints is not counted twice: a block
  that opens with \<open>@\<close> and has no other marker leaves no trace when HCI traffic follows it.
\<close>

theorem mgmt_block_leaves_no_trace:
  assumes "\<forall>l \<in> set (before @ m # block @ h # after). row_ok l"
    and "starts_with (trim m) ''@''" "starts_with (trim h) ''>''"
    and "\<forall>l \<in> set block. \<not> starts_with (trim l) ''@'' \<and> \<not> starts_with (trim l) ''<'' \<and> \<not> starts_with (trim l) ''>''"
  shows "parse_btmon (rows (before @ m # block @ h # after)) = parse_btmon (rows (before @ h # after))"
proof -
  have m: "ble_line m st = boundary True st" for st using assms(2) by (simp add: ble_line_def)
  have "\<not> starts_with (trim h) ''@''" using assms(3) by (cases "trim h") (auto simp: starts_with_def)
  then have h: "ble_line h st = boundary False st" for st using assms(3) by (simp add: ble_line_def)
  have "fold ble_line block (boundary True st) = boundary True st" for st
    using assms(4) by (intro mgmt_skipped) (simp_all add: boundary_def)
  moreover have "boundary False (boundary True st) = boundary False st" for st by (simp add: boundary_def)
  ultimately have "fold ble_line (before @ m # block @ h # after) st = fold ble_line (before @ h # after) st" for st
    by (simp add: m h)
  moreover have "lines_of (rows (before @ h # after)) = before @ h # after" using assms(1) by (intro lines_of_rows) auto
  ultimately show ?thesis using lines_of_rows [OF assms(1)] by (simp add: parse_btmon_def)
qed

theorem mgmt_block_leaves_no_trace_witness:
  "parse_btmon (rows [''> a'', ''LE Advertising Report'', ''Address: A'', ''@ m'', ''Address: A'', ''> b'']) =
   parse_btmon (rows [''> a'', ''LE Advertising Report'', ''Address: A'', ''> b''])"
proof -
  have "\<forall>l \<in> set [''> a'', ''LE Advertising Report'', ''Address: A'', ''@ m'', ''Address: A'', ''> b'']. row_ok l"
    "starts_with (trim ''@ m'') ''@''" "starts_with (trim ''> b'') ''>''"
    "trim ''Address: A'' = ''Address: A''" by code_simp+
  then show ?thesis
    using mgmt_block_leaves_no_trace [of "[''> a'', ''LE Advertising Report'', ''Address: A'']" "''@ m''" "[''Address: A'']" "''> b''" "[]"]
    by (simp add: starts_with_def)
qed

end
