(* ===== verification/Dd_Wifi.thy ===== *)
theory Dd_Wifi
  imports Dd_Usb
begin

text \<open>
  \<open>packages/detected-devices/src/wifi.rs\<close>: the output of \<open>iw dev <interface> scan\<close> read line by line
  into one entry per access point, and whether an interface can be scanned at all.
\<close>

section \<open>Access points\<close>

record bss =
  bs_bssid :: string
  bs_associated :: bool
  bs_ssid :: "string option"
  bs_frequency_mhz :: "f64_value option"
  bs_channel :: "int option"
  bs_signal_dbm :: "f64_value option"
  bs_last_seen_ms :: "int option"
  bs_beacon_interval_tu :: "int option"
  bs_security :: "string option"
  bs_pairwise_ciphers :: "string option"
  bs_auth_suites :: "string option"
  bs_wps :: "bool option"
  bs_width_mhz :: "int option"
  bs_standards :: "string option"
  bs_country :: "string option"

definition new_bss :: "string \<Rightarrow> bool \<Rightarrow> bss" where
  "new_bss bssid associated =
     \<lparr>bs_bssid = bssid, bs_associated = associated, bs_ssid = None, bs_frequency_mhz = None, bs_channel = None,
      bs_signal_dbm = None, bs_last_seen_ms = None, bs_beacon_interval_tu = None, bs_security = None,
      bs_pairwise_ciphers = None, bs_auth_suites = None, bs_wps = None, bs_width_mhz = None, bs_standards = None,
      bs_country = None\<rparr>"

definition looks_like_bssid :: "string \<Rightarrow> bool" where
  "looks_like_bssid token =
     (let parts = split_on (CHR '':'') token
      in list_all (\<lambda>part. length part = 2 \<and> list_all is_hexdigit part) parts \<and> length parts = 6)"

definition is_alphanumeric :: "char \<Rightarrow> bool" where
  "is_alphanumeric c \<longleftrightarrow> char_digit 36 c \<noteq> None"

fun join_comma :: "string list \<Rightarrow> string" where
  "join_comma [] = []"
| "join_comma [part] = part"
| "join_comma (part # parts) = part @ '','' @ join_comma parts"

definition push_standard :: "string \<Rightarrow> bss \<Rightarrow> bss" where
  "push_standard name b =
     b\<lparr>bs_standards := Some (case bs_standards b of
         Some existing \<Rightarrow> if name \<in> set (split_on (CHR '','') existing) then existing else existing @ '','' @ name
       | None \<Rightarrow> name)\<rparr>"

section \<open>Reading a scan\<close>

text \<open>A line of a block, in the order in which the loop looks at its prefix.\<close>

definition bss_line :: "string \<Rightarrow> bss \<Rightarrow> bss" where
  "bss_line trimmed b =
     on_prefix trimmed ''last seen: '' (\<lambda>rest.
       case strip_suffix rest '' ms ago'' of Some ms \<Rightarrow> b\<lparr>bs_last_seen_ms := parse_i64 (trim ms)\<rparr> | None \<Rightarrow> b)
     (on_prefix trimmed ''SSID: '' (\<lambda>rest. if trim rest \<noteq> [] then b\<lparr>bs_ssid := Some (trim rest)\<rparr> else b)
     (on_prefix trimmed ''freq: '' (\<lambda>rest. b\<lparr>bs_frequency_mhz := parse_f64 (trim rest)\<rparr>)
     (on_prefix trimmed ''signal: '' (\<lambda>rest. b\<lparr>bs_signal_dbm := parse_f64 (trim (trim_end_matches '' dBm'' (trim rest)))\<rparr>)
     (on_prefix trimmed ''beacon interval: '' (\<lambda>rest.
       b\<lparr>bs_beacon_interval_tu := parse_i64 (trim (trim_end_matches '' TUs'' (trim rest)))\<rparr>)
     (on_prefix trimmed ''DS Parameter set: channel '' (\<lambda>rest. b\<lparr>bs_channel := parse_i64 (trim rest)\<rparr>)
     (on_prefix trimmed ''Country: '' (\<lambda>rest.
       let code = takeWhile is_alphanumeric rest in if length code = 2 then b\<lparr>bs_country := Some code\<rparr> else b)
     (on_prefix trimmed ''RSN:'' (\<lambda>_. b\<lparr>bs_security := Some ''wpa2''\<rparr>)
     (on_prefix trimmed ''WPA:'' (\<lambda>_. if bs_security b = None then b\<lparr>bs_security := Some ''wpa''\<rparr> else b)
     (on_prefix trimmed ''* Pairwise ciphers: '' (\<lambda>rest.
       b\<lparr>bs_pairwise_ciphers := Some (join_comma (split_whitespace rest))\<rparr>)
     (on_prefix trimmed ''* Authentication suites: '' (\<lambda>rest.
       let suites = split_whitespace rest
       in (if ''SAE'' \<in> set suites then b\<lparr>bs_security := Some ''wpa3''\<rparr> else b)\<lparr>bs_auth_suites := Some (join_comma suites)\<rparr>)
     (on_prefix trimmed ''WPS:'' (\<lambda>_. b\<lparr>bs_wps := Some True\<rparr>)
     (on_prefix trimmed ''* STA channel width: '' (\<lambda>rest.
       b\<lparr>bs_width_mhz := parse_i64 (trim (trim_end_matches '' MHz'' (trim rest)))\<rparr>)
     (on_prefix trimmed ''HT capabilities:'' (\<lambda>_. push_standard ''ht'' b)
     (on_prefix trimmed ''VHT capabilities:'' (\<lambda>_. push_standard ''vht'' b)
     (on_prefix trimmed ''HE capabilities:'' (\<lambda>_. push_standard ''he'' b)
     b)))))))))))))))"

definition bssid_token :: "string \<Rightarrow> string" where
  "bssid_token rest = takeWhile (\<lambda>c. c \<noteq> CHR ''('' \<and> c \<noteq> CHR '' '') rest"

definition scan_line :: "string \<Rightarrow> bss list \<Rightarrow> bss list" where
  "scan_line line found =
     (let trimmed = trim line
      in case strip_prefix trimmed ''BSS '' of
           Some rest \<Rightarrow>
             if looks_like_bssid (bssid_token rest)
             then found @ [new_bss (bssid_token rest) (contains_str rest ''-- associated'')]
             else found
         | None \<Rightarrow> if found = [] then found else butlast found @ [bss_line trimmed (last found)])"

definition default_open :: "bss \<Rightarrow> bss" where
  "default_open b = (if bs_security b = None then b\<lparr>bs_security := Some ''open''\<rparr> else b)"

definition wifi_parse_scan :: "string \<Rightarrow> bss list" where
  "wifi_parse_scan text = map default_open (fold scan_line (lines_of text) [])"

fun blocked_loop :: "string \<Rightarrow> string list \<Rightarrow> bool \<Rightarrow> string option" where
  "blocked_loop interface [] in_interface = Some ''interface-down''"
| "blocked_loop interface (line # ls) in_interface =
     (let trimmed = trim line
      in case strip_prefix trimmed ''Interface '' of
           Some name \<Rightarrow> blocked_loop interface ls (trim name = interface)
         | None \<Rightarrow>
             if \<not> in_interface then blocked_loop interface ls in_interface
             else case strip_prefix trimmed ''type '' of
               Some kind \<Rightarrow>
                 (if trim kind = ''managed'' then None
                  else if trim kind = ''AP'' then Some ''ap-mode'' else Some ''interface-down'')
             | None \<Rightarrow> blocked_loop interface ls in_interface)"

definition scan_blocked_reason :: "string \<Rightarrow> string \<Rightarrow> string option" where
  "scan_blocked_reason iw_dev_output interface = blocked_loop interface (lines_of iw_dev_output) False"

section \<open>Lemmas\<close>

text \<open>A property of every entry found so far, kept by each line of a report.\<close>

locale block_reader =
  fixes good :: "bss \<Rightarrow> bool"
  assumes good_new: "looks_like_bssid bssid \<Longrightarrow> good (new_bss bssid assoc)"
    and good_line: "good b \<Longrightarrow> good (bss_line trimmed b)"
begin

lemma scan_line_good: "list_all good found \<Longrightarrow> list_all good (scan_line line found)"
  by (cases found rule: rev_cases) (auto simp: scan_line_def Let_def good_new good_line split: option.split)

lemma scan_good: "list_all good (fold scan_line ls [])"
proof -
  have "list_all good found \<Longrightarrow> list_all good (fold scan_line ls found)" for found
    by (induction ls arbitrary: found) (simp_all add: scan_line_good)
  then show ?thesis by simp
qed

end

definition SECURITIES :: "string list" where "SECURITIES = [''wpa'', ''wpa2'', ''wpa3'']"

lemma bss_line_keeps:
  "bs_bssid (bss_line trimmed b) = bs_bssid b \<and> bs_associated (bss_line trimmed b) = bs_associated b \<and>
   bs_security (bss_line trimmed b) \<in> {bs_security b, Some ''wpa'', Some ''wpa2'', Some ''wpa3''}"
  unfolding bss_line_def
  by (intro on_prefixI [where P = "\<lambda>b'. bs_bssid b' = bs_bssid b \<and> bs_associated b' = bs_associated b \<and>
        bs_security b' \<in> {bs_security b, Some ''wpa'', Some ''wpa2'', Some ''wpa3''}"])
    (simp_all add: Let_def push_standard_def split: option.split)

interpretation bss_reader: block_reader "\<lambda>b :: bss. looks_like_bssid (bs_bssid b) \<and> bs_security b \<in> insert None (Some ` set SECURITIES)"
proof unfold_locales
  fix bssid assoc
  assume "looks_like_bssid bssid"
  then show "looks_like_bssid (bs_bssid (new_bss bssid assoc)) \<and>
      bs_security (new_bss bssid assoc) \<in> insert None (Some ` set SECURITIES)" by (simp add: new_bss_def)
next
  fix b :: bss and trimmed
  assume "looks_like_bssid (bs_bssid b) \<and> bs_security b \<in> insert None (Some ` set SECURITIES)"
  with bss_line_keeps [of trimmed b]
  show "looks_like_bssid (bs_bssid (bss_line trimmed b)) \<and>
      bs_security (bss_line trimmed b) \<in> insert None (Some ` set SECURITIES)" by (auto simp: SECURITIES_def)
qed

text \<open>The access point a line announces.\<close>

definition announced :: "string \<Rightarrow> (string \<times> bool) option" where
  "announced line =
     Option.bind (strip_prefix (trim line) ''BSS '') (\<lambda>rest.
       if looks_like_bssid (bssid_token rest) then Some (bssid_token rest, contains_str rest ''-- associated'') else None)"

lemma scan_line_announced:
  "map (\<lambda>b. (bs_bssid b, bs_associated b)) (scan_line line found) =
     map (\<lambda>b. (bs_bssid b, bs_associated b)) found @ (case announced line of Some a \<Rightarrow> [a] | None \<Rightarrow> [])"
  by (cases found rule: rev_cases)
    (auto simp: scan_line_def announced_def Let_def new_bss_def bss_line_keeps split: option.split)

lemma fold_scan_announced:
  "map (\<lambda>b. (bs_bssid b, bs_associated b)) (fold scan_line ls found) =
     map (\<lambda>b. (bs_bssid b, bs_associated b)) found @ List.map_filter announced ls"
  by (induction ls arbitrary: found) (auto simp: scan_line_announced List.map_filter_def split: option.split)

section \<open>Properties\<close>

text \<open>
  A scan is read into exactly the access points its \<open>BSS\<close> lines announce, in order, associated or
  not as they say; element lines such as \<open>BSS Load:\<close> start no entry.  Every entry has a MAC address
  and a security of \<open>open\<close>, \<open>wpa\<close>, \<open>wpa2\<close> or \<open>wpa3\<close>.
\<close>

theorem scan_lists_announced:
  "map (\<lambda>b. (bs_bssid b, bs_associated b)) (wifi_parse_scan text) = List.map_filter announced (lines_of text) \<and>
   list_all (\<lambda>b. looks_like_bssid (bs_bssid b) \<and> bs_security b \<in> Some ` set (''open'' # SECURITIES)) (wifi_parse_scan text)"
proof
  have keep: "bs_bssid (default_open b) = bs_bssid b" "bs_associated (default_open b) = bs_associated b" for b
    by (simp_all add: default_open_def)
  show "map (\<lambda>b. (bs_bssid b, bs_associated b)) (wifi_parse_scan text) = List.map_filter announced (lines_of text)"
    using fold_scan_announced [of "lines_of text" "[]"] by (simp add: wifi_parse_scan_def keep comp_def)
  show "list_all (\<lambda>b. looks_like_bssid (bs_bssid b) \<and> bs_security b \<in> Some ` set (''open'' # SECURITIES)) (wifi_parse_scan text)"
    using bss_reader.scan_good [of "lines_of text"] by (auto simp: wifi_parse_scan_def list_all_iff keep default_open_def)
qed

text \<open>
  The capability line of a block has no effect, \<open>Privacy\<close> included: removing it
  from a scan changes nothing of what is read. An access point with \<open>Privacy\<close> and
  neither an RSN nor a WPA element, which is WEP, is reported as \<open>open\<close>.
\<close>

theorem privacy_bit_is_ignored:
  assumes "\<forall>l \<in> set (before @ l # after). row_ok l" "trim l = ''capability: '' @ c"
  shows "wifi_parse_scan (rows (before @ l # after)) = wifi_parse_scan (rows (before @ after))"
proof -
  have "bss_line (trim l) b = b" for b
    unfolding assms(2) by (simp add: bss_line_def on_prefix_def strip_prefix_def starts_with_def)
  then have "scan_line l found = found" for found
    using assms(2) by (cases found rule: rev_cases) (simp_all add: scan_line_def strip_prefix_def starts_with_def)
  then show ?thesis using assms(1) lines_of_rows [of "before @ l # after"] lines_of_rows [of "before @ after"]
    by (simp add: wifi_parse_scan_def)
qed

theorem privacy_bit_is_ignored_witness:
  "map bs_security (wifi_parse_scan (rows [''BSS 00:00:00:00:00:00'', ''capability: ESS Privacy''])) = [Some ''open'']"
proof -
  let ?b = "''BSS 00:00:00:00:00:00''" and ?c = "''capability: ESS Privacy''"
  have "row_ok ?b" "row_ok ?c" "trim ?c = ''capability: '' @ ''ESS Privacy''" by code_simp+
  then have "wifi_parse_scan (rows ([?b] @ ?c # [])) = wifi_parse_scan (rows ([?b] @ []))"
    by (intro privacy_bit_is_ignored) simp_all
  moreover have "map bs_security (wifi_parse_scan (rows [?b])) = [Some ''open'']" by code_simp
  ultimately show ?thesis by simp
qed

lemma blocked_loop_None:
  "blocked_loop interface ls b = None \<Longrightarrow>
   \<exists>mid t post k. ls = mid @ t # post \<and> trim t = ''type '' @ k \<and> trim k = ''managed'' \<and>
     (b \<and> (\<forall>l \<in> set mid. strip_prefix (trim l) ''Interface '' = None) \<or>
      (\<exists>before l after n. mid = before @ l # after \<and> trim l = ''Interface '' @ n \<and> trim n = interface \<and>
        (\<forall>l \<in> set after. strip_prefix (trim l) ''Interface '' = None)))"
proof (induction ls arbitrary: b)
  case (Cons line ls)
  show ?case
  proof (cases "strip_prefix (trim line) ''Interface ''")
    case (Some n)
    with Cons.prems have "blocked_loop interface ls (trim n = interface) = None" by simp
    from Cons.IH [OF this] obtain mid t post k where
      m: "ls = mid @ t # post" "trim t = ''type '' @ k" "trim k = ''managed''" and
      c: "trim n = interface \<and> (\<forall>l \<in> set mid. strip_prefix (trim l) ''Interface '' = None) \<or>
      (\<exists>before l after n. mid = before @ l # after \<and> trim l = ''Interface '' @ n \<and> trim n = interface \<and>
        (\<forall>l \<in> set after. strip_prefix (trim l) ''Interface '' = None))" by blast
    have "\<exists>before l after n. line # mid = before @ l # after \<and> trim l = ''Interface '' @ n \<and> trim n = interface \<and>
        (\<forall>l \<in> set after. strip_prefix (trim l) ''Interface '' = None)"
      using c Some unfolding strip_prefix_Some by (metis append_Cons append_Nil)
    with m show ?thesis by (intro exI [of _ "line # mid"] exI [of _ t] exI [of _ post] exI [of _ k]) simp
  next
    case None
    show ?thesis
    proof (cases "b \<and> strip_prefix (trim line) ''type '' \<noteq> None")
      case True
      then obtain k where k: "strip_prefix (trim line) ''type '' = Some k" "b" by auto
      with Cons.prems None have "trim k = ''managed''" by (simp split: if_splits)
      with k show ?thesis unfolding strip_prefix_Some
        by (intro exI [of _ "[]"] exI [of _ line] exI [of _ ls] exI [of _ k]) simp
    next
      case False
      with Cons.prems None have "blocked_loop interface ls b = None" by (auto split: if_splits option.splits)
      from Cons.IH [OF this] obtain mid t post k where
        m: "ls = mid @ t # post" "trim t = ''type '' @ k" "trim k = ''managed''" and
        c: "b \<and> (\<forall>l \<in> set mid. strip_prefix (trim l) ''Interface '' = None) \<or>
        (\<exists>before l after n. mid = before @ l # after \<and> trim l = ''Interface '' @ n \<and> trim n = interface \<and>
          (\<forall>l \<in> set after. strip_prefix (trim l) ''Interface '' = None))" by blast
      from c None have "b \<and> (\<forall>l \<in> set (line # mid). strip_prefix (trim l) ''Interface '' = None) \<or>
        (\<exists>before l after n. line # mid = before @ l # after \<and> trim l = ''Interface '' @ n \<and> trim n = interface \<and>
          (\<forall>l \<in> set after. strip_prefix (trim l) ''Interface '' = None))"
        by (metis append_Cons set_ConsD)
      with m show ?thesis by (intro exI [of _ "line # mid"] exI [of _ t] exI [of _ post] exI [of _ k]) simp
    qed
  qed
qed simp

text \<open>
  A radio is swept only when \<open>iw dev\<close> says it is a client: nothing blocks a scan only if the output
  has, under the very interface, a line that gives its type as \<open>managed\<close>.  An interface serving the
  access point, absent from the output or of another type is never swept.
\<close>

theorem only_managed_interfaces_are_swept:
  assumes "scan_blocked_reason text interface = None"
  shows "\<exists>before l mid t after n k. lines_of text = before @ l # mid @ t # after \<and>
    trim l = ''Interface '' @ n \<and> trim n = interface \<and> (\<forall>m \<in> set mid. strip_prefix (trim m) ''Interface '' = None) \<and>
    trim t = ''type '' @ k \<and> trim k = ''managed''"
  using blocked_loop_None [OF assms [unfolded scan_blocked_reason_def]] by fastforce

theorem only_managed_interfaces_are_swept_witness:
  "scan_blocked_reason (rows [''Interface w'', ''type managed'']) ''w'' = None \<and>
   scan_blocked_reason (rows [''Interface w'', ''type AP'']) ''w'' = Some ''ap-mode'' \<and>
   (\<exists>t \<in> set (lines_of (rows [''Interface w'', ''type managed''])). \<exists>k. trim t = ''type '' @ k)"
proof -
  have "scan_blocked_reason (rows [''Interface w'', ''type managed'']) ''w'' = None"
    "scan_blocked_reason (rows [''Interface w'', ''type AP'']) ''w'' = Some ''ap-mode''" by code_simp+
  with only_managed_interfaces_are_swept [of "rows [''Interface w'', ''type managed'']" "''w''"] show ?thesis by fastforce
qed

end
