(* ===== verification/Dd_Main.thy ===== *)
theory Dd_Main
  imports Sys_Records Producer Dd_Ble Dd_Wifi
begin

text \<open>
  The program \<open>packages/detected-devices/src/main.rs\<close>: the USB inventory, the Wi-Fi and Bluetooth
  scans, its command line and one run.  The host is the one of \<open>Sys_Records\<close> with what only this
  program asks of it: file types, the processes of a Bluetooth scan, how long the scans took and when
  the pieces of a capture reach the reader.
\<close>

section \<open>Options\<close>

record dd_options =
  do_socket :: string
  do_resource_attributes :: "(string \<times> attr_value) list"
  do_dry_run :: bool
  do_usb_devices_root :: "string option"
  do_wifi_interface :: "string option"
  do_iw :: "string option"
  do_bluetooth_adapter :: string
  do_bluetooth_sysfs_root :: string
  do_btmon :: "string option"
  do_bluetoothctl :: "string option"
  do_ble_scan_seconds :: nat
  do_ble_scan_interval_ms :: nat
  do_ble_scan_window_ms :: nat

definition dd_default_options :: dd_options where
  "dd_default_options =
     \<lparr>do_socket = ''/run/monitoring-platform/monitoring-platform.sock'', do_resource_attributes = [], do_dry_run = False,
      do_usb_devices_root = None, do_wifi_interface = None, do_iw = None, do_bluetooth_adapter = ''hci0'',
      do_bluetooth_sysfs_root = ''/sys/class/bluetooth'', do_btmon = None, do_bluetoothctl = None,
      do_ble_scan_seconds = 10, do_ble_scan_interval_ms = 1280, do_ble_scan_window_ms = 11\<rparr>"

definition dd_switches :: "dd_options switches" where
  "dd_switches = [(''--dry-run'', do_dry_run_update (\<lambda>_. True))]"

definition dd_flags :: "(unit, dd_options) flags" where
  "dd_flags =
     [(''--socket'', set_text (\<lambda>v. do_socket_update (\<lambda>_. v))),
      (''--resource-attr'', set_read resource_attr (\<lambda>a. do_resource_attributes_update (\<lambda>as. as @ [a]))),
      (''--usb-devices-root'', set_text (\<lambda>v. do_usb_devices_root_update (\<lambda>_. Some v))),
      (''--wifi-interface'', set_text (\<lambda>v. do_wifi_interface_update (\<lambda>_. Some v))),
      (''--iw'', set_text (\<lambda>v. do_iw_update (\<lambda>_. Some v))),
      (''--bluetooth-adapter'', set_text (\<lambda>v. do_bluetooth_adapter_update (\<lambda>_. v))),
      (''--bluetooth-sysfs-root'', set_text (\<lambda>v. do_bluetooth_sysfs_root_update (\<lambda>_. v))),
      (''--btmon'', set_text (\<lambda>v. do_btmon_update (\<lambda>_. Some v))),
      (''--bluetoothctl'', set_text (\<lambda>v. do_bluetoothctl_update (\<lambda>_. Some v))),
      (''--ble-scan-seconds'',
         set_read (\<lambda>raw. whole_positive raw ''--ble-scan-seconds'') (\<lambda>n. do_ble_scan_seconds_update (\<lambda>_. n))),
      (''--ble-scan-interval-ms'',
         set_read (\<lambda>raw. whole_number raw ''--ble-scan-interval-ms'') (\<lambda>n. do_ble_scan_interval_ms_update (\<lambda>_. n))),
      (''--ble-scan-window-ms'',
         set_read (\<lambda>raw. whole_number raw ''--ble-scan-window-ms'') (\<lambda>n. do_ble_scan_window_ms_update (\<lambda>_. n)))]"

definition dd_parse_args :: "string list \<Rightarrow> (unit arg_error, dd_options option) result" where
  "dd_parse_args args = scan_args dd_switches dd_flags args dd_default_options"

section \<open>The host\<close>

record dd_env =
  de_host :: "unit sys_env"
  de_is_dir :: "string \<Rightarrow> bool"
  de_is_file :: "string \<Rightarrow> bool"
  de_wifi_millis :: nat
  de_spawns :: "string \<Rightarrow> string list \<Rightarrow> bool"
  de_status :: "string \<Rightarrow> string list \<Rightarrow> bool option"
  de_ble_millis :: nat
  de_chunks :: "(nat \<times> byte list) list"

definition text_of :: "dd_env \<Rightarrow> string \<Rightarrow> string \<Rightarrow> attr_value option" where
  "text_of env path name = map_option VStr (read_trimmed (de_host env) (path_join path name))"

definition value_of :: "dd_env \<Rightarrow> string \<Rightarrow> (string \<Rightarrow> 'a option) \<Rightarrow> ('a \<Rightarrow> attr_value) \<Rightarrow> string \<Rightarrow> attr_value option" where
  "value_of env path parse inject name =
     map_option inject (Option.bind (read_trimmed (de_host env) (path_join path name)) parse)"

definition target_of :: "dd_env \<Rightarrow> string \<Rightarrow> string \<Rightarrow> attr_value option" where
  "target_of env path name =
     Option.bind (se_canonicalize (de_host env) (path_join path name)) (\<lambda>target.
       map_option (\<lambda>n. VStr (lossy n)) (file_name target))"

section \<open>USB\<close>

definition is_node :: "dd_env \<Rightarrow> string \<Rightarrow> bool" where
  "is_node env path = de_is_file env (path_join path ''dev'')"

definition entry_nodes :: "dd_env \<Rightarrow> string \<Rightarrow> string \<Rightarrow> string list" where
  "entry_nodes env dir name =
     (let path = path_join dir name
      in if \<not> de_is_dir env path then []
         else if is_node env path then [lossy name]
         else case se_read_dir (de_host env) path of
           None \<Rightarrow> []
         | Some children \<Rightarrow>
             map lossy (filter (\<lambda>c. de_is_dir env (path_join path c) \<and> is_node env (path_join path c)) children))"

definition interface_nodes :: "dd_env \<Rightarrow> string \<Rightarrow> string option" where
  "interface_nodes env dir =
     map_option (\<lambda>entries. join_comma (sort (concat (map (entry_nodes env dir) entries)))) (se_read_dir (de_host env) dir)"

definition usb_device_record :: "dd_env \<Rightarrow> string \<Rightarrow> string \<Rightarrow> log_record" where
  "usb_device_record env path name =
     (let number = value_of env path parse_i64 VInt
      in fields_opt
        [(''devnum'', number ''devnum''),
         (''speed_mbps'', value_of env path parse_speed_mbps VF64 ''speed''),
         (''usb_version'', map_option VStr (Option.bind (se_read (de_host env) (path_join path ''version'')) parse_usb_version)),
         (''bcd_device'', text_of env path ''bcdDevice''),
         (''ports'', number ''maxchild''),
         (''authorized'', value_of env path parse_zero_one VBool ''authorized''),
         (''configuration'', number ''bConfigurationValue''),
         (''configurations'', number ''bNumConfigurations''),
         (''max_power_ma'', value_of env path parse_max_power_ma VInt ''bMaxPower''),
         (''urbnum'', number ''urbnum''),
         (''runtime_status'', text_of env path ''power/runtime_status'')]
        (attr_opt ''product'' (text_of env path ''product'')
        (attr_opt ''manufacturer'' (text_of env path ''manufacturer'')
        (attr_opt ''serial'' (text_of env path ''serial'')
        (attr_opt ''product_id'' (text_of env path ''idProduct'')
        (attr_opt ''vendor_id'' (text_of env path ''idVendor'')
        (attr_opt ''bus'' (text_of env path ''busnum'')
        (with_attr ''path'' (VStr name) (record_new ''detected-devices.usb'')))))))))"

definition usb_interface_record :: "dd_env \<Rightarrow> string \<Rightarrow> string \<Rightarrow> log_record" where
  "usb_interface_record env path device_path =
     (let hex = value_of env path parse_hex_byte VStr
      in fields_opt
        [(''class'', hex ''bInterfaceClass''),
         (''subclass'', hex ''bInterfaceSubClass''),
         (''protocol'', hex ''bInterfaceProtocol''),
         (''driver'', target_of env path ''driver''),
         (''endpoints'', value_of env path parse_i64 VInt ''bNumEndpoints''),
         (''nodes'', map_option VStr (interface_nodes env path))]
        (attr_opt ''interface'' (text_of env path ''bInterfaceNumber'')
        (with_attr ''path'' (VStr (canonical_device_path device_path)) (record_new ''detected-devices.usb.interface''))))"

definition usb_entry_record :: "dd_env \<Rightarrow> string \<Rightarrow> string \<Rightarrow> log_record option" where
  "usb_entry_record env usb_dir name =
     (let path = path_join usb_dir name
      in case classify name of
           Some Device \<Rightarrow> Some (usb_device_record env path name)
         | Some (Interface device_path) \<Rightarrow> Some (usb_interface_record env path device_path)
         | None \<Rightarrow> None)"

definition usb_records :: "dd_env \<Rightarrow> string \<Rightarrow> log_record list" where
  "usb_records env usb_dir =
     (case se_read_dir (de_host env) usb_dir of
        None \<Rightarrow> []
      | Some entries \<Rightarrow> List.map_filter (usb_entry_record env usb_dir) (sort (map lossy entries)))"

definition is_interface :: "string \<Rightarrow> bool" where
  "is_interface name \<longleftrightarrow> (case classify name of Some (Interface _) \<Rightarrow> True | _ \<Rightarrow> False)"

definition usb_port_record :: "dd_env \<Rightarrow> string \<Rightarrow> string \<Rightarrow> string \<Rightarrow> log_record" where
  "usb_port_record env usb_dir interface port =
     (let path = path_join (path_join usb_dir interface) port;
          hub = canonical_device_path (hd (split_on (CHR '':'') interface))
      in fields_opt
        [(''state'', text_of env path ''state''),
         (''over_current_count'', value_of env path parse_i64 VInt ''over_current_count''),
         (''disabled'', value_of env path parse_zero_one VBool ''disable''),
         (''early_stop'', value_of env path parse_yes_no VBool ''early_stop'')]
        (attr_opt ''peer'' (target_of env path ''peer'')
        (attr_opt ''connect_type'' (text_of env path ''connect_type'')
        (attr_opt ''bus'' (text_of env (path_join usb_dir hub) ''busnum'')
        (attr_opt ''path'' (map_option VStr (port_device_path port))
        (with_attr ''port'' (VStr port) (record_new ''detected-devices.usb_port'')))))))"

definition interface_ports :: "dd_env \<Rightarrow> string \<Rightarrow> string \<Rightarrow> log_record list" where
  "interface_ports env usb_dir interface =
     (case se_read_dir (de_host env) (path_join usb_dir interface) of
        None \<Rightarrow> []
      | Some children \<Rightarrow>
          map (usb_port_record env usb_dir interface)
            (sort (filter (\<lambda>name. port_device_path name \<noteq> None) (map lossy children))))"

definition usb_port_records :: "dd_env \<Rightarrow> string \<Rightarrow> log_record list" where
  "usb_port_records env usb_dir =
     (case se_read_dir (de_host env) usb_dir of
        None \<Rightarrow> []
      | Some entries \<Rightarrow> concat (map (interface_ports env usb_dir) (sort (filter is_interface (map lossy entries)))))"

section \<open>Wi-Fi\<close>

definition wifi_scan_record :: "string \<Rightarrow> bool \<Rightarrow> string option \<Rightarrow> bool option \<Rightarrow> nat option \<Rightarrow> nat option \<Rightarrow> log_record" where
  "wifi_scan_record interface did_run skipped swept_passively millis found =
     fields_opt
       [(''ran'', Some (VBool did_run)), (''skipped_reason'', map_option VStr skipped), (''passive'', map_option VBool swept_passively),
        (''duration_ms'', map_option int_of_u64 millis), (''bss_count'', map_option int_of_u64 found)]
       (with_attr ''interface'' (VStr interface) (record_new ''detected-devices.wifi_scan''))"

definition wifi_bss_record :: "string \<Rightarrow> bss \<Rightarrow> log_record" where
  "wifi_bss_record interface b =
     fields_opt
       [(''ssid'', map_option VStr (bs_ssid b)),
        (''frequency_mhz'', map_option VF64 (bs_frequency_mhz b)),
        (''channel'', map_option VInt (bs_channel b)),
        (''signal_dbm'', map_option VF64 (bs_signal_dbm b)),
        (''last_seen_ms'', map_option VInt (bs_last_seen_ms b)),
        (''beacon_interval_tu'', map_option VInt (bs_beacon_interval_tu b)),
        (''associated'', Some (VBool (bs_associated b))),
        (''security'', map_option VStr (bs_security b)),
        (''pairwise_ciphers'', map_option VStr (bs_pairwise_ciphers b)),
        (''auth_suites'', map_option VStr (bs_auth_suites b)),
        (''wps'', map_option VBool (bs_wps b)),
        (''width_mhz'', map_option VInt (bs_width_mhz b)),
        (''standards'', map_option VStr (bs_standards b)),
        (''country'', map_option VStr (bs_country b))]
       (with_attr ''interface'' (VStr interface) (with_attr ''bssid'' (VStr (bs_bssid b)) (record_new ''detected-devices.wifi_bss'')))"

definition wifi_records :: "dd_env \<Rightarrow> string \<Rightarrow> string \<Rightarrow> log_record list" where
  "wifi_records env iw interface =
     (case Option.bind (tool_output (de_host env) iw [''dev'']) (\<lambda>dev. scan_blocked_reason dev interface) of
        Some reason \<Rightarrow> [wifi_scan_record interface False (Some reason) None None None]
      | None \<Rightarrow>
          (case tool_output (de_host env) iw [''dev'', interface, ''scan''] of
             None \<Rightarrow> [wifi_scan_record interface False (Some ''busy'') None (Some (de_wifi_millis env)) None]
           | Some text \<Rightarrow>
               (let bsses = wifi_parse_scan text
                in wifi_scan_record interface True None (Some False) (Some (de_wifi_millis env)) (Some (length bsses)) #
                   map (wifi_bss_record interface) bsses)))"

section \<open>Bluetooth LE\<close>

definition CAPTURE_GRACE :: nat where "CAPTURE_GRACE = 2 * 10 ^ 9"

text \<open>The pieces of the capture with the nanosecond, from the end of the scan, at which each can be received.\<close>

fun drain :: "(nat \<times> byte list) list \<Rightarrow> nat \<Rightarrow> byte list" where
  "drain [] grace = []"
| "drain ((t, chunk) # chunks) grace = (if t \<le> grace then chunk @ drain chunks grace else [])"

definition ble_scan_record ::
  "string \<Rightarrow> dd_options \<Rightarrow> bool \<Rightarrow> string option \<Rightarrow> bool option \<Rightarrow> nat option \<Rightarrow> ble_scan option \<Rightarrow> log_record" where
  "ble_scan_record adapter opts did_run skipped active millis scan =
     fields_opt
       [(''ran'', Some (VBool did_run)), (''skipped_reason'', map_option VStr skipped), (''active'', map_option VBool active),
        (''scan_interval_ms'', Some (int_of_u64 (do_ble_scan_interval_ms opts))),
        (''scan_window_ms'', Some (int_of_u64 (do_ble_scan_window_ms opts))),
        (''duration_ms'', map_option int_of_u64 millis),
        (''devices_public'', map_option (\<lambda>s. VInt (count_kind s Public)) scan),
        (''devices_random'', map_option (\<lambda>s. VInt (count_kind s Random)) scan),
        (''devices_connectable'', map_option (\<lambda>s. VInt (connectable_count s)) scan),
        (''reports_total'', map_option (\<lambda>s. VInt (sc_reports_total s)) scan),
        (''strongest_dbm'', map_option VInt (Option.bind scan strongest_dbm)),
        (''near_count'', map_option (\<lambda>s. VInt (fst (distance_buckets s))) scan),
        (''mid_count'', map_option (\<lambda>s. VInt (fst (snd (distance_buckets s)))) scan),
        (''far_count'', map_option (\<lambda>s. VInt (snd (snd (distance_buckets s)))) scan)]
       (with_attr ''adapter'' (VStr adapter) (record_new ''detected-devices.ble_scan''))"

definition ble_skipped :: "string \<Rightarrow> string \<Rightarrow> dd_options \<Rightarrow> log_record list" where
  "ble_skipped adapter reason opts = [ble_scan_record adapter opts False (Some reason) None None None]"

definition device_fields :: "advertiser \<Rightarrow> log_record \<Rightarrow> log_record" where
  "device_fields a =
     fields_opt
       [(''connectable'', map_option VBool (connectable a)),
        (''pdu_type'', map_option VStr (ad_pdu_type a)),
        (''rssi_last'', map_option VInt (ad_rssi_last a)),
        (''rssi_min'', map_option VInt (ad_rssi_min a)),
        (''rssi_max'', map_option VInt (ad_rssi_max a)),
        (''report_count'', Some (VInt (ad_report_count a))),
        (''name'', map_option VStr (ad_name a)),
        (''tx_power_dbm'', map_option VInt (ad_tx_power_dbm a)),
        (''company_id'', map_option VInt (ad_company_id a)),
        (''service_uuids'', map_option VStr (ad_service_uuids a)),
        (''flags'', map_option VStr (ad_flags a))]"

definition ble_device_record :: "advertiser \<Rightarrow> log_record" where
  "ble_device_record a =
     (case ad_kind a of
        Public \<Rightarrow> device_fields a (with_attr ''address'' (VStr (ad_address a)) (record_new ''detected-devices.ble_device.public''))
      | Random \<Rightarrow> with_field ''address'' (VStr (ad_address a)) (device_fields a (record_new ''detected-devices.ble_device.random'')))"

text \<open>The arguments of the monitor and of the scan.\<close>

definition btmon_args :: "dd_options \<Rightarrow> string list" where
  "btmon_args opts = [''--index'', trim_start_matches ''hci'' (do_bluetooth_adapter opts)]"

definition scan_le_args :: "dd_options \<Rightarrow> string list" where
  "scan_le_args opts = [''--timeout'', nat_str (do_ble_scan_seconds opts), ''scan'', ''le'']"

definition captured :: "dd_env \<Rightarrow> string" where
  "captured env = (case from_utf8 (drain (de_chunks env) CAPTURE_GRACE) of Some text \<Rightarrow> text | None \<Rightarrow> [])"

definition ble_records :: "dd_env \<Rightarrow> dd_options \<Rightarrow> log_record list" where
  "ble_records env opts =
     (let adapter = do_bluetooth_adapter opts
      in case (do_btmon opts, do_bluetoothctl opts) of
           (Some btmon, Some bluetoothctl) \<Rightarrow>
             if \<not> se_exists (de_host env) (path_join (do_bluetooth_sysfs_root opts) adapter)
             then ble_skipped adapter ''no-adapter'' opts
             else if \<not> de_spawns env btmon (btmon_args opts) then ble_skipped adapter ''adapter-down'' opts
             else if de_status env bluetoothctl (scan_le_args opts) \<noteq> Some True
             then ble_skipped adapter ''controller-busy'' opts
             else let scan = parse_btmon (captured env)
                  in ble_scan_record adapter opts True None (Some True) (Some (de_ble_millis env)) (Some scan) #
                     map ble_device_record (sc_advertisers scan)
         | _ \<Rightarrow> [])"

section \<open>One run\<close>

definition dd_resource_attributes :: "dd_env \<Rightarrow> dd_options \<Rightarrow> (string \<times> attr_value) list" where
  "dd_resource_attributes env opts =
     [(''service.name'', VStr ''detected-devices'')]
     @ (case read_trimmed (de_host env) ''/proc/sys/kernel/hostname'' of Some h \<Rightarrow> [(''host.name'', VStr h)] | None \<Rightarrow> [])
     @ (case read_trimmed (de_host env) ''/proc/sys/kernel/random/boot_id'' of Some b \<Rightarrow> [(''boot_id'', VStr b)] | None \<Rightarrow> [])
     @ do_resource_attributes opts"

definition dd_records :: "dd_env \<Rightarrow> dd_options \<Rightarrow> log_record list" where
  "dd_records env opts =
     (case do_usb_devices_root opts of Some dir \<Rightarrow> usb_records env dir @ usb_port_records env dir | None \<Rightarrow> [])
     @ (case (do_iw opts, do_wifi_interface opts) of (Some iw, Some interface) \<Rightarrow> wifi_records env iw interface | _ \<Rightarrow> [])
     @ ble_records env opts"

definition DD_SCOPE_NAME :: string where "DD_SCOPE_NAME = ''detected-devices''"

definition dd_run :: "dd_env \<Rightarrow> dd_options \<Rightarrow> (run_error, run_report) result" where
  "dd_run env opts =
     res_bind (ok_or BeforeEpoch (se_unix_nanos (de_host env))) (\<lambda>time_unix_nano.
       deliver (se_collector (de_host env)) DD_SCOPE_NAME (do_dry_run opts) (do_socket opts) time_unix_nano
         (dd_resource_attributes env opts) (dd_records env opts))"

definition dd_main :: "dd_env \<Rightarrow> string list \<Rightarrow> exit_code" where
  "dd_main env args =
     (case dd_parse_args args of
        Inr None \<Rightarrow> Success
      | Inr (Some opts) \<Rightarrow> if succeeds (dd_run env opts) then Success else Failure
      | Inl _ \<Rightarrow> Failure)"

section \<open>Properties\<close>

text \<open>
  The exit code: success exactly when help was asked for, or the command line was accepted, the
  clock is past the epoch and the batch was printed or arrived whole.  No device, tool or scan that
  fails makes a run fail.
\<close>

theorem dd_main_success_iff:
  "dd_main env args = Success \<longleftrightarrow>
    dd_parse_args args = Inr None \<or>
    (\<exists>opts t. dd_parse_args args = Inr (Some opts) \<and> se_unix_nanos (de_host env) = Some t \<and>
      (do_dry_run opts \<or>
       arrived (se_collector (de_host env)) DD_SCOPE_NAME t (dd_resource_attributes env opts) (dd_records env opts)))"
  by (cases "dd_parse_args args")
    (auto simp: dd_main_def dd_run_def succeeds_deliver split: option.split)

definition dd_options_ok :: "dd_options \<Rightarrow> bool" where
  "dd_options_ok opts \<longleftrightarrow> 0 < do_ble_scan_seconds opts \<and> do_ble_scan_seconds opts < 2 ^ 64"

interpretation dd_table: option_table dd_switches dd_flags dd_options_ok
proof unfold_locales
  show "\<forall>(k, f) \<in> set dd_switches. \<forall>opts. dd_options_ok opts \<longrightarrow> dd_options_ok (f opts)"
    by (simp add: dd_switches_def dd_options_ok_def)
  show "\<forall>(k, g) \<in> set dd_flags. keeps dd_options_ok g"
    by (auto simp: dd_flags_def dd_options_ok_def dest: whole_positive_bound)
qed

lemma dd_accepted_options: "dd_parse_args args = Inr (Some opts) \<Longrightarrow> dd_options_ok opts"
  unfolding dd_parse_args_def
  by (erule dd_table.accepted_options) (simp add: dd_options_ok_def dd_default_options_def)

subsection \<open>Scans\<close>

lemmas dd_record_simps = fields_opt_simps with_attr_def with_field_def record_new_def opt_of_def

lemma device_record_events:
  "rec_event_name (ble_device_record a) =
     (case ad_kind a of Public \<Rightarrow> ''detected-devices.ble_device.public'' | Random \<Rightarrow> ''detected-devices.ble_device.random'')"
  by (simp add: ble_device_record_def device_fields_def dd_record_simps split: address_kind.split)

lemma device_record_count:
  "length (filter (\<lambda>r. rec_event_name r = ''detected-devices.ble_device.public'') (map ble_device_record as)) =
     length (filter (\<lambda>a. ad_kind a = Public) as)"
  "length (filter (\<lambda>r. rec_event_name r = ''detected-devices.ble_device.random'') (map ble_device_record as)) =
     length (filter (\<lambda>a. ad_kind a = Random) as)"
  by (induction as) (auto simp: device_record_events split: address_kind.splits)

text \<open>
  An empty neighbourhood and a scan that never ran are told apart: a configured Bluetooth scan
  always contributes one scan record, first; if it says the scan did not run there is nothing
  else, and otherwise its two counts are the numbers of public and random devices that follow
  it, which are all that follow.
\<close>

theorem ble_scan_tells_whether_it_ran:
  assumes "do_btmon opts \<noteq> None" "do_bluetoothctl opts \<noteq> None"
  shows "\<exists>scan devices. ble_records env opts = scan # devices \<and> rec_event_name scan = ''detected-devices.ble_scan'' \<and>
    (map_of (rec_body scan) ''ran'' = Some (VBool False) \<and> devices = [] \<or>
     map_of (rec_body scan) ''ran'' = Some (VBool True) \<and>
     (\<exists>pub rnd. map_of (rec_body scan) ''devices_public'' = Some (VInt (int pub)) \<and>
        map_of (rec_body scan) ''devices_random'' = Some (VInt (int rnd)) \<and>
        pub = length (filter (\<lambda>r. rec_event_name r = ''detected-devices.ble_device.public'') devices) \<and>
        rnd = length (filter (\<lambda>r. rec_event_name r = ''detected-devices.ble_device.random'') devices) \<and>
        pub + rnd = length devices))"
proof -
  obtain btmon ctl where tools: "do_btmon opts = Some btmon" "do_bluetoothctl opts = Some ctl" using assms by auto
  have skip: "\<exists>scan. ble_skipped adapter reason opts = [scan] \<and> rec_event_name scan = ''detected-devices.ble_scan'' \<and>
      map_of (rec_body scan) ''ran'' = Some (VBool False)"
    for adapter reason by (simp add: ble_skipped_def ble_scan_record_def dd_record_simps)
  have fields: "rec_event_name (ble_scan_record adapter opts True x y z (Some scan)) = ''detected-devices.ble_scan'' \<and>
     map_of (rec_body (ble_scan_record adapter opts True x y z (Some scan))) ''ran'' = Some (VBool True) \<and>
     map_of (rec_body (ble_scan_record adapter opts True x y z (Some scan))) ''devices_public'' = Some (VInt (count_kind scan Public)) \<and>
     map_of (rec_body (ble_scan_record adapter opts True x y z (Some scan))) ''devices_random'' = Some (VInt (count_kind scan Random))"
    for adapter x y z scan by (simp add: ble_scan_record_def dd_record_simps)
  let ?scan = "parse_btmon (captured env)"
  show ?thesis
  proof (cases "ble_records env opts = ble_scan_record (do_bluetooth_adapter opts) opts True None (Some True) (Some (de_ble_millis env)) (Some ?scan) #
      map ble_device_record (sc_advertisers ?scan)")
    case True
    with fields length_kinds [of "sc_advertisers ?scan"] show ?thesis
      by (simp add: count_kind_def device_record_count del: length_filter_map)
  next
    case False
    then obtain reason where "ble_records env opts = ble_skipped (do_bluetooth_adapter opts) reason opts"
      using tools by (auto simp: ble_records_def Let_def split: if_splits)
    moreover obtain scan where "ble_skipped (do_bluetooth_adapter opts) reason opts = [scan]"
      "rec_event_name scan = ''detected-devices.ble_scan''" "map_of (rec_body scan) ''ran'' = Some (VBool False)"
      using skip by blast
    ultimately show ?thesis by (intro exI [of _ scan] exI [of _ "[]"]) simp
  qed
qed

definition demo_dd :: dd_env where
  "demo_dd =
     \<lparr>de_host = (bare_host \<lparr>js_from_str = (\<lambda>_. None), js_get = (\<lambda>_ _. None), js_as_str = (\<lambda>_. None), js_as_i64 = (\<lambda>_. None),
          js_as_u64 = (\<lambda>_. None), js_as_bool = (\<lambda>_. None), js_as_array = (\<lambda>_. None)\<rparr>)\<lparr>se_exists := (\<lambda>_. True)\<rparr>,
      de_is_dir = (\<lambda>_. False), de_is_file = (\<lambda>_. False), de_wifi_millis = 0, de_spawns = (\<lambda>_ _. True),
      de_status = (\<lambda>_ _. Some True), de_ble_millis = 10, de_chunks = [(0, bytes_of_str ''> a''), (3 * 10 ^ 9, [0x0A])]\<rparr>"

definition demo_dd_options :: dd_options where
  "demo_dd_options = dd_default_options\<lparr>do_btmon := Some ''btmon'', do_bluetoothctl := Some ''ctl''\<rparr>"

theorem ble_scan_tells_whether_it_ran_witness:
  "\<exists>scan devices. ble_records demo_dd demo_dd_options = scan # devices \<and> rec_event_name scan = ''detected-devices.ble_scan''"
  using ble_scan_tells_whether_it_ran [of demo_dd_options demo_dd] by (auto simp: demo_dd_options_def)

text \<open>
  The same of a Wi-Fi sweep: its record says whether it ran, and one that ran is followed by exactly
  as many access points as it counts.
\<close>

theorem wifi_scan_tells_whether_it_ran:
  "\<exists>scan found. wifi_records env iw interface = scan # found \<and> rec_event_name scan = ''detected-devices.wifi_scan'' \<and>
    list_all (\<lambda>r. rec_event_name r = ''detected-devices.wifi_bss'') found \<and>
    (map_of (rec_body scan) ''ran'' = Some (VBool False) \<and> found = [] \<or>
     map_of (rec_body scan) ''ran'' = Some (VBool True) \<and>
     map_of (rec_body scan) ''bss_count'' = Some (int_of_u64 (length found)))"
proof -
  have "rec_event_name (wifi_bss_record interface b) = ''detected-devices.wifi_bss''" for b
    by (simp add: wifi_bss_record_def dd_record_simps)
  then show ?thesis
    by (auto simp: wifi_records_def wifi_scan_record_def Let_def dd_record_simps list_all_iff split: option.split)
qed

lemma dd_events:
  "rec_event_name (usb_device_record env path name) = ''detected-devices.usb''"
  "rec_event_name (usb_interface_record env path d) = ''detected-devices.usb.interface''"
  "rec_event_name (usb_port_record env dir interface port) = ''detected-devices.usb_port''"
  "rec_event_name (wifi_scan_record interface did skipped p millis n) = ''detected-devices.wifi_scan''"
  "rec_event_name (wifi_bss_record interface b) = ''detected-devices.wifi_bss''"
  "rec_event_name (ble_scan_record adapter opts did x y z s) = ''detected-devices.ble_scan''"
  by (simp_all only: usb_device_record_def usb_interface_record_def usb_port_record_def wifi_scan_record_def wifi_bss_record_def
        ble_scan_record_def attr_opt_def Let_def fields_opt_simps with_attr_def record_new_def log_record.simps)

lemma usb_event: "r \<in> set (usb_records env dir) \<Longrightarrow> rec_event_name r \<noteq> ''detected-devices.ble_device.random''"
  by (auto simp: usb_records_def usb_entry_record_def Let_def dd_events List.map_filter_def split: option.splits usb_entry.splits)

lemma usb_port_event: "r \<in> set (usb_port_records env dir) \<Longrightarrow> rec_event_name r \<noteq> ''detected-devices.ble_device.random''"
  by (auto simp: usb_port_records_def interface_ports_def dd_events split: option.splits)

lemma wifi_event: "r \<in> set (wifi_records env iw i) \<Longrightarrow> rec_event_name r \<noteq> ''detected-devices.ble_device.random''"
  by (auto simp: wifi_records_def Let_def dd_events split: option.splits)

lemma ble_records_cases:
  assumes "r \<in> set (ble_records env opts)"
  shows "rec_event_name r = ''detected-devices.ble_scan'' \<or> (\<exists>a. r = ble_device_record a)"
  using assms by (auto simp: ble_records_def ble_skipped_def Let_def dd_events split: option.splits if_splits)

text \<open>
  A rotating address is never an attribute: in every batch, the record of a random Bluetooth
  address has no attribute at all, and carries the address in its body.
\<close>

theorem random_address_is_no_attribute:
  assumes "r \<in> set (dd_records env opts)" "rec_event_name r = ''detected-devices.ble_device.random''"
  shows "rec_attributes r = [] \<and> ''address'' \<in> fst ` set (rec_body r)"
proof -
  have "r \<in> set (ble_records env opts)"
    using assms usb_event usb_port_event wifi_event by (fastforce simp: dd_records_def split: option.splits)
  with assms(2) obtain a where a: "r = ble_device_record a" by (auto dest: ble_records_cases)
  with assms(2) have "ad_kind a = Random" by (simp add: device_record_events split: address_kind.splits)
  with a show ?thesis by (simp add: ble_device_record_def device_fields_def dd_record_simps)
qed

definition one_random :: string where
  "one_random = rows [''> a'', ''LE Advertising Report'', ''Address type: Random'', ''Address: A'']"

definition hearing :: "(nat \<times> byte list) list \<Rightarrow> dd_env" where
  "hearing chunks = demo_dd\<lparr>de_chunks := chunks\<rparr>"

lemma one_random_heard:
  "map (\<lambda>a. (ad_address a, ad_kind a)) (sc_advertisers (parse_btmon one_random)) = [(''A'', Random)]"
  by code_simp

lemma hearing_records:
  "ble_records (hearing chunks) demo_dd_options =
     ble_scan_record ''hci0'' demo_dd_options True None (Some True) (Some 10) (Some (parse_btmon (captured (hearing chunks)))) #
     map ble_device_record (sc_advertisers (parse_btmon (captured (hearing chunks))))"
  by (simp add: ble_records_def hearing_def demo_dd_def demo_dd_options_def dd_default_options_def Let_def)

theorem random_address_is_no_attribute_witness:
  "\<exists>r \<in> set (dd_records (hearing [(0, bytes_of_str one_random)]) demo_dd_options).
     rec_event_name r = ''detected-devices.ble_device.random'' \<and> rec_attributes r = []"
proof -
  let ?env = "hearing [(0, bytes_of_str one_random)]"
  have "from_utf8 (bytes_of_str one_random) = Some one_random" by code_simp
  then have c: "captured ?env = one_random" by (simp add: captured_def hearing_def)
  obtain a where a: "sc_advertisers (parse_btmon one_random) = [a]" "ad_kind a = Random"
    using one_random_heard by auto
  let ?r = "ble_device_record a"
  have r: "?r \<in> set (dd_records ?env demo_dd_options)" "rec_event_name ?r = ''detected-devices.ble_device.random''"
    using a by (simp_all add: dd_records_def hearing_records c device_record_events)
  with random_address_is_no_attribute [OF r] show ?thesis by blast
qed

text \<open>
  The duty cycle is reported and not applied: the scan interval and window that are asked for
  change neither the arguments of the monitor and of the scan nor any device record.
\<close>

theorem duty_cycle_is_not_applied:
  "let opts' = opts\<lparr>do_ble_scan_interval_ms := i, do_ble_scan_window_ms := w\<rparr>
   in btmon_args opts' = btmon_args opts \<and> scan_le_args opts' = scan_le_args opts \<and>
      tl (ble_records env opts') = tl (ble_records env opts)"
proof -
  let ?opts = "opts\<lparr>do_ble_scan_interval_ms := i, do_ble_scan_window_ms := w\<rparr>"
  have args: "btmon_args ?opts = btmon_args opts" "scan_le_args ?opts = scan_le_args opts"
    by (simp_all add: btmon_args_def scan_le_args_def)
  then have "tl (ble_records env ?opts) = tl (ble_records env opts)"
    by (simp add: ble_records_def ble_skipped_def Let_def split: option.split)
  with args show ?thesis by (simp add: Let_def)
qed

text \<open>
  C39. A capture cut inside a character is lost whole: when what arrived within the grace is
  not UTF-8, the scan is reported as one that ran and heard nothing, whatever reports it holds.
\<close>

theorem cut_capture_is_lost:
  assumes "do_btmon opts = Some btmon" "do_bluetoothctl opts = Some ctl"
    and "se_exists (de_host env) (path_join (do_bluetooth_sysfs_root opts) (do_bluetooth_adapter opts))"
    and "de_spawns env btmon (btmon_args opts)" "de_status env ctl (scan_le_args opts) = Some True"
    and "from_utf8 (drain (de_chunks env) CAPTURE_GRACE) = None"
  shows "ble_records env opts =
    [ble_scan_record (do_bluetooth_adapter opts) opts True None (Some True) (Some (de_ble_millis env))
       (Some \<lparr>sc_advertisers = [], sc_reports_total = 0\<rparr>)]"
proof -
  have "captured env = []" using assms(6) by (simp add: captured_def)
  moreover have "parse_btmon [] = \<lparr>sc_advertisers = [], sc_reports_total = 0\<rparr>"
    by (simp add: parse_btmon_def lines_of_def ble_start_def)
  ultimately show ?thesis using assms by (simp add: ble_records_def)
qed

theorem cut_capture_is_lost_witness:
  "length (sc_advertisers (parse_btmon one_random)) = 1 \<and>
   tl (ble_records (hearing [(0, bytes_of_str one_random @ [0xC3]), (3 * 10 ^ 9, [0xA9])]) demo_dd_options) = []"
proof -
  let ?env = "hearing [(0, bytes_of_str one_random @ [0xC3]), (3 * 10 ^ 9, [0xA9])]"
  have "from_utf8 (bytes_of_str one_random @ [0xC3]) = None" by code_simp
  then have "from_utf8 (drain (de_chunks ?env) CAPTURE_GRACE) = None" by (simp add: hearing_def CAPTURE_GRACE_def)
  moreover have "do_btmon demo_dd_options = Some ''btmon''" "do_bluetoothctl demo_dd_options = Some ''ctl''"
    by (simp_all add: demo_dd_options_def)
  ultimately have "tl (ble_records ?env demo_dd_options) = []"
    by (subst cut_capture_is_lost [of demo_dd_options "''btmon''" "''ctl''" ?env]) (simp_all add: hearing_def demo_dd_def)
  moreover have "length (sc_advertisers (parse_btmon one_random)) = 1"
    using arg_cong [OF one_random_heard, of length] by simp
  ultimately show ?thesis by blast
qed

end
