(* ===== verification/Iroh_Lib.thy ===== *)
theory Iroh_Lib
  imports Producer
begin

text \<open>
  What the binaries of \<open>packages/iroh-ssh\<close> share (\<open>src/lib.rs\<close>): where the secret key and the ticket
  are read from, the tickets made of a key, how an endpoint is configured, the notification of the
  service manager and the exit code; and the two binaries that never touch the network,
  \<open>iroh-ssh-generate-secret\<close> and \<open>iroh-ssh-ticket\<close>.  The peer-to-peer library is not part of the
  repository: keys, addresses and tickets are a record of functions that the definitions take, and
  a builder is the list of the calls made on it.  The forwarding of bytes is in \<open>Iroh_Forward\<close>.
\<close>

section \<open>Constants\<close>

definition ALPN :: string where
  "ALPN = ''DUMBPIPEV0''"

definition HANDSHAKE :: "byte list" where
  "HANDSHAKE = [104, 101, 108, 108, 111]"

definition ONLINE_TIMEOUT :: nat where
  "ONLINE_TIMEOUT = 5"

definition SECRET_FILE :: string where
  "SECRET_FILE = ''iroh-secret''"

definition TICKET_FILE :: string where
  "TICKET_FILE = ''iroh-ticket''"

definition PUBLISHED_USER_DATA :: string where
  "PUBLISHED_USER_DATA = ''.''"

section \<open>Errors\<close>

text \<open>Why a connection ended: the cases of \<open>ConnectionError\<close> that the code tells apart.\<close>

datatype close_reason = ApplicationClosed | LocallyClosed | OtherReason nat

datatype net_error = CancelledError | AddrInUse | InvalidInput | NetError nat

datatype iroh_error =
    UnreadableSecretFile string
  | UnreadableCredential string
  | InvalidSecretKey
  | NoSecretKey
  | InvalidTicket
  | NoTicket
  | Usage
  | InvalidHost string
  | EndpointFailed net_error
  | DialFailed net_error
  | DialTimedOut nat
  | StreamFailed net_error
  | InvalidHandshake
  | TargetUnreachable net_error
  | ConnectionClosed close_reason
  | ConnectionLost close_reason
  | LocalAcceptFailed net_error
  | AlreadyServed string
  | StaleNotCleared string
  | BindFailed string
  | ModeNotSet string

section \<open>The process\<close>

text \<open>
  Environment variables and files are bytes; \<open>std::env::var\<close> and \<open>read_to_string\<close> give them as text
  only when they are UTF-8.
\<close>

record proc_env =
  pe_env :: "string \<Rightarrow> string option"
  pe_file :: "string \<Rightarrow> byte list option"

definition env_var :: "proc_env \<Rightarrow> string \<Rightarrow> string option" where
  "env_var env k = Option.bind (pe_env env k) (\<lambda>v. from_utf8 (bytes_of_str v))"

definition read_to_string :: "proc_env \<Rightarrow> string \<Rightarrow> string option" where
  "read_to_string env path = Option.bind (pe_file env path) from_utf8"

section \<open>Keys, addresses and tickets\<close>

record ('key, 'eid, 'url, 'addr, 'ticket) iroh =
  key_from_str :: "string \<Rightarrow> 'key option"
  key_to_bytes :: "'key \<Rightarrow> byte list"
  key_public :: "'key \<Rightarrow> 'eid"
  addr_new :: "'eid \<Rightarrow> 'addr"
  addr_id :: "'addr \<Rightarrow> 'eid"
  relay_urls :: "'addr \<Rightarrow> 'url list"
  with_relay_url :: "'addr \<Rightarrow> 'url \<Rightarrow> 'addr"
  ticket_new :: "'addr \<Rightarrow> 'ticket"
  endpoint_addr :: "'ticket \<Rightarrow> 'addr"
  ticket_str :: "'ticket \<Rightarrow> string"
  ticket_from_str :: "string \<Rightarrow> 'ticket option"

definition parse_secret :: "('k, 'i, 'u, 'a, 't) iroh \<Rightarrow> string \<Rightarrow> (iroh_error, 'k) result" where
  "parse_secret ir hex = ok_or InvalidSecretKey (key_from_str ir (trim hex))"

definition parse_ticket :: "('k, 'i, 'u, 'a, 't) iroh \<Rightarrow> string \<Rightarrow> (iroh_error, 't) result" where
  "parse_ticket ir t = ok_or InvalidTicket (ticket_from_str ir (trim t))"

definition load_secret :: "('k, 'i, 'u, 'a, 't) iroh \<Rightarrow> proc_env \<Rightarrow> string option \<Rightarrow> (iroh_error, 'k) result" where
  "load_secret ir env explicit =
     (case explicit of
        Some path \<Rightarrow> res_bind (ok_or (UnreadableSecretFile path) (read_to_string env path)) (parse_secret ir)
      | None \<Rightarrow>
          (case env_var env ''CREDENTIALS_DIRECTORY'' of
             Some dir \<Rightarrow>
               (let path = path_join dir SECRET_FILE
                in res_bind (ok_or (UnreadableCredential path) (read_to_string env path)) (parse_secret ir))
           | None \<Rightarrow>
               (case env_var env ''IROH_SECRET'' of
                  Some hex \<Rightarrow> parse_secret ir hex
                | None \<Rightarrow> Inl NoSecretKey)))"

definition load_ticket :: "('k, 'i, 'u, 'a, 't) iroh \<Rightarrow> proc_env \<Rightarrow> string option \<Rightarrow> (iroh_error, 't) result" where
  "load_ticket ir env explicit =
     (case explicit of
        Some t \<Rightarrow> parse_ticket ir t
      | None \<Rightarrow>
          (case env_var env ''CREDENTIALS_DIRECTORY'' of
             Some dir \<Rightarrow>
               (let path = path_join dir TICKET_FILE
                in res_bind (ok_or (UnreadableCredential path) (read_to_string env path)) (parse_ticket ir))
           | None \<Rightarrow>
               (case env_var env ''IROH_TICKET'' of
                  Some t \<Rightarrow> parse_ticket ir t
                | None \<Rightarrow> Inl NoTicket)))"

definition id_ticket :: "('k, 'i, 'u, 'a, 't) iroh \<Rightarrow> 'k \<Rightarrow> 't" where
  "id_ticket ir key = ticket_new ir (addr_new ir (key_public ir key))"

definition short_ticket :: "('k, 'i, 'u, 'a, 't) iroh \<Rightarrow> 'a \<Rightarrow> 't" where
  "short_ticket ir addr = ticket_new ir (foldl (with_relay_url ir) (addr_new ir (addr_id ir addr)) (relay_urls ir addr))"

section \<open>Endpoints\<close>

datatype dns_call = WithSystemDefaults | DisableFallback

datatype lookup = PkarrResolver | DnsAddressLookup

datatype 'k builder_call =
    PresetN0
  | UseDnsResolver "dns_call list"
  | SystemCaTls
  | UseSecretKey 'k
  | UseAlpns "string list"
  | UserData string
  | ClearAddressLookup
  | AddressLookup lookup

definition endpoint_builder :: "'k builder_call list" where
  "endpoint_builder = [PresetN0, UseDnsResolver [WithSystemDefaults, DisableFallback], SystemCaTls]"

definition create_listener_endpoint :: "('k builder_call list \<Rightarrow> (net_error, 'ep) result) \<Rightarrow> 'k \<Rightarrow> string list \<Rightarrow> (iroh_error, 'ep) result" where
  "create_listener_endpoint bind_endpoint secret_key alpns =
     map_err EndpointFailed
       (bind_endpoint (endpoint_builder @ [UseSecretKey secret_key, UseAlpns alpns, UserData PUBLISHED_USER_DATA]))"

definition create_dialer_endpoint :: "('k builder_call list \<Rightarrow> (net_error, 'ep) result) \<Rightarrow> (iroh_error, 'ep) result" where
  "create_dialer_endpoint bind_endpoint =
     map_err EndpointFailed
       (bind_endpoint (endpoint_builder @ [ClearAddressLookup, AddressLookup PkarrResolver, AddressLookup DnsAddressLookup]))"

section \<open>Ends of connections, notification, exit code\<close>

fun closed_normally :: "close_reason \<Rightarrow> bool" where
  "closed_normally ApplicationClosed = True"
| "closed_normally LocallyClosed = True"
| "closed_normally (OtherReason _) = False"

text \<open>
  \<open>shutdown_signal\<close>: installing the SIGTERM handler may fail, which resolves at once; then whichever
  signal comes first resolves it.  The loops that wait for it end whatever its value is.
\<close>

datatype signal_event = CtrlC "(net_error, unit) result" | Terminate

fun shutdown_signal :: "(net_error, unit) result \<Rightarrow> signal_event list \<Rightarrow> (net_error, unit) result option" where
  "shutdown_signal (Inl e) _ = Some (Inl e)"
| "shutdown_signal (Inr _) [] = None"
| "shutdown_signal (Inr _) (CtrlC res # _) = Some res"
| "shutdown_signal (Inr _) (Terminate # _) = Some (Inr ())"

text \<open>The address of a unix datagram socket; 108 bytes are what the kernel has for it.\<close>

datatype sock_addr = AbstractName string | Pathname string

definition from_abstract_name :: "string \<Rightarrow> (net_error, sock_addr) result" where
  "from_abstract_name name = (if length name + 1 > 108 then Inl InvalidInput else Inr (AbstractName name))"

definition from_pathname :: "string \<Rightarrow> (net_error, sock_addr) result" where
  "from_pathname path = (if CHR 0x00 \<in> set path \<or> length path \<ge> 108 then Inl InvalidInput else Inr (Pathname path))"

text \<open>Making the unbound socket and sending on it are one call here, which may fail.\<close>

definition notify ::
  "proc_env \<Rightarrow> (sock_addr \<Rightarrow> string \<Rightarrow> (net_error, unit) result) \<Rightarrow> string \<Rightarrow> (net_error, unit) result" where
  "notify env send_to_addr state =
     (case pe_env env ''NOTIFY_SOCKET'' of
        None \<Rightarrow> Inr ()
      | Some target \<Rightarrow>
          res_bind
            (case strip_prefix target ''@'' of
               Some name \<Rightarrow> from_abstract_name name
             | None \<Rightarrow> from_pathname target)
            (\<lambda>addr. send_to_addr addr state))"

definition run_exit :: "(iroh_error, unit) result \<Rightarrow> exit_code" where
  "run_exit res = (case res of Inr _ \<Rightarrow> Success | Inl _ \<Rightarrow> Failure)"

section \<open>The offline binaries\<close>

text \<open>\<open>iroh-ssh-generate-secret\<close>: what goes to the standard output and to the standard error.\<close>

definition quote :: string where
  "quote = [CHR 0x27]"

definition generate_secret_main :: "('k, 'i, 'u, 'a, 't) iroh \<Rightarrow> 'k \<Rightarrow> string \<times> string" where
  "generate_secret_main ir key =
     (let secret = concat (map hex_byte (key_to_bytes ir key));
          t = id_ticket ir key
      in (secret @ newline,
          ''connect with e.g.:'' @ newline @
          ''ssh -o ProxyCommand='' @ quote @ ''iroh-ssh-connect '' @ ticket_str ir t @ quote @ '' <user>@<any-name>'' @ newline))"

text \<open>\<open>iroh-ssh-ticket\<close>: the standard output and the exit code, for the arguments after the program's name.\<close>

definition ticket :: "('k, 'i, 'u, 'a, 't) iroh \<Rightarrow> proc_env \<Rightarrow> string option \<Rightarrow> (iroh_error, 't) result" where
  "ticket ir env secret_file = res_bind (load_secret ir env secret_file) (\<lambda>key. Inr (id_ticket ir key))"

definition ticket_main :: "('k, 'i, 'u, 'a, 't) iroh \<Rightarrow> proc_env \<Rightarrow> string list \<Rightarrow> string \<times> exit_code" where
  "ticket_main ir env args =
     (case ticket ir env (nth_get args 0) of
        Inr t \<Rightarrow> (ticket_str ir t @ newline, Success)
      | Inl _ \<Rightarrow> ([], Failure))"

section \<open>One source, no fallback\<close>

text \<open>
  What \<open>load_secret\<close> and \<open>load_ticket\<close> have in common: an explicit argument, else the credential, else
  a variable, and the first that is there decides.
\<close>

locale first_source =
  fixes load :: "proc_env \<Rightarrow> string option \<Rightarrow> (iroh_error, 'a) result"
    and parse :: "string \<Rightarrow> (iroh_error, 'a) result"
    and cred_file :: string
    and var :: string
  assumes credential: "env_var env ''CREDENTIALS_DIRECTORY'' = Some dir \<Longrightarrow>
      load env None = res_bind (ok_or (UnreadableCredential (path_join dir cred_file)) (read_to_string env (path_join dir cred_file))) parse"
    and variable: "env_var env ''CREDENTIALS_DIRECTORY'' = None \<Longrightarrow> env_var env var = Some text \<Longrightarrow> load env None = parse text"
    and no_source: "env_var env ''CREDENTIALS_DIRECTORY'' = None \<Longrightarrow> env_var env var = None \<Longrightarrow> load env None \<noteq> Inr v"
begin

lemma credential_decides:
  assumes "env_var env ''CREDENTIALS_DIRECTORY'' = Some dir" "env_var env' ''CREDENTIALS_DIRECTORY'' = Some dir"
    and "pe_file env (path_join dir cred_file) = pe_file env' (path_join dir cred_file)"
  shows "load env None = load env' None"
  using assms by (simp add: credential read_to_string_def)

lemma load_credential_iff:
  "env_var env ''CREDENTIALS_DIRECTORY'' = Some dir \<Longrightarrow>
   load env None = Inr v \<longleftrightarrow> (\<exists>text. read_to_string env (path_join dir cred_file) = Some text \<and> parse text = Inr v)"
  by (auto simp: credential result_simps)

lemma load_variable_iff:
  "env_var env ''CREDENTIALS_DIRECTORY'' = None \<Longrightarrow>
   load env None = Inr v \<longleftrightarrow> (\<exists>text. env_var env var = Some text \<and> parse text = Inr v)"
  by (cases "env_var env var") (simp_all add: variable no_source)

end

interpretation secret_source: first_source "load_secret ir" "parse_secret ir" SECRET_FILE "''IROH_SECRET''"
  by unfold_locales (simp_all add: load_secret_def Let_def)

interpretation ticket_source: first_source "load_ticket ir" "parse_ticket ir" TICKET_FILE "''IROH_TICKET''"
  by unfold_locales (simp_all add: load_ticket_def Let_def)

text \<open>
  A credential directory that is set decides alone: two processes that see the same credential
  files there load the same secret and the same ticket, or fail in the same way, whatever else
  their environments hold. So a missing or malformed credential fails and never falls back to
  the variable.
\<close>

theorem credential_never_falls_back:
  assumes "env_var env ''CREDENTIALS_DIRECTORY'' = Some dir" "env_var env' ''CREDENTIALS_DIRECTORY'' = Some dir"
    and "\<And>name. pe_file env (path_join dir name) = pe_file env' (path_join dir name)"
  shows "load_secret ir env None = load_secret ir env' None \<and> load_ticket ir env None = load_ticket ir env' None \<and>
    (load_secret ir env None = Inr key \<longleftrightarrow>
      (\<exists>text. read_to_string env (path_join dir SECRET_FILE) = Some text \<and> key_from_str ir (trim text) = Some key)) \<and>
    (load_ticket ir env None = Inr t \<longleftrightarrow>
      (\<exists>text. read_to_string env (path_join dir TICKET_FILE) = Some text \<and> ticket_from_str ir (trim text) = Some t))"
  using secret_source.credential_decides [OF assms(1,2), of ir] ticket_source.credential_decides [OF assms(1,2), of ir]
    secret_source.load_credential_iff [OF assms(1), of ir key] ticket_source.load_credential_iff [OF assms(1), of ir t] assms(3)
  by (simp add: parse_secret_def parse_ticket_def result_simps)

section \<open>Tickets\<close>

lemma visible_hex_char: "d < 16 \<Longrightarrow> visible [hex_char d]"
  by (auto simp: visible_def hex_char_def)

lemma visible_hex_byte: "visible (hex_byte b)"
proof -
  have "unat b < 256" using unsigned_less [of b] by simp
  then show ?thesis
    using visible_hex_char [of "unat b div 16"] visible_hex_char [of "unat b mod 16"]
    by (simp add: hex_byte_def visible_def)
qed

lemma visible_hex_bytes: "visible (concat (map hex_byte bs))"
  by (induction bs) (auto simp: visible_hex_byte)

text \<open>The relays of a short ticket are added to the bare id one by one.\<close>

lemma foldl_relays:
  assumes "\<And>a u. addr_id ir (with_relay_url ir a u) = addr_id ir a"
    and "\<And>a u. set (relay_urls ir (with_relay_url ir a u)) = insert u (set (relay_urls ir a))"
  shows "addr_id ir (foldl (with_relay_url ir) a us) = addr_id ir a"
    and "set (relay_urls ir (foldl (with_relay_url ir) a us)) = set (relay_urls ir a) \<union> set us"
  by (induction us arbitrary: a) (auto simp: assms)

lemma short_ticket_keeps_relays:
  assumes "\<And>a. endpoint_addr ir (ticket_new ir a) = a"
    and "\<And>i. addr_id ir (addr_new ir i) = i" "\<And>i. relay_urls ir (addr_new ir i) = []"
    and "\<And>a u. addr_id ir (with_relay_url ir a u) = addr_id ir a"
    and "\<And>a u. set (relay_urls ir (with_relay_url ir a u)) = insert u (set (relay_urls ir a))"
  shows "addr_id ir (endpoint_addr ir (short_ticket ir addr)) = addr_id ir addr"
    and "set (relay_urls ir (endpoint_addr ir (short_ticket ir addr))) = set (relay_urls ir addr)"
  using foldl_relays [of ir] assms by (simp_all add: short_ticket_def)

text \<open>
  The host derives the ticket that was shown when the secret was generated, and what it prints is
  read back by \<open>load_ticket\<close>, which trims the newline.
\<close>

lemma derived_ticket:
  assumes "key_from_str ir (concat (map hex_byte (key_to_bytes ir key))) = Some key"
    and "\<And>t. ticket_from_str ir (ticket_str ir t) = Some t" "\<And>t. visible (ticket_str ir t)"
    and "\<And>a. endpoint_addr ir (ticket_new ir a) = a"
    and "pe_file env path = Some (bytes_of_str (fst (generate_secret_main ir key)))"
  shows "ticket_main ir env [path] = (ticket_str ir (id_ticket ir key) @ newline, Success)"
    and "\<exists>before after. snd (generate_secret_main ir key) = before @ ''iroh-ssh-connect '' @ ticket_str ir (id_ticket ir key) @ after"
    and "load_ticket ir env' (Some (fst (ticket_main ir env [path]))) = Inr (id_ticket ir key)"
proof -
  let ?hex = "concat (map hex_byte (key_to_bytes ir key))"
  have "fst (generate_secret_main ir key) = ?hex @ newline" by (simp add: generate_secret_main_def Let_def)
  then have "read_to_string env path = Some (?hex @ newline)"
    using assms(5) from_utf8_line [OF visible_hex_bytes] by (simp add: read_to_string_def del: bytes_of_str_simps)
  then have "load_secret ir env (Some path) = Inr key"
    by (simp add: load_secret_def parse_secret_def trim_newline [OF visible_hex_bytes] assms(1))
  then show printed: "ticket_main ir env [path] = (ticket_str ir (id_ticket ir key) @ newline, Success)"
    by (simp add: ticket_main_def ticket_def nth_get_def)
  show "\<exists>before after. snd (generate_secret_main ir key) = before @ ''iroh-ssh-connect '' @ ticket_str ir (id_ticket ir key) @ after"
    by (rule exI [of _ "''connect with e.g.:'' @ newline @ ''ssh -o ProxyCommand='' @ quote"])
      (simp add: generate_secret_main_def Let_def)
  show "load_ticket ir env' (Some (fst (ticket_main ir env [path]))) = Inr (id_ticket ir key)"
    by (simp add: printed load_ticket_def parse_ticket_def trim_newline assms(2,3))
qed

text \<open>A library whose keys are one byte, whose addresses are an id and relays, and whose tickets print in unary.\<close>

definition unary_iroh :: "(byte, nat, nat, nat \<times> nat list, nat \<times> nat list) iroh" where
  "unary_iroh =
     \<lparr>key_from_str = (\<lambda>s. case s of [a, b] \<Rightarrow>
          (case (char_digit 16 a, char_digit 16 b) of (Some x, Some y) \<Rightarrow> Some (of_nat (16 * x + y)) | _ \<Rightarrow> None) | _ \<Rightarrow> None),
      key_to_bytes = (\<lambda>k. [k]), key_public = unat, addr_new = (\<lambda>i. (i, [])), addr_id = fst, relay_urls = snd,
      with_relay_url = (\<lambda>a u. (fst a, snd a @ [u])), ticket_new = (\<lambda>a. a), endpoint_addr = (\<lambda>t. t),
      ticket_str = (\<lambda>t. concat (map (\<lambda>n. replicate n CHR ''i'' @ ''.'') (fst t # snd t))),
      ticket_from_str = (\<lambda>s. case map length (butlast (split_on CHR ''.'' s)) of [] \<Rightarrow> None | i # us \<Rightarrow> Some (i, us))\<rparr>"

definition unary_env :: proc_env where
  "unary_env =
     \<lparr>pe_env = (\<lambda>k. if k = ''CREDENTIALS_DIRECTORY'' then Some ''/c'' else if k = ''IROH_TICKET'' then Some ''ii.'' else None),
      pe_file = (\<lambda>p. if p = ''k'' then Some (bytes_of_str (''07'' @ newline)) else None)\<rparr>"

theorem credential_never_falls_back_witness:
  "load_ticket unary_iroh unary_env None = Inl (UnreadableCredential ''/c/iroh-ticket'') \<and>
   load_ticket unary_iroh (unary_env\<lparr>pe_env := (pe_env unary_env)(''IROH_TICKET'' := None)\<rparr>) None = load_ticket unary_iroh unary_env None"
proof -
  let ?e = "unary_env\<lparr>pe_env := (pe_env unary_env)(''IROH_TICKET'' := None)\<rparr>"
  have v: "from_utf8 (bytes_of_str ''/c'') = Some ''/c''" by code_simp
  have d: "env_var ?e ''CREDENTIALS_DIRECTORY'' = Some ''/c''" "env_var unary_env ''CREDENTIALS_DIRECTORY'' = Some ''/c''"
    using v by (simp_all add: env_var_def unary_env_def del: bytes_of_str_simps)
  have f: "pe_file ?e (path_join ''/c'' name) = pe_file unary_env (path_join ''/c'' name)" for name by simp
  have "load_ticket unary_iroh unary_env None = Inl (UnreadableCredential ''/c/iroh-ticket'')"
    using d by (simp add: load_ticket_def Let_def TICKET_FILE_def path_join_def starts_with_def ends_with_def read_to_string_def
        unary_env_def)
  with credential_never_falls_back [OF d f, of unary_iroh 0 "(0, [])"] show ?thesis by simp
qed

lemma split_on_unary:
  "split_on CHR ''.'' (concat (map (\<lambda>n. replicate n CHR ''i'' @ ''.'') ns)) = map (\<lambda>n. replicate n CHR ''i'') ns @ [[]]"
proof (induction ns)
  case (Cons n ns)
  have "split_on CHR ''.'' (replicate n CHR ''i'' @ ''.'' @ r) = replicate n CHR ''i'' # split_on CHR ''.'' r" for r
    by (induction n) simp_all
  with Cons.IH show ?case by simp
qed simp

lemma unary_ticket_roundtrip: "ticket_from_str unary_iroh (ticket_str unary_iroh t) = Some t"
  using split_on_unary [of "fst t # snd t"] by (simp add: unary_iroh_def comp_def)

lemma unary_ticket_visible: "visible (ticket_str unary_iroh t)"
  by (auto simp: unary_iroh_def visible_def)

end
