(* ===== verification/Iroh_Forward.thy ===== *)
theory Iroh_Forward
  imports Iroh_Lib "HOL-Library.Sublist"
begin

text \<open>
  \<open>forward_bidi\<close> of \<open>packages/iroh-ssh/src/lib.rs\<close>: two copying tasks and one that waits for ctrl-c
  share a cancellation token, and the caller joins the inward task, then the outward one.  The tasks
  interleave freely, so the whole is a step relation.  A copy (\<open>tokio::io::copy\<close>) takes any chunk its
  reader has, writes any part of what it holds, ends when the reader has ended and everything is
  written, and may fail at any moment.  The streams it works on may stay silent for ever: no step is
  ever forced from outside.
\<close>

section \<open>The two copies\<close>

text \<open>
  The bytes a reader will still give and whether it ends after them, the bytes read and not yet
  written, the bytes the writer has taken, the calls made on the noq stream, and the value of the task.
\<close>

datatype stream_call = Finish | Reset nat | Stop nat

record copy_task =
  c_source :: "byte list"
  c_ends :: bool
  c_held :: "byte list"
  c_sunk :: "byte list"
  c_calls :: "stream_call list"
  c_res :: "(net_error, nat) result option"

inductive io_copy :: "copy_task \<Rightarrow> copy_task \<Rightarrow> bool" where
  reads: "c_source c = chunk @ rest \<Longrightarrow> chunk \<noteq> [] \<Longrightarrow>
    io_copy c (c\<lparr>c_source := rest, c_held := c_held c @ chunk\<rparr>)"
| writes: "c_held c = chunk @ rest \<Longrightarrow> chunk \<noteq> [] \<Longrightarrow>
    io_copy c (c\<lparr>c_held := rest, c_sunk := c_sunk c @ chunk\<rparr>)"

inductive io_copy_ends :: "copy_task \<Rightarrow> (net_error, nat) result \<Rightarrow> bool" where
  copied: "c_source c = [] \<Longrightarrow> c_ends c \<Longrightarrow> c_held c = [] \<Longrightarrow> io_copy_ends c (Inr (length (c_sunk c)))"
| failed: "io_copy_ends c (Inl (NetError n))"

inductive_cases io_copy_endsE: "io_copy_ends c res"

text \<open>Which branch of a \<open>select!\<close> is taken.\<close>

datatype branch = CopyEnded "(net_error, nat) result" | TokenCancelled

fun copy_to_stream :: "branch \<Rightarrow> (net_error, unit) result \<Rightarrow> stream_call list \<times> (net_error, nat) result" where
  "copy_to_stream (CopyEnded (Inl e)) _ = ([], Inl e)"
| "copy_to_stream (CopyEnded (Inr n)) finished = ([Finish], res_bind finished (\<lambda>_. Inr n))"
| "copy_to_stream TokenCancelled _ = ([Reset 0], Inl CancelledError)"

fun copy_from_stream :: "branch \<Rightarrow> stream_call list \<times> (net_error, nat) result" where
  "copy_from_stream (CopyEnded res) = ([], res)"
| "copy_from_stream TokenCancelled = ([Stop 0], Inl CancelledError)"

definition settled :: "copy_task \<Rightarrow> stream_call list \<times> (net_error, nat) result \<Rightarrow> copy_task" where
  "settled c outcome = c\<lparr>c_calls := c_calls c @ fst outcome, c_res := Some (snd outcome)\<rparr>"

section \<open>Both directions\<close>

record forward =
  fw_out :: copy_task
  fw_in :: copy_task
  fw_cancelled :: bool
  fw_ctrl_c :: bool
  fw_result :: "(net_error, unit) result option"

text \<open>\<open>map_err(cancel_token(token))\<close>: an error cancels the token, a value leaves it as it is.\<close>

definition cancel_token :: "bool \<Rightarrow> (net_error, nat) result \<Rightarrow> bool" where
  "cancel_token cancelled res = (cancelled \<or> (case res of Inl _ \<Rightarrow> True | Inr _ \<Rightarrow> False))"

definition forward_out :: "forward \<Rightarrow> branch \<Rightarrow> (net_error, unit) result \<Rightarrow> forward" where
  "forward_out s b finished =
     (let outcome = copy_to_stream b finished
      in s\<lparr>fw_out := settled (fw_out s) outcome, fw_cancelled := cancel_token (fw_cancelled s) (snd outcome)\<rparr>)"

definition forward_in :: "forward \<Rightarrow> branch \<Rightarrow> forward" where
  "forward_in s b =
     (let outcome = copy_from_stream b
      in s\<lparr>fw_in := settled (fw_in s) outcome, fw_cancelled := cancel_token (fw_cancelled s) (snd outcome)\<rparr>)"

text \<open>Joining: the inward task first; while the one waited for runs there is no value.\<close>

fun forwarded :: "(net_error, nat) result option \<Rightarrow> (net_error, nat) result option \<Rightarrow> (net_error, unit) result option" where
  "forwarded None _ = None"
| "forwarded (Some (Inl e)) _ = Some (Inl e)"
| "forwarded (Some (Inr _)) None = None"
| "forwarded (Some (Inr _)) (Some (Inl e)) = Some (Inl e)"
| "forwarded (Some (Inr _)) (Some (Inr _)) = Some (Inr ())"

text \<open>What the runtime does on its own, without any stream or signal.\<close>

inductive settle_step :: "forward \<Rightarrow> forward \<Rightarrow> bool" where
  out_cancelled: "fw_cancelled s \<Longrightarrow> c_res (fw_out s) = None \<Longrightarrow> settle_step s (forward_out s TokenCancelled (Inr ()))"
| in_cancelled: "fw_cancelled s \<Longrightarrow> c_res (fw_in s) = None \<Longrightarrow> settle_step s (forward_in s TokenCancelled)"
| joined: "fw_result s = None \<Longrightarrow> forwarded (c_res (fw_in s)) (c_res (fw_out s)) = Some r \<Longrightarrow>
    settle_step s (s\<lparr>fw_result := Some r, fw_ctrl_c := False\<rparr>)"

inductive forward_step :: "forward \<Rightarrow> forward \<Rightarrow> bool" where
  out_copies: "c_res (fw_out s) = None \<Longrightarrow> io_copy (fw_out s) c \<Longrightarrow> forward_step s (s\<lparr>fw_out := c\<rparr>)"
| in_copies: "c_res (fw_in s) = None \<Longrightarrow> io_copy (fw_in s) c \<Longrightarrow> forward_step s (s\<lparr>fw_in := c\<rparr>)"
| out_ends: "c_res (fw_out s) = None \<Longrightarrow> io_copy_ends (fw_out s) res \<Longrightarrow> finished \<in> {Inr (), Inl (NetError n)} \<Longrightarrow>
    forward_step s (forward_out s (CopyEnded res) finished)"
| in_ends: "c_res (fw_in s) = None \<Longrightarrow> io_copy_ends (fw_in s) res \<Longrightarrow> forward_step s (forward_in s (CopyEnded res))"
| ctrl_c: "fw_ctrl_c s \<Longrightarrow> forward_step s (s\<lparr>fw_ctrl_c := False, fw_cancelled := True\<rparr>)"
| ctrl_c_unavailable: "fw_ctrl_c s \<Longrightarrow> forward_step s (s\<lparr>fw_ctrl_c := False\<rparr>)"
| settles: "settle_step s s' \<Longrightarrow> forward_step s s'"

inductive_cases settle_stepE: "settle_step s s'"

definition start_copy :: "byte list \<Rightarrow> bool \<Rightarrow> copy_task" where
  "start_copy bytes ends = \<lparr>c_source = bytes, c_ends = ends, c_held = [], c_sunk = [], c_calls = [], c_res = None\<rparr>"

definition forward_bidi :: "byte list \<Rightarrow> bool \<Rightarrow> byte list \<Rightarrow> bool \<Rightarrow> forward" where
  "forward_bidi from1 ends1 from2 ends2 =
     \<lparr>fw_out = start_copy from1 ends1, fw_in = start_copy from2 ends2, fw_cancelled = False, fw_ctrl_c = True, fw_result = None\<rparr>"

section \<open>What every state satisfies\<close>

definition copy_ok :: "byte list \<Rightarrow> bool \<Rightarrow> copy_task \<Rightarrow> bool" where
  "copy_ok bytes ends c \<longleftrightarrow>
     c_sunk c @ c_held c @ c_source c = bytes \<and> c_ends c = ends \<and>
     (\<forall>n. c_res c = Some (Inr n) \<longrightarrow> ends \<and> c_sunk c = bytes \<and> n = length bytes)"

text \<open>The send stream is finished only after everything, and reset only when cancelled.\<close>

definition out_calls_ok :: "byte list \<Rightarrow> copy_task \<Rightarrow> bool" where
  "out_calls_ok bytes c \<longleftrightarrow>
     (case c_res c of
        None \<Rightarrow> c_calls c = []
      | Some (Inr _) \<Rightarrow> c_calls c = [Finish]
      | Some (Inl CancelledError) \<Rightarrow> c_calls c = [Reset 0]
      | Some (Inl _) \<Rightarrow> c_calls c = [] \<or> c_calls c = [Finish] \<and> c_sunk c = bytes)"

definition in_calls_ok :: "copy_task \<Rightarrow> bool" where
  "in_calls_ok c \<longleftrightarrow> c_calls c = (if c_res c = Some (Inl CancelledError) then [Stop 0] else [])"

definition task_failed :: "copy_task \<Rightarrow> bool" where
  "task_failed c \<longleftrightarrow> (\<exists>e. c_res c = Some (Inl e))"

definition forward_inv :: "byte list \<Rightarrow> bool \<Rightarrow> byte list \<Rightarrow> bool \<Rightarrow> forward \<Rightarrow> bool" where
  "forward_inv from1 ends1 from2 ends2 s \<longleftrightarrow>
     copy_ok from1 ends1 (fw_out s) \<and> copy_ok from2 ends2 (fw_in s) \<and>
     out_calls_ok from1 (fw_out s) \<and> in_calls_ok (fw_in s) \<and>
     (task_failed (fw_out s) \<or> task_failed (fw_in s) \<longrightarrow> fw_cancelled s) \<and>
     (fw_cancelled s \<and> fw_ctrl_c s \<longrightarrow> task_failed (fw_out s) \<or> task_failed (fw_in s)) \<and>
     (\<forall>r. fw_result s = Some r \<longrightarrow> forwarded (c_res (fw_in s)) (c_res (fw_out s)) = Some r)"

lemmas forward_inv_defs = copy_ok_def out_calls_ok_def in_calls_ok_def task_failed_def

lemma io_copy_keeps: "io_copy c c' \<Longrightarrow> copy_ok bytes ends c \<Longrightarrow> c_res c = None \<Longrightarrow> copy_ok bytes ends c'"
  by (induction rule: io_copy.induct) (auto simp: copy_ok_def)

lemma io_copy_frame: "io_copy c c' \<Longrightarrow> c_res c' = c_res c \<and> c_calls c' = c_calls c"
  by (induction rule: io_copy.induct) auto

lemma io_copy_ends_Inr:
  "io_copy_ends c (Inr n) \<Longrightarrow> copy_ok bytes ends c \<Longrightarrow> ends \<and> c_sunk c = bytes \<and> n = length bytes"
  by (auto simp: copy_ok_def elim: io_copy_endsE)

lemma settled_sel [simp]:
  "c_source (settled c x) = c_source c" "c_ends (settled c x) = c_ends c" "c_held (settled c x) = c_held c"
  "c_sunk (settled c x) = c_sunk c" "c_calls (settled c x) = c_calls c @ fst x" "c_res (settled c x) = Some (snd x)"
  by (simp_all add: settled_def)

lemma forwarded_done: "forwarded i w = Some r \<Longrightarrow> w \<noteq> None \<or> (\<exists>e. i = Some (Inl e))"
  by (cases "(i, w)" rule: forwarded.cases) auto

lemma forwarded_Some_in: "forwarded i w = Some r \<Longrightarrow> i \<noteq> None"
  by (cases i) auto

lemma forwarded_later: "forwarded i None = Some r \<Longrightarrow> forwarded i w = Some r"
  by (cases "(i, w)" rule: forwarded.cases) auto

lemma copy_ends_out:
  assumes "copy_ok bytes ends c" "out_calls_ok bytes c" "c_res c = None" "io_copy_ends c res" "finished \<in> {Inr (), Inl (NetError n)}"
  shows "copy_ok bytes ends (settled c (copy_to_stream (CopyEnded res) finished))"
    and "out_calls_ok bytes (settled c (copy_to_stream (CopyEnded res) finished))"
  using assms(4) assms(1-3,5)
  by (auto simp: copy_ok_def out_calls_ok_def elim!: io_copy_endsE)

lemma copy_ends_in:
  assumes "copy_ok bytes ends c" "in_calls_ok c" "c_res c = None" "io_copy_ends c res"
  shows "copy_ok bytes ends (settled c (copy_from_stream (CopyEnded res)))"
    and "in_calls_ok (settled c (copy_from_stream (CopyEnded res)))"
  using assms(4) assms(1-3) by (auto simp: copy_ok_def in_calls_ok_def elim!: io_copy_endsE)

lemma cancel_token_simps [simp]:
  "cancel_token b (Inl e)" "cancel_token b (Inr n) = b"
  by (simp_all add: cancel_token_def)

lemma settle_step_inv:
  "settle_step s s' \<Longrightarrow> forward_inv from1 ends1 from2 ends2 s \<Longrightarrow> forward_inv from1 ends1 from2 ends2 s'"
proof (induction rule: settle_step.induct)
  case (out_cancelled s)
  then have "forwarded (c_res (fw_in s)) (Some (Inl CancelledError)) = Some r" if "fw_result s = Some r" for r
    using that by (auto simp: forward_inv_def intro: forwarded_later)
  with out_cancelled show ?case
    by (simp add: forward_inv_def forward_out_def Let_def forward_inv_defs)
next
  case (in_cancelled s)
  then have "fw_result s = None" by (cases "fw_result s") (auto simp: forward_inv_def dest: forwarded_Some_in)
  with in_cancelled show ?case
    by (simp add: forward_inv_def forward_in_def Let_def forward_inv_defs)
next
  case (joined s r)
  then show ?case by (simp add: forward_inv_def)
qed

lemma forward_step_inv:
  "forward_step s s' \<Longrightarrow> forward_inv from1 ends1 from2 ends2 s \<Longrightarrow> forward_inv from1 ends1 from2 ends2 s'"
proof (induction rule: forward_step.induct)
  case (out_copies s c)
  then show ?case
    using io_copy_keeps [of "fw_out s" c from1 ends1] io_copy_frame [of "fw_out s" c]
    by (simp add: forward_inv_def out_calls_ok_def task_failed_def)
next
  case (in_copies s c)
  then show ?case
    using io_copy_keeps [of "fw_in s" c from2 ends2] io_copy_frame [of "fw_in s" c]
    by (simp add: forward_inv_def in_calls_ok_def task_failed_def)
next
  case (out_ends s res finished n)
  let ?c = "settled (fw_out s) (copy_to_stream (CopyEnded res) finished)"
  from out_ends have "copy_ok from1 ends1 ?c" "out_calls_ok from1 ?c"
    using copy_ends_out [of from1 ends1 "fw_out s" res finished n] by (simp_all add: forward_inv_def)
  moreover have "forwarded (c_res (fw_in s)) (c_res ?c) = Some r" if "fw_result s = Some r" for r
    using that out_ends by (auto simp: forward_inv_def intro: forwarded_later)
  moreover have "task_failed (fw_out s) = False" using out_ends by (simp add: task_failed_def)
  ultimately show ?case
    using out_ends by (auto simp: forward_inv_def forward_out_def Let_def task_failed_def cancel_token_def split: sum.splits)
next
  case (in_ends s res)
  let ?c = "settled (fw_in s) (copy_from_stream (CopyEnded res))"
  from in_ends have "copy_ok from2 ends2 ?c" "in_calls_ok ?c"
    using copy_ends_in [of from2 ends2 "fw_in s" res] by (simp_all add: forward_inv_def)
  moreover have "fw_result s = None"
    using in_ends by (cases "fw_result s") (auto simp: forward_inv_def dest: forwarded_Some_in)
  moreover have "task_failed (fw_in s) = False" using in_ends by (simp add: task_failed_def)
  ultimately show ?case
    using in_ends by (auto simp: forward_inv_def forward_in_def Let_def task_failed_def cancel_token_def split: sum.splits)
next
  case (settles s s')
  then show ?case by (blast intro: settle_step_inv)
qed (auto simp: forward_inv_def)

lemma forward_start_inv: "forward_inv from1 ends1 from2 ends2 (forward_bidi from1 ends1 from2 ends2)"
  by (simp add: forward_inv_def forward_bidi_def start_copy_def forward_inv_defs)

lemma forward_reachable_inv:
  "forward_step\<^sup>*\<^sup>* (forward_bidi from1 ends1 from2 ends2) s \<Longrightarrow> forward_inv from1 ends1 from2 ends2 s"
  by (induction rule: rtranclp_induct) (auto intro: forward_start_inv forward_step_inv)

lemma copy_ok_prefix: "copy_ok bytes ends c \<Longrightarrow> prefix (c_sunk c) bytes"
  by (auto simp: copy_ok_def)

lemma forwarded_Ok: "forwarded i w = Some (Inr ()) \<Longrightarrow> \<exists>n k. i = Some (Inr n) \<and> w = Some (Inr k)"
  by (cases "(i, w)" rule: forwarded.cases) auto

lemma finish_only_complete: "out_calls_ok bytes c \<Longrightarrow> copy_ok bytes ends c \<Longrightarrow> Finish \<in> set (c_calls c) \<Longrightarrow> c_sunk c = bytes"
  by (auto simp: out_calls_ok_def copy_ok_def split: option.splits sum.splits net_error.splits)

lemma forward_prefixes:
  assumes "forward_step\<^sup>*\<^sup>* (forward_bidi from1 ends1 from2 ends2) s"
  shows "prefix (c_sunk (fw_out s)) from1" "prefix (c_sunk (fw_in s)) from2"
    "Finish \<in> set (c_calls (fw_out s)) \<Longrightarrow> c_sunk (fw_out s) = from1"
  using forward_reachable_inv [OF assms] by (auto simp: forward_inv_def intro: copy_ok_prefix dest: finish_only_complete)

lemma forward_success:
  assumes "forward_step\<^sup>*\<^sup>* (forward_bidi from1 ends1 from2 ends2) s" "fw_result s = Some (Inr ())"
  shows "ends1 \<and> ends2 \<and> c_sunk (fw_out s) = from1 \<and> c_sunk (fw_in s) = from2 \<and>
    c_calls (fw_out s) = [Finish] \<and> c_calls (fw_in s) = []"
proof -
  from forward_reachable_inv [OF assms(1)] assms(2)
  have "forwarded (c_res (fw_in s)) (c_res (fw_out s)) = Some (Inr ())" by (simp add: forward_inv_def)
  then obtain n k where res: "c_res (fw_in s) = Some (Inr n)" "c_res (fw_out s) = Some (Inr k)" by (blast dest: forwarded_Ok)
  from forward_reachable_inv [OF assms(1)] have "copy_ok from1 ends1 (fw_out s)" "copy_ok from2 ends2 (fw_in s)"
      "out_calls_ok from1 (fw_out s)" "in_calls_ok (fw_in s)" by (simp_all add: forward_inv_def)
  with res show ?thesis by (simp add: copy_ok_def out_calls_ok_def in_calls_ok_def)
qed

text \<open>
  C11. However the tasks interleave, whatever fails and whenever ctrl-c comes: each side has
  been written a prefix of what the other side sent, in order and without a byte twice; the
  send stream is finished only once everything read was written to it; and when the forwarding
  reports success, both sides ended, both got everything, the stream was finished and neither
  stream was reset or stopped.
\<close>

theorem forwarding_delivers_prefixes:
  assumes "forward_step\<^sup>*\<^sup>* (forward_bidi from1 ends1 from2 ends2) s"
  shows "prefix (c_sunk (fw_out s)) from1 \<and> prefix (c_sunk (fw_in s)) from2 \<and>
    (Finish \<in> set (c_calls (fw_out s)) \<longrightarrow> c_sunk (fw_out s) = from1) \<and>
    (fw_result s = Some (Inr ()) \<longrightarrow>
       ends1 \<and> ends2 \<and> c_sunk (fw_out s) = from1 \<and> c_sunk (fw_in s) = from2 \<and>
       c_calls (fw_out s) = [Finish] \<and> c_calls (fw_in s) = [])"
  using forward_prefixes [OF assms] forward_success [OF assms] by blast

section \<open>The end of a forwarding\<close>

definition unsettled :: "forward \<Rightarrow> nat" where
  "unsettled s = of_bool (c_res (fw_out s) = None) + of_bool (c_res (fw_in s) = None) + of_bool (fw_result s = None)"

lemma settle_step_decreases: "settle_step s s' \<Longrightarrow> unsettled s' < unsettled s"
  by (induction rule: settle_step.induct) (auto simp: unsettled_def forward_out_def forward_in_def Let_def)

lemma settle_step_frame:
  "settle_step s s' \<Longrightarrow> c_sunk (fw_out s') = c_sunk (fw_out s) \<and> c_sunk (fw_in s') = c_sunk (fw_in s) \<and>
     (fw_cancelled s \<longrightarrow> fw_cancelled s')"
  by (induction rule: settle_step.induct) (auto simp: forward_out_def forward_in_def Let_def)

lemma forwarded_both: "i \<noteq> None \<Longrightarrow> w \<noteq> None \<Longrightarrow> forwarded i w \<noteq> None"
  by (cases "(i, w)" rule: forwarded.cases) auto

lemma cancelled_settles:
  assumes "fw_cancelled s" "unsettled s \<noteq> 0"
  shows "\<exists>s'. settle_step s s'"
proof (cases "c_res (fw_out s) = None \<or> c_res (fw_in s) = None")
  case True
  with assms(1) show ?thesis by (blast intro: out_cancelled in_cancelled)
next
  case False
  with assms(2) have "fw_result s = None" by (auto simp: unsettled_def)
  with False forwarded_both [of "c_res (fw_in s)" "c_res (fw_out s)"] show ?thesis by (blast intro: joined)
qed

lemma unsettled_zero: "unsettled s = 0 \<longleftrightarrow> c_res (fw_out s) \<noteq> None \<and> c_res (fw_in s) \<noteq> None \<and> fw_result s \<noteq> None"
  by (simp add: unsettled_def)

lemma settle_frames:
  "settle_step\<^sup>*\<^sup>* s s' \<Longrightarrow> fw_cancelled s \<Longrightarrow>
   fw_cancelled s' \<and> c_sunk (fw_out s') = c_sunk (fw_out s) \<and> c_sunk (fw_in s') = c_sunk (fw_in s)"
proof (induction rule: rtranclp_induct)
  case (step y z)
  then show ?case using settle_step_frame [OF step.hyps(2)] by auto
qed simp

lemma settle_run_short: "(settle_step ^^ n) s s' \<Longrightarrow> n + unsettled s' \<le> unsettled s"
proof (induction n arbitrary: s')
  case (Suc n)
  then obtain u where "(settle_step ^^ n) s u" "settle_step u s'" by (auto simp: relcompp_apply)
  with Suc.IH [of u] settle_step_decreases [of u s'] show ?case by simp
qed simp

text \<open>
  C29. Once the token is cancelled, by ctrl-c or by the failure of either direction, the
  forwarding ends on its own: of the steps that need no stream and no signal there is always
  another one until both tasks have ended and the result is there, and there are at most three,
  none of which writes.
\<close>

theorem cancelled_forwarding_ends:
  assumes "fw_cancelled s" "(settle_step ^^ n) s s'"
  shows "n \<le> 3 \<and> c_sunk (fw_out s') = c_sunk (fw_out s) \<and> c_sunk (fw_in s') = c_sunk (fw_in s) \<and>
    ((\<exists>s''. settle_step s' s'') \<or>
     fw_result s' \<noteq> None \<and> c_res (fw_out s') \<noteq> None \<and> c_res (fw_in s') \<noteq> None)"
proof -
  have "unsettled s \<le> 3" by (simp add: unsettled_def)
  with settle_run_short [OF assms(2)] have "n \<le> 3" by linarith
  moreover have "settle_step\<^sup>*\<^sup>* s s'" using assms(2) by (simp add: relpowp_imp_rtranclp)
  note settle_frames [OF this assms(1)]
  ultimately show ?thesis using cancelled_settles [of s'] unsettled_zero [of s'] by blast
qed

theorem cancelled_forwarding_ends_witness:
  "\<exists>s'. settle_step ((forward_bidi [1] True [2] True)\<lparr>fw_cancelled := True\<rparr>) s' \<and> c_sunk (fw_out s') = [] \<and> (\<exists>s''. settle_step s' s'')"
proof -
  let ?s = "(forward_bidi [1] True [2] True)\<lparr>fw_cancelled := True\<rparr>"
  let ?t = "forward_out ?s TokenCancelled (Inr ())"
  have step: "settle_step ?s ?t" by (rule out_cancelled) (simp_all add: forward_bidi_def start_copy_def)
  then have "(settle_step ^^ 1) ?s ?t" by (simp add: relcompp_apply OO_def)
  from cancelled_forwarding_ends [OF _ this] have
    "c_sunk (fw_out ?t) = []" "(\<exists>s''. settle_step ?t s'') \<or> fw_result ?t \<noteq> None"
    by (auto simp: forward_bidi_def start_copy_def)
  moreover have "fw_result ?t = None" by (simp add: forward_out_def Let_def forward_bidi_def)
  ultimately show ?thesis using step by blast
qed

section \<open>One direction ends\<close>

lemma io_copy_all:
  assumes "c_held c = []"
  shows "io_copy\<^sup>*\<^sup>* c (c\<lparr>c_source := [], c_sunk := c_sunk c @ c_source c\<rparr>)"
proof (cases "c_source c = []")
  case False
  let ?r = "c\<lparr>c_source := [], c_held := c_source c\<rparr>"
  have "io_copy c ?r" using reads [of c "c_source c" "[]"] False assms by simp
  moreover have "io_copy ?r (?r\<lparr>c_held := [], c_sunk := c_sunk ?r @ c_source c\<rparr>)"
    using writes [of ?r "c_source c" "[]"] False by simp
  moreover have "?r\<lparr>c_held := [], c_sunk := c_sunk ?r @ c_source c\<rparr> = c\<lparr>c_source := [], c_sunk := c_sunk c @ c_source c\<rparr>"
    using assms by simp
  ultimately show ?thesis by (metis converse_rtranclp_into_rtranclp r_into_rtranclp)
next
  case True
  then have "c\<lparr>c_source := [], c_sunk := c_sunk c @ c_source c\<rparr> = c" by simp
  then show ?thesis by simp
qed

lemma out_copies_run: "io_copy\<^sup>*\<^sup>* (fw_out s) c \<Longrightarrow> c_res (fw_out s) = None \<Longrightarrow> forward_step\<^sup>*\<^sup>* s (s\<lparr>fw_out := c\<rparr>) \<and> c_res c = None"
proof (induction rule: rtranclp_induct)
  case (step c d)
  then have "forward_step (s\<lparr>fw_out := c\<rparr>) (s\<lparr>fw_out := d\<rparr>)" using out_copies [of "s\<lparr>fw_out := c\<rparr>" d] by simp
  with step io_copy_frame [OF step.hyps(2)] show ?case by (auto intro: rtranclp.rtrancl_into_rtrancl)
qed simp

lemma in_copies_run: "io_copy\<^sup>*\<^sup>* (fw_in s) c \<Longrightarrow> c_res (fw_in s) = None \<Longrightarrow> forward_step\<^sup>*\<^sup>* s (s\<lparr>fw_in := c\<rparr>) \<and> c_res c = None"
proof (induction rule: rtranclp_induct)
  case (step c d)
  then have "forward_step (s\<lparr>fw_in := c\<rparr>) (s\<lparr>fw_in := d\<rparr>)" using in_copies [of "s\<lparr>fw_in := c\<rparr>" d] by simp
  with step io_copy_frame [OF step.hyps(2)] show ?case by (auto intro: rtranclp.rtrancl_into_rtrancl)
qed simp

text \<open>The states in which the outward direction has ended cleanly, and the inward one goes on from there.\<close>

definition out_closed :: "byte list \<Rightarrow> byte list \<Rightarrow> bool \<Rightarrow> forward" where
  "out_closed from1 from2 ends2 =
     (forward_bidi from1 True from2 ends2)\<lparr>fw_out :=
        \<lparr>c_source = [], c_ends = True, c_held = [], c_sunk = from1, c_calls = [Finish], c_res = Some (Inr (length from1))\<rparr>\<rparr>"

lemma out_closes: "forward_step\<^sup>*\<^sup>* (forward_bidi from1 True from2 ends2) (out_closed from1 from2 ends2)"
proof -
  let ?s = "forward_bidi from1 True from2 ends2"
  let ?c = "(fw_out ?s)\<lparr>c_source := [], c_sunk := from1\<rparr>"
  have "io_copy\<^sup>*\<^sup>* (fw_out ?s) ?c" using io_copy_all [of "fw_out ?s"] by (simp add: forward_bidi_def start_copy_def)
  then have "forward_step\<^sup>*\<^sup>* ?s (?s\<lparr>fw_out := ?c\<rparr>)"
    using out_copies_run [of ?s ?c] by (simp add: forward_bidi_def start_copy_def)
  moreover have "io_copy_ends ?c (Inr (length from1))" using copied [of ?c] by (simp add: forward_bidi_def start_copy_def)
  then have "forward_step (?s\<lparr>fw_out := ?c\<rparr>) (forward_out (?s\<lparr>fw_out := ?c\<rparr>) (CopyEnded (Inr (length from1))) (Inr ()))"
    using out_ends [of "?s\<lparr>fw_out := ?c\<rparr>" _ "Inr ()"] by (simp add: forward_bidi_def start_copy_def)
  ultimately show ?thesis
    by (simp add: forward_out_def Let_def settled_def forward_bidi_def start_copy_def out_closed_def
        rtranclp.rtrancl_into_rtrancl)
qed

lemma in_completes:
  "\<exists>s'. forward_step\<^sup>*\<^sup>* (out_closed from1 from2 True) s' \<and> c_sunk (fw_in s') = from2 \<and> fw_result s' = Some (Inr ())"
proof -
  let ?s = "out_closed from1 from2 True"
  let ?c = "(fw_in ?s)\<lparr>c_source := [], c_sunk := from2\<rparr>"
  let ?t = "?s\<lparr>fw_in := ?c\<rparr>"
  let ?u = "forward_in ?t (CopyEnded (Inr (length from2)))"
  note defs = out_closed_def forward_bidi_def start_copy_def
  have "io_copy\<^sup>*\<^sup>* (fw_in ?s) ?c" using io_copy_all [of "fw_in ?s"] by (simp add: defs)
  then have "forward_step\<^sup>*\<^sup>* ?s ?t" using in_copies_run [of ?s ?c] by (simp add: defs)
  moreover have "forward_step ?t ?u"
    using in_ends [of ?t "Inr (length from2)"] copied [of ?c] by (simp add: defs)
  moreover have "forward_step ?u (?u\<lparr>fw_result := Some (Inr ()), fw_ctrl_c := False\<rparr>)"
    using settles [OF joined [of ?u "Inr ()"]] by (simp add: defs forward_in_def Let_def)
  ultimately have "forward_step\<^sup>*\<^sup>* ?s (?u\<lparr>fw_result := Some (Inr ()), fw_ctrl_c := False\<rparr>)"
    by (meson rtranclp.rtrancl_into_rtrancl)
  moreover have "c_sunk (fw_in ?u) = from2" by (simp add: defs forward_in_def Let_def)
  ultimately show ?thesis by (intro exI conjI) (assumption, simp_all)
qed

text \<open>
  C33. The end of one direction does not abort the other, though the comment of
  \<open>forward_bidi\<close> says so: as long as no ctrl-c was taken, the token is cancelled
  only if a task failed. So after the local reader has ended and the stream was finished, the
  other direction is still running, uncancelled, with everything left to read and nothing of
  its own accord to do, and everything the peer sends can still be delivered and the forwarding
  succeed.
\<close>

theorem half_close_keeps_other_direction:
  "(\<forall>s. forward_step\<^sup>*\<^sup>* (forward_bidi from1 ends1 from2 ends2) s \<and> fw_ctrl_c s \<longrightarrow>
      fw_cancelled s = (task_failed (fw_out s) \<or> task_failed (fw_in s))) \<and>
   (\<exists>s. forward_step\<^sup>*\<^sup>* (forward_bidi from1 True from2 True) s \<and>
      c_res (fw_out s) = Some (Inr (length from1)) \<and> c_calls (fw_out s) = [Finish] \<and>
      \<not> fw_cancelled s \<and> c_res (fw_in s) = None \<and> c_source (fw_in s) = from2 \<and> \<not> (\<exists>s'. settle_step s s') \<and>
      (\<exists>s'. forward_step\<^sup>*\<^sup>* s s' \<and> c_sunk (fw_in s') = from2 \<and> fw_result s' = Some (Inr ())))"
proof (intro conjI allI impI)
  fix s
  assume "forward_step\<^sup>*\<^sup>* (forward_bidi from1 ends1 from2 ends2) s \<and> fw_ctrl_c s"
  with forward_reachable_inv [of from1 ends1 from2 ends2 s]
  show "fw_cancelled s = (task_failed (fw_out s) \<or> task_failed (fw_in s))" by (auto simp: forward_inv_def)
next
  have "\<not> settle_step (out_closed from1 from2 True) s'" for s'
    by (auto simp: out_closed_def forward_bidi_def start_copy_def elim!: settle_stepE)
  with out_closes [of from1 from2 True] in_completes [of from1 from2]
  show "\<exists>s. forward_step\<^sup>*\<^sup>* (forward_bidi from1 True from2 True) s \<and>
      c_res (fw_out s) = Some (Inr (length from1)) \<and> c_calls (fw_out s) = [Finish] \<and>
      \<not> fw_cancelled s \<and> c_res (fw_in s) = None \<and> c_source (fw_in s) = from2 \<and> \<not> (\<exists>s'. settle_step s s') \<and>
      (\<exists>s'. forward_step\<^sup>*\<^sup>* s s' \<and> c_sunk (fw_in s') = from2 \<and> fw_result s' = Some (Inr ()))"
    by (intro exI [of _ "out_closed from1 from2 True"]) (simp add: out_closed_def forward_bidi_def start_copy_def)
qed

theorem half_close_keeps_other_direction_witness:
  "\<not> fw_cancelled (forward_bidi [1] True [2] True) \<and>
   (\<exists>s. forward_step\<^sup>*\<^sup>* (forward_bidi [1] True [2] True) s \<and> c_res (fw_out s) = Some (Inr 1) \<and>
      (\<exists>s'. forward_step\<^sup>*\<^sup>* s s' \<and> c_sunk (fw_in s') = [2] \<and> fw_result s' = Some (Inr ())))"
proof -
  note t = half_close_keeps_other_direction [of "[1]" True "[2]" True]
  have "fw_ctrl_c (forward_bidi [1] True [2] True)" by (simp add: forward_bidi_def)
  with t have "fw_cancelled (forward_bidi [1] True [2] True) =
      (task_failed (fw_out (forward_bidi [1] True [2] True)) \<or> task_failed (fw_in (forward_bidi [1] True [2] True)))" by blast
  then have "\<not> fw_cancelled (forward_bidi [1] True [2] True)" by (simp add: task_failed_def forward_bidi_def start_copy_def)
  with t show ?thesis by (simp del: split_paired_Ex) blast
qed

theorem forwarding_delivers_prefixes_witness:
  "\<exists>s. forward_step\<^sup>*\<^sup>* (forward_bidi [1] True [2, 3] True) s \<and> fw_result s = Some (Inr ()) \<and>
     c_sunk (fw_out s) = [1] \<and> c_sunk (fw_in s) = [2, 3]"
proof -
  obtain s where s: "forward_step\<^sup>*\<^sup>* (out_closed [1] [2, 3] True) s" "fw_result s = Some (Inr ())"
    using in_completes [of "[1]" "[2, 3]"] by blast
  from out_closes [of "[1]" "[2, 3]" True] s(1) have r: "forward_step\<^sup>*\<^sup>* (forward_bidi [1] True [2, 3] True) s"
    by (rule rtranclp_trans)
  from forwarding_delivers_prefixes [OF r] r s(2) show ?thesis by blast
qed

end
