(* ===== verification/Iroh_Bins.thy ===== *)
theory Iroh_Bins
  imports Iroh_Forward
begin

text \<open>
  The four binaries of \<open>packages/iroh-ssh/src/bin\<close> that use the network: \<open>iroh-ssh-connect\<close>,
  \<open>iroh-ssh-listen\<close>, \<open>iroh-uds-connect\<close> and \<open>iroh-uds-listen\<close>.  Each is a process: the actions it
  takes, in order, and its value, which is missing while it waits.  What the library and the system
  answer are values of a world, and what a \<open>select!\<close> of an accept loop gives is a list of events,
  whose end is waiting.  Handlers that are spawned are separate processes.
  Of the messages only warnings, tickets and the greeting of a connection are actions; the other
  lines that go to the standard error have no bearing on what is done.
\<close>

section \<open>Processes\<close>

datatype 'addr action =
    BindEndpoint
  | Dial 'addr string
  | OpenStream
  | AcceptStream
  | SendBytes "byte list"
  | ReadExact nat
  | ConnectTarget "string list"
  | Forward
  | FlushStdout
  | AwaitClosed
  | BindSocket string
  | Notify string
  | Warn string
  | Say string
  | Spawn nat "string list"
  | CloseEndpoint

type_synonym ('addr, 'a) process = "'addr action list \<times> (iroh_error, 'a) result option"

definition proc_bind :: "('addr, 'a) process \<Rightarrow> ('a \<Rightarrow> ('addr, 'b) process) \<Rightarrow> ('addr, 'b) process" where
  "proc_bind m f =
     (case snd m of
        Some (Inr x) \<Rightarrow> (fst m @ fst (f x), snd (f x))
      | Some (Inl e) \<Rightarrow> (fst m, Some (Inl e))
      | None \<Rightarrow> (fst m, None))"

definition attempt :: "'addr action \<Rightarrow> (iroh_error, 'a) result \<Rightarrow> ('addr, 'a) process" where
  "attempt a r = ([a], Some r)"

definition check :: "(iroh_error, 'a) result \<Rightarrow> ('addr, 'a) process" where
  "check r = ([], Some r)"

definition acts :: "'addr action list \<Rightarrow> ('addr, unit) process" where
  "acts as = (as, Some (Inr ()))"

named_theorems process_simps \<open>how processes compose\<close>

lemma proc_bind_act [process_simps]:
  "a \<in> set (fst (proc_bind m f)) \<longleftrightarrow> a \<in> set (fst m) \<or> (\<exists>x. snd m = Some (Inr x) \<and> a \<in> set (fst (f x)))"
  by (auto simp: proc_bind_def split: option.splits sum.splits)

lemma proc_bind_value [process_simps]:
  "snd (proc_bind m f) = Some (Inr y) \<longleftrightarrow> (\<exists>x. snd m = Some (Inr x) \<and> snd (f x) = Some (Inr y))"
  by (auto simp: proc_bind_def split: option.splits sum.splits)

lemma proc_bind_error [process_simps]:
  "snd (proc_bind m f) = Some (Inl e) \<longleftrightarrow>
   snd m = Some (Inl e) \<or> (\<exists>x. snd m = Some (Inr x) \<and> snd (f x) = Some (Inl e))"
  by (auto simp: proc_bind_def split: option.splits sum.splits)

lemma process_leaf [process_simps]:
  "fst (attempt a r) = [a]" "snd (attempt a r) = Some r" "fst (check r) = []" "snd (check r) = Some r"
  "fst (acts as) = as" "snd (acts as) = Some (Inr ())"
  by (simp_all add: attempt_def check_def acts_def)

text \<open>\<open>read_exact\<close> on what a stream delivers: the first bytes, or an error when it ends before.\<close>

definition read_exact :: "nat \<Rightarrow> byte list \<Rightarrow> (net_error, byte list \<times> byte list) result" where
  "read_exact n bytes = (if n \<le> length bytes then Inr (take n bytes, drop n bytes) else Inl (NetError 0))"

text \<open>\<open>timeout(limit, future)\<close> for a future that is ready after some seconds or never.\<close>

definition timeout :: "nat \<Rightarrow> (nat \<times> 'a) option \<Rightarrow> 'a option" where
  "timeout limit answer = (case answer of Some (secs, x) \<Rightarrow> if secs \<le> limit then Some x else None | None \<Rightarrow> None)"

section \<open>iroh-ssh-connect\<close>

record ('addr, 'k) dial_world =
  dw_bind :: "'k builder_call list \<Rightarrow> (net_error, unit) result"
  dw_online :: "(nat \<times> unit) option"
  dw_dial :: "'addr \<Rightarrow> string \<Rightarrow> (nat \<times> (net_error, unit) result) option"
  dw_open_bi :: "(net_error, unit) result"
  dw_write :: "(net_error, unit) result"
  dw_forward :: "(net_error, unit) result option"
  dw_flush :: "(net_error, unit) result"

text \<open>The value of a call that may never return.\<close>

definition awaited :: "'addr action \<Rightarrow> (net_error, 'a) result option \<Rightarrow> ('addr, 'a) process" where
  "awaited a r = ([a], map_option (map_err StreamFailed) r)"

definition ssh_connect :: "('k, 'i, 'u, 'addr, 't) iroh \<Rightarrow> ('addr, 'k) dial_world \<Rightarrow> string list \<Rightarrow> ('addr, unit) process" where
  "ssh_connect ir w args =
     proc_bind (check (case nth_get args 0 of Some t \<Rightarrow> ok_or InvalidTicket (ticket_from_str ir t) | None \<Rightarrow> Inl Usage)) (\<lambda>t.
     proc_bind (attempt BindEndpoint (create_dialer_endpoint (dw_bind w))) (\<lambda>_.
     let addr = endpoint_addr ir t in
     proc_bind ([Dial addr ALPN], map_option (map_err DialFailed \<circ> snd) (dw_dial w addr ALPN)) (\<lambda>_.
     proc_bind (attempt OpenStream (map_err StreamFailed (dw_open_bi w))) (\<lambda>_.
     proc_bind (attempt (SendBytes HANDSHAKE) (map_err StreamFailed (dw_write w))) (\<lambda>_.
     proc_bind (awaited Forward (dw_forward w)) (\<lambda>_.
     proc_bind (attempt FlushStdout (map_err StreamFailed (dw_flush w))) (\<lambda>_.
     acts [CloseEndpoint])))))))"

lemma awaited_leaf [process_simps]:
  "fst (awaited a r) = [a]" "snd (awaited a r) = Some (Inr x) \<longleftrightarrow> r = Some (Inr x)"
  "snd (awaited a r) = Some (Inl e) \<longleftrightarrow> (\<exists>e'. r = Some (Inl e') \<and> e = StreamFailed e')"
  by (auto simp: awaited_def result_simps)

section \<open>iroh-ssh-listen\<close>

datatype listen_event = Incoming nat | IncomingRefused | EndpointGone | StopSignal

text \<open>The accept loop of both listeners: a handler per connection, and the ways out of it.\<close>

fun accept_loop :: "string list \<Rightarrow> listen_event list \<Rightarrow> ('addr, unit) process" where
  "accept_loop target [] = ([], None)"
| "accept_loop target (Incoming c # es) = proc_bind (acts [Spawn c target]) (\<lambda>_. accept_loop target es)"
| "accept_loop target (IncomingRefused # es) = acts []"
| "accept_loop target (EndpointGone # es) = acts []"
| "accept_loop target (StopSignal # es) = acts []"

record ('addr, 'k) listen_world =
  lw_resolve :: "string \<Rightarrow> (net_error, string list) result"
  lw_bind :: "'k builder_call list \<Rightarrow> (net_error, unit) result"
  lw_online :: "(nat \<times> unit) option"
  lw_addr :: 'addr
  lw_events :: "listen_event list"

definition warn_offline :: "(nat \<times> unit) option \<Rightarrow> ('addr, unit) process" where
  "warn_offline online =
     acts (case timeout ONLINE_TIMEOUT online of Some _ \<Rightarrow> [] | None \<Rightarrow> [Warn ''Failed to connect to the home relay''])"

definition ssh_listen ::
  "('k, 'i, 'u, 'addr, 't) iroh \<Rightarrow> proc_env \<Rightarrow> ('addr, 'k) listen_world \<Rightarrow> string list \<Rightarrow> ('addr, unit) process" where
  "ssh_listen ir env w args =
     (let host = (case nth_get args 0 of Some h \<Rightarrow> h | None \<Rightarrow> ''127.0.0.1:22'') in
     proc_bind (check (map_err (\<lambda>_. InvalidHost host) (lw_resolve w host))) (\<lambda>addrs.
     proc_bind (check (load_secret ir env None)) (\<lambda>secret_key.
     proc_bind (attempt BindEndpoint (create_listener_endpoint (lw_bind w) secret_key [ALPN])) (\<lambda>_.
     proc_bind (warn_offline (lw_online w)) (\<lambda>_.
     proc_bind (acts [Say (''iroh-ssh-connect '' @ ticket_str ir (ticket_new ir (lw_addr w))),
                      Say (''iroh-ssh-connect '' @ ticket_str ir (short_ticket ir (lw_addr w)))]) (\<lambda>_.
     accept_loop addrs (lw_events w)))))))"

record serve_world =
  sv_accepting :: "(net_error, unit) result"
  sv_accept_bi :: "(net_error, unit) result"
  sv_received :: "byte list"
  sv_target :: "(net_error, unit) result"
  sv_forward :: "byte list \<Rightarrow> (net_error, unit) result option"

definition read_handshake :: "byte list \<Rightarrow> ('addr, byte list) process" where
  "read_handshake received =
     proc_bind (attempt (ReadExact (length HANDSHAKE)) (map_err StreamFailed (read_exact (length HANDSHAKE) received))) (\<lambda>(buf, rest).
     check (if buf = HANDSHAKE then Inr rest else Inl InvalidHandshake))"

definition ssh_handle_accept :: "serve_world \<Rightarrow> string list \<Rightarrow> ('addr, unit) process" where
  "ssh_handle_accept w addrs =
     proc_bind (check (map_err StreamFailed (sv_accepting w))) (\<lambda>_.
     proc_bind (attempt AcceptStream (map_err StreamFailed (sv_accept_bi w))) (\<lambda>_.
     proc_bind (read_handshake (sv_received w)) (\<lambda>rest.
     proc_bind (attempt (ConnectTarget addrs) (map_err TargetUnreachable (sv_target w))) (\<lambda>_.
     proc_bind (awaited Forward (sv_forward w rest)) (\<lambda>_.
     acts [AwaitClosed])))))"

section \<open>iroh-uds-listen\<close>

definition uds_listen ::
  "('k, 'i, 'u, 'addr, 't) iroh \<Rightarrow> proc_env \<Rightarrow> ('addr, 'k) listen_world \<Rightarrow> string list \<Rightarrow> ('addr, unit) process" where
  "uds_listen ir env w args =
     proc_bind (check (ok_or Usage (nth_get args 0))) (\<lambda>socket_path.
     proc_bind (check (load_secret ir env None)) (\<lambda>secret_key.
     proc_bind (attempt BindEndpoint (create_listener_endpoint (lw_bind w) secret_key [ALPN])) (\<lambda>_.
     proc_bind (warn_offline (lw_online w)) (\<lambda>_.
     proc_bind (acts [Say (''iroh-uds-connect <local-socket> '' @ ticket_str ir (ticket_new ir (lw_addr w))),
                      Say (''iroh-uds-connect <local-socket> '' @ ticket_str ir (short_ticket ir (lw_addr w)))]) (\<lambda>_.
     proc_bind (accept_loop [socket_path] (lw_events w)) (\<lambda>_.
     acts [CloseEndpoint]))))))"

datatype stream_event = NewStream nat | ConnectionEnded close_reason

fun serve_streams :: "string \<Rightarrow> stream_event list \<Rightarrow> ('addr, unit) process" where
  "serve_streams socket_path [] = ([], None)"
| "serve_streams socket_path (NewStream n # es) =
     proc_bind (acts [AcceptStream, Spawn n [socket_path]]) (\<lambda>_. serve_streams socket_path es)"
| "serve_streams socket_path (ConnectionEnded reason # es) =
     check (if closed_normally reason then Inr () else Inl (ConnectionLost reason))"

definition handle_connection :: "(net_error, unit) result \<Rightarrow> string \<Rightarrow> stream_event list \<Rightarrow> ('addr, unit) process" where
  "handle_connection accepting socket_path events =
     proc_bind (check (map_err StreamFailed accepting)) (\<lambda>_.
     proc_bind (acts [Say ''Accepted connection'']) (\<lambda>_.
     serve_streams socket_path events))"

definition handle_stream :: "serve_world \<Rightarrow> string \<Rightarrow> ('addr, unit) process" where
  "handle_stream w socket_path =
     proc_bind (read_handshake (sv_received w)) (\<lambda>rest.
     proc_bind (attempt (ConnectTarget [socket_path]) (map_err TargetUnreachable (sv_target w))) (\<lambda>_.
     awaited Forward (sv_forward w rest)))"

text \<open>What a spawned handler of a stream prints: its failure, unless its connection ended normally.\<close>

definition report_stream :: "close_reason option \<Rightarrow> (iroh_error, unit) result \<Rightarrow> iroh_error option" where
  "report_stream reason res =
     (case res of
        Inr _ \<Rightarrow> None
      | Inl cause \<Rightarrow> if (case reason of Some r \<Rightarrow> closed_normally r | None \<Rightarrow> False) then None else Some cause)"

section \<open>iroh-uds-connect\<close>

definition DIAL_TIMEOUT :: nat where
  "DIAL_TIMEOUT = 30"

text \<open>
  Paths of the file system: a socket somebody listens on, a socket nobody does, or anything else,
  each with its mode.  \<open>bind(2)\<close> refuses a path that exists whatever it is, \<open>connect(2)\<close> succeeds on a
  socket that is listened on unless it fails for a reason of its own, and each call may fail.
\<close>

datatype path_node = Listening nat | Leftover | NotASocket

record host_fs =
  hf_node :: "string \<Rightarrow> path_node option"
  hf_mode :: "string \<Rightarrow> nat option"

record fs_faults =
  ff_bind :: "nat \<Rightarrow> bool"
  ff_connect :: bool
  ff_remove :: bool
  ff_chmod :: bool
  ff_umask_mode :: nat

definition unix_bind :: "nat \<Rightarrow> bool \<Rightarrow> nat \<Rightarrow> string \<Rightarrow> host_fs \<Rightarrow> host_fs \<times> (net_error, unit) result" where
  "unix_bind me fault mode path fs =
     (if fault then (fs, Inl (NetError 0))
      else if hf_node fs path \<noteq> None then (fs, Inl AddrInUse)
      else (fs\<lparr>hf_node := (hf_node fs)(path \<mapsto> Listening me), hf_mode := (hf_mode fs)(path \<mapsto> mode)\<rparr>, Inr ()))"

definition unix_connects :: "bool \<Rightarrow> string \<Rightarrow> host_fs \<Rightarrow> bool" where
  "unix_connects fault path fs = (\<not> fault \<and> (case hf_node fs path of Some (Listening _) \<Rightarrow> True | _ \<Rightarrow> False))"

definition finish_bind :: "fs_faults \<Rightarrow> string \<Rightarrow> host_fs \<times> (net_error, unit) result \<Rightarrow> host_fs \<times> (iroh_error, unit) result" where
  "finish_bind fl path bound =
     (case bound of
        (fs, Inl _) \<Rightarrow> (fs, Inl (BindFailed path))
      | (fs, Inr _) \<Rightarrow>
          if ff_chmod fl then (fs, Inl (ModeNotSet path))
          else (fs\<lparr>hf_mode := (hf_mode fs)(path \<mapsto> 0x1B0)\<rparr>, Inr ()))"

definition bind_local :: "nat \<Rightarrow> fs_faults \<Rightarrow> string \<Rightarrow> host_fs \<Rightarrow> host_fs \<times> (iroh_error, unit) result" where
  "bind_local me fl path fs =
     (case unix_bind me (ff_bind fl 0) (ff_umask_mode fl) path fs of
        (fs1, Inl AddrInUse) \<Rightarrow>
          if unix_connects (ff_connect fl) path fs1 then (fs1, Inl (AlreadyServed path))
          else if ff_remove fl then (fs1, Inl (StaleNotCleared path))
          else finish_bind fl path
                 (unix_bind me (ff_bind fl 1) (ff_umask_mode fl) path
                    (fs1\<lparr>hf_node := (hf_node fs1)(path := None), hf_mode := (hf_mode fs1)(path := None)\<rparr>))
      | bound \<Rightarrow> finish_bind fl path bound)"

datatype local_event = LocalAccepted nat | LocalError net_error | TunnelClosed close_reason | ShutdownSignal

fun local_loop :: "local_event list \<Rightarrow> ('addr, unit) process" where
  "local_loop [] = ([], None)"
| "local_loop (LocalAccepted n # es) = proc_bind (acts [Spawn n []]) (\<lambda>_. local_loop es)"
| "local_loop (LocalError e # es) = check (Inl (LocalAcceptFailed e))"
| "local_loop (TunnelClosed reason # es) = check (Inl (ConnectionClosed reason))"
| "local_loop (ShutdownSignal # es) = acts [CloseEndpoint]"

record ('addr, 'k) tunnel_world = "('addr, 'k) dial_world" +
  tw_me :: nat
  tw_faults :: fs_faults
  tw_fs :: host_fs
  tw_notify :: "sock_addr \<Rightarrow> string \<Rightarrow> (net_error, unit) result"
  tw_events :: "local_event list"

definition ready_state :: string where
  "ready_state = ''READY=1'' @ newline @ ''RESTART_RESET=1''"

definition uds_connect ::
  "('k, 'i, 'u, 'addr, 't) iroh \<Rightarrow> proc_env \<Rightarrow> ('addr, 'k) tunnel_world \<Rightarrow> string list \<Rightarrow> ('addr, unit) process" where
  "uds_connect ir env w args =
     proc_bind (check (ok_or Usage (nth_get args 0))) (\<lambda>socket_path.
     proc_bind (check (load_ticket ir env (nth_get args 1))) (\<lambda>t.
     let addr = endpoint_addr ir t in
     proc_bind (attempt BindEndpoint (create_dialer_endpoint (dw_bind w))) (\<lambda>_.
     proc_bind (warn_offline (dw_online w)) (\<lambda>_.
     proc_bind
       (attempt (Dial addr ALPN)
         (case timeout DIAL_TIMEOUT (dw_dial w addr ALPN) of
            Some r \<Rightarrow> map_err DialFailed r
          | None \<Rightarrow> Inl (DialTimedOut DIAL_TIMEOUT))) (\<lambda>_.
     proc_bind (attempt (BindSocket socket_path) (snd (bind_local (tw_me w) (tw_faults w) socket_path (tw_fs w)))) (\<lambda>_.
     proc_bind
       (acts (Notify ready_state #
         (case notify env (tw_notify w) ready_state of
            Inr _ \<Rightarrow> []
          | Inl _ \<Rightarrow> [Warn ''failed to notify the service manager'']))) (\<lambda>_.
     local_loop (tw_events w))))))))"

definition uds_handle_accept :: "('addr, 'k) dial_world \<Rightarrow> ('addr, unit) process" where
  "uds_handle_accept w =
     proc_bind (attempt OpenStream (map_err StreamFailed (dw_open_bi w))) (\<lambda>_.
     proc_bind (attempt (SendBytes HANDSHAKE) (map_err StreamFailed (dw_write w))) (\<lambda>_.
     awaited Forward (dw_forward w)))"

text \<open>What \<open>run\<close> exits with, once the process has a value.\<close>

definition exit_with :: "('addr, unit) process \<Rightarrow> exit_code option" where
  "exit_with p = map_option run_exit (snd p)"

section \<open>The handshake\<close>

lemma length_HANDSHAKE [simp]: "length HANDSHAKE = 5"
  by (simp add: HANDSHAKE_def)

lemma prefix_HANDSHAKE: "prefix HANDSHAKE r \<longleftrightarrow> 5 \<le> length r \<and> take 5 r = HANDSHAKE"
  by (metis append_eq_conv_conj append_take_drop_id length_HANDSHAKE length_append le_add1 prefix_def)

lemma read_exact_Inr [process_simps]:
  "read_exact n bytes = Inr (buf, rest) \<longleftrightarrow> n = length buf \<and> bytes = buf @ rest"
  by (auto simp: read_exact_def min_def)

lemma read_handshake_leaf [process_simps]:
  "a \<in> set (fst (read_handshake r)) \<longleftrightarrow> a = ReadExact 5"
  "snd (read_handshake r) = Some (Inr rest) \<longleftrightarrow> r = HANDSHAKE @ rest"
  by (auto simp: read_handshake_def process_simps result_simps split: prod.splits if_splits)

lemma read_handshake_refuses [process_simps]:
  "snd (read_handshake r) = Some (Inl InvalidHandshake) \<longleftrightarrow> 5 \<le> length r \<and> \<not> prefix HANDSHAKE r"
  by (auto simp: read_handshake_def process_simps result_simps read_exact_def prefix_HANDSHAKE split: prod.splits if_splits)

text \<open>
  C14. A target is contacted only behind the handshake: a stream of
  \<open>iroh-uds-listen\<close> connects to the socket it fronts, and a connection of
  \<open>iroh-ssh-listen\<close> to the resolved addresses, exactly when the first five bytes
  received are the handshake, and never to anything else; a stream with five other bytes is
  refused as such, and what is forwarded is what follows the handshake.
\<close>

theorem target_only_after_handshake:
  "(ConnectTarget t \<in> set (fst (handle_stream w path)) \<longleftrightarrow> t = [path] \<and> prefix HANDSHAKE (sv_received w)) \<and>
   (ConnectTarget t \<in> set (fst (ssh_handle_accept w addrs)) \<longleftrightarrow>
      t = addrs \<and> sv_accepting w = Inr () \<and> sv_accept_bi w = Inr () \<and> prefix HANDSHAKE (sv_received w)) \<and>
   (snd (handle_stream w path) = Some (Inl InvalidHandshake) \<longleftrightarrow>
      5 \<le> length (sv_received w) \<and> \<not> prefix HANDSHAKE (sv_received w)) \<and>
   (snd (handle_stream w path) = Some (Inr ()) \<longleftrightarrow>
      (\<exists>rest. sv_received w = HANDSHAKE @ rest \<and> sv_target w = Inr () \<and> sv_forward w rest = Some (Inr ())))"
  by (auto simp: handle_stream_def ssh_handle_accept_def process_simps result_simps prefix_def)

section \<open>The accept loops\<close>

lemma accept_loop_spawns:
  "accept_loop target (map Incoming cs @ es) =
     (map (\<lambda>c. Spawn c target) cs @ fst (accept_loop target es :: ('addr, unit) process), snd (accept_loop target es :: ('addr, unit) process))"
  by (induction cs) (simp_all add: proc_bind_def acts_def)

lemma accept_loop_never_fails: "snd (accept_loop target es) \<noteq> Some (Inl e)"
  by (induction target es rule: accept_loop.induct) (simp_all add: process_simps)

lemma serve_streams_outcome:
  "snd (serve_streams path (map NewStream ns @ ConnectionEnded reason # es)) =
     Some (if closed_normally reason then Inr () else Inl (ConnectionLost reason))"
  by (induction ns) (simp_all add: proc_bind_def acts_def check_def)

section \<open>The local socket\<close>

lemmas bind_defs = bind_local_def unix_bind_def finish_bind_def unix_connects_def

lemma bind_local_elsewhere:
  "p \<noteq> path \<Longrightarrow> hf_node (fst (bind_local me fl path fs)) p = hf_node fs p \<and> hf_mode (fst (bind_local me fl path fs)) p = hf_mode fs p"
  by (simp add: bind_defs)

lemma bind_local_ok:
  "snd (bind_local me fl path fs) = Inr () \<longleftrightarrow>
     \<not> ff_bind fl 0 \<and> \<not> ff_chmod fl \<and>
     (hf_node fs path \<noteq> None \<longrightarrow> \<not> unix_connects (ff_connect fl) path fs \<and> \<not> ff_remove fl \<and> \<not> ff_bind fl 1)"
  by (simp add: bind_defs)

lemma bind_local_bound:
  "snd (bind_local me fl path fs) = Inr () \<Longrightarrow>
   hf_node (fst (bind_local me fl path fs)) path = Some (Listening me) \<and> hf_mode (fst (bind_local me fl path fs)) path = Some 0x1B0"
  by (auto simp: bind_defs split: if_splits)

lemma bind_local_served:
  "unix_connects (ff_connect fl) path fs \<Longrightarrow>
   bind_local me fl path fs = (fs, Inl (if ff_bind fl 0 then BindFailed path else AlreadyServed path))"
  by (auto simp: bind_defs split: option.splits)

text \<open>
  C31. \<open>iroh-uds-connect\<close> never takes the socket of a running instance: when a
  connect to the path succeeds, the file system is left as it was and the process fails. It
  binds exactly when no call that it makes fails and the path is free or a connect to it fails,
  and then the path is its own socket with mode 0660; no other path is touched. Since any
  failed connect counts as stale, a path that is no socket at all is removed and replaced, too.
\<close>

theorem local_socket_is_never_stolen:
  "(unix_connects (ff_connect fl) path fs \<longrightarrow> fst (bind_local me fl path fs) = fs \<and> snd (bind_local me fl path fs) \<noteq> Inr ()) \<and>
   (snd (bind_local me fl path fs) = Inr () \<longleftrightarrow>
      \<not> ff_bind fl 0 \<and> \<not> ff_chmod fl \<and>
      (hf_node fs path = None \<or> \<not> unix_connects (ff_connect fl) path fs \<and> \<not> ff_remove fl \<and> \<not> ff_bind fl 1)) \<and>
   (snd (bind_local me fl path fs) = Inr () \<longrightarrow>
      hf_node (fst (bind_local me fl path fs)) path = Some (Listening me) \<and>
      hf_mode (fst (bind_local me fl path fs)) path = Some 0x1B0) \<and>
   (\<forall>p. p \<noteq> path \<longrightarrow> hf_node (fst (bind_local me fl path fs)) p = hf_node fs p) \<and>
   (hf_node fs path = Some NotASocket \<and> \<not> ff_bind fl 0 \<and> \<not> ff_remove fl \<and> \<not> ff_bind fl 1 \<and> \<not> ff_chmod fl \<longrightarrow>
      hf_node (fst (bind_local me fl path fs)) path = Some (Listening me))"
proof -
  have "snd (bind_local me fl path fs) = Inr ()"
    if "hf_node fs path = Some NotASocket" "\<not> ff_bind fl 0" "\<not> ff_remove fl" "\<not> ff_bind fl 1" "\<not> ff_chmod fl"
    using that by (simp add: bind_local_ok unix_connects_def)
  then show ?thesis
    using bind_local_served [of fl path fs me] bind_local_bound [of me fl path fs] bind_local_elsewhere [of _ path me fl fs]
      bind_local_ok [of me fl path fs] by auto
qed

definition quiet_faults :: fs_faults where
  "quiet_faults = \<lparr>ff_bind = (\<lambda>_. False), ff_connect = False, ff_remove = False, ff_chmod = False, ff_umask_mode = 0x1ED\<rparr>"

theorem local_socket_is_never_stolen_witness:
  "bind_local 2 quiet_faults ''/s'' \<lparr>hf_node = [''/s'' \<mapsto> Listening 1], hf_mode = [''/s'' \<mapsto> 0x1B0]\<rparr> =
     (\<lparr>hf_node = [''/s'' \<mapsto> Listening 1], hf_mode = [''/s'' \<mapsto> 0x1B0]\<rparr>, Inl (AlreadyServed ''/s'')) \<and>
   hf_node (fst (bind_local 2 quiet_faults ''/s'' \<lparr>hf_node = [''/s'' \<mapsto> NotASocket], hf_mode = [''/s'' \<mapsto> 0x1A4]\<rparr>)) ''/s'' = Some (Listening 2)"
proof -
  let ?live = "\<lparr>hf_node = [''/s'' \<mapsto> Listening 1], hf_mode = [''/s'' \<mapsto> 0x1B0]\<rparr>"
  have "unix_connects (ff_connect quiet_faults) ''/s'' ?live" by (simp add: unix_connects_def quiet_faults_def)
  then have "fst (bind_local 2 quiet_faults ''/s'' ?live) = ?live"
    using local_socket_is_never_stolen [of quiet_faults "''/s''" ?live 2] by simp
  moreover have "snd (bind_local 2 quiet_faults ''/s'' ?live) = Inl (AlreadyServed ''/s'')"
    by (simp add: bind_defs quiet_faults_def)
  ultimately show ?thesis
    using local_socket_is_never_stolen [of quiet_faults "''/s''" "\<lparr>hf_node = [''/s'' \<mapsto> NotASocket], hf_mode = [''/s'' \<mapsto> 0x1A4]\<rparr>" 2]
    by (simp add: prod_eq_iff quiet_faults_def)
qed

section \<open>A tunnel\<close>

lemma local_loop_act:
  "a \<in> set (fst (local_loop es)) \<Longrightarrow> (\<exists>n. a = Spawn n []) \<or> a = CloseEndpoint"
  by (induction es rule: local_loop.induct) (auto simp: process_simps)

lemma stopped_later:
  "(\<exists>ns rest. LocalAccepted n # es = map LocalAccepted ns @ ShutdownSignal # rest) \<longleftrightarrow>
   (\<exists>ns rest. es = map LocalAccepted ns @ ShutdownSignal # rest)"
proof
  assume "\<exists>ns rest. es = map LocalAccepted ns @ ShutdownSignal # rest"
  then obtain ns rest where "es = map LocalAccepted ns @ ShutdownSignal # rest" by blast
  then have "LocalAccepted n # es = map LocalAccepted (n # ns) @ ShutdownSignal # rest" by simp
  then show "\<exists>ns rest. LocalAccepted n # es = map LocalAccepted ns @ ShutdownSignal # rest" by blast
qed (auto simp: Cons_eq_append_conv Cons_eq_map_conv)

lemma local_loop_ok:
  "snd (local_loop es) = Some (Inr ()) \<longleftrightarrow> (\<exists>ns rest. es = map LocalAccepted ns @ ShutdownSignal # rest)"
  by (induction es rule: local_loop.induct)
    (simp_all add: process_simps stopped_later, auto simp: Cons_eq_append_conv Cons_eq_map_conv)

lemma run_exit_Success: "run_exit r = Success \<longleftrightarrow> r = Inr ()"
  by (cases r) (simp_all add: run_exit_def)

lemma exit_with_Success: "exit_with p = Some Success \<longleftrightarrow> snd p = Some (Inr ())"
  by (auto simp: exit_with_def run_exit_Success)

lemma timeout_Some: "timeout limit answer = Some x \<longleftrightarrow> (\<exists>secs. answer = Some (secs, x) \<and> secs \<le> limit)"
  by (auto simp: timeout_def split: option.splits)

lemma warn_offline_leaf [process_simps]:
  "snd (warn_offline online) = Some (Inr ())"
  "a \<in> set (fst (warn_offline online)) \<longleftrightarrow> timeout ONLINE_TIMEOUT online = None \<and> a = Warn ''Failed to connect to the home relay''"
  by (auto simp: warn_offline_def process_simps split: option.splits)

text \<open>The connection is up and the socket bound: what the unit being active promises.\<close>

definition tunnel_up :: "('k, 'i, 'u, 'addr, 't) iroh \<Rightarrow> proc_env \<Rightarrow> ('addr, 'k) tunnel_world \<Rightarrow> string list \<Rightarrow> bool" where
  "tunnel_up ir env w args \<longleftrightarrow>
     (\<exists>path t secs. nth_get args 0 = Some path \<and> load_ticket ir env (nth_get args 1) = Inr t \<and>
        dw_dial w (endpoint_addr ir t) ALPN = Some (secs, Inr ()) \<and> secs \<le> DIAL_TIMEOUT \<and>
        create_dialer_endpoint (dw_bind w) = Inr () \<and>
        snd (bind_local (tw_me w) (tw_faults w) path (tw_fs w)) = Inr ())"

lemma dial_ok:
  "(case timeout DIAL_TIMEOUT answer of Some r \<Rightarrow> map_err DialFailed r | None \<Rightarrow> Inl (DialTimedOut DIAL_TIMEOUT)) = Inr () \<longleftrightarrow>
   (\<exists>secs. answer = Some (secs, Inr ()) \<and> secs \<le> DIAL_TIMEOUT)"
  by (auto simp: timeout_Some [symmetric] result_simps split: option.splits)

lemma notify_acts:
  "Notify m \<in> set (Notify m # (case r of Inr _ \<Rightarrow> [] | Inl _ \<Rightarrow> [Warn v]))"
  by simp

lemma local_loop_silent: "Notify m \<notin> set (fst (local_loop es))"
  using local_loop_act [of "Notify m" es] by auto

lemma uds_connect_notifies: "Notify ready_state \<in> set (fst (uds_connect ir env w args)) \<longleftrightarrow> tunnel_up ir env w args"
  unfolding uds_connect_def Let_def tunnel_up_def
  by (simp add: process_simps result_simps dial_ok local_loop_silent notify_acts) blast

lemma uds_connect_ok:
  "snd (uds_connect ir env w args) = Some (Inr ()) \<longleftrightarrow> tunnel_up ir env w args \<and> snd (local_loop (tw_events w) :: ('a, unit) process) = Some (Inr ())"
  for ir :: "('k, 'i, 'u, 'a, 't) iroh"
  unfolding uds_connect_def Let_def tunnel_up_def
  by (simp add: process_simps result_simps dial_ok) blast

text \<open>What the loop does with the local connections before the event that ends it, and with that event.\<close>

lemma local_loop_accepted:
  "local_loop (map LocalAccepted ns @ es) =
     (map (\<lambda>n. Spawn n []) ns @ fst (local_loop es :: ('addr, unit) process), snd (local_loop es :: ('addr, unit) process))"
  by (induction ns) (simp_all add: proc_bind_def acts_def)

lemma local_loop_waits: "local_loop (map LocalAccepted ns) = (map (\<lambda>n. Spawn n []) ns, None)"
  using local_loop_accepted [of ns "[]"] by simp

lemma uds_connect_up:
  fixes ir :: "('k, 'i, 'u, 'a, 't) iroh"
  assumes "tunnel_up ir env w args"
  shows "\<exists>start. CloseEndpoint \<notin> set start \<and> Notify ready_state \<in> set start \<and>
    uds_connect ir env w args = (start @ fst (local_loop (tw_events w)), snd (local_loop (tw_events w) :: ('a, unit) process))"
proof -
  from assms obtain path t secs where up: "nth_get args 0 = Some path" "load_ticket ir env (nth_get args 1) = Inr t"
    "dw_dial w (endpoint_addr ir t) ALPN = Some (secs, Inr ())" "secs \<le> DIAL_TIMEOUT"
    "create_dialer_endpoint (dw_bind w) = Inr ()" "snd (bind_local (tw_me w) (tw_faults w) path (tw_fs w)) = Inr ()"
    by (auto simp: tunnel_up_def)
  let ?warn = "case timeout ONLINE_TIMEOUT (dw_online w) of Some _ \<Rightarrow> [] | None \<Rightarrow> [Warn ''Failed to connect to the home relay'']"
  let ?told = "case notify env (tw_notify w) ready_state of Inr _ \<Rightarrow> [] | Inl _ \<Rightarrow> [Warn ''failed to notify the service manager'']"
  have "timeout DIAL_TIMEOUT (dw_dial w (endpoint_addr ir t) ALPN) = Some (Inr ())" using up(3,4) by (simp add: timeout_def)
  then have "uds_connect ir env w args =
    ((BindEndpoint # ?warn @ Dial (endpoint_addr ir t) ALPN # BindSocket path # Notify ready_state # ?told) @ fst (local_loop (tw_events w)),
     snd (local_loop (tw_events w) :: ('a, unit) process))"
    using up by (simp add: uds_connect_def proc_bind_def attempt_def check_def acts_def warn_offline_def map_err_def)
  moreover have "CloseEndpoint \<notin> set (BindEndpoint # ?warn @ Dial (endpoint_addr ir t) ALPN # BindSocket path # Notify ready_state # ?told)"
    by (auto split: option.splits sum.splits)
  ultimately show ?thesis by force
qed

lemma uds_connect_down:
  assumes "\<not> tunnel_up ir env w args"
  shows "\<exists>e. snd (uds_connect ir env w args) = Some (Inl e)"
proof -
  have "snd (uds_connect ir env w args) \<noteq> None"
    if "Notify ready_state \<notin> set (fst (uds_connect ir env w args))"
    using that unfolding uds_connect_def Let_def
    by (auto simp: proc_bind_def attempt_def check_def acts_def warn_offline_def split: option.splits sum.splits)
  with assms obtain v where v: "snd (uds_connect ir env w args) = Some v" by (auto simp: uds_connect_notifies)
  moreover have "snd (uds_connect ir env w args) \<noteq> Some (Inr ())" using assms by (simp add: uds_connect_ok)
  ultimately show ?thesis by (cases v) simp_all
qed

text \<open>
  C30. \<open>iroh-uds-connect\<close> tells the service manager that it is ready exactly when
  the dial was answered within 30 seconds and the local socket is bound; otherwise it exits in
  failure. Once it is ready it spawns a handler for each local connection, in order, and waits
  for the next event. A stop signal closes the endpoint and exits with success. A lost
  connection, whatever the reason, and a local socket that fails to accept end it in failure at
  once, with that error, so that the service manager dials afresh; the endpoint is then not
  closed by a call of its own. It exits with success in no other way.
\<close>

theorem tunnel_ready_and_exit:
  fixes ir :: "('k, 'i, 'u, 'a, 't) iroh"
  shows "(Notify ready_state \<in> set (fst (uds_connect ir env w args)) \<longleftrightarrow> tunnel_up ir env w args) \<and>
   (\<not> tunnel_up ir env w args \<longrightarrow> exit_with (uds_connect ir env w args) = Some Failure) \<and>
   (exit_with (uds_connect ir env w args) = Some Success \<longleftrightarrow>
      tunnel_up ir env w args \<and> (\<exists>ns rest. tw_events w = map LocalAccepted ns @ ShutdownSignal # rest)) \<and>
   (tunnel_up ir env w args \<longrightarrow>
      (\<exists>start. CloseEndpoint \<notin> set start \<and> Notify ready_state \<in> set start \<and>
        (\<forall>ns. tw_events w = map LocalAccepted ns \<longrightarrow>
           uds_connect ir env w args = (start @ map (\<lambda>n. Spawn n []) ns, None)) \<and>
        (\<forall>ns rest. tw_events w = map LocalAccepted ns @ ShutdownSignal # rest \<longrightarrow>
           uds_connect ir env w args = (start @ map (\<lambda>n. Spawn n []) ns @ [CloseEndpoint], Some (Inr ()))) \<and>
        (\<forall>ns reason rest. tw_events w = map LocalAccepted ns @ TunnelClosed reason # rest \<longrightarrow>
           uds_connect ir env w args = (start @ map (\<lambda>n. Spawn n []) ns, Some (Inl (ConnectionClosed reason))) \<and>
           exit_with (uds_connect ir env w args) = Some Failure) \<and>
        (\<forall>ns e rest. tw_events w = map LocalAccepted ns @ LocalError e # rest \<longrightarrow>
           uds_connect ir env w args = (start @ map (\<lambda>n. Spawn n []) ns, Some (Inl (LocalAcceptFailed e))) \<and>
           exit_with (uds_connect ir env w args) = Some Failure)))"
  (is "_ \<and> _ \<and> (exit_with ?run = _ \<longleftrightarrow> _) \<and> _")
proof (intro conjI impI)
  assume "\<not> tunnel_up ir env w args"
  with uds_connect_down show "exit_with (uds_connect ir env w args) = Some Failure"
    by (fastforce simp: exit_with_def run_exit_def)
next
  assume "tunnel_up ir env w args"
  from uds_connect_up [OF this] obtain start where start: "CloseEndpoint \<notin> set start" "Notify ready_state \<in> set start"
    and run: "uds_connect ir env w args = (start @ fst (local_loop (tw_events w)), snd (local_loop (tw_events w) :: ('a, unit) process))"
    by blast
  show "\<exists>start. CloseEndpoint \<notin> set start \<and> Notify ready_state \<in> set start \<and>
        (\<forall>ns. tw_events w = map LocalAccepted ns \<longrightarrow> ?run = (start @ map (\<lambda>n. Spawn n []) ns, None)) \<and>
        (\<forall>ns rest. tw_events w = map LocalAccepted ns @ ShutdownSignal # rest \<longrightarrow>
           ?run = (start @ map (\<lambda>n. Spawn n []) ns @ [CloseEndpoint], Some (Inr ()))) \<and>
        (\<forall>ns reason rest. tw_events w = map LocalAccepted ns @ TunnelClosed reason # rest \<longrightarrow>
           ?run = (start @ map (\<lambda>n. Spawn n []) ns, Some (Inl (ConnectionClosed reason))) \<and> exit_with ?run = Some Failure) \<and>
        (\<forall>ns e rest. tw_events w = map LocalAccepted ns @ LocalError e # rest \<longrightarrow>
           ?run = (start @ map (\<lambda>n. Spawn n []) ns, Some (Inl (LocalAcceptFailed e))) \<and> exit_with ?run = Some Failure)"
    by (intro exI [of _ start] conjI allI impI start)
      (simp_all add: run local_loop_accepted local_loop_waits exit_with_def run_exit_def acts_def check_def)
qed (simp_all add: exit_with_Success uds_connect_notifies uds_connect_ok local_loop_ok)

definition calm_tunnel :: "local_event list \<Rightarrow> (nat \<times> nat list, byte) tunnel_world" where
  "calm_tunnel es =
     \<lparr>dw_bind = (\<lambda>_. Inr ()), dw_online = Some (1, ()), dw_dial = (\<lambda>_ _. Some (3, Inr ())), dw_open_bi = Inr (),
      dw_write = Inr (), dw_forward = None, dw_flush = Inr (),
      tw_me = 1, tw_faults = quiet_faults, tw_fs = \<lparr>hf_node = Map.empty, hf_mode = Map.empty\<rparr>,
      tw_notify = (\<lambda>_ _. Inr ()), tw_events = es\<rparr>"

lemma calm_tunnel_up: "tunnel_up unary_iroh unary_env (calm_tunnel es) [''/s'', ''ii.'']"
proof -
  have "load_ticket unary_iroh unary_env (Some ''ii.'') = Inr (2, [])" by code_simp
  moreover have "snd (bind_local 1 quiet_faults ''/s'' \<lparr>hf_node = Map.empty, hf_mode = Map.empty\<rparr>) = Inr ()"
    by (simp add: bind_local_ok quiet_faults_def)
  ultimately show ?thesis
    by (simp add: tunnel_up_def nth_get_def calm_tunnel_def create_dialer_endpoint_def map_err_def DIAL_TIMEOUT_def)
qed

theorem tunnel_ready_and_exit_witness:
  "last (fst (uds_connect unary_iroh unary_env (calm_tunnel [LocalAccepted 4, ShutdownSignal]) [''/s'', ''ii.''])) = CloseEndpoint \<and>
   exit_with (uds_connect unary_iroh unary_env (calm_tunnel [LocalAccepted 4, TunnelClosed LocallyClosed]) [''/s'', ''ii.'']) = Some Failure"
proof -
  let ?run = "\<lambda>es. uds_connect unary_iroh unary_env (calm_tunnel es) [''/s'', ''ii.'']"
  have e: "tw_events (calm_tunnel (LocalAccepted 4 # es)) = map LocalAccepted [4] @ es" for es by (simp add: calm_tunnel_def)
  obtain start where "?run [LocalAccepted 4, ShutdownSignal] = (start @ map (\<lambda>n. Spawn n []) [4] @ [CloseEndpoint], Some (Inr ()))"
    using tunnel_ready_and_exit [of unary_iroh unary_env "calm_tunnel [LocalAccepted 4, ShutdownSignal]" "[''/s'', ''ii.'']"]
      calm_tunnel_up e [of "[ShutdownSignal]"] by blast
  moreover have "exit_with (?run [LocalAccepted 4, TunnelClosed LocallyClosed]) = Some Failure"
    using tunnel_ready_and_exit [of unary_iroh unary_env "calm_tunnel [LocalAccepted 4, TunnelClosed LocallyClosed]" "[''/s'', ''ii.'']"]
      calm_tunnel_up e [of "[TunnelClosed LocallyClosed]"] by blast
  ultimately show ?thesis by simp
qed

section \<open>Tickets and the dialers\<close>

lemma local_loop_dials_nobody: "Dial a p \<notin> set (fst (local_loop es))"
  using local_loop_act [of "Dial a p" es] by auto

lemma uds_connect_dials:
  assumes "nth_get args 0 = Some path" "load_ticket ir env (nth_get args 1) = Inr t"
  shows "Dial a p \<in> set (fst (uds_connect ir env w args)) \<longleftrightarrow>
    a = endpoint_addr ir t \<and> p = ALPN \<and> create_dialer_endpoint (dw_bind w) = Inr ()"
  unfolding uds_connect_def Let_def
  by (auto simp: process_simps assms assms(2) [unfolded One_nat_def] local_loop_dials_nobody split: sum.splits)

lemma ssh_connect_dials:
  assumes "nth_get args 0 = Some text" "ticket_from_str ir text = Some t"
  shows "Dial a p \<in> set (fst (ssh_connect ir w args)) \<longleftrightarrow>
    a = endpoint_addr ir t \<and> p = ALPN \<and> create_dialer_endpoint (dw_bind w) = Inr ()"
  unfolding ssh_connect_def Let_def by (auto simp: process_simps assms)

text \<open>
  C32. The ticket an operator notes when the secret is generated is the one the host derives
  later: with the secret as it was printed in a file, \<open>iroh-ssh-ticket\<close> prints
  exactly the ticket that \<open>iroh-ssh-generate-secret\<close> showed.
  \<open>iroh-uds-connect\<close> given that line, newline included, and
  \<open>iroh-ssh-connect\<close> given the ticket alone (it does not trim its argument) each
  dial the bare id of the key, with the protocol of the listeners, and nobody else, as soon as
  their endpoint is bound. The hypotheses are the documented round trips of the library: a key
  is read back from its hexadecimal digits, a ticket from what it prints, its address from the
  ticket.
\<close>

theorem generated_ticket_is_rederived:
  assumes "key_from_str ir (concat (map hex_byte (key_to_bytes ir key))) = Some key"
    and "\<And>t. ticket_from_str ir (ticket_str ir t) = Some t" "\<And>t. visible (ticket_str ir t)"
    and "\<And>a. endpoint_addr ir (ticket_new ir a) = a"
    and "pe_file env path = Some (bytes_of_str (fst (generate_secret_main ir key)))"
  shows "ticket_main ir env [path] = (ticket_str ir (id_ticket ir key) @ newline, Success) \<and>
    (\<exists>before after. snd (generate_secret_main ir key) = before @ ''iroh-ssh-connect '' @ ticket_str ir (id_ticket ir key) @ after) \<and>
    (Dial a p \<in> set (fst (uds_connect ir env' w [sock, fst (ticket_main ir env [path])])) \<longleftrightarrow>
       a = addr_new ir (key_public ir key) \<and> p = ALPN \<and> create_dialer_endpoint (dw_bind w) = Inr ()) \<and>
    (Dial a p \<in> set (fst (ssh_connect ir w' [ticket_str ir (id_ticket ir key)])) \<longleftrightarrow>
       a = addr_new ir (key_public ir key) \<and> p = ALPN \<and> create_dialer_endpoint (dw_bind w') = Inr ())"
proof -
  note lib = derived_ticket [of ir key env path, OF assms]
  have bare: "endpoint_addr ir (id_ticket ir key) = addr_new ir (key_public ir key)" by (simp add: id_ticket_def assms(4))
  have "load_ticket ir env' (nth_get [sock, fst (ticket_main ir env [path])] 1) = Inr (id_ticket ir key)"
    using lib(3) by (simp add: nth_get_def)
  from uds_connect_dials [OF _ this, of sock a p w] lib(1,2) ssh_connect_dials [of _ _ ir "id_ticket ir key" a p w'] assms(2) bare
  show ?thesis by (simp add: nth_get_def)
qed

theorem generated_ticket_is_rederived_witness:
  "Dial (7, []) ALPN \<in> set (fst (uds_connect unary_iroh unary_env (calm_tunnel []) [''/s'', ''iiiiiii.'' @ newline])) \<and>
   fst (ticket_main unary_iroh unary_env [''k'']) = ''iiiiiii.'' @ newline"
proof -
  have k: "key_from_str unary_iroh (concat (map hex_byte (key_to_bytes unary_iroh 7))) = Some 7" by code_simp
  have e: "endpoint_addr unary_iroh (ticket_new unary_iroh a) = a" for a by (simp add: unary_iroh_def)
  have "fst (generate_secret_main unary_iroh 7) = ''07'' @ newline" by code_simp
  then have f: "pe_file unary_env ''k'' = Some (bytes_of_str (fst (generate_secret_main unary_iroh 7)))"
    by (simp add: unary_env_def del: bytes_of_str_simps)
  have t: "ticket_str unary_iroh (id_ticket unary_iroh 7) = ''iiiiiii.''" "addr_new unary_iroh (key_public unary_iroh 7) = (7, [])"
    by code_simp+
  have b: "create_dialer_endpoint (dw_bind (calm_tunnel [])) = Inr ()"
    by (simp add: calm_tunnel_def create_dialer_endpoint_def map_err_def)
  note all = generated_ticket_is_rederived [OF k unary_ticket_roundtrip unary_ticket_visible e f,
      of "(7, [])" ALPN unary_env "calm_tunnel []" "''/s''"]
  then have m: "fst (ticket_main unary_iroh unary_env [''k'']) = ''iiiiiii.'' @ newline" unfolding t by simp
  from all b have "Dial (7, []) ALPN \<in> set (fst (uds_connect unary_iroh unary_env (calm_tunnel []) [''/s'', fst (ticket_main unary_iroh unary_env [''k''])]))"
    unfolding t(2) by blast
  then show ?thesis unfolding m by blast
qed

section \<open>End to end\<close>

lemma handshake_arrives:
  assumes "prefix wire (HANDSHAKE @ sent)" "5 \<le> length wire"
  shows "\<exists>rest. wire = HANDSHAKE @ rest \<and> prefix rest sent"
proof -
  from assms(1) obtain zs where zs: "HANDSHAKE @ sent = wire @ zs" by (auto simp: prefix_def)
  then have "take 5 wire = take 5 (HANDSHAKE @ sent)" using assms(2) by simp
  then have wire: "wire = HANDSHAKE @ drop 5 wire" using append_take_drop_id [of 5 wire] by simp
  from zs have "HANDSHAKE @ sent = HANDSHAKE @ drop 5 wire @ zs" by (subst (asm) wire) simp
  then have "prefix (drop 5 wire) sent" by simp
  with wire show ?thesis by blast
qed

text \<open>
  C13. Both ends of a tunnel composed. The dialer writes the handshake and then forwards its
  local client, the network delivers a prefix of what was written, at least the handshake, and
  the listener reads the handshake and forwards the rest to its target; the answer goes back
  the same way. Then the handshake is accepted, the target has received a prefix of exactly
  what the client sent, without the handshake, and the client a prefix of what the target sent.
  When both ends report success over streams that delivered everything written to them, each
  side has received all of it.
\<close>

theorem tunnel_end_to_end:
  assumes "forward_step\<^sup>*\<^sup>* (forward_bidi client ends_c back ends_b) d"
    and "prefix wire (HANDSHAKE @ c_sunk (fw_out d))" "5 \<le> length wire"
  shows "\<exists>rest. snd (read_handshake wire) = Some (Inr rest) \<and>
    (\<forall>l. forward_step\<^sup>*\<^sup>* (forward_bidi target ends_t rest ends_r) l \<and> prefix back (c_sunk (fw_out l)) \<longrightarrow>
      prefix (c_sunk (fw_in l)) client \<and> prefix (c_sunk (fw_in d)) target \<and>
      (fw_result d = Some (Inr ()) \<and> fw_result l = Some (Inr ()) \<and>
       wire = HANDSHAKE @ c_sunk (fw_out d) \<and> back = c_sunk (fw_out l) \<longrightarrow>
       c_sunk (fw_in l) = client \<and> c_sunk (fw_in d) = target))"
proof -
  from handshake_arrives [OF assms(2,3)] obtain rest where rest: "wire = HANDSHAKE @ rest" "prefix rest (c_sunk (fw_out d))"
    by blast
  note dialer = forward_prefixes [OF assms(1)] forward_success [OF assms(1)]
  show ?thesis
  proof (intro exI conjI allI impI)
    show "snd (read_handshake wire) = Some (Inr rest)" using rest(1) by (simp add: process_simps)
  next
    fix l assume l: "forward_step\<^sup>*\<^sup>* (forward_bidi target ends_t rest ends_r) l \<and> prefix back (c_sunk (fw_out l))"
    then have listener: "prefix (c_sunk (fw_out l)) target" "prefix (c_sunk (fw_in l)) rest" by (auto dest: forward_prefixes)
    with rest(2) dialer(1) show "prefix (c_sunk (fw_in l)) client" by (meson prefix_order.trans)
    from l listener(1) dialer(2) show "prefix (c_sunk (fw_in d)) target" by (meson prefix_order.trans)
    assume ok: "fw_result d = Some (Inr ()) \<and> fw_result l = Some (Inr ()) \<and>
      wire = HANDSHAKE @ c_sunk (fw_out d) \<and> back = c_sunk (fw_out l)"
    then have "c_sunk (fw_out l) = target" "c_sunk (fw_in l) = rest" using l forward_success [of target ends_t rest ends_r l] by auto
    with ok dialer(4) rest(1) show "c_sunk (fw_in l) = client" "c_sunk (fw_in d) = target" by auto
  qed
qed

lemma forward_succeeds:
  "\<exists>s. forward_step\<^sup>*\<^sup>* (forward_bidi from1 True from2 True) s \<and> fw_result s = Some (Inr ()) \<and>
     c_sunk (fw_out s) = from1 \<and> c_sunk (fw_in s) = from2"
  using out_closes [of from1 from2 True] in_completes [of from1 from2] forward_success [of from1 True from2 True]
  by (meson rtranclp_trans)

theorem tunnel_end_to_end_witness:
  "\<exists>d l. forward_step\<^sup>*\<^sup>* (forward_bidi [1] True [2, 3] True) d \<and> forward_step\<^sup>*\<^sup>* (forward_bidi [2, 3] True [1] True) l \<and>
     c_sunk (fw_in l) = [1] \<and> c_sunk (fw_in d) = [2, 3]"
proof -
  obtain d where d: "forward_step\<^sup>*\<^sup>* (forward_bidi [1] True [2, 3] True) d" "fw_result d = Some (Inr ())" "c_sunk (fw_out d) = [1]"
    using forward_succeeds [of "[1]" "[2, 3]"] by blast
  obtain l where l: "forward_step\<^sup>*\<^sup>* (forward_bidi [2, 3] True [1] True) l" "fw_result l = Some (Inr ())" "c_sunk (fw_out l) = [2, 3]"
    using forward_succeeds [of "[2, 3]" "[1]"] by blast
  have "prefix (HANDSHAKE @ [1]) (HANDSHAKE @ c_sunk (fw_out d))" "5 \<le> length (HANDSHAKE @ [1])" by (simp_all add: d(3))
  from tunnel_end_to_end [OF d(1) this, of "[2, 3]" True True] obtain rest where
    rest: "snd (read_handshake (HANDSHAKE @ [1])) = Some (Inr rest)"
    and all: "\<forall>l. forward_step\<^sup>*\<^sup>* (forward_bidi [2, 3] True rest True) l \<and> prefix [2, 3] (c_sunk (fw_out l)) \<longrightarrow>
      prefix (c_sunk (fw_in l)) [1] \<and> prefix (c_sunk (fw_in d)) [2, 3] \<and>
      (fw_result d = Some (Inr ()) \<and> fw_result l = Some (Inr ()) \<and>
       HANDSHAKE @ [1] = HANDSHAKE @ c_sunk (fw_out d) \<and> [2, 3] = c_sunk (fw_out l) \<longrightarrow>
       c_sunk (fw_in l) = [1] \<and> c_sunk (fw_in d) = [2, 3])"
    by (elim exE conjE)
  from rest have "rest = [1]" by (simp add: process_simps)
  with all [rule_format, of l] d(2,3) l have "c_sunk (fw_in l) = [1] \<and> c_sunk (fw_in d) = [2, 3]" by simp
  with d(1) l(1) show ?thesis by blast
qed

end
