(* ===== verification/Spec2Isabelle.thy ===== *)
theory Spec2Isabelle
  imports Time_Main Bms_Loop Inv_Loop Inv_State Serial_Open Sys_Main Monitor_Cli Dd_Main Iroh_Bins
begin

text \<open>
  Models of the Rust programs of the repository (\<open>packages/*/src\<close>), and what they guarantee.

  \<^bold>\<open>The programs.\<close> A fleet of small hosts without a battery-backed clock runs these services.
  \<open>time-correction\<close> runs once at boot: it asks several operators for the time over
  authenticated channels whose certificates it cannot yet date, and moves the clock only when
  the answers agree and every certificate was valid at the agreed time. \<open>bms-monitoring\<close> and
  \<open>inverter-monitoring\<close> each own one USB serial adapter, find their device behind it, read it
  on a fixed cadence and post log records to a local collector over a unix socket.
  \<open>system-metrics\<close> and \<open>detected-devices\<close> are started by timers, read the state of the host and
  what is attached to it or within reach of its radios, post one batch of records and exit.
  \<open>iroh-ssh\<close> is six small binaries that carry an ssh or a unix-socket connection between hosts over a
  peer-to-peer network: two make and show keys and tickets, two dial, two listen.

  \<^bold>\<open>Shared theories.\<close> \<open>Prelude\<close> and \<open>Rust_Std\<close> hold the result type \<open>'e + 'a\<close> with its bind, slices
  and indexing that fail where Rust's do, \<open>i64\<close> arithmetic with its overflow, big- and
  little-endian words, and the lemmas on them. \<open>Rust_Text\<close> has UTF-8 (strict and lossy),
  \<open>trim\<close>, \<open>split_whitespace\<close> and \<open>lines\<close>, \<open>Rust_Parse\<close> prefixes, splits and numbers, \<open>Rust_Map\<close> the
  ordered map with its interface \<open>ordered_map\<close>. \<open>F64\<close> has the \<open>f64\<close> operations the parsers use, as
  rationals rounded to nearest even, and the values that are no numbers.

  \<open>Telemetry\<close> (\<open>otlp.rs\<close>, \<open>uds.rs\<close> and \<open>publish\<close> of the producers, which are the same code in all
  packages) has the record type, the request that is built, the HTTP exchange and what becomes of
  a batch. \<open>Producer\<close> has what the \<open>main.rs\<close> of the producers share: the argument loop over a table of
  switches and flags with its interface \<open>option_table\<close>, durations on the command line, exit codes,
  and the delivery of the one batch of a oneshot producer.

  \<^bold>\<open>time-correction.\<close>
  \<^item> \<open>Time_Quorum\<close> (\<open>quorum.rs\<close>): sampling, the middle answer, the two-level vote.
  \<^item> \<open>Time_Verify\<close> (\<open>verify.rs\<close>): validity windows and the verifier that accepts a chain valid at some moment.
  \<^item> \<open>Time_Deferred\<close> (\<open>deferred.rs\<close>): the chains recorded per leg and their acceptance at the agreed time.
  \<^item> \<open>Time_Nts\<close>, \<open>Time_Ntp\<close>, \<open>Time_Dns\<close> (\<open>nts.rs\<close>, \<open>ntp.rs\<close>, \<open>dns.rs\<close>): the wire formats, built and parsed.
  \<^item> \<open>Time_Exchange\<close> (\<open>doh.rs\<close>, \<open>timeserver.rs\<close>): one exchange with a resolver and with a time server.
  \<^item> \<open>Time_Config\<close>, \<open>Time_Main\<close> (\<open>main.rs\<close>): the command line, the choice of pairs, one pair, the whole run.

  The properties follow the trust argument: a packet's time is believed only when authenticated
  (\<open>Time_Ntp\<close>), a leg only when its chain verifies at that time (\<open>Time_Deferred\<close>), a vote only
  within the tolerance (\<open>Time_Quorum\<close>), and the clock moves at most once, to an agreed time no
  earlier than the floor (\<open>Time_Main\<close>). One honest operator bounds the error. TLS, AES-SIV, the
  certificate path check and the sockets are parameters: records of functions that the
  definitions take, with no assumption except where a property states one.

  \<^bold>\<open>bms-monitoring.\<close>
  \<^item> \<open>Bms_Frame\<close> (\<open>frame.rs\<close>): the resynchronising reader, a refinement of a function on the whole stream.
  \<^item> \<open>Bms_Parse\<close>, \<open>Bms_Record\<close> (\<open>parse.rs\<close>, \<open>record.rs\<close>): frames to measurements to log records.
  \<^item> \<open>Bms_Port\<close>, \<open>Bms_Discover\<close> (\<open>port.rs\<close>, \<open>discover.rs\<close>): the line read against a deadline, the adapters and the probe.
  \<^item> \<open>Bms_Main\<close>, \<open>Bms_Loop\<close> (\<open>main.rs\<close>): the loop of \<open>run\<close>, and its invariant, safety and liveness.

  \<^bold>\<open>inverter-monitoring.\<close>
  \<^item> \<open>Inv_Protocol\<close> (\<open>crc.rs\<close>, \<open>protocol.rs\<close>): the CRC with its escapes, requests and responses.
  \<^item> \<open>Inv_Parse\<close>, \<open>Inv_Record\<close> (\<open>parse.rs\<close>, \<open>record.rs\<close>): fixed-offset payloads and the records made of them.
  \<^item> \<open>Inv_Port\<close> (\<open>port.rs\<close>, \<open>discover.rs\<close>): the serial port as an instance of the transport interface, and the probe.
  \<^item> \<open>Inv_Main\<close>, \<open>Inv_Loop\<close> (\<open>main.rs\<close>): the session, the poll cycle, the loop of \<open>run\<close> and its properties.

  \<^item> \<open>Inv_State\<close> (\<open>main.rs\<close>): the file in which the adapter is remembered, and that it is probed first again.

  \<open>Serial_Open\<close> (\<open>SerialPort::open\<close> of both \<open>port.rs\<close>) has the system calls of opening a port as a machine, the
  state of a tty, and any number of producers that open the same one, interleaved call by call: at
  most one has the port, and the line has the settings of that one.

  \<open>Monitor_Cli\<close> has the command lines and the exit codes of both serial monitors; the locale
  \<open>supervised\<close> states what their loops have in common, and both interpret it.

  \<^bold>\<open>system-metrics.\<close>
  \<^item> \<open>Sys_Block\<close>, \<open>Sys_Collect\<close>, \<open>Sys_Sensors\<close>, \<open>Sys_Systemd\<close>, \<open>Sys_Smart\<close> (\<open>block.rs\<close>, \<open>collect.rs\<close>, \<open>sensors.rs\<close>,
    \<open>systemd.rs\<close>, \<open>smart.rs\<close>): the readers of kernel files and of the output of tools.
  \<^item> \<open>Sys_Chrony\<close>, \<open>Sys_Dnscrypt\<close> (\<open>chrony.rs\<close>, \<open>dnscrypt.rs\<close>): the state of time and DNS providers; the verdict on a
    DNS provider is shown equal to a rule on the set of moments at which anything was heard.
  \<^item> \<open>Sys_Records\<close>, \<open>Sys_Main\<close> (\<open>main.rs\<close>): each group of records over an environment (the texts of files,
    directories and links, the output of tools, the clocks), the command line, one run.

  The properties say that a batch has the keys its schema promises whatever can be read, that each
  file system and each disk is reported once, that every configured provider is reported, and that
  only the command line, the clock and the transport can fail a run.

  \<^bold>\<open>detected-devices.\<close>
  \<^item> \<open>Dd_Usb\<close>, \<open>Dd_Ble\<close>, \<open>Dd_Wifi\<close> (\<open>usb.rs\<close>, \<open>ble.rs\<close>, \<open>wifi.rs\<close>): names in sysfs, and the readers of \<open>btmon\<close> and
    \<open>iw\<close> as machines that take a line at a time, with the invariant of each.
  \<^item> \<open>Dd_Main\<close> (\<open>main.rs\<close>): the records, the bounded drain of a capture, the command line, one run.

  The properties say that a scan record tells whether the scan ran and counts what follows it, that
  a rotating address is never an attribute, that totals add up, and where the code departs from its
  documents: the duty cycle is not applied, a capture cut inside a character is lost, WEP is open.

  \<^bold>\<open>iroh-ssh.\<close>
  \<^item> \<open>Iroh_Lib\<close> (\<open>lib.rs\<close>, \<open>iroh-ssh-generate-secret\<close>, \<open>iroh-ssh-ticket\<close>): where the key and the ticket are read
    from (the locale \<open>first_source\<close>, interpreted for both), tickets, endpoints, notification, exit code.
  \<^item> \<open>Iroh_Forward\<close> (\<open>forward_bidi\<close> of \<open>lib.rs\<close>): two copying tasks, a cancellation token and ctrl-c as a step
    relation, its invariant, and how it ends.
  \<^item> \<open>Iroh_Bins\<close> (\<open>iroh-ssh-connect\<close>, \<open>iroh-ssh-listen\<close>, \<open>iroh-uds-connect\<close>, \<open>iroh-uds-listen\<close>): the binaries as processes
    that act on what the library and the system answer, and both ends of a tunnel composed.

  The properties say that each side receives a prefix of what the other sent and everything on
  success, that a cancelled forwarding ends by itself, that no target is contacted before the
  handshake, that the socket of a running instance is not taken, that the unit is ready exactly when
  the tunnel is up and how it ends, and that a ticket can be derived again from its secret and is dialled; and that, against the
  comment, the end of one direction does not abort the other.

  \<^bold>\<open>Conventions.\<close> Messages printed or returned as text are constructors of error types that keep
  the values the text shows. Instants are natural numbers of nanoseconds without an upper
  end, so sums and products of durations do not panic. A serial line is a
  list of timed events, each a chunk of bytes or an I/O error, and the end of the list is
  silence. A sweep over the adapters takes at least one nanosecond, which is what lets the
  retry loops of \<open>connect_within\<close> end; their recursion is on the time left to the deadline.
  The loops of the producers never return on their own, so they are run for a given number of
  ticks, and the properties hold for every number. A tick counter is cast to \<open>u32\<close> as the
  source casts it, and the properties that depend on it say below which count.

  \<^bold>\<open>Not modelled.\<close> Flushing the input of a serial port before a request: the line is an arbitrary list
  of what later reads return, which covers every flush. Directory reads, sockets and the clock are arguments: their results are values of an
  environment, and in the loops of the monitors so is the outcome of opening a port. The
  protobuf codec is generated code, and \<open>serde_json\<close> is a record of functions that the definitions take.
  \<open>format_pairs\<close> and the other printing of a dry run have no effect on what is sent. \<open>otlp.rs\<close>, \<open>uds.rs\<close> and the
  record type are copied between the packages and modelled once, in \<open>Telemetry\<close>; enumeration, polling
  and reading of serial ports are copied and modelled once, in \<open>Bms_Port\<close> and \<open>Bms_Discover\<close>.
  During a run of \<open>system-metrics\<close> files do not change, except \<open>/proc/stat\<close>, which is read
  twice. The processes and the reader thread of a Bluetooth scan are their outcomes: whether they
  start and succeed, and when each piece of the capture can be received. Of the peer-to-peer library
  and the asynchronous runtime behind \<open>iroh-ssh\<close> only what the code calls is there, as parameters; what
  dropping a stream does to it, and tasks that panic, are left out. The Nix modules
  and the integration tests are configuration.
\<close>

end
